(* ===== verification/Prelude.thy ===== *)
theory Prelude
  imports Complex_Main "HOL-Library.Sublist"
begin

text \<open>
  Shared vocabulary of the development: the names of the model's basic types, the
  collections of rewrite rules the component theories fill, results with errors as
  values, and the few facts on lists and sums that several components need.

  Finite floating-point values (clock readings, durations, scores) are rationals: every
  finite IEEE double is one, comparisons agree, and sums are the exact sums. Text is a
  list of characters, that is of the code points 0 to 255.
\<close>

section \<open>Types\<close>

type_synonym time = rat
type_synonym uuid = nat
type_synonym ('e, 'a) result = "'e + 'a"

section \<open>Collections\<close>

text \<open>
  \<open>step_simps\<close> holds the equations of the operations of a component, \<open>inv_rules\<close> the
  preservation lemmas of its invariant.
\<close>

named_theorems step_simps
named_theorems inv_rules

section \<open>Results\<close>

definition rbind :: "('e, 'a) result \<Rightarrow> ('a \<Rightarrow> ('e, 'b) result) \<Rightarrow> ('e, 'b) result" where
  "rbind r f = (case r of Inl e \<Rightarrow> Inl e | Inr a \<Rightarrow> f a)"

definition require :: "bool \<Rightarrow> 'e \<Rightarrow> ('e, unit) result" where
  "require c e = (if c then Inr () else Inl e)"

fun rmap :: "('a \<Rightarrow> ('e, 'b) result) \<Rightarrow> 'a list \<Rightarrow> ('e, 'b list) result" where
  "rmap f [] = Inr []"
| "rmap f (x # xs) = rbind (f x) (\<lambda>y. rbind (rmap f xs) (\<lambda>ys. Inr (y # ys)))"

lemma rbind_simps [simp]:
  "rbind (Inl e) f = Inl e"
  "rbind (Inr a) f = f a"
  by (simp_all add: rbind_def)

lemma rbind_Inr_iff: "rbind r f = Inr b \<longleftrightarrow> (\<exists>a. r = Inr a \<and> f a = Inr b)"
  by (cases r) auto

lemma rbind_Inl_iff:
  "rbind r f = Inl e \<longleftrightarrow> r = Inl e \<or> (\<exists>a. r = Inr a \<and> f a = Inl e)"
  by (cases r) auto

lemma not_isl_Inr: "\<not> isl r \<Longrightarrow> \<exists>a. r = Inr a"
  by (cases r) auto

lemma require_Inr_iff [simp]: "require c e = Inr u \<longleftrightarrow> c"
  by (simp add: require_def)

lemma require_Inl_iff [simp]: "require c e = Inl e' \<longleftrightarrow> \<not> c \<and> e' = e"
  by (auto simp: require_def)

lemma rmap_length: "rmap f xs = Inr ys \<Longrightarrow> length ys = length xs"
  by (induction xs arbitrary: ys) (auto simp: rbind_Inr_iff)

lemma rmap_nth: "rmap f xs = Inr ys \<Longrightarrow> i < length xs \<Longrightarrow> f (xs ! i) = Inr (ys ! i)"
  by (induction xs arbitrary: ys i) (auto simp: rbind_Inr_iff nth_Cons split: nat.splits)

lemma rmap_cong_pure: "(\<And>x. x \<in> set xs \<Longrightarrow> f x = Inr (g x)) \<Longrightarrow> rmap f xs = Inr (map g xs)"
  by (induction xs) auto

section \<open>Lists\<close>

text \<open>Python's \<open>list(dict.fromkeys(xs))\<close>: the first occurrence of every element, in order.\<close>

fun fromkeys :: "'a list \<Rightarrow> 'a list" where
  "fromkeys [] = []"
| "fromkeys (x # xs) = x # filter (\<lambda>y. y \<noteq> x) (fromkeys xs)"

lemma set_fromkeys [simp]: "set (fromkeys xs) = set xs"
  by (induction xs) auto

lemma distinct_fromkeys [simp]: "distinct (fromkeys xs)"
  by (induction xs) auto

lemma fromkeys_eq_Nil [simp]: "fromkeys xs = [] \<longleftrightarrow> xs = []"
  by (cases xs) auto

lemma subseq_filter_self: "subseq (filter P xs) xs"
  by (induction xs) auto

lemma subseq_fromkeys: "subseq (fromkeys xs) xs"
proof (induction xs)
  case (Cons x xs)
  have "subseq (filter (\<lambda>y. y \<noteq> x) (fromkeys xs)) xs"
    using subseq_filter_self Cons.IH by (rule subseq_order.trans)
  then show ?case by simp
qed simp

text \<open>\<open>[xs[i : i + n] for i in range(0, len(xs), n)]\<close> for a positive step \<open>n\<close>.\<close>

function batches :: "nat \<Rightarrow> 'a list \<Rightarrow> 'a list list" where
  "batches n xs = (if xs = [] \<or> n = 0 then [] else take n xs # batches n (drop n xs))"
  by pat_completeness auto
termination
  by (relation "measure (\<lambda>(n, xs). length xs)") auto

declare batches.simps [simp del]

lemma batches_bounds: "b \<in> set (batches n xs) \<Longrightarrow> b \<noteq> [] \<and> length b \<le> n"
proof (induction n xs rule: batches.induct)
  case (1 n xs)
  then show ?case by (auto simp: batches.simps [of n xs] split: if_splits)
qed

lemma concat_batches: "0 < n \<Longrightarrow> concat (batches n xs) = xs"
proof (induction n xs rule: batches.induct)
  case (1 n xs)
  then show ?case by (simp add: batches.simps [of n xs])
qed

lemma list_all2_members:
  "list_all2 P xs ys \<Longrightarrow>
   (\<forall>x \<in> set xs. \<exists>y \<in> set ys. P x y) \<and> (\<forall>y \<in> set ys. \<exists>x \<in> set xs. P x y)"
  by (induction rule: list_all2_induct) auto

lemma length_filter_conj_le:
  "length (filter (\<lambda>x. P x \<and> Q x) xs) \<le> length (filter P xs)"
  "length (filter (\<lambda>x. P x \<and> Q x) xs) \<le> length (filter Q xs)"
  by (induction xs) auto

lemma last_take_nth: "0 < n \<Longrightarrow> xs \<noteq> [] \<Longrightarrow> last (take n xs) = xs ! (min n (length xs) - 1)"
  by (simp add: last_conv_nth min.commute)

lemma prefix_take_self: "prefix p (take (length p) xs) \<longleftrightarrow> prefix p xs"
proof
  assume "prefix p (take (length p) xs)"
  then show "prefix p xs" using take_is_prefix prefix_order.trans by blast
qed (auto simp: prefix_def)

lemma sorted_wrt_snoc:
  "sorted_wrt R (xs @ [y]) \<longleftrightarrow> sorted_wrt R xs \<and> (\<forall>x \<in> set xs. R x y)"
  by (simp add: sorted_wrt_append)

end
