(* ===== verification/Fencing.thy ===== *)
theory Fencing
  imports Prelude
begin

text \<open>
  The contract of a leased resource, which the in-memory registry of runtime/leases.py
  fulfils (theory Leases). A claim
  issues a fencing token one larger than the last one of its resource, no other operation
  issues one, and only the newest token of a resource is ever accepted. The clients'
  theorem is proved once here, for any sequence of operations: a token that was followed
  by another claim of the same resource is never accepted again.
\<close>

section \<open>Runs\<close>

text \<open>
  A run is a sequence of successful claims and other operations, by any callers in any
  order; it records the issued (resource, token) pairs in the order of their issue.
\<close>

inductive fenced_run ::
  "('s \<Rightarrow> 'k \<Rightarrow> int \<Rightarrow> 's \<Rightarrow> bool) \<Rightarrow> ('s \<Rightarrow> 's \<Rightarrow> bool) \<Rightarrow> 's \<Rightarrow> ('k \<times> int) list \<Rightarrow> 's \<Rightarrow> bool"
  for claim other where
  run_start: "fenced_run claim other s [] s"
| run_claim: "fenced_run claim other s xs t \<Longrightarrow> claim t k n u \<Longrightarrow>
    fenced_run claim other s (xs @ [(k, n)]) u"
| run_other: "fenced_run claim other s xs t \<Longrightarrow> other t u \<Longrightarrow> fenced_run claim other s xs u"

section \<open>The contract\<close>

locale fencing =
  fixes wf :: "'s \<Rightarrow> bool"
    and last_token :: "'s \<Rightarrow> 'k \<Rightarrow> int"
    and accepts :: "'s \<Rightarrow> time \<Rightarrow> 'k \<Rightarrow> int \<Rightarrow> bool"
    and claim :: "'s \<Rightarrow> 'k \<Rightarrow> int \<Rightarrow> 's \<Rightarrow> bool"
    and other :: "'s \<Rightarrow> 's \<Rightarrow> bool"
  assumes claim_token: "wf s \<Longrightarrow> claim s k n s' \<Longrightarrow> n = last_token s k + 1"
    and claim_last: "wf s \<Longrightarrow> claim s k n s' \<Longrightarrow> last_token s' = (last_token s)(k := n)"
    and other_last: "wf s \<Longrightarrow> other s s' \<Longrightarrow> last_token s' = last_token s"
    and accepts_last: "wf s \<Longrightarrow> accepts s t k n \<Longrightarrow> n = last_token s k"
    and wf_claim: "wf s \<Longrightarrow> claim s k n s' \<Longrightarrow> wf s'"
    and wf_other: "wf s \<Longrightarrow> other s s' \<Longrightarrow> wf s'"
begin

lemma run_wf: "fenced_run claim other s xs s' \<Longrightarrow> wf s \<Longrightarrow> wf s'"
  by (induction rule: fenced_run.induct) (blast intro: wf_claim wf_other)+

lemma run_issued_le:
  "fenced_run claim other s xs s' \<Longrightarrow> wf s \<Longrightarrow> (k, n) \<in> set xs \<Longrightarrow> n \<le> last_token s' k"
proof (induction arbitrary: k n rule: fenced_run.induct)
  case (run_claim s xs t k' n' u)
  have wft: "wf t" using run_claim.hyps(1) run_claim.prems(1) by (rule run_wf)
  note last = claim_last [OF wft run_claim.hyps(2)] and tok = claim_token [OF wft run_claim.hyps(2)]
  show ?case
  proof (cases "(k, n) \<in> set xs")
    case True
    then have "n \<le> last_token t k" using run_claim.IH run_claim.prems(1) by blast
    with last tok show ?thesis by auto
  next
    case False
    with run_claim.prems have "k = k'" "n = n'" by auto
    with last show ?thesis by simp
  qed
next
  case (run_other s xs t u)
  have "wf t" using run_other.hyps(1) run_other.prems(1) by (rule run_wf)
  then show ?case using run_other other_last by metis
qed simp

lemma run_issued_increasing:
  "fenced_run claim other s xs s' \<Longrightarrow> wf s \<Longrightarrow>
   sorted_wrt (\<lambda>(k, n) (k', n'). k = k' \<longrightarrow> n < n') xs"
proof (induction rule: fenced_run.induct)
  case (run_claim s xs t k n u)
  have wft: "wf t" using run_claim.hyps(1) run_claim.prems by (rule run_wf)
  have "m < n" if "(k, m) \<in> set xs" for m
    using run_issued_le [OF run_claim.hyps(1) run_claim.prems that]
      claim_token [OF wft run_claim.hyps(2)] by simp
  then show ?case using run_claim.IH run_claim.prems by (auto simp: sorted_wrt_snoc)
qed simp_all

lemma superseded_rejected:
  assumes "wf s" "fenced_run claim other s (xs @ (k, n) # zs) s'" "k \<in> fst ` set zs"
  shows "\<not> accepts s' t k n"
proof
  assume acc: "accepts s' t k n"
  obtain m where m: "(k, m) \<in> set zs" using assms(3) by auto
  have "n < m" using run_issued_increasing [OF assms(2,1)] m by (auto simp: sorted_wrt_append)
  moreover have "m \<le> last_token s' k" using run_issued_le [OF assms(2,1)] m by auto
  moreover have "n = last_token s' k" using accepts_last run_wf assms(1,2) acc by blast
  ultimately show False by simp
qed

lemma accepted_unique: "wf s \<Longrightarrow> accepts s t k n \<Longrightarrow> accepts s t' k m \<Longrightarrow> n = m"
  using accepts_last by metis

end

end
