(* ===== verification/Leases.thy ===== *)
theory Leases
  imports Fencing
begin

text \<open>
  runtime/leases.py: the in-memory lease registry. A lease names a resource, its owner,
  the fencing token of the claim and the time it expires. The clock reading an operation
  takes is an argument; \<open>heartbeat\<close> reads the clock twice, once in \<open>validate\<close> and once
  for the new expiry.
\<close>

section \<open>Data\<close>

datatype lease_error = LeaseValueError | LeaseConflictError | StaleLeaseError

record Lease =
  resource_id :: string
  owner_id :: string
  fencing_token :: int
  expires_at :: time

record LeaseRegistry =
  leases :: "string \<rightharpoonup> Lease"
  next_fence :: "string \<rightharpoonup> int"

definition empty_registry :: LeaseRegistry where
  "empty_registry = \<lparr>leases = Map.empty, next_fence = Map.empty\<rparr>"

section \<open>Operations\<close>

definition claim ::
  "LeaseRegistry \<Rightarrow> time \<Rightarrow> string \<Rightarrow> string \<Rightarrow> rat \<Rightarrow> (lease_error, Lease \<times> LeaseRegistry) result" where
  "claim r now res own ttl =
     (if res = [] \<or> own = [] then Inl LeaseValueError
      else if ttl \<le> 0 then Inl LeaseValueError
      else if (case leases r res of None \<Rightarrow> False | Some current \<Rightarrow> expires_at current > now)
      then Inl LeaseConflictError
      else let token = (case next_fence r res of None \<Rightarrow> 0 | Some n \<Rightarrow> n) + 1;
               lease = \<lparr>resource_id = res, owner_id = own, fencing_token = token,
                        expires_at = now + ttl\<rparr>
           in Inr (lease, r\<lparr>next_fence := (next_fence r)(res \<mapsto> token),
                             leases := (leases r)(res \<mapsto> lease)\<rparr>))"

definition validate :: "LeaseRegistry \<Rightarrow> time \<Rightarrow> Lease \<Rightarrow> (lease_error, unit) result" where
  "validate r now lease =
     (case leases r (resource_id lease) of
        None \<Rightarrow> Inl StaleLeaseError
      | Some current \<Rightarrow>
          if owner_id current \<noteq> owner_id lease \<or> fencing_token current \<noteq> fencing_token lease
             \<or> expires_at current \<le> now
          then Inl StaleLeaseError else Inr ())"

definition heartbeat ::
  "LeaseRegistry \<Rightarrow> time \<Rightarrow> time \<Rightarrow> Lease \<Rightarrow> rat \<Rightarrow> (lease_error, Lease \<times> LeaseRegistry) result" where
  "heartbeat r now1 now2 lease ttl =
     (if ttl \<le> 0 then Inl LeaseValueError
      else rbind (validate r now1 lease) (\<lambda>_.
        let renewed = \<lparr>resource_id = resource_id lease, owner_id = owner_id lease,
                       fencing_token = fencing_token lease, expires_at = now2 + ttl\<rparr>
        in Inr (renewed, r\<lparr>leases := (leases r)(resource_id lease \<mapsto> renewed)\<rparr>)))"

definition release :: "LeaseRegistry \<Rightarrow> time \<Rightarrow> Lease \<Rightarrow> (lease_error, LeaseRegistry) result" where
  "release r now lease =
     rbind (validate r now lease) (\<lambda>_. Inr (r\<lparr>leases := (leases r)(resource_id lease := None)\<rparr>))"

lemmas lease_op_defs = claim_def validate_def heartbeat_def release_def

section \<open>Invariant\<close>

text \<open>
  Every held lease is filed under its own resource and carries the last token of that
  resource; tokens are positive.
\<close>

definition registry_inv :: "LeaseRegistry \<Rightarrow> bool" where
  "registry_inv r \<longleftrightarrow>
     (\<forall>res l. leases r res = Some l \<longrightarrow>
        resource_id l = res \<and> next_fence r res = Some (fencing_token l)) \<and>
     (\<forall>res n. next_fence r res = Some n \<longrightarrow> 1 \<le> n)"

definition last_fence :: "LeaseRegistry \<Rightarrow> string \<Rightarrow> int" where
  "last_fence r res = (case next_fence r res of None \<Rightarrow> 0 | Some n \<Rightarrow> n)"

definition claims_to :: "LeaseRegistry \<Rightarrow> string \<Rightarrow> int \<Rightarrow> LeaseRegistry \<Rightarrow> bool" where
  "claims_to r res n r' \<longleftrightarrow>
     (\<exists>now own ttl l. claim r now res own ttl = Inr (l, r') \<and> n = fencing_token l)"

inductive keeps_to :: "LeaseRegistry \<Rightarrow> LeaseRegistry \<Rightarrow> bool" where
  keeps_heartbeat: "heartbeat r now1 now2 l ttl = Inr (l', r') \<Longrightarrow> keeps_to r r'"
| keeps_release: "release r now l = Inr r' \<Longrightarrow> keeps_to r r'"

definition accepted_token :: "LeaseRegistry \<Rightarrow> time \<Rightarrow> string \<Rightarrow> int \<Rightarrow> bool" where
  "accepted_token r now res n \<longleftrightarrow>
     (\<exists>l. resource_id l = res \<and> fencing_token l = n \<and> validate r now l = Inr ())"

lemma registry_inv_empty [inv_rules]: "registry_inv empty_registry"
  by (simp add: registry_inv_def empty_registry_def)

lemma validate_Inr_iff:
  "validate r now l = Inr () \<longleftrightarrow>
     (\<exists>c. leases r (resource_id l) = Some c \<and> owner_id c = owner_id l \<and>
          fencing_token c = fencing_token l \<and> now < expires_at c)"
  by (auto simp: validate_def split: option.splits if_splits)

lemma validate_result: "validate r now l = Inr () \<or> validate r now l = Inl StaleLeaseError"
  by (auto simp: validate_def split: option.splits)

lemma claim_InrD:
  assumes "claim r now res own ttl = Inr (l, r')"
  shows "l = \<lparr>resource_id = res, owner_id = own, fencing_token = last_fence r res + 1,
              expires_at = now + ttl\<rparr>"
    and "r' = r\<lparr>next_fence := (next_fence r)(res \<mapsto> last_fence r res + 1),
                 leases := (leases r)(res \<mapsto> l)\<rparr>"
    and "0 < ttl" and "\<And>c. leases r res = Some c \<Longrightarrow> expires_at c \<le> now"
  using assms by (auto simp: claim_def last_fence_def Let_def split: if_splits option.splits)

lemma heartbeat_InrD:
  assumes "heartbeat r now1 now2 l ttl = Inr (l', r')"
  shows "validate r now1 l = Inr ()" and "0 < ttl"
    and "l' = l\<lparr>expires_at := now2 + ttl\<rparr>"
    and "r' = r\<lparr>leases := (leases r)(resource_id l \<mapsto> l')\<rparr>"
  using assms by (auto simp: heartbeat_def rbind_Inr_iff Let_def split: if_splits)

lemma release_InrD:
  assumes "release r now l = Inr r'"
  shows "validate r now l = Inr ()" and "r' = r\<lparr>leases := (leases r)(resource_id l := None)\<rparr>"
  using assms by (auto simp: release_def rbind_Inr_iff)

lemma claim_inv [inv_rules]:
  "registry_inv r \<Longrightarrow> claim r now res own ttl = Inr (l, r') \<Longrightarrow> registry_inv r'"
  by (frule claim_InrD(2), drule claim_InrD(1))
    (force simp: registry_inv_def last_fence_def split: option.splits)

lemma heartbeat_inv [inv_rules]:
  assumes "registry_inv r" "heartbeat r now1 now2 l ttl = Inr (l', r')"
  shows "registry_inv r'"
proof -
  obtain c where "leases r (resource_id l) = Some c" "fencing_token c = fencing_token l"
    using heartbeat_InrD(1) [OF assms(2)] by (auto simp: validate_Inr_iff)
  then show ?thesis
    using assms(1) heartbeat_InrD(3,4) [OF assms(2)] by (force simp: registry_inv_def)
qed

lemma release_inv [inv_rules]:
  "registry_inv r \<Longrightarrow> release r now l = Inr r' \<Longrightarrow> registry_inv r'"
  by (drule release_InrD(2)) (auto simp: registry_inv_def)

section \<open>The registry is a fenced resource\<close>

interpretation registry: fencing registry_inv last_fence accepted_token claims_to keeps_to
proof unfold_locales
  fix s k n s'
  assume "claims_to s k n s'"
  then obtain now own ttl l where c: "claim s now k own ttl = Inr (l, s')" "n = fencing_token l"
    by (auto simp: claims_to_def)
  show "n = last_fence s k + 1" and "last_fence s' = (last_fence s)(k := n)"
    using claim_InrD(1,2) [OF c(1)] c(2) by (auto simp: last_fence_def fun_eq_iff)
next
  fix s s'
  assume "keeps_to s s'"
  then show "last_fence s' = last_fence s"
    by cases (auto simp: last_fence_def fun_eq_iff dest: heartbeat_InrD(4) release_InrD(2))
next
  fix s t k n
  assume "registry_inv s" "accepted_token s t k n"
  then show "n = last_fence s k"
    by (force simp: accepted_token_def validate_Inr_iff registry_inv_def last_fence_def)
next
  fix s k n s'
  assume "registry_inv s" "claims_to s k n s'"
  then show "registry_inv s'" by (auto simp: claims_to_def intro: claim_inv)
next
  fix s s'
  assume "registry_inv s" "keeps_to s s'"
  then show "registry_inv s'" by (auto elim!: keeps_to.cases intro: heartbeat_inv release_inv)
qed

text \<open>
  C12: Fencing of the lease registry. Take any registry in its invariant and any later
  sequence of claims, heartbeats and releases. If a claim issued token \<open>n\<close> for a resource
  and a later claim of the same resource succeeded, then a lease that carries \<open>n\<close>,
  whatever owner and expiry it names, is rejected as stale at every time: by \<open>validate\<close>,
  by \<open>heartbeat\<close> with a positive time to live and by \<open>release\<close>.
\<close>

theorem lease_superseded_is_fenced:
  assumes "registry_inv r"
    and "fenced_run claims_to keeps_to r (xs @ (res, n) # zs) r'"
    and "res \<in> fst ` set zs"
    and "resource_id l = res" and "fencing_token l = n" and "0 < ttl"
  shows "validate r' now l = Inl StaleLeaseError \<and>
         heartbeat r' now now2 l ttl = Inl StaleLeaseError \<and>
         release r' now l = Inl StaleLeaseError"
proof -
  have "\<not> accepted_token r' now res n" using assms(1-3) by (rule registry.superseded_rejected)
  then have "validate r' now l = Inl StaleLeaseError"
    using assms(4,5) validate_result by (auto simp: accepted_token_def)
  then show ?thesis using assms(6) by (simp add: heartbeat_def release_def)
qed

theorem lease_superseded_is_fenced_witness:
  "\<exists>r l. fenced_run claims_to keeps_to empty_registry [(''gpu'', 1), (''gpu'', 2)] r \<and>
     fencing_token l = 1 \<and> validate r 11 l = Inl StaleLeaseError"
proof -
  obtain l1 r1 where 1: "claim empty_registry 0 ''gpu'' ''a'' 5 = Inr (l1, r1)"
    by (simp add: claim_def empty_registry_def Let_def)
  obtain l2 r2 where 2: "claim r1 10 ''gpu'' ''b'' 5 = Inr (l2, r2)"
    using claim_InrD [OF 1] by (simp add: claim_def Let_def)
  have t: "fencing_token l1 = 1" "fencing_token l2 = 2" "resource_id l1 = ''gpu''"
    using claim_InrD(1,2) [OF 1] claim_InrD(1) [OF 2] by (auto simp: last_fence_def empty_registry_def)
  have "fenced_run claims_to keeps_to empty_registry ([] @ (''gpu'', 1) # [(''gpu'', 2)]) r2"
    using run_claim [OF run_claim [OF run_start], of claims_to _ "''gpu''" 1 r1 "''gpu''" 2 r2]
    by (simp add: claims_to_def) (metis 1 2 t(1,2))
  note run = this
  have "validate r2 11 l1 = Inl StaleLeaseError"
    using lease_superseded_is_fenced [OF registry_inv_empty run _ t(3,1), of 1 11] by simp
  with run t show ?thesis by auto
qed

end
