(* ===== verification/Text.thy ===== *)
theory Text
  imports Prelude
begin

text \<open>
  The string operations of Python the sources use, on code points 0 to 255: character
  classes of the \<open>re\<close> module, \<open>strip\<close>, \<open>find\<close>, \<open>split\<close>, \<open>join\<close>, \<open>splitlines\<close>, \<open>lower\<close>,
  decimal printing, and the tokens of \<open>\w+|[^\w\s]\<close> that services/chunking.py counts,
  with the facts on them that chunking, citations and object keys share.
\<close>

section \<open>Character classes\<close>

definition code :: "char \<Rightarrow> nat" where
  "code c = of_char c"

definition is_space :: "char \<Rightarrow> bool" where
  "is_space c = (let n = code c in
     9 \<le> n \<and> n \<le> 13 \<or> 28 \<le> n \<and> n \<le> 32 \<or> n = 133 \<or> n = 160)"

definition is_word :: "char \<Rightarrow> bool" where
  "is_word c = (let n = code c in
     48 \<le> n \<and> n \<le> 57 \<or> 65 \<le> n \<and> n \<le> 90 \<or> n = 95 \<or> 97 \<le> n \<and> n \<le> 122 \<or> n = 170 \<or>
     n = 178 \<or> n = 179 \<or> n = 181 \<or> n = 185 \<or> n = 186 \<or> 188 \<le> n \<and> n \<le> 190 \<or>
     192 \<le> n \<and> n \<le> 214 \<or> 216 \<le> n \<and> n \<le> 246 \<or> 248 \<le> n \<and> n \<le> 255)"

definition is_digit :: "char \<Rightarrow> bool" where
  "is_digit c = (let n = code c in 48 \<le> n \<and> n \<le> 57)"

definition is_lower_hex :: "char \<Rightarrow> bool" where
  "is_lower_hex c = (let n = code c in 48 \<le> n \<and> n \<le> 57 \<or> 97 \<le> n \<and> n \<le> 102)"

definition is_line_break :: "char \<Rightarrow> bool" where
  "is_line_break c = (let n = code c in 10 \<le> n \<and> n \<le> 13 \<or> 28 \<le> n \<and> n \<le> 30 \<or> n = 133)"

definition lower_char :: "char \<Rightarrow> char" where
  "lower_char c = (let n = code c in
     if 65 \<le> n \<and> n \<le> 90 \<or> 192 \<le> n \<and> n \<le> 222 \<and> n \<noteq> 215 then char_of (n + 32) else c)"

lemma space_not_word: "is_space c \<Longrightarrow> \<not> is_word c"
  by (auto simp: is_space_def is_word_def Let_def)

lemma digit_word: "is_digit c \<Longrightarrow> is_word c"
  by (auto simp: is_digit_def is_word_def Let_def)

section \<open>Strings\<close>

definition lower :: "string \<Rightarrow> string" where
  "lower s = map lower_char s"

definition strip :: "string \<Rightarrow> string" where
  "strip s = rev (dropWhile is_space (rev (dropWhile is_space s)))"

definition stripped :: "string \<Rightarrow> bool" where
  "stripped s \<longleftrightarrow> (s \<noteq> [] \<longrightarrow> \<not> is_space (hd s) \<and> \<not> is_space (last s))"

fun starts_with :: "string \<Rightarrow> string \<Rightarrow> bool" where
  "starts_with s [] = True"
| "starts_with [] (p # ps) = False"
| "starts_with (c # s) (p # ps) = (c = p \<and> starts_with s ps)"

text \<open>\<open>haystack.find(needle, start)\<close>, with \<open>None\<close> for the result \<open>-1\<close>.\<close>

fun find_at :: "nat \<Rightarrow> string \<Rightarrow> string \<Rightarrow> nat option" where
  "find_at i s needle =
     (if starts_with s needle then Some i
      else case s of [] \<Rightarrow> None | c # cs \<Rightarrow> find_at (Suc i) cs needle)"

declare find_at.simps [simp del]

definition find_from :: "string \<Rightarrow> string \<Rightarrow> nat \<Rightarrow> nat option" where
  "find_from hay needle start =
     (if start \<le> length hay then find_at start (drop start hay) needle else None)"

fun split_on :: "char \<Rightarrow> string \<Rightarrow> string list" where
  "split_on d [] = [[]]"
| "split_on d (c # cs) =
     (if c = d then [] # split_on d cs
      else case split_on d cs of [] \<Rightarrow> [[c]] | w # ws \<Rightarrow> (c # w) # ws)"

fun join :: "string \<Rightarrow> string list \<Rightarrow> string" where
  "join sep [] = []"
| "join sep [x] = x"
| "join sep (x # y # zs) = x @ sep @ join sep (y # zs)"

text \<open>\<open>str(n)\<close> of a natural number.\<close>

fun show_nat :: "nat \<Rightarrow> string" where
  "show_nat n = (if n < 10 then [char_of (48 + n)]
                 else show_nat (n div 10) @ [char_of (48 + n mod 10)])"

declare show_nat.simps [simp del]

definition show_int :: "int \<Rightarrow> string" where
  "show_int i = (if i < 0 then ''-'' @ show_nat (nat (- i)) else show_nat (nat i))"

text \<open>
  \<open>s.splitlines()\<close>: a carriage return followed by a line feed is one boundary, and a
  boundary at the end opens no further line.
\<close>

fun splitlines_acc :: "string \<Rightarrow> string \<Rightarrow> string list" where
  "splitlines_acc acc [] = (if acc = [] then [] else [rev acc])"
| "splitlines_acc acc (c # cs) =
     (if code c = 13 \<and> (case cs of [] \<Rightarrow> False | d # _ \<Rightarrow> code d = 10)
      then rev acc # splitlines_acc [] (tl cs)
      else if is_line_break c then rev acc # splitlines_acc [] cs
      else splitlines_acc (c # acc) cs)"

definition splitlines :: "string \<Rightarrow> string list" where
  "splitlines s = splitlines_acc [] s"

subsection \<open>Facts\<close>

lemma starts_with_iff: "starts_with s p \<longleftrightarrow> prefix p s"
  by (induction s p rule: starts_with.induct) auto

lemma stripped_Nil [simp]: "stripped []"
  by (simp add: stripped_def)

lemma dropWhile_hd: "dropWhile P xs \<noteq> [] \<Longrightarrow> \<not> P (hd (dropWhile P xs))"
  by (induction xs) auto

lemma strip_stripped: "stripped (strip s)"
proof -
  let ?t = "dropWhile is_space s"
  let ?u = "dropWhile is_space (rev ?t)"
  have "\<not> is_space (hd (rev ?u))" if ne: "?u \<noteq> []"
  proof -
    have "suffix ?u (rev ?t)" by (rule suffix_dropWhile)
    then obtain p where p: "rev ?t = p @ ?u" by (auto simp: suffix_def)
    have t: "?t = rev ?u @ rev p" using arg_cong [OF p, of rev] by simp
    have "hd ?t = hd (rev ?u)" by (subst t) (simp add: ne del: dropWhile_eq_Nil_conv)
    moreover have "?t \<noteq> []" by (subst t) (simp add: ne del: dropWhile_eq_Nil_conv)
    ultimately show ?thesis using dropWhile_hd [of is_space s] by simp
  qed
  moreover have "\<not> is_space (hd ?u)" if "?u \<noteq> []" using that by (rule dropWhile_hd)
  ultimately show ?thesis by (auto simp: stripped_def strip_def last_rev)
qed

lemma stripped_strip_id:
  assumes "stripped s"
  shows "strip s = s"
proof (cases "s = []")
  case False
  with assms have "dropWhile is_space s = s" and "dropWhile is_space (rev s) = rev s"
    by (simp_all add: stripped_def dropWhile_eq_self_iff hd_rev)
  then show ?thesis by (simp add: strip_def)
qed (simp add: strip_def)

lemma strip_id_iff: "strip s = s \<longleftrightarrow> stripped s"
  using strip_stripped stripped_strip_id by metis

lemma strip_split:
  obtains a b where "s = a @ strip s @ b" "\<forall>c \<in> set a. is_space c" "\<forall>c \<in> set b. is_space c"
proof -
  let ?t = "dropWhile is_space s"
  have "rev ?t = takeWhile is_space (rev ?t) @ dropWhile is_space (rev ?t)" by simp
  then have "?t = strip s @ rev (takeWhile is_space (rev ?t))"
    unfolding strip_def by (metis rev_append rev_rev_ident)
  moreover have "s = takeWhile is_space s @ ?t" by simp
  ultimately have "s = takeWhile is_space s @ strip s @ rev (takeWhile is_space (rev ?t))" by metis
  then show ?thesis by (rule that) (auto dest: set_takeWhileD)
qed

lemma strip_sublist: "sublist (strip s) s"
  by (rule strip_split [of s]) (metis sublist_def)

lemma find_at_Some:
  "find_at i s needle = Some j \<Longrightarrow> i \<le> j \<and> j \<le> i + length s \<and> prefix needle (drop (j - i) s)"
proof (induction i s needle rule: find_at.induct)
  case (1 i s needle)
  show ?case
  proof (cases "starts_with s needle")
    case True
    with "1.prems" show ?thesis by (simp add: find_at.simps [of i] starts_with_iff)
  next
    case False
    then obtain c cs where s: "s = c # cs" and r: "find_at (Suc i) cs needle = Some j"
      using "1.prems" by (auto simp: find_at.simps [of i] split: list.splits)
    have "Suc i \<le> j \<and> j \<le> Suc i + length cs \<and> prefix needle (drop (j - Suc i) cs)"
      using "1.IH" [OF False s r] by simp
    then show ?thesis using s by (auto simp: Suc_diff_Suc [symmetric] drop_Cons')
  qed
qed

lemma find_at_first:
  "find_at i s needle = r \<Longrightarrow> i \<le> k \<Longrightarrow> k \<le> i + length s \<Longrightarrow> prefix needle (drop (k - i) s) \<Longrightarrow>
   \<exists>j. r = Some j \<and> j \<le> k"
proof (induction i s needle arbitrary: r rule: find_at.induct)
  case (1 i s needle)
  show ?case
  proof (cases "starts_with s needle")
    case True
    with "1.prems" show ?thesis by (auto simp: find_at.simps [of i])
  next
    case False
    then have "k \<noteq> i" using "1.prems"(4) by (auto simp: starts_with_iff)
    with "1.prems" obtain c cs where s: "s = c # cs" by (cases s) auto
    have "\<exists>j. find_at (Suc i) cs needle = Some j \<and> j \<le> k"
      using "1.IH" [OF False s refl] "1.prems" \<open>k \<noteq> i\<close> s by (auto simp: drop_Cons')
    then show ?thesis using False s "1.prems"(1) by (auto simp: find_at.simps [of i])
  qed
qed

lemma find_from_Some:
  assumes "find_from hay needle start = Some j"
  shows "start \<le> j" "j + length needle \<le> length hay" "take (length needle) (drop j hay) = needle"
proof -
  have le: "start \<le> length hay" and f: "find_at start (drop start hay) needle = Some j"
    using assms by (auto simp: find_from_def split: if_splits)
  have j: "start \<le> j" "j \<le> length hay" "prefix needle (drop j hay)"
    using find_at_Some [OF f] le by auto
  then show "start \<le> j" "take (length needle) (drop j hay) = needle"
    by (auto simp: prefix_def)
  show "j + length needle \<le> length hay" using prefix_length_le [OF j(3)] j(2) by simp
qed

lemma join_Cons: "xs \<noteq> [] \<Longrightarrow> join sep (x # xs) = x @ sep @ join sep xs"
  by (cases xs) auto

lemma join_append:
  "xs \<noteq> [] \<Longrightarrow> ys \<noteq> [] \<Longrightarrow> join sep (xs @ ys) = join sep xs @ sep @ join sep ys"
  by (induction xs rule: induct_list012) (auto simp: join_Cons)

lemma join_member_sublist: "x \<in> set xs \<Longrightarrow> sublist x (join sep xs)"
proof -
  assume "x \<in> set xs"
  then obtain as bs where xs: "xs = as @ x # bs" by (meson split_list)
  have tail: "\<exists>ss. join sep (x # bs) = x @ ss" by (cases bs) auto
  then obtain ss where ss: "join sep (x # bs) = x @ ss" by blast
  show ?thesis
  proof (cases "as = []")
    case True
    then show ?thesis using ss by (auto simp: xs sublist_def intro: exI [of _ "[]"])
  next
    case False
    then have "join sep xs = (join sep as @ sep) @ x @ ss" using ss by (simp add: xs join_append)
    then show ?thesis unfolding sublist_def by blast
  qed
qed

lemma show_nat_nonempty [simp]: "show_nat n \<noteq> []"
  by (subst show_nat.simps) simp

text \<open>Decimal digits read back: printing a number is injective.\<close>

fun digits_value :: "string \<Rightarrow> nat \<Rightarrow> nat" where
  "digits_value [] acc = acc"
| "digits_value (c # cs) acc = digits_value cs (10 * acc + (code c - 48))"

lemma show_nat_digits: "\<forall>c \<in> set (show_nat n). is_digit c"
proof (induction n rule: show_nat.induct)
  case (1 n)
  have d: "is_digit (char_of (48 + d))" if "d < 10" for d :: nat
    using that by (simp add: is_digit_def code_def)
  show ?case
  proof (cases "n < 10")
    case True
    then show ?thesis using d by (simp add: show_nat.simps [of n])
  next
    case False
    then show ?thesis using d [of "n mod 10"] 1 by (auto simp: show_nat.simps [of n])
  qed
qed

lemma digits_value_append: "digits_value (xs @ ys) acc = digits_value ys (digits_value xs acc)"
  by (induction xs arbitrary: acc) auto

lemma digits_value_show: "digits_value (show_nat n) 0 = n"
proof (induction n rule: show_nat.induct)
  case (1 n)
  have d: "code (char_of (48 + d)) = 48 + d" if "d < 10" for d :: nat
    using that by (simp add: code_def)
  show ?case
  proof (cases "n < 10")
    case True
    then show ?thesis by (simp add: show_nat.simps [of n] d)
  next
    case False
    then show ?thesis using 1 by (simp add: show_nat.simps [of n] digits_value_append d)
  qed
qed

lemma show_nat_inj: "show_nat m = show_nat n \<Longrightarrow> m = n"
  using digits_value_show by metis

lemma split_on_nonempty [simp]: "split_on d s \<noteq> []"
  by (induction s) (auto split: list.splits)

lemma split_on_notin: "w \<in> set (split_on d s) \<Longrightarrow> d \<notin> set w"
proof (induction s arbitrary: w)
  case (Cons c cs)
  obtain v vs where vs: "split_on d cs = v # vs" using split_on_nonempty by (meson neq_Nil_conv)
  with Cons show ?case by (auto split: if_splits)
qed simp

lemma join_split_on: "join [d] (split_on d s) = s"
proof (induction s)
  case (Cons c cs)
  obtain v vs where vs: "split_on d cs = v # vs" using split_on_nonempty by (meson neq_Nil_conv)
  with Cons.IH show ?case by (cases vs) (auto simp: join_Cons)
qed simp

lemma split_on_simple: "d \<notin> set w \<Longrightarrow> split_on d w = [w]"
  by (induction w) auto

lemma split_on_append: "d \<notin> set w \<Longrightarrow> split_on d (w @ d # s) = w # split_on d s"
  by (induction w) auto

section \<open>Tokens\<close>

text \<open>
  The spans \<open>(start, end)\<close> of \<open>re.finditer(r"\w+|[^\w\s]", text)\<close>: a maximal run of word
  characters, or one character that is neither a word character nor white space.
\<close>

function token_spans :: "nat \<Rightarrow> string \<Rightarrow> (nat \<times> nat) list" where
  "token_spans i [] = []"
| "token_spans i (c # cs) =
     (if is_word c then
        let n = Suc (length (takeWhile is_word cs))
        in (i, i + n) # token_spans (i + n) (dropWhile is_word cs)
      else if is_space c then token_spans (Suc i) cs
      else (i, Suc i) # token_spans (Suc i) cs)"
  by pat_completeness auto
termination
  by (relation "measure (\<lambda>(i, s). length s)") (auto simp: le_imp_less_Suc length_dropWhile_le)

definition count_tokens :: "string \<Rightarrow> nat" where
  "count_tokens s = length (token_spans 0 s)"

lemma token_spans_shift: "token_spans (i + k) s = map (\<lambda>(a, b). (a + k, b + k)) (token_spans i s)"
proof (induction i s rule: token_spans.induct)
  case (2 i c cs)
  then show ?case by (auto simp: Let_def ac_simps simp del: add_Suc)
qed simp

lemma count_tokens_shift: "length (token_spans i s) = count_tokens s"
  using token_spans_shift [of 0 i s] by (simp add: count_tokens_def)

lemma count_tokens_Nil [simp]: "count_tokens [] = 0"
  by (simp add: count_tokens_def)

lemma count_tokens_Cons:
  "count_tokens (c # cs) =
     (if is_word c then Suc (count_tokens (dropWhile is_word cs))
      else if is_space c then count_tokens cs else Suc (count_tokens cs))"
  by (simp add: count_tokens_def [of "c # cs"] Let_def count_tokens_shift)

lemma count_tokens_space: "\<forall>c \<in> set a. is_space c \<Longrightarrow> count_tokens (a @ s) = count_tokens s"
  by (induction a) (auto simp: count_tokens_Cons space_not_word)

text \<open>A token never crosses a character that is not a word character.\<close>

lemma count_tokens_append:
  "(b = [] \<or> \<not> is_word (hd b)) \<Longrightarrow> count_tokens (a @ b) = count_tokens a + count_tokens b"
proof (induction "length a" arbitrary: a rule: less_induct)
  case less
  show ?case
  proof (cases a)
    case (Cons c cs)
    have dw: "dropWhile is_word (cs @ b) = dropWhile is_word cs @ b"
    proof (cases "\<forall>x \<in> set cs. is_word x")
      case True
      then show ?thesis using less.prems by (cases b) auto
    next
      case False
      then show ?thesis by (auto simp: dropWhile_append1)
    qed
    have "length (dropWhile is_word cs) < length a"
      using Cons by (simp add: le_imp_less_Suc length_dropWhile_le)
    then show ?thesis
      using less.hyps [OF _ less.prems, of cs] less.hyps [OF _ less.prems, of "dropWhile is_word cs"]
        Cons dw by (auto simp: count_tokens_Cons)
  qed simp
qed

lemma count_tokens_space_right:
  assumes "\<forall>c \<in> set b. is_space c"
  shows "count_tokens (a @ b) = count_tokens a"
proof -
  have "count_tokens b = 0" using count_tokens_space [of b "[]"] assms by simp
  moreover have "b = [] \<or> \<not> is_word (hd b)" using assms by (cases b) (auto simp: space_not_word)
  ultimately show ?thesis by (simp add: count_tokens_append)
qed

lemma count_tokens_strip: "count_tokens (strip s) = count_tokens s"
proof -
  obtain a b where s: "s = a @ strip s @ b" "\<forall>c \<in> set a. is_space c" "\<forall>c \<in> set b. is_space c"
    by (rule strip_split)
  have "count_tokens (a @ strip s @ b) = count_tokens (strip s)"
    by (simp add: count_tokens_space s(2) count_tokens_space_right s(3))
  with s(1) show ?thesis by simp
qed

lemma count_tokens_join:
  assumes "sep \<noteq> []" "\<forall>c \<in> set sep. is_space c"
  shows "count_tokens (join sep xs) = sum_list (map count_tokens xs)"
proof (induction xs rule: induct_list012)
  case (3 x y zs)
  have "\<not> is_word (hd (sep @ join sep (y # zs)))"
    using assms by (cases sep) (auto simp: space_not_word)
  then show ?case using 3 assms(2) by (simp add: count_tokens_append count_tokens_space)
qed simp_all

text \<open>The tokens of a text cut at the start, or at the end, of one of its tokens.\<close>

lemma token_spans_lower: "p \<in> set (token_spans i s) \<Longrightarrow> i \<le> fst p \<and> fst p < snd p \<and> snd p \<le> i + length s"
proof (induction i s rule: token_spans.induct)
  case (2 i c cs)
  have "length (takeWhile is_word cs) + length (dropWhile is_word cs) = length cs"
    by (metis length_append takeWhile_dropWhile_id)
  with 2 show ?case by (fastforce simp: Let_def split: if_splits)
qed simp

lemma token_spans_drop:
  "j < length (token_spans i s) \<Longrightarrow>
   token_spans (fst (token_spans i s ! j)) (drop (fst (token_spans i s ! j) - i) s) =
     drop j (token_spans i s)"
proof (induction i s arbitrary: j rule: token_spans.induct)
  case (2 i c cs)
  define n where "n = Suc (length (takeWhile is_word cs))"
  consider (word) "is_word c" | (space) "\<not> is_word c" "is_space c" | (mark) "\<not> is_word c" "\<not> is_space c"
    by blast
  then show ?case
  proof cases
    case word
    then have eq: "token_spans i (c # cs) = (i, i + n) # token_spans (i + n) (dropWhile is_word cs)"
      by (simp add: n_def Let_def)
    show ?thesis
    proof (cases j)
      case (Suc k)
      let ?p = "token_spans (i + n) (dropWhile is_word cs) ! k"
      have k: "k < length (token_spans (i + n) (dropWhile is_word cs))" using "2.prems" eq Suc by simp
      have "i + n \<le> fst ?p" using token_spans_lower nth_mem [OF k] by blast
      moreover have "dropWhile is_word cs = drop n (c # cs)" by (simp add: n_def dropWhile_eq_drop)
      ultimately have "drop (fst ?p - i) (c # cs) = drop (fst ?p - (i + n)) (dropWhile is_word cs)"
        by simp
      moreover have "token_spans (fst ?p) (drop (fst ?p - (i + n)) (dropWhile is_word cs)) =
          drop k (token_spans (i + n) (dropWhile is_word cs))"
        using "2.IH"(1) [OF word n_def] k by simp
      ultimately show ?thesis unfolding eq Suc by simp
    qed (use word in \<open>simp add: Let_def\<close>)
  next
    case space
    let ?p = "token_spans (Suc i) cs ! j"
    have k: "j < length (token_spans (Suc i) cs)" using "2.prems" space by simp
    have "Suc i \<le> fst ?p" using token_spans_lower nth_mem [OF k] by blast
    then show ?thesis using "2.IH"(2) [OF space k] space by (simp add: drop_Cons')
  next
    case mark
    show ?thesis
    proof (cases j)
      case (Suc k)
      let ?p = "token_spans (Suc i) cs ! k"
      have k: "k < length (token_spans (Suc i) cs)" using "2.prems" mark Suc by simp
      have "Suc i \<le> fst ?p" using token_spans_lower nth_mem [OF k] by blast
      then show ?thesis using "2.IH"(3) [OF mark k] mark Suc by (simp add: drop_Cons')
    qed (use mark in simp)
  qed
qed simp

lemma while_hd: "xs = [] \<or> \<not> P (hd xs) \<Longrightarrow> takeWhile P xs = [] \<and> dropWhile P xs = xs"
  by (cases xs) auto

lemma token_spans_take:
  "j < length (token_spans i s) \<Longrightarrow>
   token_spans i (take (snd (token_spans i s ! j) - i) s) = take (Suc j) (token_spans i s)"
proof (induction i s arbitrary: j rule: token_spans.induct)
  case (2 i c cs)
  define n where "n = Suc (length (takeWhile is_word cs))"
  consider (word) "is_word c" | (space) "\<not> is_word c" "is_space c" | (mark) "\<not> is_word c" "\<not> is_space c"
    by blast
  then show ?case
  proof cases
    case word
    then have eq: "token_spans i (c # cs) = (i, i + n) # token_spans (i + n) (dropWhile is_word cs)"
      by (simp add: n_def Let_def)
    have cs: "cs = takeWhile is_word cs @ dropWhile is_word cs" by simp
    show ?thesis
    proof (cases j)
      case 0
      have "take n (c # cs) = c # takeWhile is_word cs" by (simp add: n_def takeWhile_eq_take [symmetric])
      moreover have "dropWhile is_word (takeWhile is_word cs) = []" by (auto dest: set_takeWhileD)
      ultimately show ?thesis unfolding eq 0 using word by (simp add: n_def del: dropWhile_eq_Nil_conv)
    next
      case (Suc k)
      let ?p = "token_spans (i + n) (dropWhile is_word cs) ! k"
      let ?t = "take (snd ?p - (i + n)) (dropWhile is_word cs)"
      have k: "k < length (token_spans (i + n) (dropWhile is_word cs))" using "2.prems" eq Suc by simp
      have le: "i + n < snd ?p" using token_spans_lower nth_mem [OF k] by (meson le_less_trans)
      then have "take (snd ?p - i) (c # cs) = c # takeWhile is_word cs @ ?t"
        by (subst (1) cs) (simp add: n_def take_Cons' less_diff_conv add.commute del: takeWhile_dropWhile_id)
      moreover have t: "?t = [] \<or> \<not> is_word (hd ?t)"
        by (metis dropWhile_hd hd_take take_eq_Nil zero_less_iff_neq_zero)
      note t' = while_hd [of ?t is_word, OF t]
      have "takeWhile is_word (takeWhile is_word cs @ ?t) = takeWhile is_word cs"
        using t' by (metis append_Nil2 set_takeWhileD takeWhile_append2)
      moreover have "dropWhile is_word (takeWhile is_word cs @ ?t) = ?t"
        using t' by (metis dropWhile_append2 set_takeWhileD)
      moreover have "token_spans (i + n) ?t = take (Suc k) (token_spans (i + n) (dropWhile is_word cs))"
        using "2.IH"(1) [OF word n_def] k by simp
      ultimately show ?thesis unfolding eq Suc using word by (simp add: n_def)
    qed
  next
    case space
    let ?p = "token_spans (Suc i) cs ! j"
    have k: "j < length (token_spans (Suc i) cs)" using "2.prems" space by simp
    have "Suc i < snd ?p" using token_spans_lower nth_mem [OF k] by (meson le_less_trans)
    then show ?thesis using "2.IH"(2) [OF space k] space by (simp add: take_Cons')
  next
    case mark
    show ?thesis
    proof (cases j)
      case (Suc k)
      let ?p = "token_spans (Suc i) cs ! k"
      have k: "k < length (token_spans (Suc i) cs)" using "2.prems" mark Suc by simp
      have "Suc i < snd ?p" using token_spans_lower nth_mem [OF k] by (meson le_less_trans)
      then show ?thesis using "2.IH"(3) [OF mark k] mark Suc by (simp add: take_Cons')
    qed (use mark in simp)
  qed
qed simp

lemma token_spans_after:
  "j < length (token_spans i s) \<Longrightarrow>
   token_spans (snd (token_spans i s ! j)) (drop (snd (token_spans i s ! j) - i) s) =
     drop (Suc j) (token_spans i s)"
proof (induction i s arbitrary: j rule: token_spans.induct)
  case (2 i c cs)
  define n where "n = Suc (length (takeWhile is_word cs))"
  consider (word) "is_word c" | (space) "\<not> is_word c" "is_space c" | (mark) "\<not> is_word c" "\<not> is_space c"
    by blast
  then show ?case
  proof cases
    case word
    then have eq: "token_spans i (c # cs) = (i, i + n) # token_spans (i + n) (dropWhile is_word cs)"
      by (simp add: n_def Let_def)
    have dw: "dropWhile is_word cs = drop n (c # cs)" by (simp add: n_def dropWhile_eq_drop)
    show ?thesis
    proof (cases j)
      case (Suc k)
      let ?p = "token_spans (i + n) (dropWhile is_word cs) ! k"
      have k: "k < length (token_spans (i + n) (dropWhile is_word cs))" using "2.prems" eq Suc by simp
      have "i + n < snd ?p" using token_spans_lower nth_mem [OF k] by (meson le_less_trans)
      then have "drop (snd ?p - i) (c # cs) = drop (snd ?p - (i + n)) (dropWhile is_word cs)"
        using dw by simp
      moreover have "token_spans (snd ?p) (drop (snd ?p - (i + n)) (dropWhile is_word cs)) =
          drop (Suc k) (token_spans (i + n) (dropWhile is_word cs))"
        using "2.IH"(1) [OF word n_def] k by simp
      ultimately show ?thesis unfolding eq Suc by simp
    qed (simp only: eq dw, simp)
  next
    case space
    let ?p = "token_spans (Suc i) cs ! j"
    have k: "j < length (token_spans (Suc i) cs)" using "2.prems" space by simp
    have "Suc i < snd ?p" using token_spans_lower nth_mem [OF k] by (meson le_less_trans)
    then show ?thesis using "2.IH"(2) [OF space k] space by (simp add: drop_Cons')
  next
    case mark
    show ?thesis
    proof (cases j)
      case (Suc k)
      let ?p = "token_spans (Suc i) cs ! k"
      have k: "k < length (token_spans (Suc i) cs)" using "2.prems" mark Suc by simp
      have "Suc i < snd ?p" using token_spans_lower nth_mem [OF k] by (meson le_less_trans)
      then show ?thesis using "2.IH"(3) [OF mark k] mark Suc by (simp add: drop_Cons')
    qed (use mark in simp)
  qed
qed simp

text \<open>The characters of a text that are not white space.\<close>

definition ink :: "string \<Rightarrow> string" where
  "ink s = filter (\<lambda>c. \<not> is_space c) s"

lemma ink_simps [simp]:
  "ink [] = []" "ink (a @ b) = ink a @ ink b" "ink (rev a) = rev (ink a)"
  by (simp_all add: ink_def rev_filter)

lemma ink_concat: "ink (concat xs) = concat (map ink xs)"
  by (induction xs) auto

lemma ink_spaces: "\<forall>c \<in> set a. is_space c \<Longrightarrow> ink a = []"
  by (simp add: ink_def)

lemma ink_dropWhile: "ink (dropWhile is_space s) = ink s"
  by (induction s) (auto simp: ink_def)

lemma ink_strip [simp]: "ink (strip s) = ink s"
  by (simp add: strip_def ink_dropWhile)

lemma ink_takeWhile [simp]: "ink (takeWhile is_space s) = []"
  by (rule ink_spaces) (auto dest: set_takeWhileD)

lemma token_spans_ink:
  "ink s = ink (case token_spans i s of [] \<Rightarrow> [] | p # _ \<Rightarrow> drop (fst p - i) s)"
proof (induction i s rule: token_spans.induct)
  case (2 i c cs)
  show ?case
  proof (cases "is_space c")
    case True
    then have "\<not> is_word c" by (rule space_not_word)
    moreover have "Suc i \<le> fst p" if "p \<in> set (token_spans (Suc i) cs)" for p
      using token_spans_lower that by blast
    ultimately show ?thesis
      using 2 True by (auto simp: ink_def [of "c # cs"] ink_def [of cs, symmetric] drop_Cons' split: list.splits)
  qed (simp add: Let_def)
qed simp

lemma count_tokens_slice:
  assumes "p \<le> q" "q < count_tokens s"
  shows "count_tokens (drop (fst (token_spans 0 s ! p)) (take (snd (token_spans 0 s ! q)) s)) = Suc q - p"
proof -
  let ?t = "take (snd (token_spans 0 s ! q)) s"
  have t: "token_spans 0 ?t = take (Suc q) (token_spans 0 s)"
    using token_spans_take [of q 0 s] assms(2) by (simp add: count_tokens_def)
  have p: "p < length (token_spans 0 ?t)" using assms by (simp add: t count_tokens_def)
  have "token_spans 0 ?t ! p = token_spans 0 s ! p" using assms by (simp add: t)
  then have "count_tokens (drop (fst (token_spans 0 s ! p)) ?t) = length (drop p (token_spans 0 ?t))"
    using token_spans_drop [OF p] count_tokens_shift by (metis diff_zero)
  then show ?thesis using assms by (simp add: t count_tokens_def)
qed

lemma count_tokens_suffix:
  assumes "p < count_tokens s"
  shows "count_tokens (drop (fst (token_spans 0 s ! p)) s) = count_tokens s - p"
  using token_spans_drop [of p 0 s] assms count_tokens_shift
  by (metis count_tokens_def diff_zero length_drop)

end
