(* ===== verification/Json.thy ===== *)
theory Json
  imports Text
begin

text \<open>
  JSON values as Python and PostgreSQL see them. Python reads objects with
  \<open>dict.get\<close>, where a missing key and a null both give \<open>None\<close>, and compares numbers and
  booleans by value. PostgreSQL's \<open>jsonb\<close> operators return SQL null for a missing key, and
  conditions over them follow three-valued logic: a condition that is null does not take
  the branch.
\<close>

section \<open>Values\<close>

datatype json =
    JNull
  | JBool bool
  | JInt int
  | JFloat rat
  | JNonFinite
  | JStr string
  | JArr "json list"
  | JObj "(string \<times> json) list"

section \<open>Python\<close>

definition dict_get :: "(string \<times> json) list \<Rightarrow> string \<Rightarrow> json" where
  "dict_get fs k = (case map_of fs k of None \<Rightarrow> JNull | Some v \<Rightarrow> v)"

definition dict_has :: "(string \<times> json) list \<Rightarrow> string \<Rightarrow> bool" where
  "dict_has fs k = (map_of fs k \<noteq> None)"

text \<open>\<open>value == n\<close> for an integer \<open>n\<close>: floats and booleans compare by value.\<close>

fun eq_int :: "json \<Rightarrow> int \<Rightarrow> bool" where
  "eq_int (JInt i) n = (i = n)"
| "eq_int (JFloat q) n = (q = of_int n)"
| "eq_int (JBool b) n = (n = (if b then 1 else 0))"
| "eq_int _ n = False"

text \<open>
  \<open>float(value)\<close> of a value that is an int or a finite float and not a boolean; \<open>None\<close>
  stands for every other value.
\<close>

fun finite_number :: "json \<Rightarrow> rat option" where
  "finite_number (JInt i) = Some (of_int i)"
| "finite_number (JFloat q) = Some q"
| "finite_number _ = None"

section \<open>SQL\<close>

type_synonym sqlbool = "bool option"

definition sql_or :: "sqlbool \<Rightarrow> sqlbool \<Rightarrow> sqlbool" where
  "sql_or a b = (if a = Some True \<or> b = Some True then Some True
                 else if a = None \<or> b = None then None else Some False)"

definition sql_ors :: "sqlbool list \<Rightarrow> sqlbool" where
  "sql_ors bs = foldr sql_or bs (Some False)"

text \<open>\<open>IF condition THEN\<close> takes the branch only when the condition is true.\<close>

definition sql_if :: "sqlbool \<Rightarrow> bool" where
  "sql_if b = (b = Some True)"

definition sql_rel :: "('a \<Rightarrow> 'b \<Rightarrow> bool) \<Rightarrow> 'a option \<Rightarrow> 'b option \<Rightarrow> sqlbool" where
  "sql_rel r a b = (case a of None \<Rightarrow> None | Some x \<Rightarrow> (case b of None \<Rightarrow> None | Some y \<Rightarrow> Some (r x y)))"

definition sql_ne :: "'a option \<Rightarrow> 'a option \<Rightarrow> sqlbool" where
  "sql_ne = sql_rel (\<noteq>)"

definition not_between :: "'a::linorder option \<Rightarrow> 'a \<Rightarrow> 'a \<Rightarrow> sqlbool" where
  "not_between x lo hi = map_option (\<lambda>v. \<not> (lo \<le> v \<and> v \<le> hi)) x"

fun jsonb_typeof :: "json \<Rightarrow> string" where
  "jsonb_typeof JNull = ''null''"
| "jsonb_typeof (JBool b) = ''boolean''"
| "jsonb_typeof (JInt i) = ''number''"
| "jsonb_typeof (JFloat q) = ''number''"
| "jsonb_typeof JNonFinite = ''number''"
| "jsonb_typeof (JStr s) = ''string''"
| "jsonb_typeof (JArr xs) = ''array''"
| "jsonb_typeof (JObj fs) = ''object''"

text \<open>\<open>value -> key\<close>, and \<open>value ->> key\<close> with the text of a float given by \<open>ftext\<close>.\<close>

fun arrow :: "json option \<Rightarrow> string \<Rightarrow> json option" where
  "arrow (Some (JObj fs)) k = map_of fs k"
| "arrow _ k = None"

fun json_text :: "(rat \<Rightarrow> string) \<Rightarrow> json \<Rightarrow> string option" where
  "json_text ftext (JStr s) = Some s"
| "json_text ftext (JInt i) = Some (show_int i)"
| "json_text ftext (JFloat q) = Some (ftext q)"
| "json_text ftext (JBool b) = Some (if b then ''true'' else ''false'')"
| "json_text ftext _ = None"

definition arrow_text :: "(rat \<Rightarrow> string) \<Rightarrow> json option \<Rightarrow> string \<Rightarrow> string option" where
  "arrow_text ftext v k = Option.bind (arrow v k) (json_text ftext)"

fun json_elements :: "json option \<Rightarrow> json list" where
  "json_elements (Some (JArr xs)) = xs"
| "json_elements _ = []"

fun array_length :: "json option \<Rightarrow> int option" where
  "array_length (Some (JArr xs)) = Some (int (length xs))"
| "array_length _ = None"

lemma sql_or_False_left [simp]: "sql_or (Some False) b = b"
  by (cases b) (auto simp: sql_or_def)

lemma sql_or_False_right [simp]: "sql_or b (Some False) = b"
  by (cases b) (auto simp: sql_or_def)

lemma sql_ors_simps [simp]:
  "sql_ors [] = Some False"
  "sql_ors (b # bs) = sql_or b (sql_ors bs)"
  by (simp_all add: sql_ors_def)

lemma sql_if_simps [simp]:
  "sql_if None = False"
  "sql_if (Some b) = b"
  by (simp_all add: sql_if_def)

lemma sql_if_or [simp]: "sql_if (sql_or a b) \<longleftrightarrow> sql_if a \<or> sql_if b"
  by (auto simp: sql_if_def sql_or_def)

lemma sql_rel_simps [simp]:
  "sql_rel r (Some x) (Some y) = Some (r x y)"
  "sql_rel r None b = None"
  "sql_rel r a None = None"
  by (simp_all add: sql_rel_def split: option.splits)

lemma sql_ne_simps [simp]:
  "sql_ne (Some x) (Some y) = Some (x \<noteq> y)"
  "sql_ne None b = None"
  "sql_ne a None = None"
  by (simp_all add: sql_ne_def)

lemma not_between_simps [simp]:
  "not_between None lo hi = None"
  "not_between (Some v) lo hi = Some (\<not> (lo \<le> v \<and> v \<le> hi))"
  by (simp_all add: not_between_def)

end
