(* ===== verification/Anchors.thy ===== *)
theory Anchors
  imports Json
begin

text \<open>
  services/highlight_anchors.py, the citation highlight anchors, and the database function
  \<open>v5_is_valid_highlight_anchor\<close> of migration 0002 that guards the anchors stored with a
  chunk. Parameters: \<open>nfkc\<close> is Unicode normalisation form NFKC, \<open>sha\<close> the hexadecimal
  SHA-256 digest of the UTF-8 bytes of a text, \<open>fadd\<close> floating-point addition, \<open>ftext\<close> the
  text PostgreSQL prints for a float. The exceptions carry their messages.
\<close>

section \<open>Text quotes\<close>

definition HIGHLIGHT_NORMALIZATION :: string where
  "HIGHLIGHT_NORMALIZATION = ''citation-highlight-v1''"

definition MAX_CONTEXT_CHARACTERS :: nat where "MAX_CONTEXT_CHARACTERS = 256"
definition MAX_EXACT_CHARACTERS :: nat where "MAX_EXACT_CHARACTERS = 16000"
definition MAX_REGIONS_PER_PAGE :: nat where "MAX_REGIONS_PER_PAGE = 256"

lemmas anchor_limits = MAX_CONTEXT_CHARACTERS_def MAX_EXACT_CHARACTERS_def MAX_REGIONS_PER_PAGE_def

text \<open>\<open>re.sub(r"\s+", " ", s)\<close>: every maximal run of white space becomes one space.\<close>

fun collapse_spaces :: "bool \<Rightarrow> string \<Rightarrow> string" where
  "collapse_spaces in_run [] = []"
| "collapse_spaces in_run (c # cs) =
     (if is_space c then (if in_run then collapse_spaces True cs else CHR '' '' # collapse_spaces True cs)
      else c # collapse_spaces False cs)"

definition normalize_highlight_text :: "(string \<Rightarrow> string) \<Rightarrow> string \<Rightarrow> string" where
  "normalize_highlight_text nfkc value =
     strip (collapse_spaces False (filter (\<lambda>c. code c \<noteq> 173) (nfkc value)))"

text \<open>
  \<open>_match_offsets\<close>: every position at which the needle occurs. The loop restarts one
  position after each occurrence it finds, so it visits increasing positions and ends with
  the haystack.
\<close>

function match_offsets_from :: "string \<Rightarrow> string \<Rightarrow> nat \<Rightarrow> nat list" where
  "match_offsets_from hay needle start =
     (case find_from hay needle start of
        None \<Rightarrow> []
      | Some found \<Rightarrow> found # match_offsets_from hay needle (found + 1))"
  by pat_completeness auto
termination
proof (relation "measure (\<lambda>(hay, needle, start). Suc (length hay) - start)")
  fix hay needle :: string and start found :: nat
  assume "find_from hay needle start = Some found"
  then have "start \<le> found" "found \<le> length hay" using find_from_Some(1,2) by force+
  then show "((hay, needle, found + 1), hay, needle, start)
      \<in> measure (\<lambda>(hay, needle, start). Suc (length hay) - start)" by simp
qed simp

declare match_offsets_from.simps [simp del]

definition match_offsets :: "string \<Rightarrow> string \<Rightarrow> nat list" where
  "match_offsets hay needle = match_offsets_from hay needle 0"

fun is_sha256_hex :: "string \<Rightarrow> bool" where
  "is_sha256_hex s = (length s = 64 \<and> (\<forall>c \<in> set s. is_lower_hex c))"

definition validate_text_quote ::
  "(string \<Rightarrow> string) \<Rightarrow> (string \<times> json) list \<Rightarrow> (string, unit) result" where
  "validate_text_quote sha page =
     (case dict_get page ''selector'' of
        JObj selector \<Rightarrow>
          if dict_has page ''regions'' then Inl ''invalid text quote selector''
          else (case (dict_get selector ''exact'', dict_get selector ''prefix'',
                      dict_get selector ''suffix'', dict_get selector ''sha256'') of
                 (JStr exact, JStr pre, JStr suf, JStr digest) \<Rightarrow>
                   if exact = [] \<or> MAX_EXACT_CHARACTERS < length exact
                      \<or> MAX_CONTEXT_CHARACTERS < length pre \<or> MAX_CONTEXT_CHARACTERS < length suf
                      \<or> \<not> is_sha256_hex digest \<or> sha exact \<noteq> digest
                   then Inl ''invalid text quote values'' else Inr ()
               | _ \<Rightarrow> Inl ''invalid text quote values'')
      | _ \<Rightarrow> Inl ''invalid text quote selector'')"

section \<open>Regions\<close>

definition validate_region ::
  "(rat \<Rightarrow> rat \<Rightarrow> rat) \<Rightarrow> json \<Rightarrow> (string, unit) result" where
  "validate_region fadd region =
     (case region of
        JObj fs \<Rightarrow>
          (case (finite_number (dict_get fs ''x''), finite_number (dict_get fs ''y''),
                 finite_number (dict_get fs ''width''), finite_number (dict_get fs ''height'')) of
             (Some x, Some y, Some w, Some h) \<Rightarrow>
               if x < 0 \<or> y < 0 \<or> w \<le> 0 \<or> h \<le> 0 \<or> fadd x w > 1 \<or> fadd y h > 1
               then Inl ''OCR rectangle is outside the page'' else Inr ()
           | _ \<Rightarrow> Inl ''OCR rectangle must be finite'')
      | _ \<Rightarrow> Inl ''invalid OCR highlight rectangle'')"

definition validate_ocr_regions ::
  "(rat \<Rightarrow> rat \<Rightarrow> rat) \<Rightarrow> (string \<times> json) list \<Rightarrow> (string, unit) result" where
  "validate_ocr_regions fadd page =
     (case dict_get page ''regions'' of
        JArr regions \<Rightarrow>
          if dict_has page ''selector'' \<or> \<not> (1 \<le> length regions \<and> length regions \<le> MAX_REGIONS_PER_PAGE)
          then Inl ''invalid OCR highlight regions''
          else rbind (rmap (validate_region fadd) regions) (\<lambda>_. Inr ())
      | _ \<Rightarrow> Inl ''invalid OCR highlight regions'')"

section \<open>Anchors\<close>

fun validate_pages ::
  "(string \<Rightarrow> string) \<Rightarrow> (rat \<Rightarrow> rat \<Rightarrow> rat) \<Rightarrow> int \<Rightarrow> int \<Rightarrow> int list \<Rightarrow> json list \<Rightarrow>
   (string, unit) result" where
  "validate_pages sha fadd page_start page_end seen [] = Inr ()"
| "validate_pages sha fadd page_start page_end seen (value # rest) =
     (case value of
        JObj fs \<Rightarrow>
          (case dict_get fs ''page'' of
             JInt page \<Rightarrow>
               if page < page_start \<or> page > page_end \<or> page \<in> set seen
               then Inl ''invalid or duplicate highlight page''
               else rbind (if dict_get fs ''kind'' = JStr ''text_quote'' then validate_text_quote sha fs
                           else if dict_get fs ''kind'' = JStr ''ocr_regions''
                           then validate_ocr_regions fadd fs
                           else Inl ''unsupported highlight selector kind'')
                     (\<lambda>_. validate_pages sha fadd page_start page_end (page # seen) rest)
           | _ \<Rightarrow> Inl ''invalid or duplicate highlight page'')
      | _ \<Rightarrow> Inl ''invalid highlight page'')"

definition validate_highlight_anchor ::
  "(string \<Rightarrow> string) \<Rightarrow> (rat \<Rightarrow> rat \<Rightarrow> rat) \<Rightarrow> (string \<times> json) list \<Rightarrow> int \<Rightarrow> int \<Rightarrow>
   (string, unit) result" where
  "validate_highlight_anchor sha fadd anchor page_start page_end =
     (if \<not> eq_int (dict_get anchor ''version'') 1
      then Inl ''unsupported highlight anchor version''
      else if dict_get anchor ''normalization'' \<noteq> JStr HIGHLIGHT_NORMALIZATION
      then Inl ''unsupported highlight normalization''
      else case dict_get anchor ''pages'' of
             JArr pages \<Rightarrow>
               if pages = [] then Inl ''highlight anchor requires pages''
               else validate_pages sha fadd page_start page_end [] pages
           | _ \<Rightarrow> Inl ''highlight anchor requires pages'')"

definition selects :: "string \<Rightarrow> nat \<Rightarrow> string \<Rightarrow> string \<Rightarrow> nat \<Rightarrow> bool" where
  "selects page n pre suf offset \<longleftrightarrow>
     suffix pre (drop (offset - length pre) (take offset page)) \<and>
     prefix suf (take (length suf) (drop (offset + n) page))"

definition text_quote_anchor ::
  "(string \<Rightarrow> string) \<Rightarrow> (string \<Rightarrow> string) \<Rightarrow> (rat \<Rightarrow> rat \<Rightarrow> rat) \<Rightarrow>
   int \<Rightarrow> string \<Rightarrow> string \<Rightarrow> int option \<Rightarrow> (string, (string \<times> json) list) result" where
  "text_quote_anchor nfkc sha fadd page page_text chunk_text start_hint =
     (let normalized_page = normalize_highlight_text nfkc page_text;
          exact = normalize_highlight_text nfkc chunk_text
      in if exact = [] \<or> MAX_EXACT_CHARACTERS < length exact
         then Inl ''digital highlight text is empty or too large''
         else let found = match_offsets normalized_page exact in
         rbind (case start_hint of
                  None \<Rightarrow> (case found of
                     [start] \<Rightarrow> Inr start
                   | _ \<Rightarrow> Inl ''digital chunk does not resolve to one authoritative page range'')
                | Some hint \<Rightarrow>
                    if hint \<notin> set (map int found)
                    then Inl ''digital chunk offset does not match authoritative page text''
                    else Inr (nat hint))
           (\<lambda>start.
             let pre = drop (start - MAX_CONTEXT_CHARACTERS) (take start normalized_page);
                 suf = take MAX_CONTEXT_CHARACTERS (drop (start + length exact) normalized_page);
                 selector = [(''exact'', JStr exact), (''prefix'', JStr pre), (''suffix'', JStr suf),
                             (''sha256'', JStr (sha exact))]
             in if filter (selects normalized_page (length exact) pre suf) found \<noteq> [start]
                then Inl ''digital selector context is not unique''
                else let anchor = [(''version'', JInt 1),
                                   (''normalization'', JStr HIGHLIGHT_NORMALIZATION),
                                   (''pages'', JArr [JObj [(''page'', JInt page),
                                      (''kind'', JStr ''text_quote''), (''selector'', JObj selector)]])]
                     in rbind (validate_highlight_anchor sha fadd anchor page page)
                          (\<lambda>_. Inr anchor)))"

type_synonym region = "rat \<times> rat \<times> rat \<times> rat"

definition region_json :: "region \<Rightarrow> json" where
  "region_json r = (case r of (x, y, width, height) \<Rightarrow>
     JObj [(''x'', JFloat x), (''y'', JFloat y), (''width'', JFloat width), (''height'', JFloat height)])"

definition ocr_regions_anchor ::
  "(string \<Rightarrow> string) \<Rightarrow> (rat \<Rightarrow> rat \<Rightarrow> rat) \<Rightarrow> int \<Rightarrow> region list \<Rightarrow>
   (string, (string \<times> json) list) result" where
  "ocr_regions_anchor sha fadd page regions =
     (let unique = fromkeys regions;
          anchor = [(''version'', JInt 1), (''normalization'', JStr HIGHLIGHT_NORMALIZATION),
                    (''pages'', JArr [JObj [(''page'', JInt page), (''kind'', JStr ''ocr_regions''),
                       (''regions'', JArr (map region_json unique))]])]
      in rbind (validate_highlight_anchor sha fadd anchor page page) (\<lambda>_. Inr anchor))"

section \<open>The database constraint\<close>

definition sql_region_rejected :: "(rat \<Rightarrow> rat \<Rightarrow> rat) \<Rightarrow> json \<Rightarrow> bool" where
  "sql_region_rejected fadd region =
     (let field = (\<lambda>k. arrow (Some region) k);
          kind = (\<lambda>k. map_option jsonb_typeof (field k));
          num = (\<lambda>k. Option.bind (field k) finite_number);
          add = (\<lambda>a b. Option.bind a (\<lambda>u. map_option (fadd u) b))
      in sql_if (sql_ors
           [Some (jsonb_typeof region \<noteq> ''object''),
            sql_ne (kind ''x'') (Some ''number''), sql_ne (kind ''y'') (Some ''number''),
            sql_ne (kind ''width'') (Some ''number''), sql_ne (kind ''height'') (Some ''number'')])
         \<or> sql_if (sql_ors
           [sql_rel (<) (num ''x'') (Some 0), sql_rel (<) (num ''y'') (Some 0),
            sql_rel (\<le>) (num ''width'') (Some 0), sql_rel (\<le>) (num ''height'') (Some 0),
            sql_rel (>) (add (num ''x'') (num ''width'')) (Some 1),
            sql_rel (>) (add (num ''y'') (num ''height'')) (Some 1)]))"

definition sql_text_quote_rejected ::
  "(string \<Rightarrow> string) \<Rightarrow> (rat \<Rightarrow> string) \<Rightarrow> json \<Rightarrow> bool" where
  "sql_text_quote_rejected sha ftext page =
     (let selector = arrow (Some page) ''selector'';
          exact = arrow_text ftext selector ''exact'';
          len = (\<lambda>t d. case t of None \<Rightarrow> d | Some s \<Rightarrow> int (length s));
          digest = arrow_text ftext selector ''sha256''
      in sql_if (sql_ors
           [sql_ne (map_option jsonb_typeof selector) (Some ''object''),
            Some (arrow (Some page) ''regions'' \<noteq> None)])
         \<or> sql_if (sql_ors
           [not_between (Some (len exact 0)) 1 16000,
            not_between (Some (len (arrow_text ftext selector ''prefix'') (- 1))) 0 256,
            not_between (Some (len (arrow_text ftext selector ''suffix'') (- 1))) 0 256,
            Some (\<not> is_sha256_hex (case digest of None \<Rightarrow> [] | Some d \<Rightarrow> d)),
            sql_ne (map_option sha exact) digest]))"

definition sql_ocr_regions_rejected :: "(rat \<Rightarrow> rat \<Rightarrow> rat) \<Rightarrow> json \<Rightarrow> bool" where
  "sql_ocr_regions_rejected fadd page =
     (let regions = arrow (Some page) ''regions''
      in sql_if (sql_ors
           [Some (arrow (Some page) ''selector'' \<noteq> None),
            sql_ne (map_option jsonb_typeof regions) (Some ''array''),
            not_between (array_length regions) 1 256])
         \<or> list_ex (sql_region_rejected fadd) (json_elements regions))"

text \<open>\<open>(v_page ->> 'page')::integer\<close> of a text of digits; \<open>None\<close> is the overflow exception.\<close>

definition sql_integer :: "string \<Rightarrow> int option" where
  "sql_integer s = (let n = int (digits_value s 0) in if n \<le> 2147483647 then Some n else None)"

fun sql_pages_accepted ::
  "(string \<Rightarrow> string) \<Rightarrow> (rat \<Rightarrow> rat \<Rightarrow> rat) \<Rightarrow> (rat \<Rightarrow> string) \<Rightarrow> int \<Rightarrow> int \<Rightarrow> int list \<Rightarrow> json list \<Rightarrow> bool"
where
  "sql_pages_accepted sha fadd ftext page_start page_end seen [] = True"
| "sql_pages_accepted sha fadd ftext page_start page_end seen (v_page # rest) =
     (let text = (case arrow_text ftext (Some v_page) ''page'' of None \<Rightarrow> [] | Some t \<Rightarrow> t);
          kind = arrow_text ftext (Some v_page) ''kind''
      in jsonb_typeof v_page = ''object'' \<and> text \<noteq> [] \<and> (\<forall>c \<in> set text. is_digit c) \<and>
         (case sql_integer text of
            None \<Rightarrow> False
          | Some n \<Rightarrow>
              page_start \<le> n \<and> n \<le> page_end \<and> n \<notin> set seen \<and>
              (if kind = Some ''text_quote'' then \<not> sql_text_quote_rejected sha ftext v_page
               else if kind = Some ''ocr_regions'' then \<not> sql_ocr_regions_rejected fadd v_page
               else False) \<and>
              sql_pages_accepted sha fadd ftext page_start page_end (seen @ [n]) rest))"

definition v5_is_valid_highlight_anchor ::
  "(string \<Rightarrow> string) \<Rightarrow> (rat \<Rightarrow> rat \<Rightarrow> rat) \<Rightarrow> (rat \<Rightarrow> string) \<Rightarrow> json \<Rightarrow> int \<Rightarrow> int \<Rightarrow> bool" where
  "v5_is_valid_highlight_anchor sha fadd ftext anchor page_start page_end =
     (let pages = arrow (Some anchor) ''pages''
      in if sql_if (sql_ors
              [Some (jsonb_typeof anchor \<noteq> ''object''),
               sql_ne (arrow_text ftext (Some anchor) ''version'') (Some ''1''),
               sql_ne (arrow_text ftext (Some anchor) ''normalization'') (Some HIGHLIGHT_NORMALIZATION),
               sql_ne (map_option jsonb_typeof pages) (Some ''array''),
               not_between (array_length pages) 1 32,
               Some (page_start < 1), Some (page_end < page_start)])
         then False
         else sql_pages_accepted sha fadd ftext page_start page_end [] (json_elements pages))"

section \<open>Selectors\<close>

lemma find_from_iff:
  assumes "needle \<noteq> []"
  shows "find_from hay needle start = Some j \<longleftrightarrow>
     start \<le> j \<and> prefix needle (drop j hay) \<and>
     (\<forall>k. start \<le> k \<and> k < j \<longrightarrow> \<not> prefix needle (drop k hay))"
    (is "?L = ?R")
proof -
  have bound: "k < length hay" if "prefix needle (drop k hay)" for k
    using that assms by (cases "k < length hay") auto
  have least: "\<exists>i. find_from hay needle start = Some i \<and> i \<le> k"
    if "start \<le> k" "prefix needle (drop k hay)" for k
    using find_at_first [OF refl, of start k "drop start hay" needle] bound [OF that(2)] that
    by (auto simp: find_from_def)
  have sound: "start \<le> i \<and> prefix needle (drop i hay)" if "find_from hay needle start = Some i" for i
    using find_from_Some [OF that] by (metis take_is_prefix)
  show ?thesis
  proof
    assume L: ?L
    then show ?R using sound [OF L] least by fastforce
  next
    assume R: ?R
    then obtain i where i: "find_from hay needle start = Some i" "i \<le> j" using least by blast
    with sound [OF i(1)] R have "i = j" by (metis order_le_less)
    with i show ?L by simp
  qed
qed

lemma find_from_None_iff:
  assumes "needle \<noteq> []"
  shows "find_from hay needle start = None \<longleftrightarrow> (\<forall>k. start \<le> k \<longrightarrow> \<not> prefix needle (drop k hay))"
proof -
  have "\<exists>i. find_from hay needle start = Some i"
    if k: "start \<le> k" "prefix needle (drop k hay)" for k
  proof -
    define j where "j = (LEAST k. start \<le> k \<and> prefix needle (drop k hay))"
    have "start \<le> j \<and> prefix needle (drop j hay)"
      unfolding j_def by (rule LeastI [where k = k]) (use k in simp)
    moreover have "\<not> prefix needle (drop i hay)" if "start \<le> i" "i < j" for i
      using not_less_Least [of i "\<lambda>k. start \<le> k \<and> prefix needle (drop k hay)"] that
      unfolding j_def by blast
    ultimately show ?thesis using find_from_iff [OF assms] by metis
  qed
  then show ?thesis using find_from_iff [OF assms] by (metis not_None_eq option.distinct(1))
qed

lemma set_match_offsets_from:
  "needle \<noteq> [] \<Longrightarrow>
   set (match_offsets_from hay needle start) = {i. start \<le> i \<and> prefix needle (drop i hay)}"
proof (induction hay needle start rule: match_offsets_from.induct)
  case (1 hay needle start)
  show ?case
  proof (cases "find_from hay needle start")
    case None
    then have "\<forall>k. start \<le> k \<longrightarrow> \<not> prefix needle (drop k hay)"
      by (simp add: find_from_None_iff [OF "1.prems"])
    with None show ?thesis by (simp add: match_offsets_from.simps [of hay needle start])
  next
    case (Some j)
    have rest: "set (match_offsets_from hay needle (j + 1)) = {i. j + 1 \<le> i \<and> prefix needle (drop i hay)}"
      using "1.IH" [OF Some "1.prems"] .
    have j: "start \<le> j" "prefix needle (drop j hay)"
        "\<And>k. start \<le> k \<Longrightarrow> k < j \<Longrightarrow> \<not> prefix needle (drop k hay)"
      using Some find_from_iff [OF "1.prems"] by auto
    then have "{i. start \<le> i \<and> prefix needle (drop i hay)} =
        insert j {i. j + 1 \<le> i \<and> prefix needle (drop i hay)}"
      by (auto simp: Suc_le_eq) (metis linorder_neqE_nat)
    with rest Some show ?thesis by (simp add: match_offsets_from.simps [of hay needle start])
  qed
qed

lemma set_match_offsets:
  "needle \<noteq> [] \<Longrightarrow> set (match_offsets hay needle) = {i. prefix needle (drop i hay)}"
  by (simp add: match_offsets_def set_match_offsets_from)

text \<open>The slices compared in the code are the text right before and right after the match.\<close>

lemma selects_iff:
  assumes "i \<le> length page"
  shows "selects page n pre suf i \<longleftrightarrow> suffix pre (take i page) \<and> prefix suf (drop (i + n) page)"
proof -
  have "suffix pre (drop (i - length pre) (take i page)) \<longleftrightarrow> suffix pre (take i page)"
  proof
    assume "suffix pre (drop (i - length pre) (take i page))"
    then show "suffix pre (take i page)" using suffix_drop suffix_order.trans by blast
  next
    assume "suffix pre (take i page)"
    then obtain p where p: "take i page = p @ pre" by (auto simp: suffix_def)
    have "length (take i page) = length (p @ pre)" using p by simp
    then have "i - length pre = length p" using assms by simp
    with p show "suffix pre (drop (i - length pre) (take i page))" by simp
  qed
  moreover have "prefix suf (take (length suf) (drop (i + n) page)) \<longleftrightarrow> prefix suf (drop (i + n) page)"
    by (rule prefix_take_self)
  ultimately show ?thesis by (simp add: selects_def)
qed

lemma prefix_drop_bound: "needle \<noteq> [] \<Longrightarrow> prefix needle (drop i hay) \<Longrightarrow> i + length needle \<le> length hay"
  using prefix_length_le [of needle "drop i hay"] by (cases "i \<le> length hay") auto

definition quote_anchor :: "(string \<Rightarrow> string) \<Rightarrow> int \<Rightarrow> string \<Rightarrow> string \<Rightarrow> string \<Rightarrow> (string \<times> json) list" where
  "quote_anchor sha page exact pre suf =
     [(''version'', JInt 1), (''normalization'', JStr HIGHLIGHT_NORMALIZATION),
      (''pages'', JArr [JObj [(''page'', JInt page), (''kind'', JStr ''text_quote''),
         (''selector'', JObj [(''exact'', JStr exact), (''prefix'', JStr pre), (''suffix'', JStr suf),
                              (''sha256'', JStr (sha exact))])]])]"

lemma text_quote_anchor_InrD:
  assumes "text_quote_anchor nfkc sha fadd page page_text chunk_text start_hint = Inr anchor"
  defines "P \<equiv> normalize_highlight_text nfkc page_text"
    and "E \<equiv> normalize_highlight_text nfkc chunk_text"
  obtains start pre suf where
    "E \<noteq> []" "length E \<le> 16000" "start \<in> set (match_offsets P E)"
    "\<And>h. start_hint = Some h \<Longrightarrow> int start = h"
    "length pre \<le> 256" "length suf \<le> 256"
    "filter (selects P (length E) pre suf) (match_offsets P E) = [start]"
    "anchor = quote_anchor sha page E pre suf"
    "validate_highlight_anchor sha fadd anchor page page = Inr ()"
proof -
  let ?found = "match_offsets P E"
  let ?pre = "\<lambda>start. drop (start - MAX_CONTEXT_CHARACTERS) (take start P)"
  let ?suf = "\<lambda>start. take MAX_CONTEXT_CHARACTERS (drop (start + length E) P)"
  let ?start = "case start_hint of
      None \<Rightarrow> (case ?found of [start] \<Rightarrow> Inr start
         | _ \<Rightarrow> Inl ''digital chunk does not resolve to one authoritative page range'')
    | Some hint \<Rightarrow> if hint \<notin> set (map int ?found)
         then Inl ''digital chunk offset does not match authoritative page text'' else Inr (nat hint)"
  have E: "E \<noteq> []" "length E \<le> 16000"
    using assms(1) by (auto simp: text_quote_anchor_def E_def [symmetric] Let_def anchor_limits
        split: if_splits)
  obtain start where start: "?start = Inr start"
      "filter (selects P (length E) (?pre start) (?suf start)) ?found = [start]"
      "rbind (validate_highlight_anchor sha fadd (quote_anchor sha page E (?pre start) (?suf start)) page page)
         (\<lambda>_. Inr (quote_anchor sha page E (?pre start) (?suf start))) = Inr anchor"
    using assms(1) unfolding text_quote_anchor_def P_def [symmetric] E_def [symmetric] Let_def
      quote_anchor_def [symmetric]
    by (auto simp: rbind_Inr_iff split: if_splits)
  have "start \<in> set ?found" and hint: "\<And>h. start_hint = Some h \<Longrightarrow> int start = h"
    using start(1) by (auto split: option.splits list.splits if_splits)
  moreover have "length (?pre start) \<le> 256" "length (?suf start) \<le> 256"
    by (auto simp: anchor_limits)
  moreover have "anchor = quote_anchor sha page E (?pre start) (?suf start)"
      "validate_highlight_anchor sha fadd anchor page page = Inr ()"
    using start(3) by (auto simp: rbind_Inr_iff)
  ultimately show ?thesis using that E start(2) by blast
qed

section \<open>Anchors pass the database constraint\<close>

lemma sql_integer_show:
  "0 \<le> i \<Longrightarrow> i \<le> 2147483647 \<Longrightarrow> sql_integer (show_int i) = Some i"
  by (simp add: sql_integer_def show_int_def digits_value_show)

lemma show_int_page: "0 \<le> i \<Longrightarrow> show_int i \<noteq> [] \<and> (\<forall>c \<in> set (show_int i). is_digit c)"
  using show_nat_digits by (simp add: show_int_def)

lemma show_int_one: "show_int 1 = ''1''"
  by code_simp

lemma region_json_accepted:
  "validate_region fadd (region_json r) = Inr () \<Longrightarrow> \<not> sql_region_rejected fadd (region_json r)"
  by (cases r) (auto simp: validate_region_def region_json_def dict_get_def sql_region_rejected_def
      Let_def split: if_splits)

lemma rmap_unit_all: "rmap f xs = Inr ys \<Longrightarrow> \<forall>x \<in> set xs. \<exists>y. f x = Inr y"
  by (induction xs arbitrary: ys) (auto simp: rbind_Inr_iff)

lemma quote_page_accepted:
  assumes "1 \<le> page" "page \<le> 2147483647"
    and "validate_highlight_anchor sha fadd (quote_anchor sha page E pre suf) page page = Inr ()"
  shows "v5_is_valid_highlight_anchor sha fadd ftext (JObj (quote_anchor sha page E pre suf)) page page"
  using assms show_int_page [of page] sql_integer_show [of page]
  by (auto simp: quote_anchor_def v5_is_valid_highlight_anchor_def validate_highlight_anchor_def
      dict_get_def dict_has_def arrow_text_def sql_text_quote_rejected_def validate_text_quote_def
      show_int_one anchor_limits Suc_le_eq Let_def split: if_splits)

lemma regions_page_accepted:
  assumes "1 \<le> page" "page \<le> 2147483647" "ocr_regions_anchor sha fadd page regions = Inr anchor"
  shows "v5_is_valid_highlight_anchor sha fadd ftext (JObj anchor) page page"
proof -
  let ?rs = "map region_json (fromkeys regions)"
  have "\<forall>r \<in> set ?rs. validate_region fadd r = Inr ()"
    using assms(3) rmap_unit_all [of "validate_region fadd" ?rs]
    by (auto simp: ocr_regions_anchor_def validate_highlight_anchor_def validate_ocr_regions_def
        dict_get_def Let_def rbind_Inr_iff split: if_splits)
  then have rs: "\<not> list_ex (sql_region_rejected fadd) ?rs"
    using region_json_accepted by (auto simp: list_ex_iff)
  have len: "1 \<le> length (fromkeys regions)" "length (fromkeys regions) \<le> 256"
    using assms(3) by (auto simp: ocr_regions_anchor_def validate_highlight_anchor_def
        validate_ocr_regions_def dict_get_def Let_def rbind_Inr_iff anchor_limits split: if_splits)
  then show ?thesis
    using assms rs show_int_page [of page] sql_integer_show [of page]
    by (auto simp: ocr_regions_anchor_def v5_is_valid_highlight_anchor_def
        arrow_text_def sql_ocr_regions_rejected_def show_int_one Let_def rbind_Inr_iff split: if_splits)
qed

section \<open>Properties\<close>

text \<open>
  C13: A digital citation anchor selects one place of its page. When \<open>text_quote_anchor\<close>
  succeeds, the normalised chunk text occurs in the normalised page text at some offset (the
  hinted one, if a hint was given), the stored prefix and suffix have at most 256 characters
  and are the text right before and right after that occurrence, and no other occurrence of
  the chunk text on the page is preceded by the prefix and followed by the suffix.
\<close>

theorem text_quote_anchor_unique:
  assumes "text_quote_anchor nfkc sha fadd page page_text chunk_text start_hint = Inr anchor"
  shows "\<exists>start pre suf.
    let P = normalize_highlight_text nfkc page_text; E = normalize_highlight_text nfkc chunk_text in
    anchor = quote_anchor sha page E pre suf \<and>
    (\<forall>h. start_hint = Some h \<longrightarrow> int start = h) \<and>
    length pre \<le> 256 \<and> length suf \<le> 256 \<and>
    (\<forall>i. prefix E (drop i P) \<and> suffix pre (take i P) \<and> prefix suf (drop (i + length E) P)
         \<longleftrightarrow> i = start)"
proof -
  define P E where "P = normalize_highlight_text nfkc page_text"
    and "E = normalize_highlight_text nfkc chunk_text"
  obtain start pre suf where
    E: "E \<noteq> []" and hint: "\<And>h. start_hint = Some h \<Longrightarrow> int start = h"
    and len: "length pre \<le> 256" "length suf \<le> 256"
    and filt: "filter (selects P (length E) pre suf) (match_offsets P E) = [start]"
    and anchor: "anchor = quote_anchor sha page E pre suf"
    by (rule text_quote_anchor_InrD [OF assms, folded P_def E_def]) blast
  have "prefix E (drop i P) \<and> suffix pre (take i P) \<and> prefix suf (drop (i + length E) P) \<longleftrightarrow> i = start" for i
  proof -
    have "i \<in> set (filter (selects P (length E) pre suf) (match_offsets P E)) \<longleftrightarrow> i = start"
      using filt by simp
    then have "prefix E (drop i P) \<and> selects P (length E) pre suf i \<longleftrightarrow> i = start"
      by (simp add: set_match_offsets [OF E])
    then show ?thesis using prefix_drop_bound [OF E, of i P] selects_iff [of i P] by auto
  qed
  then show ?thesis using anchor hint len unfolding Let_def P_def [symmetric] E_def [symmetric]
    by blast
qed

theorem text_quote_anchor_unique_witness:
  "\<exists>anchor pre suf.
     text_quote_anchor id (\<lambda>_. replicate 64 CHR ''a'') (+) 1 ''ab  cd ab'' ''ab'' (Some 6) = Inr anchor \<and>
     anchor = quote_anchor (\<lambda>_. replicate 64 CHR ''a'') 1 ''ab'' pre suf \<and>
     (\<forall>i. prefix ''ab'' (drop i ''ab cd ab'') \<and> suffix pre (take i ''ab cd ab'') \<and>
          prefix suf (drop (i + 2) ''ab cd ab'') \<longleftrightarrow> i = 6)"
proof -
  let ?sha = "\<lambda>_. replicate 64 CHR ''a''"
  let ?r = "text_quote_anchor id ?sha (+) 1 ''ab  cd ab'' ''ab'' (Some 6)"
  have "\<not> isl ?r" by code_simp
  then obtain anchor where a: "?r = Inr anchor" using not_isl_Inr by blast
  have "normalize_highlight_text id ''ab'' = ''ab''"
    and "normalize_highlight_text id ''ab  cd ab'' = ''ab cd ab''" by code_simp+
  then show ?thesis using text_quote_anchor_unique [OF a] a unfolding Let_def by auto
qed

text \<open>
  C14: Every anchor the ingestion code builds satisfies the database constraint. For a page
  number in the range of a PostgreSQL integer, whatever \<open>text_quote_anchor\<close> or
  \<open>ocr_regions_anchor\<close> returns is accepted by \<open>v5_is_valid_highlight_anchor\<close> for that page.
\<close>

theorem built_anchors_satisfy_constraint:
  assumes "1 \<le> page" "page \<le> 2147483647"
    and "text_quote_anchor nfkc sha fadd page page_text chunk_text start_hint = Inr anchor \<or>
         ocr_regions_anchor sha fadd page regions = Inr anchor"
  shows "v5_is_valid_highlight_anchor sha fadd ftext (JObj anchor) page page"
  using assms(3)
proof
  assume "text_quote_anchor nfkc sha fadd page page_text chunk_text start_hint = Inr anchor"
  then show ?thesis by (rule text_quote_anchor_InrD) (use assms(1,2) quote_page_accepted in blast)
next
  assume "ocr_regions_anchor sha fadd page regions = Inr anchor"
  with assms(1,2) show ?thesis by (rule regions_page_accepted)
qed

theorem built_anchors_satisfy_constraint_witness:
  "\<exists>anchor. ocr_regions_anchor (\<lambda>_. []) (+) 3 [(1/10, 1/10, 1/2, 1/2)] = Inr anchor \<and>
     v5_is_valid_highlight_anchor (\<lambda>_. []) (+) (\<lambda>_. []) (JObj anchor) 3 3"
proof -
  have "\<not> isl (ocr_regions_anchor (\<lambda>_. []) (+) 3 [(1/10, 1/10, 1/2, 1/2)])" by code_simp
  then obtain anchor
    where a: "ocr_regions_anchor (\<lambda>_. []) (+) 3 [(1/10, 1/10, 1/2, 1/2)] = Inr anchor"
    using not_isl_Inr by blast
  have "v5_is_valid_highlight_anchor (\<lambda>_. []) (+) (\<lambda>_. []) (JObj anchor) 3 3"
    by (rule built_anchors_satisfy_constraint [OF _ _ disjI2 [OF a]]) simp_all
  with a show ?thesis by blast
qed

text \<open>
  The database constraint is weaker than the application's check. SQL conditions over
  missing keys are null, so an anchor without version, normalisation and pages passes
  \<open>v5_is_valid_highlight_anchor\<close>, as does an OCR page without regions, while
  \<open>validate_highlight_anchor\<close> rejects both.
\<close>

theorem constraint_accepts_incomplete_anchors:
  "v5_is_valid_highlight_anchor sha fadd ftext (JObj []) 1 1 \<and>
   validate_highlight_anchor sha fadd [] 1 1 = Inl ''unsupported highlight anchor version'' \<and>
   v5_is_valid_highlight_anchor sha fadd ftext
     (JObj [(''pages'', JArr [JObj [(''page'', JInt 1), (''kind'', JStr ''ocr_regions'')]])]) 1 1"
proof -
  have "is_digit CHR ''1''" "sql_integer ''1'' = Some 1" by code_simp+
  then show ?thesis
    by (auto simp: v5_is_valid_highlight_anchor_def validate_highlight_anchor_def dict_get_def
        arrow_text_def sql_ocr_regions_rejected_def show_int_one Let_def)
qed

end
