(* ===== verification/Chunking.thy ===== *)
theory Chunking
  imports Anchors
begin

text \<open>
  services/chunking.py with the page types of services/parsing/types.py and the chunk
  identifiers of services/identity.py: a parsed page becomes units (sentences, split where
  they exceed the token limit), units are packed into overlapping chunks, and every chunk
  becomes a draft with its identifier, checksum and citation anchor. \<open>uuid5\<close> and
  \<open>uuid_text\<close> stand for the standard library's name-based identifiers and their text. A
  \<open>ValueError\<close> (and its subclass \<open>HighlightAnchorError\<close>) is its message.
\<close>

section \<open>Pages\<close>

datatype ParseMethod = DIRECT | OCR

datatype PageRoutingMode = RouteDirect | RouteOcr | RouteHybrid

record ParsedBlock =
  block_id :: int
  block_order :: int
  block_text :: string
  block_region :: region
  block_label :: "string option"

record ParsedFragment =
  fragment_method :: ParseMethod
  fragment_text :: string
  fragment_blocks :: "ParsedBlock list"

record PageRoutingAssessment =
  assessed_mode :: PageRoutingMode
  reason_codes :: "string list"
  extraction_succeeded :: bool
  meaningful_characters :: int
  printable_ratio :: rat
  alphanumeric_ratio :: rat
  invalid_character_count :: int
  repeated_glyph_run :: int
  image_object_count :: int
  displayed_image_coverage :: rat
  vector_drawing_count :: int
  unresolved_visual_geometry :: bool

record ParsedPage =
  page_number :: int
  page_text :: string
  page_method :: ParseMethod
  page_blocks :: "ParsedBlock list"
  routing_mode :: PageRoutingMode
  page_fragments :: "ParsedFragment list"
  page_assessment :: "PageRoutingAssessment option"

text \<open>\<open>ParsedPage(...)\<close> with the default that \<open>__post_init__\<close> gives the routing mode.\<close>

definition parsed_page ::
  "int \<Rightarrow> string \<Rightarrow> ParseMethod \<Rightarrow> ParsedBlock list \<Rightarrow> PageRoutingMode option \<Rightarrow>
   ParsedFragment list \<Rightarrow> PageRoutingAssessment option \<Rightarrow> ParsedPage" where
  "parsed_page n t m bs r fs a =
     \<lparr>page_number = n, page_text = t, page_method = m, page_blocks = bs,
      routing_mode = (case r of Some v \<Rightarrow> v | None \<Rightarrow> if m = OCR then RouteOcr else RouteDirect),
      page_fragments = fs, page_assessment = a\<rparr>"

section \<open>Chunker\<close>

record DocumentChunker =
  target_tokens :: nat
  max_tokens :: nat
  overlap_tokens :: nat
  parser_version :: string
  chunking_version :: string
  embedding_version :: string
  schema_version :: string

text \<open>The guard of \<open>DocumentChunker.__init__\<close>.\<close>

definition chunker_ok :: "DocumentChunker \<Rightarrow> bool" where
  "chunker_ok k \<longleftrightarrow> overlap_tokens k < target_tokens k \<and> target_tokens k \<le> max_tokens k"

record chunk_unit =
  u_text :: string
  u_section :: "string option"
  u_regions :: "region list"
  u_start :: "int option"
  u_end :: "int option"

definition fragment_pages :: "ParsedPage \<Rightarrow> ParsedPage list" where
  "fragment_pages page =
     (if page_fragments page = [] then [page]
      else map (\<lambda>f. parsed_page (page_number page) (fragment_text f) (fragment_method f)
                      (fragment_blocks f) (Some (routing_mode page)) [] (page_assessment page))
             (filter (\<lambda>f. strip (fragment_text f) \<noteq> []) (page_fragments page)))"

subsection \<open>Paragraphs and sentences\<close>

definition newline :: char where "newline = char_of (10::nat)"

text \<open>
  \<open>re.split(r"\n\s*\n", text)\<close>: a match opens at a newline whose following white space holds
  another newline and ends, greedily, with the last newline of that white space.
\<close>

function split_paragraphs :: "string \<Rightarrow> string \<Rightarrow> string list" where
  "split_paragraphs acc [] = [rev acc]"
| "split_paragraphs acc (c # cs) =
     (let w = takeWhile is_space cs
      in if c = newline \<and> newline \<in> set w
         then rev acc # split_paragraphs []
                (rev (takeWhile (\<lambda>d. d \<noteq> newline) (rev w)) @ dropWhile is_space cs)
         else split_paragraphs (c # acc) cs)"
  by pat_completeness auto
termination
proof (relation "measure (\<lambda>(acc, s). length s)")
  fix acc c cs w
  assume "w = takeWhile is_space cs" and "c = newline \<and> newline \<in> set w"
  have "length (takeWhile (\<lambda>d. d \<noteq> newline) (rev w)) \<le> length w"
    by (metis length_rev length_takeWhile_le)
  moreover have "length cs = length w + length (dropWhile is_space cs)"
    using \<open>w = takeWhile is_space cs\<close> by (metis length_append takeWhile_dropWhile_id)
  ultimately show "(([], rev (takeWhile (\<lambda>d. d \<noteq> newline) (rev w)) @ dropWhile is_space cs), acc, c # cs)
      \<in> measure (\<lambda>(acc, s). length s)" by simp
qed auto

text \<open>
  \<open>SENTENCE_BOUNDARY.split(text)\<close>: white space that directly follows a full stop, an
  exclamation mark or a question mark separates sentences.
\<close>

definition ends_sentence :: "char \<Rightarrow> bool" where
  "ends_sentence c = (c = CHR ''.'' \<or> c = CHR ''!'' \<or> c = CHR ''?'')"

function split_sentences :: "bool \<Rightarrow> string \<Rightarrow> string \<Rightarrow> string list" where
  "split_sentences ended acc [] = [rev acc]"
| "split_sentences ended acc (c # cs) =
     (if ended \<and> is_space c then rev acc # split_sentences False [] (dropWhile is_space cs)
      else split_sentences (ends_sentence c) (c # acc) cs)"
  by pat_completeness auto
termination
  by (relation "measure (\<lambda>(ended, acc, s). length s)") (auto simp: le_imp_less_Suc length_dropWhile_le)

definition slice :: "'a list \<Rightarrow> nat \<Rightarrow> nat \<Rightarrow> 'a list" where
  "slice xs a b = drop a (take b xs)"

definition split_oversized :: "DocumentChunker \<Rightarrow> string \<Rightarrow> string list" where
  "split_oversized k text =
     (let found = token_spans 0 text
      in if length found \<le> max_tokens k then [text]
         else map (\<lambda>g. strip (slice text (fst (hd g)) (snd (last g)))) (batches (max_tokens k) found))"

subsection \<open>Units\<close>

text \<open>
  The parts of a page in reading order, each with the section heading in force and the
  regions of its block: the three nested loops of \<open>_units\<close> without the offsets.
\<close>

definition paragraph_parts :: "DocumentChunker \<Rightarrow> string \<Rightarrow> string list" where
  "paragraph_parts k paragraph =
     concat (map (split_oversized k)
       (filter (\<lambda>s. s \<noteq> []) (map strip (split_sentences False [] paragraph))))"

fun page_parts ::
  "DocumentChunker \<Rightarrow> string option \<Rightarrow> (string \<times> region list) list \<Rightarrow>
   (string \<times> string option \<times> region list) list" where
  "page_parts k section [] = []"
| "page_parts k section ((raw, regions) # rest) =
     (let paragraph = strip raw
      in if paragraph = [] then page_parts k section rest
         else let heading = strip (drop 2 paragraph);
                  section' = (if starts_with paragraph ''# ''
                              then (if heading \<noteq> [] then Some heading else section) else section)
              in map (\<lambda>p. (p, section', regions)) (paragraph_parts k paragraph)
                   @ page_parts k section' rest)"

fun locate_units ::
  "(string \<Rightarrow> string) \<Rightarrow> string \<Rightarrow> nat \<Rightarrow> (string \<times> string option \<times> region list) list \<Rightarrow>
   (string, chunk_unit list) result" where
  "locate_units nfkc normalized_page cursor [] = Inr []"
| "locate_units nfkc normalized_page cursor ((part, section, regions) # rest) =
     (let normalized = normalize_highlight_text nfkc part
      in case find_from normalized_page normalized cursor of
           None \<Rightarrow> Inl ''chunk unit does not map to source page''
         | Some start \<Rightarrow>
             let stop = start + length normalized
             in rbind (locate_units nfkc normalized_page stop rest)
                  (\<lambda>us. Inr (\<lparr>u_text = part, u_section = section, u_regions = regions,
                              u_start = Some (int start), u_end = Some (int stop)\<rparr> # us)))"

definition page_units ::
  "(string \<Rightarrow> string) \<Rightarrow> DocumentChunker \<Rightarrow> ParsedPage \<Rightarrow> (string, chunk_unit list) result" where
  "page_units nfkc k page =
     (if page_blocks page \<noteq> []
      then Inr (map (\<lambda>(part, section, regions).
             \<lparr>u_text = part, u_section = section, u_regions = regions, u_start = None, u_end = None\<rparr>)
             (page_parts k None (map (\<lambda>b. (block_text b, [block_region b])) (page_blocks page))))
      else locate_units nfkc (normalize_highlight_text nfkc (page_text page)) 0
             (page_parts k None
               (map (\<lambda>p. (p, [])) (split_paragraphs [] (strip (page_text page))))))"

subsection \<open>Packing\<close>

definition blank_line :: string where "blank_line = [newline, newline]"

fun render :: "chunk_unit list \<Rightarrow> string \<times> string option" where
  "render us =
     (strip (join blank_line (map u_text us)),
      case filter (\<lambda>s. s \<noteq> None \<and> s \<noteq> Some []) (map u_section (rev us)) of [] \<Rightarrow> None | s # _ \<Rightarrow> s)"

text \<open>The loop of \<open>_overlap\<close> over the reversed units; \<open>selected\<close> is in the units' order.\<close>

fun overlap_loop ::
  "(string \<Rightarrow> string) \<Rightarrow> nat \<Rightarrow> chunk_unit list \<Rightarrow> chunk_unit list \<Rightarrow> nat \<Rightarrow> chunk_unit list" where
  "overlap_loop nfkc limit [] selected acc = selected"
| "overlap_loop nfkc limit (u # us) selected acc =
     (let tokens = count_tokens (u_text u)
      in if selected \<noteq> [] \<and> acc + tokens > limit then selected
         else if tokens > limit then
           (let found = token_spans 0 (u_text u);
                text = strip (drop (fst (found ! (length found - limit))) (u_text u));
                normalized = normalize_highlight_text nfkc text
            in [u\<lparr>u_text := text,
                  u_start := map_option (\<lambda>e. e - int (length normalized)) (u_end u)\<rparr>])
         else overlap_loop nfkc limit us (u # selected) (acc + tokens))"

definition overlap_units ::
  "(string \<Rightarrow> string) \<Rightarrow> DocumentChunker \<Rightarrow> chunk_unit list \<Rightarrow> chunk_unit list" where
  "overlap_units nfkc k units =
     (if overlap_tokens k = 0 then [] else overlap_loop nfkc (overlap_tokens k) (rev units) [] 0)"

type_synonym packed = "string \<times> string option \<times> chunk_unit list"

fun pack_loop ::
  "(string \<Rightarrow> string) \<Rightarrow> DocumentChunker \<Rightarrow> packed list \<Rightarrow> chunk_unit list \<Rightarrow> nat \<Rightarrow>
   chunk_unit list \<Rightarrow> packed list" where
  "pack_loop nfkc k chunks current current_tokens [] =
     (if current = [] then chunks
      else let (text, section) = render current
           in if chunks = [] \<or> text \<noteq> fst (last chunks)
              then chunks @ [(text, section, current)] else chunks)"
| "pack_loop nfkc k chunks current current_tokens (u # rest) =
     (let unit_tokens = count_tokens (u_text u)
      in if current \<noteq> [] \<and> current_tokens + unit_tokens > target_tokens k then
           (let (text, section) = render current;
                kept = overlap_units nfkc k current;
                kept_tokens = count_tokens (join blank_line (map u_text kept));
                (start, start_tokens) =
                  (if kept \<noteq> [] \<and> kept_tokens + unit_tokens > max_tokens k then ([], 0)
                   else (kept, kept_tokens))
            in pack_loop nfkc k (chunks @ [(text, section, current)])
                 (start @ [u]) (start_tokens + unit_tokens) rest)
         else pack_loop nfkc k chunks (current @ [u]) (current_tokens + unit_tokens) rest)"

definition pack :: "(string \<Rightarrow> string) \<Rightarrow> DocumentChunker \<Rightarrow> chunk_unit list \<Rightarrow> packed list" where
  "pack nfkc k units = pack_loop nfkc k [] [] 0 units"

section \<open>Drafts\<close>

definition CHUNK_NAMESPACE :: string where
  "CHUNK_NAMESPACE = ''699aedee-ec6b-4a8f-a775-70584ac78eed''"

definition chunk_uuid ::
  "(string \<Rightarrow> string \<Rightarrow> uuid) \<Rightarrow> (uuid \<Rightarrow> string) \<Rightarrow> uuid \<Rightarrow> nat \<Rightarrow> int \<Rightarrow> string \<Rightarrow> string \<Rightarrow> uuid" where
  "chunk_uuid uuid5 uuid_text document_id ordinal page text_sha256 schema =
     uuid5 CHUNK_NAMESPACE
       (join '':'' [uuid_text document_id, show_nat ordinal, show_int page, text_sha256, schema])"

record ChunkDraft =
  draft_id :: uuid
  draft_document_id :: uuid
  draft_ordinal :: nat
  draft_filename :: string
  draft_page_start :: int
  draft_page_end :: int
  draft_section :: "string option"
  draft_text :: string
  draft_token_count :: nat
  draft_text_sha256 :: string
  draft_source_sha256 :: string
  draft_parse_method :: ParseMethod
  draft_parser_version :: string
  draft_chunking_version :: string
  draft_embedding_version :: string
  draft_schema_version :: string
  draft_citation_label :: string
  draft_highlight_anchor :: "(string \<times> json) list"

text \<open>The libraries the chunker calls, as one parameter.\<close>

record chunk_libs =
  lib_nfkc :: "string \<Rightarrow> string"
  lib_sha256 :: "string \<Rightarrow> string"
  lib_fadd :: "rat \<Rightarrow> rat \<Rightarrow> rat"
  lib_uuid5 :: "string \<Rightarrow> string \<Rightarrow> uuid"
  lib_uuid_text :: "uuid \<Rightarrow> string"

definition make_draft ::
  "chunk_libs \<Rightarrow> DocumentChunker \<Rightarrow> uuid \<Rightarrow> string \<Rightarrow> string \<Rightarrow> ParsedPage \<Rightarrow> nat \<Rightarrow> packed \<Rightarrow>
   (string, ChunkDraft) result" where
  "make_draft L k document_id filename source_sha256 page ordinal p =
     (case p of (text, section, selected) \<Rightarrow>
        let checksum = lib_sha256 L text in
        rbind (if page_method page = OCR
               then ocr_regions_anchor (lib_sha256 L) (lib_fadd L) (page_number page)
                      (concat (map u_regions selected))
               else text_quote_anchor (lib_nfkc L) (lib_sha256 L) (lib_fadd L) (page_number page)
                      (page_text page) text (u_start (hd selected)))
          (\<lambda>anchor. Inr
            \<lparr>draft_id = chunk_uuid (lib_uuid5 L) (lib_uuid_text L) document_id ordinal
                (page_number page) checksum (schema_version k),
             draft_document_id = document_id, draft_ordinal = ordinal, draft_filename = filename,
             draft_page_start = page_number page, draft_page_end = page_number page,
             draft_section = section, draft_text = text, draft_token_count = count_tokens text,
             draft_text_sha256 = checksum, draft_source_sha256 = source_sha256,
             draft_parse_method = page_method page, draft_parser_version = parser_version k,
             draft_chunking_version = chunking_version k,
             draft_embedding_version = embedding_version k, draft_schema_version = schema_version k,
             draft_citation_label =
               ''p'' @ show_int (page_number page) @ '':c'' @ show_nat ordinal,
             draft_highlight_anchor = anchor\<rparr>))"

fun draft_chunks ::
  "chunk_libs \<Rightarrow> DocumentChunker \<Rightarrow> uuid \<Rightarrow> string \<Rightarrow> string \<Rightarrow> ParsedPage \<Rightarrow> nat \<Rightarrow> packed list \<Rightarrow>
   (string, ChunkDraft list) result" where
  "draft_chunks L k document_id filename source page ordinal [] = Inr []"
| "draft_chunks L k document_id filename source page ordinal (p # ps) =
     rbind (make_draft L k document_id filename source page ordinal p) (\<lambda>d.
       rbind (draft_chunks L k document_id filename source page (Suc ordinal) ps) (\<lambda>ds. Inr (d # ds)))"

fun draft_pages ::
  "chunk_libs \<Rightarrow> DocumentChunker \<Rightarrow> uuid \<Rightarrow> string \<Rightarrow> string \<Rightarrow> nat \<Rightarrow> ParsedPage list \<Rightarrow>
   (string, ChunkDraft list) result" where
  "draft_pages L k document_id filename source ordinal [] = Inr []"
| "draft_pages L k document_id filename source ordinal (page # pages) =
     rbind (page_units (lib_nfkc L) k page) (\<lambda>units.
       rbind (draft_chunks L k document_id filename source page ordinal (pack (lib_nfkc L) k units))
         (\<lambda>ds. rbind (draft_pages L k document_id filename source (ordinal + length ds) pages)
           (\<lambda>es. Inr (ds @ es))))"

definition chunk ::
  "chunk_libs \<Rightarrow> DocumentChunker \<Rightarrow> ParsedPage list \<Rightarrow> uuid \<Rightarrow> string \<Rightarrow> string \<Rightarrow>
   (string, ChunkDraft list) result" where
  "chunk L k pages document_id filename source_sha256 =
     draft_pages L k document_id filename source_sha256 0 (concat (map fragment_pages pages))"

section \<open>Token limits\<close>

lemma batches_slice:
  assumes "g \<in> set (batches n xs)"
  shows "\<exists>p. g = take n (drop p xs) \<and> p < length xs \<and> 0 < n"
  using assms
proof (induction n xs rule: batches.induct)
  case (1 n xs)
  show ?case
  proof (cases "g = take n xs")
    case True
    then show ?thesis
      using "1.prems" by (intro exI [of _ 0]) (auto simp: batches.simps [of n xs] split: if_splits)
  next
    case False
    then have "\<not> (xs = [] \<or> n = 0)" "g \<in> set (batches n (drop n xs))"
      using "1.prems" by (auto simp: batches.simps [of n xs] split: if_splits)
    from "1.IH" [OF this] obtain p where "g = take n (drop (p + n) xs)" "p + n < length xs" "0 < n"
      by auto
    then show ?thesis by blast
  qed
qed

text \<open>Every part of an oversized sentence holds as many tokens as its group of matches.\<close>

lemma split_oversized_part:
  assumes "part \<in> set (split_oversized k text)"
  shows "count_tokens part \<le> max_tokens k \<and> (part = text \<or> stripped part \<and> 0 < count_tokens part)"
proof (cases "count_tokens text \<le> max_tokens k")
  case False
  let ?f = "token_spans 0 text"
  obtain g where g: "g \<in> set (batches (max_tokens k) ?f)"
    and part: "part = strip (slice text (fst (hd g)) (snd (last g)))"
    using assms False by (auto simp: split_oversized_def Let_def count_tokens_def)
  obtain p where p: "g = take (max_tokens k) (drop p ?f)" "p < length ?f" "0 < max_tokens k"
    using batches_slice [OF g] by blast
  let ?q = "p + (length g - 1)"
  have len: "0 < length g" "length g \<le> max_tokens k" "p + length g \<le> length ?f" using p by auto
  have "hd g = ?f ! p" using p by (simp add: hd_drop_conv_nth)
  moreover have "last g = ?f ! ?q"
    using p by (simp add: last_take_nth min.commute)
  moreover have "count_tokens (slice text (fst (?f ! p)) (snd (?f ! ?q))) = Suc ?q - p"
    unfolding slice_def by (rule count_tokens_slice) (use len in \<open>simp_all add: count_tokens_def, linarith\<close>)
  ultimately have "count_tokens part = length g" using len by (simp add: part count_tokens_strip)
  then show ?thesis using len part strip_stripped by auto
qed (use assms in \<open>simp add: split_oversized_def Let_def count_tokens_def\<close>)

lemma page_parts_tokens:
  "(part, section, regions) \<in> set (page_parts k s0 paragraphs) \<Longrightarrow> count_tokens part \<le> max_tokens k"
proof (induction k s0 paragraphs rule: page_parts.induct)
  case (2 k s0 raw rs rest)
  then show ?case
    by (auto simp: Let_def paragraph_parts_def dest: split_oversized_part split: if_splits)
qed simp

lemma locate_units_texts:
  "locate_units nfkc page cursor parts = Inr us \<Longrightarrow>
   map (\<lambda>u. (u_text u, u_section u, u_regions u)) us = parts"
  by (induction nfkc page cursor parts arbitrary: us rule: locate_units.induct)
     (auto simp: Let_def rbind_Inr_iff split: option.splits)

definition parts_of :: "DocumentChunker \<Rightarrow> ParsedPage \<Rightarrow> (string \<times> string option \<times> region list) list" where
  "parts_of k page =
     page_parts k None
       (if page_blocks page \<noteq> [] then map (\<lambda>b. (block_text b, [block_region b])) (page_blocks page)
        else map (\<lambda>p. (p, [])) (split_paragraphs [] (strip (page_text page))))"

lemma page_units_texts:
  assumes "page_units nfkc k page = Inr us"
  shows "map u_text us = map fst (parts_of k page)"
proof (cases "page_blocks page = []")
  case True
  then have "map (\<lambda>u. (u_text u, u_section u, u_regions u)) us = parts_of k page"
    using assms locate_units_texts by (auto simp: page_units_def parts_of_def)
  then have "map fst (map (\<lambda>u. (u_text u, u_section u, u_regions u)) us) = map fst (parts_of k page)"
    by (rule arg_cong)
  then show ?thesis by (simp add: comp_def)
qed (use assms in \<open>auto simp: page_units_def parts_of_def comp_def case_prod_beta\<close>)

lemma page_units_tokens:
  assumes "page_units nfkc k page = Inr us" "u \<in> set us"
  shows "count_tokens (u_text u) \<le> max_tokens k"
proof -
  have "u_text u \<in> set (map fst (parts_of k page))"
    using assms page_units_texts by (metis image_eqI list.set_map)
  then show ?thesis using page_parts_tokens by (fastforce simp: parts_of_def)
qed

abbreviation tokens_of :: "chunk_unit list \<Rightarrow> nat" where
  "tokens_of us \<equiv> sum_list (map (\<lambda>u. count_tokens (u_text u)) us)"

lemma is_space_newline: "is_space newline"
  by (simp add: newline_def is_space_def code_def Let_def)

lemma tokens_of_join: "count_tokens (join blank_line (map u_text us)) = tokens_of us"
  by (subst count_tokens_join) (auto simp: blank_line_def is_space_newline comp_def)

lemma tokens_of_render: "count_tokens (fst (render us)) = tokens_of us"
  by (simp add: count_tokens_strip tokens_of_join)

lemma overlap_loop_tokens:
  "acc = tokens_of selected \<Longrightarrow> acc \<le> limit \<Longrightarrow> 0 < limit \<Longrightarrow>
   tokens_of (overlap_loop nfkc limit us selected acc) \<le> limit"
proof (induction nfkc limit us selected acc rule: overlap_loop.induct)
  case (2 nfkc limit u us selected acc)
  let ?t = "count_tokens (u_text u)"
  consider (stop) "selected \<noteq> []" "acc + ?t > limit" | (trim) "selected = []" "?t > limit"
    | (go) "acc + ?t \<le> limit" using 2 by fastforce
  then show ?case
  proof cases
    case trim
    have "count_tokens (drop (fst (token_spans 0 (u_text u) ! (?t - limit))) (u_text u)) = limit"
      using trim "2.prems" by (subst count_tokens_suffix) auto
    then show ?thesis using trim by (simp add: Let_def count_tokens_strip count_tokens_def [symmetric])
  next
    case go
    then have "\<not> (selected \<noteq> [] \<and> limit < acc + ?t)" "\<not> limit < ?t" by auto
    then show ?thesis using go 2 by (simp add: Let_def)
  qed (use 2 in simp)
qed simp

lemma overlap_units_tokens: "tokens_of (overlap_units nfkc k us) \<le> overlap_tokens k"
  by (simp add: overlap_units_def overlap_loop_tokens)

text \<open>What \<open>_pack\<close> carries over into the chunk that opens with the unit \<open>u\<close>.\<close>

definition carried :: "(string \<Rightarrow> string) \<Rightarrow> DocumentChunker \<Rightarrow> chunk_unit list \<Rightarrow> chunk_unit \<Rightarrow> chunk_unit list" where
  "carried nfkc k current u =
     (let kept = overlap_units nfkc k current
      in if tokens_of kept + count_tokens (u_text u) > max_tokens k then [] else kept)"

lemma pack_loop_flush:
  assumes "current \<noteq> []" "current_tokens + count_tokens (u_text u) > target_tokens k"
  shows "pack_loop nfkc k chunks current current_tokens (u # rest) =
    pack_loop nfkc k (chunks @ [(fst (render current), snd (render current), current)])
      (carried nfkc k current u @ [u]) (tokens_of (carried nfkc k current u @ [u])) rest"
  using assms by (auto simp: Let_def carried_def tokens_of_join case_prod_beta simp del: render.simps)

lemma pack_loop_extend:
  assumes "\<not> (current \<noteq> [] \<and> current_tokens + count_tokens (u_text u) > target_tokens k)"
  shows "pack_loop nfkc k chunks current current_tokens (u # rest) =
    pack_loop nfkc k chunks (current @ [u]) (current_tokens + count_tokens (u_text u)) rest"
  using assms by (auto simp: Let_def)

lemma pack_loop_tokens:
  assumes "chunker_ok k" "\<forall>u \<in> set us. count_tokens (u_text u) \<le> max_tokens k"
    and "current_tokens = tokens_of current" "current_tokens \<le> max_tokens k"
    and "\<forall>(text, section, sel) \<in> set chunks. count_tokens text \<le> max_tokens k \<and> sel \<noteq> []"
    and "(text, section, sel) \<in> set (pack_loop nfkc k chunks current current_tokens us)"
  shows "count_tokens text \<le> max_tokens k \<and> sel \<noteq> []"
  using assms
proof (induction us arbitrary: chunks current current_tokens)
  case Nil
  then show ?case by (auto simp: tokens_of_join count_tokens_strip split: if_splits)
next
  case (Cons u us)
  let ?t = "count_tokens (u_text u)"
  show ?case
  proof (cases "current \<noteq> [] \<and> current_tokens + ?t > target_tokens k")
    case True
    then have flush: "pack_loop nfkc k chunks current current_tokens (u # us) =
      pack_loop nfkc k (chunks @ [(fst (render current), snd (render current), current)])
      (carried nfkc k current u @ [u]) (tokens_of (carried nfkc k current u @ [u])) us"
      by (intro pack_loop_flush) auto
    have "tokens_of (carried nfkc k current u @ [u]) \<le> max_tokens k"
      using Cons.prems(2) by (simp add: carried_def Let_def)
    moreover have "count_tokens (fst (render current)) \<le> max_tokens k"
      using Cons.prems tokens_of_render by simp
    ultimately show ?thesis
      using Cons.prems True flush
      by (intro Cons.IH [of _ "carried nfkc k current u @ [u]"
            "chunks @ [(fst (render current), snd (render current), current)]", OF _ _ refl])
         (simp_all del: render.simps pack_loop.simps)
  next
    case False
    then have "current_tokens + ?t \<le> max_tokens k"
      using Cons.prems by (auto simp: chunker_ok_def)
    then show ?thesis
      using Cons.IH [of "current_tokens + ?t" "current @ [u]" chunks] Cons.prems pack_loop_extend [OF False]
      by (simp del: pack_loop.simps)
  qed
qed

section \<open>No text is lost\<close>

lemma split_paragraphs_ink: "ink (concat (split_paragraphs acc s)) = ink (rev acc) @ ink s"
proof (induction acc s rule: split_paragraphs.induct)
  case (2 acc c cs)
  let ?w = "takeWhile is_space cs"
  show ?case
  proof (cases "c = newline \<and> newline \<in> set ?w")
    case True
    have "ink (rev (takeWhile (\<lambda>d. d \<noteq> newline) (rev ?w))) = []"
      by (rule ink_spaces) (auto dest!: set_takeWhileD)
    moreover have "ink (c # cs) = ink cs" using True is_space_newline by (simp add: ink_def)
    ultimately show ?thesis using 2 True by (simp add: Let_def ink_dropWhile)
  next
    case False
    have "ink (c # cs) = ink [c] @ ink cs" by (simp add: ink_def)
    with False show ?thesis using 2 by (auto simp: Let_def)
  qed
qed simp

lemma split_sentences_ink: "ink (concat (split_sentences e acc s)) = ink (rev acc) @ ink s"
proof (induction e acc s rule: split_sentences.induct)
  case (2 e acc c cs)
  have "ink (c # cs) = ink [c] @ ink cs" by (simp add: ink_def)
  moreover have "ink [c] = []" if "is_space c" using that by (simp add: ink_def)
  ultimately show ?case using 2 by (simp add: ink_dropWhile)
qed simp

lemma batches_ink:
  "0 < n \<Longrightarrow> i \<le> length s \<Longrightarrow>
   ink (concat (map (\<lambda>g. strip (slice s (fst (hd g)) (snd (last g)))) (batches n (token_spans i (drop i s)))))
     = ink (drop i s)"
proof (induction "length s - i" arbitrary: i rule: less_induct)
  case less
  let ?f = "token_spans i (drop i s)"
  show ?case
  proof (cases "?f = []")
    case True
    then show ?thesis using token_spans_ink [of "drop i s" i] by (simp add: batches.simps)
  next
    case False
    define j where "j = min n (length ?f) - 1"
    define g where "g = take n ?f"
    have j: "j < length ?f" "Suc j = length g" "0 < length g" and dr: "drop n ?f = drop (Suc j) ?f"
      using False less.prems by (auto simp: j_def g_def min_def)
    have hd: "hd g = ?f ! 0" using False less.prems by (simp add: g_def hd_conv_nth)
    have lt: "last g = ?f ! j" using False less.prems by (simp add: g_def j_def last_take_nth)
    let ?a = "fst (?f ! 0)" and ?e = "snd (?f ! j)"
    have b: "i \<le> ?a" "i < ?e" "?e \<le> length s"
      using token_spans_lower [of "?f ! j" i "drop i s"] token_spans_lower [of "?f ! 0" i "drop i s"]
        j False less.prems by auto
    have "?f ! j \<in> set (token_spans ?a (drop (?a - i) (drop i s)))"
      using token_spans_drop [of 0 i "drop i s"] False j by simp
    then have "?a \<le> ?e" using token_spans_lower by (meson le_trans less_imp_le)
    have rest: "drop (Suc j) ?f = token_spans ?e (drop ?e s)"
      using token_spans_after [OF j(1)] b by simp
    have "ink (drop i s) = ink (drop ?a s)"
      using token_spans_ink [of "drop i s" i] False b by (cases ?f) auto
    also have "drop ?a s = slice s ?a ?e @ drop ?e s"
      using \<open>?a \<le> ?e\<close> unfolding slice_def
      by (metis append_take_drop_id drop_append drop_drop le_add_diff_inverse2 take_drop)
    finally have "ink (drop i s) = ink (slice s ?a ?e) @ ink (drop ?e s)" by simp
    moreover have "batches n ?f = g # batches n (token_spans ?e (drop ?e s))"
      using False less.prems rest dr by (simp add: batches.simps [of n ?f] g_def)
    ultimately show ?thesis
      using less.hyps [of ?e] less.prems b hd lt by simp
  qed
qed

lemma split_oversized_ink:
  assumes "0 < max_tokens k"
  shows "ink (concat (split_oversized k t)) = ink t"
  using batches_ink [of "max_tokens k" 0 t] assms by (simp add: split_oversized_def Let_def)

lemma concat_filter_nonempty: "concat (filter (\<lambda>s. s \<noteq> []) xs) = concat xs"
  by (induction xs) auto

lemma concat_map_concat: "concat (concat xs) = concat (map concat xs)"
  by (induction xs) auto

lemma paragraph_parts_ink:
  assumes "0 < max_tokens k"
  shows "ink (concat (paragraph_parts k p)) = ink p"
proof -
  let ?ss = "filter (\<lambda>s. s \<noteq> []) (map strip (split_sentences False [] p))"
  have "ink (concat (paragraph_parts k p)) = concat (map (ink \<circ> concat \<circ> split_oversized k) ?ss)"
    by (simp add: paragraph_parts_def ink_concat map_concat comp_def concat_map_concat)
  also have "\<dots> = concat (map ink ?ss)" using assms by (simp add: split_oversized_ink comp_def)
  also have "\<dots> = ink (concat (map strip (split_sentences False [] p)))"
    by (metis ink_concat concat_filter_nonempty)
  also have "\<dots> = ink (concat (split_sentences False [] p))" by (simp add: ink_concat comp_def)
  finally show ?thesis by (simp add: split_sentences_ink)
qed

lemma page_parts_ink:
  "0 < max_tokens k \<Longrightarrow>
   ink (concat (map fst (page_parts k sec paragraphs))) = ink (concat (map fst paragraphs))"
proof (induction k sec paragraphs rule: page_parts.induct)
  case (2 k sec raw regions rest)
  show ?case
  proof (cases "strip raw = []")
    case True
    then have "ink raw = []" by (metis ink_strip ink_simps(1))
    with 2 True show ?thesis by simp
  next
    case False
    have fst: "map fst (map (\<lambda>p. (p, s, regions)) ps) = ps" for s ps by (simp add: comp_def)
    from False show ?thesis
      using 2 by (auto simp: Let_def fst paragraph_parts_ink simp del: map_map)
  qed
qed simp

text \<open>The source text of a page: its blocks where it has any, else its text.\<close>

definition page_source :: "ParsedPage \<Rightarrow> string" where
  "page_source page =
     (if page_blocks page \<noteq> [] then concat (map block_text (page_blocks page)) else page_text page)"

lemma parts_of_ink:
  assumes "0 < max_tokens k"
  shows "ink (concat (map fst (parts_of k page))) = ink (page_source page)"
  using assms split_paragraphs_ink [of "[]" "strip (page_text page)"]
  by (simp add: parts_of_def page_source_def page_parts_ink comp_def)

definition unit_ok :: "chunk_unit \<Rightarrow> bool" where
  "unit_ok u \<longleftrightarrow> u_text u \<noteq> [] \<and> stripped (u_text u)"

lemma count_tokens_nonempty: "0 < count_tokens s \<Longrightarrow> s \<noteq> []"
  by auto

lemma paragraph_parts_ok:
  assumes "p \<in> set (paragraph_parts k q)"
  shows "p \<noteq> [] \<and> stripped p"
proof -
  obtain t where t: "t \<noteq> []" "stripped t" "p \<in> set (split_oversized k t)"
    using assms strip_stripped by (auto simp: paragraph_parts_def)
  show ?thesis using split_oversized_part [OF t(3)] t count_tokens_nonempty by auto
qed

lemma page_parts_ok:
  "(part, sec, regions) \<in> set (page_parts k s0 paragraphs) \<Longrightarrow> part \<noteq> [] \<and> stripped part"
proof (induction k s0 paragraphs rule: page_parts.induct)
  case (2 k s0 raw rs rest)
  then show ?case by (auto simp: Let_def dest: paragraph_parts_ok split: if_splits)
qed simp

lemma page_units_ok:
  assumes "page_units nfkc k page = Inr us" "u \<in> set us"
  shows "unit_ok u"
proof -
  have "u_text u \<in> set (map fst (parts_of k page))"
    using assms page_units_texts by (metis image_eqI list.set_map)
  then show ?thesis using page_parts_ok by (fastforce simp: parts_of_def unit_ok_def)
qed

lemma overlap_loop_ok:
  "\<forall>u \<in> set (selected @ us). unit_ok u \<Longrightarrow> 0 < limit \<Longrightarrow>
   \<forall>u \<in> set (overlap_loop nfkc limit us selected acc). unit_ok u"
proof (induction nfkc limit us selected acc rule: overlap_loop.induct)
  case (2 nfkc limit u us selected acc)
  let ?t = "count_tokens (u_text u)"
  let ?s = "strip (drop (fst (token_spans 0 (u_text u) ! (?t - limit))) (u_text u))"
  have "?s \<noteq> [] \<and> stripped ?s" if "limit < ?t"
  proof -
    have "count_tokens ?s = limit"
      using that "2.prems" by (subst count_tokens_strip, subst count_tokens_suffix) auto
    then show ?thesis using "2.prems" strip_stripped count_tokens_nonempty by auto
  qed
  with 2 show ?case by (simp add: Let_def unit_ok_def count_tokens_def [symmetric])
qed simp

lemma overlap_units_ok: "\<forall>u \<in> set us. unit_ok u \<Longrightarrow> \<forall>u \<in> set (overlap_units nfkc k us). unit_ok u"
  using overlap_loop_ok [of "[]" "rev us" "overlap_tokens k" nfkc 0] by (simp add: overlap_units_def)

lemma join_stripped:
  "\<forall>x \<in> set xs. x \<noteq> [] \<and> stripped x \<Longrightarrow> stripped (join sep xs) \<and> (xs \<noteq> [] \<longrightarrow> join sep xs \<noteq> [])"
proof (induction xs rule: induct_list012)
  case (3 x y zs)
  let ?j = "join sep (y # zs)"
  have "?j \<noteq> []" "stripped ?j" using 3 by simp_all
  moreover have "x \<noteq> []" "stripped x" using 3 by simp_all
  ultimately show ?case by (simp add: stripped_def del: join.simps(3)) (simp add: stripped_def)
qed simp_all

lemma render_whole:
  assumes "\<forall>u \<in> set us. unit_ok u"
  shows "fst (render us) = join blank_line (map u_text us)"
  using join_stripped [of "map u_text us" blank_line] assms by (simp add: unit_ok_def stripped_strip_id)

lemma render_sublist:
  assumes "\<forall>u \<in> set us. unit_ok u" "u \<in> set us"
  shows "sublist (u_text u) (fst (render us))"
  using assms join_member_sublist by (simp add: render_whole del: render.simps)

lemma pack_loop_chunks: "set chunks \<subseteq> set (pack_loop nfkc k chunks current current_tokens us)"
proof (induction us arbitrary: chunks current current_tokens)
  case Nil
  then show ?case by (auto simp: case_prod_beta)
next
  case (Cons u us)
  have "set chunks \<subseteq> set (pack_loop nfkc k (chunks @ [c]) cur n us)" for c cur n
    using Cons.IH [of "chunks @ [c]"] by auto
  then show ?case
    using Cons.IH pack_loop_flush [of current k current_tokens u nfkc chunks us]
      pack_loop_extend [of current k current_tokens u nfkc chunks us] by metis
qed

lemma pack_loop_covers:
  assumes "\<forall>u \<in> set (current @ us). unit_ok u" "u \<in> set (current @ us)"
  shows "\<exists>(text, sec, sel) \<in> set (pack_loop nfkc k chunks current current_tokens us). sublist (u_text u) text"
  using assms
proof (induction us arbitrary: chunks current current_tokens)
  case Nil
  have sub: "sublist (u_text u) (fst (render current))" using Nil by (intro render_sublist) auto
  show ?case
  proof (cases "chunks = [] \<or> fst (render current) \<noteq> fst (last chunks)")
    case True
    then show ?thesis using Nil sub by (auto simp: case_prod_beta simp del: render.simps)
  next
    case False
    then have "last chunks \<in> set chunks" "sublist (u_text u) (fst (last chunks))" using sub by auto
    then show ?thesis
      using pack_loop_chunks [of chunks nfkc k current current_tokens "[]"] by (auto simp: case_prod_beta)
  qed
next
  case (Cons v us)
  show ?case
  proof (cases "current \<noteq> [] \<and> current_tokens + count_tokens (u_text v) > target_tokens k")
    case True
    let ?c = "(fst (render current), snd (render current), current)"
    let ?new = "carried nfkc k current v @ [v]"
    have flush: "pack_loop nfkc k chunks current current_tokens (v # us) =
        pack_loop nfkc k (chunks @ [?c]) ?new (tokens_of ?new) us"
      using True by (intro pack_loop_flush) auto
    have ok: "\<forall>u \<in> set (?new @ us). unit_ok u"
      using Cons.prems(1) overlap_units_ok [of current nfkc k] by (auto simp: carried_def Let_def)
    show ?thesis
    proof (cases "u \<in> set current")
      case True
      then have "sublist (u_text u) (fst ?c)" using Cons.prems by (simp add: render_sublist del: render.simps)
      moreover have "?c \<in> set (pack_loop nfkc k (chunks @ [?c]) ?new (tokens_of ?new) us)"
        using pack_loop_chunks [of "chunks @ [?c]"] by auto
      ultimately show ?thesis unfolding flush by (intro bexI [of _ ?c]) (simp_all del: render.simps)
    next
      case False
      then show ?thesis unfolding flush using Cons.IH [OF ok] Cons.prems by auto
    qed
  next
    case False
    show ?thesis unfolding pack_loop_extend [OF False] using Cons.prems by (intro Cons.IH) auto
  qed
qed

section \<open>Drafts\<close>

lemma make_draft_InrD:
  assumes "make_draft L k doc name src page n p = Inr d"
  shows "draft_ordinal d = n" "draft_text d = fst p" "draft_page_start d = page_number page"
    "draft_page_end d = page_number page" "draft_token_count d = count_tokens (fst p)"
    "draft_id d = chunk_uuid (lib_uuid5 L) (lib_uuid_text L) doc n (page_number page)
       (lib_sha256 L (fst p)) (schema_version k)"
    "draft_citation_label d = ''p'' @ show_int (page_number page) @ '':c'' @ show_nat n"
  using assms by (auto simp: make_draft_def rbind_Inr_iff Let_def split: prod.splits)

lemma draft_chunks_InrD:
  "draft_chunks L k doc name src page n ps = Inr ds \<Longrightarrow>
   map draft_ordinal ds = [n ..< n + length ds] \<and>
   list_all2 (\<lambda>d p. \<exists>m. make_draft L k doc name src page m p = Inr d) ds ps"
proof (induction L k doc name src page n ps arbitrary: ds rule: draft_chunks.induct)
  case (2 L k doc name src page n p ps)
  then obtain d es where d: "make_draft L k doc name src page n p = Inr d"
    and es: "draft_chunks L k doc name src page (Suc n) ps = Inr es" and ds: "ds = d # es"
    by (auto simp: rbind_Inr_iff)
  show ?case using 2 d es ds make_draft_InrD(1) [OF d] by (auto simp: upt_rec [of n])
qed simp

lemma draft_pages_InrD:
  "draft_pages L k doc name src n pages = Inr ds \<Longrightarrow>
   map draft_ordinal ds = [n ..< n + length ds] \<and>
   (\<forall>d \<in> set ds. \<exists>page \<in> set pages. \<exists>us p m. page_units (lib_nfkc L) k page = Inr us \<and>
      p \<in> set (pack (lib_nfkc L) k us) \<and> make_draft L k doc name src page m p = Inr d) \<and>
   (\<forall>page \<in> set pages. \<exists>us. page_units (lib_nfkc L) k page = Inr us \<and>
      (\<forall>p \<in> set (pack (lib_nfkc L) k us). \<exists>d \<in> set ds. \<exists>m. make_draft L k doc name src page m p = Inr d))"
proof (induction pages arbitrary: n ds)
  case (Cons page pages)
  then obtain us es fs where us: "page_units (lib_nfkc L) k page = Inr us"
    and es: "draft_chunks L k doc name src page n (pack (lib_nfkc L) k us) = Inr es"
    and fs: "draft_pages L k doc name src (n + length es) pages = Inr fs" and ds: "ds = es @ fs"
    by (auto simp: rbind_Inr_iff)
  note here = draft_chunks_InrD [OF es]
  have drafts: "\<forall>d \<in> set es. \<exists>p \<in> set (pack (lib_nfkc L) k us). \<exists>m. make_draft L k doc name src page m p = Inr d"
    and packs: "\<forall>p \<in> set (pack (lib_nfkc L) k us). \<exists>d \<in> set es. \<exists>m. make_draft L k doc name src page m p = Inr d"
    using list_all2_members [OF conjunct2 [OF here]] by blast+
  have "map draft_ordinal ds = [n ..< n + length ds]"
    using here Cons.IH [OF fs] ds upt_add_eq_append [of n "n + length es" "length fs"]
    by (simp add: add.assoc)
  then show ?case using Cons.IH [OF fs] drafts packs us ds by fastforce
qed simp

text \<open>
  C15: Chunks respect the token limit. For a chunker whose limits passed the constructor's
  check, every draft of \<open>chunk\<close> holds at most \<open>max_tokens\<close> tokens, the number it records is
  the number of tokens of its text, the ordinals are 0, 1, 2, ... in order, and the citation
  label names the draft's page and ordinal.
\<close>

theorem chunk_within_limits:
  assumes "chunker_ok k" "chunk L k pages doc name src = Inr ds"
  shows "map draft_ordinal ds = [0 ..< length ds] \<and>
    (\<forall>d \<in> set ds. draft_token_count d = count_tokens (draft_text d) \<and> draft_token_count d \<le> max_tokens k \<and>
      draft_page_end d = draft_page_start d \<and>
      draft_citation_label d = ''p'' @ show_int (draft_page_start d) @ '':c'' @ show_nat (draft_ordinal d))"
proof -
  have pages: "draft_pages L k doc name src 0 (concat (map fragment_pages pages)) = Inr ds"
    using assms(2) by (simp add: chunk_def)
  have "count_tokens (fst p) \<le> max_tokens k"
    if "page_units (lib_nfkc L) k page = Inr us" "p \<in> set (pack (lib_nfkc L) k us)" for page us p
    using pack_loop_tokens [of k us 0 "[]" "[]" "fst p" "fst (snd p)" "snd (snd p)"] that assms(1)
      page_units_tokens [OF that(1)] by (auto simp: pack_def)
  then show ?thesis using draft_pages_InrD [OF pages] make_draft_InrD by fastforce
qed

text \<open>
  C16: Chunking loses no text. When \<open>chunk\<close> succeeds, the units of every page (or page
  fragment) hold, in order, exactly the characters of the page that are not white space, and
  each unit is a contiguous piece of the text of some draft of that page.
\<close>

theorem chunk_covers_pages:
  assumes "chunker_ok k" "chunk L k pages doc name src = Inr ds"
    and "page \<in> set (concat (map fragment_pages pages))"
  shows "\<exists>us. page_units (lib_nfkc L) k page = Inr us \<and>
    ink (concat (map u_text us)) = ink (page_source page) \<and>
    (\<forall>u \<in> set us. \<exists>d \<in> set ds. draft_page_start d = page_number page \<and> sublist (u_text u) (draft_text d))"
proof -
  have "draft_pages L k doc name src 0 (concat (map fragment_pages pages)) = Inr ds"
    using assms(2) by (simp add: chunk_def)
  from draft_pages_InrD [OF this] assms(3) obtain us where us: "page_units (lib_nfkc L) k page = Inr us"
    and made: "\<And>p. p \<in> set (pack (lib_nfkc L) k us) \<Longrightarrow>
      \<exists>d \<in> set ds. \<exists>m. make_draft L k doc name src page m p = Inr d" by blast
  have "ink (concat (map u_text us)) = ink (page_source page)"
    using page_units_texts [OF us] parts_of_ink assms(1) by (simp add: chunker_ok_def)
  moreover have "\<exists>d \<in> set ds. draft_page_start d = page_number page \<and> sublist (u_text u) (draft_text d)"
    if u: "u \<in> set us" for u
  proof -
    obtain t sec sel where p: "(t, sec, sel) \<in> set (pack (lib_nfkc L) k us)" "sublist (u_text u) t"
      using pack_loop_covers [of "[]" us u "lib_nfkc L" k "[]" 0] page_units_ok [OF us] u
      by (auto simp: pack_def)
    obtain d m where "d \<in> set ds" "make_draft L k doc name src page m (t, sec, sel) = Inr d"
      using made [OF p(1)] by blast
    then show ?thesis using make_draft_InrD(2,3) p(2) by fastforce
  qed
  ultimately show ?thesis using us by blast
qed

text \<open>A library with trivial digests and an identity normalisation, as on ASCII text.\<close>

definition plain_libs :: chunk_libs where
  "plain_libs = \<lparr>lib_nfkc = id, lib_sha256 = (\<lambda>_. replicate 64 CHR ''a''), lib_fadd = (+),
     lib_uuid5 = (\<lambda>_ s. length s), lib_uuid_text = show_nat\<rparr>"

definition small_chunker :: DocumentChunker where
  "small_chunker = \<lparr>target_tokens = 2, max_tokens = 3, overlap_tokens = 1, parser_version = ''p'',
     chunking_version = ''c'', embedding_version = ''e'', schema_version = ''s''\<rparr>"

theorem chunk_within_limits_witness:
  "\<exists>ds. chunk plain_libs small_chunker [parsed_page 1 ''One two. Three four.'' DIRECT [] None [] None]
          7 ''f'' ''x'' = Inr ds \<and> map draft_ordinal ds = [0 ..< length ds] \<and>
        (\<forall>d \<in> set ds. draft_token_count d \<le> 3)"
proof -
  let ?r = "chunk plain_libs small_chunker [parsed_page 1 ''One two. Three four.'' DIRECT [] None [] None]
          7 ''f'' ''x''"
  have "\<not> isl ?r" by code_simp
  then obtain ds where ds: "?r = Inr ds" using not_isl_Inr by blast
  have "chunker_ok small_chunker" by code_simp
  then show ?thesis using chunk_within_limits [OF _ ds] ds by (auto simp: small_chunker_def)
qed

theorem chunk_covers_pages_witness:
  "\<exists>ds. \<exists>us :: chunk_unit list. chunk plain_libs small_chunker [parsed_page 1 ''One two. Three four.'' DIRECT [] None [] None]
          7 ''f'' ''x'' = Inr ds \<and>
     ink (concat (map u_text us)) = ''Onetwo.Threefour.'' \<and>
     (\<forall>u \<in> set us. \<exists>d \<in> set ds. draft_page_start d = 1 \<and> sublist (u_text u) (draft_text d))"
proof -
  let ?p = "parsed_page 1 ''One two. Three four.'' DIRECT [] None [] None"
  let ?r = "chunk plain_libs small_chunker [?p] 7 ''f'' ''x''"
  have "\<not> isl ?r" by code_simp
  then obtain ds where ds: "?r = Inr ds" using not_isl_Inr by blast
  have ok: "chunker_ok small_chunker" and ink: "ink (page_source ?p) = ''Onetwo.Threefour.''"
    by code_simp+
  have "?p \<in> set (concat (map fragment_pages [?p]))"
    by (simp add: fragment_pages_def parsed_page_def)
  from chunk_covers_pages [OF ok ds this] obtain us :: "chunk_unit list"
    where "ink (concat (map u_text us)) = ink (page_source ?p)"
      "\<forall>u \<in> set us. \<exists>d \<in> set ds. draft_page_start d = page_number ?p \<and> sublist (u_text u) (draft_text d)"
    by (elim exE conjE)
  moreover have "page_number ?p = 1" by (simp add: parsed_page_def)
  ultimately show ?thesis using ds ink by metis
qed

text \<open>
  C7: A sentence longer than the token limit can make chunking fail. \<open>_split_oversized\<close> cuts
  between two tokens even where no white space separates them; \<open>_render\<close> puts a blank line
  between the carried overlap and the next part, so the chunk text is no longer a text of the
  page and \<open>text_quote_anchor\<close> raises. The page \<open>a b c,d\<close> under the limits 2, 3 and 1
  fails for every normalisation that keeps ASCII text.
\<close>

lemma oversized_units:
  assumes "\<And>s. (\<forall>c \<in> set s. code c < 128) \<Longrightarrow> nfkc s = s"
  defines "u1 \<equiv> \<lparr>u_text = ''a b c'', u_section = None, u_regions = [], u_start = Some 0, u_end = Some 5\<rparr>"
    and "u2 \<equiv> \<lparr>u_text = '',d'', u_section = None, u_regions = [], u_start = Some 5, u_end = Some 7\<rparr>"
    and "u3 \<equiv> \<lparr>u_text = ''c'', u_section = None, u_regions = [], u_start = Some 4, u_end = Some 5\<rparr>"
  shows "page_units nfkc small_chunker (parsed_page 1 ''a b c,d'' DIRECT [] None [] None) = Inr [u1, u2]"
    and "pack nfkc small_chunker [u1, u2] =
      [(''a b c'', None, [u1]), (''c'' @ blank_line @ '',d'', None, [u3, u2])]"
proof -
  have n: "normalize_highlight_text nfkc s = normalize_highlight_text id s" if "\<forall>c \<in> set s. code c < 128" for s
    using assms(1) [OF that] by (simp add: normalize_highlight_text_def)
  have norm: "normalize_highlight_text nfkc ''a b c,d'' = ''a b c,d''"
    "normalize_highlight_text nfkc ''a b c'' = ''a b c''" "normalize_highlight_text nfkc '',d'' = '',d''"
    "normalize_highlight_text nfkc ''c'' = ''c''"
    by (subst n; code_simp)+
  have "parts_of small_chunker (parsed_page 1 ''a b c,d'' DIRECT [] None [] None)
      = [(''a b c'', None, []), ('',d'', None, [])]" by code_simp
  moreover have "find_from ''a b c,d'' ''a b c'' 0 = Some 0" "find_from ''a b c,d'' '',d'' (Suc (Suc (Suc (Suc (Suc 0))))) = Some 5"
    by code_simp+
  ultimately show "page_units nfkc small_chunker (parsed_page 1 ''a b c,d'' DIRECT [] None [] None) = Inr [u1, u2]"
    by (simp add: page_units_def parts_of_def parsed_page_def norm u1_def u2_def Let_def)
  have t: "count_tokens ''a b c'' = 3" "count_tokens '',d'' = 2" "count_tokens ''c'' = 1"
    "token_spans 0 ''a b c'' = [(0, 1), (2, 3), (4, 5)]" "strip ''a b c'' = ''a b c''" "strip ''c'' = ''c''"
    "strip (''c'' @ blank_line @ '',d'') = ''c'' @ blank_line @ '',d''" by code_simp+
  have k: "target_tokens small_chunker = 2" "max_tokens small_chunker = 3" "overlap_tokens small_chunker = 1"
    by (simp_all add: small_chunker_def)
  have "overlap_units nfkc small_chunker [u1] = [u3]"
    using t norm by (simp add: overlap_units_def k u1_def u3_def Let_def)
  then show "pack nfkc small_chunker [u1, u2] =
      [(''a b c'', None, [u1]), (''c'' @ blank_line @ '',d'', None, [u3, u2])]"
    using t by (simp add: pack_def k u1_def u2_def u3_def Let_def)
qed

text \<open>
  A sentence longer than the token limit can make chunking fail. \<open>_split_oversized\<close> cuts
  between two tokens even where no white space separates them; \<open>_render\<close> puts a blank line
  between the carried overlap and the next part, so the chunk text is no longer a text of the
  page and \<open>text_quote_anchor\<close> raises. The page \<open>a b c,d\<close> under the limits 2, 3 and 1
  fails for every normalisation that keeps ASCII text.
\<close>

theorem oversized_sentence_fails:
  assumes "\<And>s. (\<forall>c \<in> set s. code c < 128) \<Longrightarrow> lib_nfkc L s = s"
    and "\<And>s. is_sha256_hex (lib_sha256 L s)"
  shows "chunk L small_chunker [parsed_page 1 ''a b c,d'' DIRECT [] None [] None] doc name src =
    Inl ''digital chunk offset does not match authoritative page text''"
proof -
  have n: "normalize_highlight_text (lib_nfkc L) s = normalize_highlight_text id s" if "\<forall>c \<in> set s. code c < 128" for s
    using assms(1) [OF that] by (simp add: normalize_highlight_text_def)
  have norm: "normalize_highlight_text (lib_nfkc L) ''a b c,d'' = ''a b c,d''"
    "normalize_highlight_text (lib_nfkc L) ''a b c'' = ''a b c''"
    "normalize_highlight_text (lib_nfkc L) (CHR ''c'' # blank_line @ '',d'') = ''c ,d''"
    by (subst n; code_simp)+
  have "match_offsets ''a b c,d'' ''a b c'' = [0]" "match_offsets ''a b c,d'' ''c ,d'' = []"
    "selects ''a b c,d'' (Suc (Suc (Suc (Suc (Suc 0))))) [] '',d'' 0" by code_simp+
  note found = this
  let ?q = "\<lambda>t h. text_quote_anchor (lib_nfkc L) (lib_sha256 L) (lib_fadd L) 1 ''a b c,d'' t h"
  have "\<exists>anchor. ?q ''a b c'' (Some 0) = Inr anchor"
    using found assms(2) by (simp add: text_quote_anchor_def norm Let_def anchor_limits
        validate_highlight_anchor_def validate_text_quote_def dict_get_def dict_has_def)
  moreover have "?q (''c'' @ blank_line @ '',d'') (Some 4) =
      Inl ''digital chunk offset does not match authoritative page text''"
    using found by (simp add: text_quote_anchor_def norm Let_def anchor_limits)
  ultimately show ?thesis
    using oversized_units [OF assms(1)]
    by (auto simp: chunk_def fragment_pages_def parsed_page_def make_draft_def Let_def)
qed

theorem oversized_sentence_fails_witness:
  "chunk plain_libs small_chunker [parsed_page 1 ''a b c,d'' DIRECT [] None [] None] 7 ''f'' ''x'' =
    Inl ''digital chunk offset does not match authoritative page text''"
proof (rule oversized_sentence_fails)
  show "lib_nfkc plain_libs s = s" for s by (simp add: plain_libs_def)
  have "is_sha256_hex (replicate 64 CHR ''a'')" by code_simp
  then show "is_sha256_hex (lib_sha256 plain_libs s)" for s by (simp add: plain_libs_def)
qed

end
