(* ===== verification/Scheduler.thy ===== *)
theory Scheduler
  imports Prelude
begin

text \<open>
  runtime/scheduler.py: the interactive-first queue of the inference coordinator with its
  escape for starving background work. The two heaps hold entries ordered by their sequence
  number, which is unique, so a heap is the list of its entries in that order: its first
  element is the head of the list, \<open>heappush\<close> inserts by sequence number and \<open>heappop\<close>
  removes the head. An entry object is shared by a heap and the dictionary \<open>_entries\<close>; the
  sequence number identifies the object, and setting its \<open>cancelled\<close> flag changes the entry
  of that number. No method suspends while it holds the condition's lock, so each is one
  step; waiting in \<open>next\<close> is the result \<open>None\<close>. A clock reading is an argument.
\<close>

section \<open>State\<close>

datatype Priority = INTERACTIVE | BACKGROUND

datatype scheduler_error = AlreadyQueuedOrActive | NotActive | MissingEntry | NonPositiveStarvation

record 'p Entry =
  sequence :: nat
  enqueued_at :: time
  entry_id :: string
  payload :: 'p
  entry_priority :: Priority
  entry_cancelled :: bool

record 'p ScheduledItem =
  item_id :: string
  item_payload :: 'p
  item_priority :: Priority
  item_enqueued_at :: time

record 'p PriorityScheduler =
  starvation_seconds :: time
  interactive :: "'p Entry list"
  background :: "'p Entry list"
  entries :: "string \<rightharpoonup> 'p Entry"
  next_sequence :: nat
  last_background_relief :: "time option"
  active_ids :: "string set"
  completed :: nat
  failed_count :: nat
  cancelled_count :: nat

record QueueMetrics =
  queued_interactive :: nat
  queued_background :: nat
  active_requests :: nat
  completed_requests :: nat
  failed_requests :: nat
  cancelled_requests :: nat
  oldest_background_wait_seconds :: "time option"

definition new_scheduler :: "time \<Rightarrow> (scheduler_error, 'p PriorityScheduler) result" where
  "new_scheduler starvation =
     (if starvation \<le> 0 then Inl NonPositiveStarvation
      else Inr \<lparr>starvation_seconds = starvation, interactive = [], background = [],
                entries = Map.empty, next_sequence = 0, last_background_relief = None,
                active_ids = {}, completed = 0, failed_count = 0, cancelled_count = 0\<rparr>)"

section \<open>Operations\<close>

definition heappush :: "'p Entry \<Rightarrow> 'p Entry list \<Rightarrow> 'p Entry list" where
  "heappush e q = insort_key sequence e q"

definition new_entry ::
  "time \<Rightarrow> 'p PriorityScheduler \<Rightarrow> string \<Rightarrow> 'p \<Rightarrow> Priority \<Rightarrow> 'p Entry" where
  "new_entry now s rid p prio =
     \<lparr>sequence = next_sequence s, enqueued_at = now, entry_id = rid, payload = p,
      entry_priority = prio, entry_cancelled = False\<rparr>"

definition enqueue ::
  "time \<Rightarrow> 'p PriorityScheduler \<Rightarrow> string \<Rightarrow> 'p \<Rightarrow> Priority \<Rightarrow>
   (scheduler_error, 'p PriorityScheduler) result" where
  "enqueue now s rid p prio =
     (if entries s rid \<noteq> None \<or> rid \<in> active_ids s then Inl AlreadyQueuedOrActive
      else let entry = new_entry now s rid p prio;
               s1 = s\<lparr>next_sequence := next_sequence s + 1\<rparr>;
               s2 = (if prio = INTERACTIVE then s1\<lparr>interactive := heappush entry (interactive s1)\<rparr>
                     else s1\<lparr>background := heappush entry (background s1)\<rparr>)
           in Inr (s2\<lparr>entries := (entries s2)(rid \<mapsto> entry)\<rparr>))"

fun discard_cancelled :: "'p Entry list \<Rightarrow> 'p Entry list" where
  "discard_cancelled [] = []"
| "discard_cancelled (e # q) = (if entry_cancelled e then discard_cancelled q else e # q)"

definition starvation_started :: "'p PriorityScheduler \<Rightarrow> 'p Entry \<Rightarrow> time" where
  "starvation_started s e =
     (case last_background_relief s of None \<Rightarrow> enqueued_at e | Some r \<Rightarrow> max (enqueued_at e) r)"

definition due :: "time \<Rightarrow> 'p PriorityScheduler \<Rightarrow> 'p Entry \<Rightarrow> bool" where
  "due now s e \<longleftrightarrow> starvation_seconds s \<le> now - starvation_started s e"

definition choose_entry ::
  "time \<Rightarrow> 'p PriorityScheduler \<Rightarrow> ('p Entry \<times> 'p PriorityScheduler) option" where
  "choose_entry now s =
     (if background s \<noteq> [] \<and> due now s (hd (background s))
      then Some (hd (background s),
                 s\<lparr>last_background_relief := Some now, background := tl (background s)\<rparr>)
      else if interactive s \<noteq> []
      then Some (hd (interactive s), s\<lparr>interactive := tl (interactive s)\<rparr>)
      else if background s \<noteq> []
      then Some (hd (background s), s\<lparr>background := tl (background s)\<rparr>)
      else None)"

definition discard_both :: "'p PriorityScheduler \<Rightarrow> 'p PriorityScheduler" where
  "discard_both s = s\<lparr>interactive := discard_cancelled (interactive s),
                      background := discard_cancelled (background s)\<rparr>"

definition next_item ::
  "time \<Rightarrow> 'p PriorityScheduler \<Rightarrow>
   (scheduler_error, 'p ScheduledItem option \<times> 'p PriorityScheduler) result" where
  "next_item now s =
     (case choose_entry now (discard_both s) of
        None \<Rightarrow> Inr (None, discard_both s)
      | Some (e, t) \<Rightarrow>
          if entries t (entry_id e) = None then Inl MissingEntry
          else Inr (Some \<lparr>item_id = entry_id e, item_payload = payload e,
                          item_priority = entry_priority e, item_enqueued_at = enqueued_at e\<rparr>,
                    t\<lparr>entries := (entries t)(entry_id e := None),
                      active_ids := insert (entry_id e) (active_ids t)\<rparr>))"

definition set_cancelled :: "nat \<Rightarrow> 'p Entry list \<Rightarrow> 'p Entry list" where
  "set_cancelled n q = map (\<lambda>x. if sequence x = n then x\<lparr>entry_cancelled := True\<rparr> else x) q"

definition cancel :: "'p PriorityScheduler \<Rightarrow> string \<Rightarrow> bool \<times> 'p PriorityScheduler" where
  "cancel s rid =
     (case entries s rid of
        None \<Rightarrow> (False, s)
      | Some e \<Rightarrow> (True, s\<lparr>entries := (entries s)(rid := None),
                           interactive := set_cancelled (sequence e) (interactive s),
                           background := set_cancelled (sequence e) (background s),
                           cancelled_count := cancelled_count s + 1\<rparr>))"

definition finish ::
  "'p PriorityScheduler \<Rightarrow> string \<Rightarrow> bool \<Rightarrow> (scheduler_error, 'p PriorityScheduler) result" where
  "finish s rid failed =
     (if rid \<notin> active_ids s then Inl NotActive
      else let s1 = s\<lparr>active_ids := active_ids s - {rid}\<rparr>
           in Inr (if failed then s1\<lparr>failed_count := failed_count s1 + 1\<rparr>
                   else s1\<lparr>completed := completed s1 + 1\<rparr>))"

definition metrics :: "time \<Rightarrow> 'p PriorityScheduler \<Rightarrow> QueueMetrics" where
  "metrics now s =
     (let bg = filter (\<lambda>e. \<not> entry_cancelled e) (background s)
      in \<lparr>queued_interactive = length (filter (\<lambda>e. \<not> entry_cancelled e) (interactive s)),
          queued_background = length bg, active_requests = card (active_ids s),
          completed_requests = completed s, failed_requests = failed_count s,
          cancelled_requests = cancelled_count s,
          oldest_background_wait_seconds =
            (if bg = [] then None else Some (max 0 (now - Min (set (map enqueued_at bg)))))\<rparr>)"

section \<open>Runs\<close>

datatype 'p event =
  Enqueue string 'p Priority
| Next
| Cancel string
| Finish string bool

text \<open>One call; a call that raises leaves the state as it was.\<close>

definition ok_or :: "'s \<Rightarrow> ('e, 's) result \<Rightarrow> 's" where
  "ok_or s r = (case r of Inl _ \<Rightarrow> s | Inr t \<Rightarrow> t)"

fun call :: "time \<Rightarrow> 'p event \<Rightarrow> 'p PriorityScheduler \<Rightarrow> 'p PriorityScheduler" where
  "call now (Enqueue rid p prio) s = ok_or s (enqueue now s rid p prio)"
| "call now Next s = (case next_item now s of Inl _ \<Rightarrow> s | Inr (_, t) \<Rightarrow> t)"
| "call now (Cancel rid) s = snd (cancel s rid)"
| "call now (Finish rid failed) s = ok_or s (finish s rid failed)"

fun calls :: "(time \<times> 'p event) list \<Rightarrow> 'p PriorityScheduler \<Rightarrow> 'p PriorityScheduler" where
  "calls [] s = s"
| "calls ((now, ev) # evs) s = calls evs (call now ev s)"

section \<open>Invariant\<close>

abbreviation queued :: "'p PriorityScheduler \<Rightarrow> 'p Entry list" where
  "queued s \<equiv> interactive s @ background s"

definition live :: "'p Entry list \<Rightarrow> 'p Entry list" where
  "live q = filter (\<lambda>e. \<not> entry_cancelled e) q"

definition heap_ok :: "nat \<Rightarrow> Priority \<Rightarrow> 'p Entry list \<Rightarrow> bool" where
  "heap_ok n prio q \<longleftrightarrow>
     sorted_wrt (\<lambda>x y. sequence x < sequence y) q \<and>
     (\<forall>e \<in> set q. sequence e < n \<and> entry_priority e = prio)"

definition sched_inv :: "'p PriorityScheduler \<Rightarrow> bool" where
  "sched_inv s \<longleftrightarrow>
     heap_ok (next_sequence s) INTERACTIVE (interactive s) \<and>
     heap_ok (next_sequence s) BACKGROUND (background s) \<and>
     sequence ` set (interactive s) \<inter> sequence ` set (background s) = {} \<and>
     (\<forall>rid e. entries s rid = Some e \<longleftrightarrow> e \<in> set (live (queued s)) \<and> entry_id e = rid) \<and>
     active_ids s \<inter> dom (entries s) = {} \<and> finite (active_ids s) \<and>
     next_sequence s = length (live (queued s)) + card (active_ids s) + completed s
       + failed_count s + cancelled_count s"

lemma live_append [simp]: "live (a @ b) = live a @ live b"
  by (simp add: live_def)

lemma live_Nil [simp]: "live [] = []"
  by (simp add: live_def)

lemma in_live [simp]: "e \<in> set (live q) \<longleftrightarrow> e \<in> set q \<and> \<not> entry_cancelled e"
  by (simp add: live_def)

lemma live_discard [simp]: "live (discard_cancelled q) = live q"
  by (induction q) (auto simp: live_def)

lemma discard_subset: "set (discard_cancelled q) \<subseteq> set q"
  by (induction q) auto

lemma discard_hd: "discard_cancelled q \<noteq> [] \<Longrightarrow> \<not> entry_cancelled (hd (discard_cancelled q))"
  by (induction q) auto

lemma discard_hd_live: "discard_cancelled q \<noteq> [] \<Longrightarrow> live q = hd (discard_cancelled q) # live (tl (discard_cancelled q))"
  by (induction q) (auto simp: live_def)

lemma discard_Nil_live: "discard_cancelled q = [] \<longleftrightarrow> live q = []"
  by (induction q) (auto simp: live_def)

lemma heap_ok_Cons:
  "heap_ok n prio (e # q) \<longleftrightarrow>
     (\<forall>y \<in> set q. sequence e < sequence y) \<and> sequence e < n \<and> entry_priority e = prio \<and> heap_ok n prio q"
  by (auto simp: heap_ok_def)

lemma heap_ok_discard: "heap_ok n prio q \<Longrightarrow> heap_ok n prio (discard_cancelled q)"
  by (induction q) (simp_all add: heap_ok_Cons)

lemma heap_ok_tl: "heap_ok n prio q \<Longrightarrow> heap_ok n prio (tl q)"
  by (cases q) (simp_all add: heap_ok_Cons)

lemma heap_ok_mono:
  assumes "heap_ok n prio q" "n \<le> m"
  shows "heap_ok m prio q"
proof -
  have "sequence e < m" if "e \<in> set q" for e
  proof -
    have "sequence e < n" using assms(1) that by (simp add: heap_ok_def)
    then show ?thesis using assms(2) by simp
  qed
  then show ?thesis using assms(1) by (simp add: heap_ok_def)
qed

lemma heappush_max:
  assumes "\<forall>x \<in> set q. sequence x < sequence e"
  shows "heappush e q = q @ [e]"
  using assms by (induction q) (auto simp: heappush_def)

lemma heap_ok_push:
  assumes "heap_ok n prio q" "sequence e = n" "entry_priority e = prio"
  shows "heappush e q = q @ [e]" "heap_ok (Suc n) prio (q @ [e])"
proof -
  show "heappush e q = q @ [e]" using assms by (intro heappush_max) (auto simp: heap_ok_def)
  show "heap_ok (Suc n) prio (q @ [e])" using assms by (auto simp: heap_ok_def sorted_wrt_append less_Suc_eq)
qed

lemma heap_ok_inj:
  assumes "heap_ok n prio q" "x \<in> set q" "y \<in> set q" "sequence x = sequence y"
  shows "x = y"
proof -
  obtain i j where "x = q ! i" "y = q ! j" "i < length q" "j < length q"
    using assms(2,3) by (metis in_set_conv_nth)
  moreover have "sequence (q ! a) < sequence (q ! b)" if "a < b" "b < length q" for a b
    using assms(1) that by (auto simp: heap_ok_def sorted_wrt_iff_nth_less)
  ultimately show ?thesis using assms(4) by (metis less_irrefl linorder_neqE_nat)
qed

lemma sched_inv_inj:
  assumes "sched_inv s" "x \<in> set (queued s)" "y \<in> set (queued s)" "sequence x = sequence y"
  shows "x = y"
proof -
  have disj: "sequence ` set (interactive s) \<inter> sequence ` set (background s) = {}"
    and i: "heap_ok (next_sequence s) INTERACTIVE (interactive s)"
    and b: "heap_ok (next_sequence s) BACKGROUND (background s)"
    using assms(1) by (auto simp: sched_inv_def)
  consider "x \<in> set (interactive s)" "y \<in> set (interactive s)" | "x \<in> set (background s)" "y \<in> set (background s)"
    using assms(2-4) disj by (auto dest: imageI [of _ _ sequence])
  then show ?thesis using heap_ok_inj [OF i _ _ assms(4)] heap_ok_inj [OF b _ _ assms(4)] by cases
qed

section \<open>Preservation\<close>

lemma sched_invD:
  assumes "sched_inv s"
  shows "heap_ok (next_sequence s) INTERACTIVE (interactive s)"
    "heap_ok (next_sequence s) BACKGROUND (background s)"
    "entries s rid = Some e \<longleftrightarrow> e \<in> set (live (queued s)) \<and> entry_id e = rid"
    "rid \<in> active_ids s \<Longrightarrow> entries s rid = None"
  using assms by (auto simp: sched_inv_def)

lemma new_entry_simps [simp]:
  "sequence (new_entry now s rid p prio) = next_sequence s"
  "enqueued_at (new_entry now s rid p prio) = now"
  "entry_id (new_entry now s rid p prio) = rid"
  "payload (new_entry now s rid p prio) = p"
  "entry_priority (new_entry now s rid p prio) = prio"
  "\<not> entry_cancelled (new_entry now s rid p prio)"
  by (simp_all add: new_entry_def)

lemma enqueue_InrD:
  assumes "sched_inv s" "enqueue now s rid p prio = Inr t"
  shows "entries s rid = None" "rid \<notin> active_ids s"
    "t = s\<lparr>interactive := interactive s @ (if prio = INTERACTIVE then [new_entry now s rid p prio] else []),
           background := background s @ (if prio = BACKGROUND then [new_entry now s rid p prio] else []),
           next_sequence := Suc (next_sequence s),
           entries := (entries s)(rid \<mapsto> new_entry now s rid p prio)\<rparr>"
  using assms(2) heap_ok_push(1) [OF sched_invD(1) [OF assms(1)], of "new_entry now s rid p prio"]
    heap_ok_push(1) [OF sched_invD(2) [OF assms(1)], of "new_entry now s rid p prio"]
  by (cases prio; auto simp: enqueue_def Let_def split: if_splits)+

lemma enqueue_inv [inv_rules]:
  assumes inv: "sched_inv s" and e: "enqueue now s rid p prio = Inr t"
  shows "sched_inv t"
proof -
  let ?x = "new_entry now s rid p prio"
  note hi = sched_invD(1) [OF inv] and hb = sched_invD(2) [OF inv] and ent = sched_invD(3) [OF inv]
  note d = enqueue_InrD [OF inv e]
  have rid: "entry_id e \<noteq> rid" if "e \<in> set (live (queued s))" for e
    using ent [of "entry_id e" e] that d(1) by auto
  have new: "\<forall>y \<in> set (queued s). sequence y < next_sequence s" using hi hb by (auto simp: heap_ok_def)
  show ?thesis
  proof (cases prio)
    case INTERACTIVE
    have "sequence ` set (interactive s @ [?x]) \<inter> sequence ` set (background s) = {}"
      using inv new by (auto simp: sched_inv_def)
    then show ?thesis
      using inv d INTERACTIVE rid ent heap_ok_push(2) [OF hi, of ?x] heap_ok_mono [OF hb, of "Suc (next_sequence s)"]
      by (auto simp: sched_inv_def live_def)
  next
    case BACKGROUND
    have "sequence ` set (interactive s) \<inter> sequence ` set (background s @ [?x]) = {}"
      using inv new by (auto simp: sched_inv_def)
    then show ?thesis
      using inv d BACKGROUND rid ent heap_ok_push(2) [OF hb, of ?x] heap_ok_mono [OF hi, of "Suc (next_sequence s)"]
      by (auto simp: sched_inv_def live_def)
  qed
qed

lemma discard_both_simps [simp]:
  "interactive (discard_both s) = discard_cancelled (interactive s)"
  "background (discard_both s) = discard_cancelled (background s)"
  "entries (discard_both s) = entries s"
  "next_sequence (discard_both s) = next_sequence s"
  "last_background_relief (discard_both s) = last_background_relief s"
  "starvation_seconds (discard_both s) = starvation_seconds s"
  "active_ids (discard_both s) = active_ids s"
  "completed (discard_both s) = completed s"
  "failed_count (discard_both s) = failed_count s"
  "cancelled_count (discard_both s) = cancelled_count s"
  "due now (discard_both s) e = due now s e"
  by (simp_all add: discard_both_def due_def starvation_started_def)

text \<open>
  What \<open>next\<close> takes: the oldest live background entry when it is due or no interactive entry
  is live, else the oldest live interactive entry.
\<close>

lemma choose_background:
  assumes "live (background s) = e # r" "due now s e \<or> live (interactive s) = []"
  shows "choose_entry now (discard_both s) = Some (e, (discard_both s)\<lparr>
      background := tl (discard_cancelled (background s)),
      last_background_relief := (if due now s e then Some now else last_background_relief s)\<rparr>)"
proof -
  have ne: "discard_cancelled (background s) \<noteq> []" using assms(1) by (simp add: discard_Nil_live)
  then have "hd (discard_cancelled (background s)) = e" using discard_hd_live assms(1) by fastforce
  then show ?thesis
    using ne assms(2) by (auto simp: choose_entry_def discard_Nil_live)
qed

lemma choose_interactive:
  assumes "live (interactive s) = e # r" "live (background s) = [] \<or> \<not> due now s (hd (live (background s)))"
  shows "choose_entry now (discard_both s) = Some (e, (discard_both s)\<lparr>
      interactive := tl (discard_cancelled (interactive s))\<rparr>)"
proof -
  have ne: "discard_cancelled (interactive s) \<noteq> []" using assms(1) by (simp add: discard_Nil_live)
  then have "hd (discard_cancelled (interactive s)) = e" using discard_hd_live assms(1) by fastforce
  moreover have "hd (discard_cancelled (background s)) = hd (live (background s))"
    if "live (background s) \<noteq> []"
    using that discard_hd_live [of "background s"] discard_Nil_live [of "background s"] by (metis list.sel(1))
  ultimately show ?thesis
    using ne assms(2) by (cases "live (background s) = []") (simp_all add: choose_entry_def discard_Nil_live)
qed

lemma choose_none:
  assumes "live (queued s) = []"
  shows "choose_entry now (discard_both s) = None"
  using assms by (simp add: choose_entry_def discard_Nil_live)

lemma choose_cases:
  obtains (bg) e r where "live (background s) = e # r" "due now s e \<or> live (interactive s) = []"
  | (ia) e r where "live (interactive s) = e # r" "live (background s) = [] \<or> \<not> due now s (hd (live (background s)))"
  | (none) "live (queued s) = []"
  by (cases "live (background s)"; cases "live (interactive s)") auto

text \<open>The entry \<open>next\<close> takes, without the heap it comes from.\<close>

definition picked :: "time \<Rightarrow> 'p PriorityScheduler \<Rightarrow> 'p Entry option" where
  "picked now s =
     (if live (background s) \<noteq> [] \<and> (due now s (hd (live (background s))) \<or> live (interactive s) = [])
      then Some (hd (live (background s)))
      else if live (interactive s) \<noteq> [] then Some (hd (live (interactive s))) else None)"

lemma live_tl_discard:
  assumes "heap_ok n prio q" "live q = e # r"
  shows "live (tl (discard_cancelled q)) = r" "set (tl (discard_cancelled q)) \<subseteq> set q - {e}"
proof -
  have ne: "discard_cancelled q \<noteq> []" using assms(2) by (simp add: discard_Nil_live)
  have hd: "hd (discard_cancelled q) = e" and "live (tl (discard_cancelled q)) = r"
    using discard_hd_live [OF ne] assms(2) by auto
  then show "live (tl (discard_cancelled q)) = r" by simp
  have "heap_ok n prio (e # tl (discard_cancelled q))"
    using heap_ok_discard [OF assms(1)] ne hd by (metis list.collapse)
  then have "e \<notin> set (tl (discard_cancelled q))" by (auto simp: heap_ok_def)
  moreover have "set (tl (discard_cancelled q)) \<subseteq> set q"
    using discard_subset list.set_sel(2) ne by (metis subset_iff)
  ultimately show "set (tl (discard_cancelled q)) \<subseteq> set q - {e}" by blast
qed

lemma sched_inv_discard: "sched_inv s \<Longrightarrow> sched_inv (discard_both s)"
  using discard_subset [of "interactive s"] discard_subset [of "background s"]
  by (auto simp: sched_inv_def heap_ok_discard)

text \<open>Removing the oldest live entry \<open>e\<close> from the queues and making it active keeps the invariant.\<close>

lemma activate_inv:
  assumes inv: "sched_inv s" and e: "e \<in> set (live (queued s))"
    and i: "heap_ok (next_sequence s) INTERACTIVE i" "set i \<subseteq> set (interactive s)"
    and b: "heap_ok (next_sequence s) BACKGROUND b" "set b \<subseteq> set (background s)"
    and lv: "set (live (i @ b)) = set (live (queued s)) - {e}" "Suc (length (live (i @ b))) = length (live (queued s))"
  shows "sched_inv (s\<lparr>interactive := i, background := b, last_background_relief := r,
      entries := (entries s)(entry_id e := None), active_ids := insert (entry_id e) (active_ids s)\<rparr>)"
proof -
  note ent = sched_invD(3) [OF inv]
  have "entries s (entry_id e) = Some e" using ent e by blast
  then have na: "entry_id e \<notin> active_ids s" using sched_invD(4) [OF inv] by auto
  have uniq: "x = e" if "x \<in> set (live (queued s))" "entry_id x = entry_id e" for x
    using ent [of "entry_id e" x] ent [of "entry_id e" e] that e by simp
  have "sequence ` set i \<inter> sequence ` set b = {}" using i(2) b(2) inv by (auto simp: sched_inv_def)
  moreover have "((entries s)(entry_id e := None)) rid = Some x \<longleftrightarrow> x \<in> set (live (i @ b)) \<and> entry_id x = rid" for rid x
    unfolding lv(1) using ent [of rid x] uniq by (auto simp del: in_live live_append)
  moreover have "next_sequence s = length (live (i @ b)) + card (insert (entry_id e) (active_ids s)) + completed s
      + failed_count s + cancelled_count s"
    using inv lv(2) na by (simp add: sched_inv_def)
  ultimately show ?thesis
    using inv i(1) b(1) by (auto simp: sched_inv_def simp del: in_live live_append)
qed

text \<open>
  The result of \<open>next\<close> in a state of the invariant: it never raises; it takes the entry
  \<open>picked\<close> out of the queues, out of \<open>_entries\<close> and into the active set.
\<close>

lemma next_item_none:
  assumes "picked now s = None"
  shows "next_item now s = Inr (None, discard_both s)" "live (queued s) = []"
  using assms choose_none [of s now] by (auto simp: picked_def next_item_def split: if_splits)

lemma next_item_some:
  assumes inv: "sched_inv s" and e: "picked now s = Some e"
  obtains t where "sched_inv t" "e \<in> set (live (queued s))"
    "next_item now s = Inr (Some \<lparr>item_id = entry_id e, item_payload = payload e,
        item_priority = entry_priority e, item_enqueued_at = enqueued_at e\<rparr>, t)"
    "live (background t) = filter (\<lambda>x. x \<noteq> e) (live (background s))"
    "set (background t) \<subseteq> set (background s)"
    "entries t = (entries s)(entry_id e := None)" "next_sequence t = next_sequence s"
    "starvation_seconds t = starvation_seconds s"
    "last_background_relief t =
       (if e \<in> set (background s) \<and> due now s e then Some now else last_background_relief s)"
proof -
  note hi = sched_invD(1) [OF inv] and hb = sched_invD(2) [OF inv]
  have disj: "set (interactive s) \<inter> set (background s) = {}" using inv by (auto simp: sched_inv_def)
  have out: "filter (\<lambda>x. x \<noteq> e) r = r" if "heap_ok n prio q" "live q = e # r" for n prio q r
    using live_tl_discard [OF that] by (auto simp: filter_id_conv)
  let ?done = "\<lambda>i b r. s\<lparr>interactive := i, background := b, last_background_relief := r,
      entries := (entries s)(entry_id e := None), active_ids := insert (entry_id e) (active_ids s)\<rparr>"
  have some: "entries s (entry_id e) \<noteq> None" if "e \<in> set (live (queued s))"
    using sched_invD(3) [OF inv, of "entry_id e" e] that by simp
  show ?thesis
  proof (rule choose_cases [of s now])
    fix e' r assume bg: "live (background s) = e' # r" "due now s e' \<or> live (interactive s) = []"
    then have [simp]: "e' = e" using e by (auto simp: picked_def)
    let ?i = "discard_cancelled (interactive s)" and ?b = "tl (discard_cancelled (background s))"
    let ?r = "if due now s e then Some now else last_background_relief s"
    have mem: "e \<in> set (live (queued s))" "e \<in> set (background s)" using bg(1) in_live by (metis \<open>e' = e\<close> list.set_intros(1) live_append Un_iff set_append)+
    note tl = live_tl_discard [OF hb bg(1)]
    have "sched_inv (?done ?i ?b ?r)"
    proof (rule activate_inv [OF inv mem(1)])
      show "set (live (?i @ ?b)) = set (live (queued s)) - {e}"
        using bg(1) tl disj out [OF hb] mem by (auto simp: set_eq_iff)
    qed (use bg hi hb tl discard_subset in \<open>auto simp: heap_ok_discard heap_ok_tl\<close>)
    moreover have "next_item now s = Inr (Some \<lparr>item_id = entry_id e, item_payload = payload e,
        item_priority = entry_priority e, item_enqueued_at = enqueued_at e\<rparr>, ?done ?i ?b ?r)"
      using choose_background [OF bg] some [OF mem(1)] by (simp add: next_item_def discard_both_def)
    ultimately show ?thesis
      using that mem tl bg out [OF hb] discard_subset [of "interactive s"] by fastforce
  next
    fix e' r assume ia: "live (interactive s) = e' # r"
      "live (background s) = [] \<or> \<not> due now s (hd (live (background s)))"
    then have [simp]: "e' = e" using e by (auto simp: picked_def split: if_splits)
    let ?i = "tl (discard_cancelled (interactive s))" and ?b = "discard_cancelled (background s)"
    let ?r = "last_background_relief s"
    have mem: "e \<in> set (live (queued s))" "e \<in> set (interactive s)"
      using ia(1) in_live by (metis \<open>e' = e\<close> list.set_intros(1) live_append Un_iff set_append)+
    note tl = live_tl_discard [OF hi ia(1)]
    have "sched_inv (?done ?i ?b ?r)"
    proof (rule activate_inv [OF inv mem(1)])
      show "set (live (?i @ ?b)) = set (live (queued s)) - {e}"
        using ia(1) tl disj out [OF hi] mem by (auto simp: set_eq_iff)
    qed (use ia hi hb tl discard_subset in \<open>auto simp: heap_ok_discard heap_ok_tl\<close>)
    moreover have "next_item now s = Inr (Some \<lparr>item_id = entry_id e, item_payload = payload e,
        item_priority = entry_priority e, item_enqueued_at = enqueued_at e\<rparr>, ?done ?i ?b ?r)"
      using choose_interactive [OF ia] some [OF mem(1)] by (simp add: next_item_def discard_both_def)
    moreover have "e \<notin> set (background s)" using mem(2) disj by blast
    moreover have "filter (\<lambda>x. x \<noteq> e) (live (background s)) = live (background s)"
      using calculation(3) by (auto simp: filter_id_conv)
    moreover have "set ?b \<subseteq> set (background s)" by (rule discard_subset)
    ultimately show ?thesis using mem(1) by (intro that [of "?done ?i ?b ?r"]) simp_all
  next
    assume "live (queued s) = []"
    then show ?thesis using e by (simp add: picked_def)
  qed
qed

lemma set_cancelled_heap: "heap_ok n prio q \<Longrightarrow> heap_ok n prio (set_cancelled k q)"
  by (auto simp: heap_ok_def set_cancelled_def sorted_wrt_map elim: sorted_wrt_mono_rel [rotated])

lemma set_cancelled_sequences [simp]: "sequence ` set (set_cancelled k q) = sequence ` set q"
  by (induction q) (auto simp: set_cancelled_def)

lemma heap_ok_distinct: "heap_ok n prio q \<Longrightarrow> distinct q"
  by (induction q) (auto simp: heap_ok_Cons)

lemma live_distinct:
  assumes "sched_inv s"
  shows "distinct (live (queued s))"
proof -
  have "set (interactive s) \<inter> set (background s) = {}" using assms by (auto simp: sched_inv_def)
  then show ?thesis
    using heap_ok_distinct [OF sched_invD(1) [OF assms]] heap_ok_distinct [OF sched_invD(2) [OF assms]]
    by (auto simp: live_def)
qed

lemma live_set_cancelled: "live (set_cancelled k q) = filter (\<lambda>x. sequence x \<noteq> k) (live q)"
  by (induction q) (auto simp: set_cancelled_def live_def)

lemma cancel_inv [inv_rules]:
  assumes inv: "sched_inv s"
  shows "sched_inv (snd (cancel s rid))"
proof (cases "entries s rid")
  case (Some e)
  note ent = sched_invD(3) [OF inv]
  have e: "e \<in> set (live (queued s))" "entry_id e = rid" using Some ent by auto
  have lv: "live (set_cancelled (sequence e) (interactive s) @ set_cancelled (sequence e) (background s)) =
      filter (\<lambda>x. sequence x \<noteq> sequence e) (live (queued s))"
    by (simp add: live_set_cancelled)
  have key: "sequence x \<noteq> sequence e \<longleftrightarrow> x \<noteq> e" if "x \<in> set (live (queued s))" for x
    using sched_inv_inj [OF inv, of x e] that e by auto
  have "filter (\<lambda>x. sequence x \<noteq> sequence e) (live (queued s)) = filter (\<lambda>x. x \<noteq> e) (live (queued s))"
    using key by (intro filter_cong) auto
  also have "\<dots> = remove1 e (live (queued s))"
    using live_distinct [OF inv] by (simp add: distinct_remove1_removeAll removeAll_filter_not_eq
        eq_commute [of e] del: live_append)
  finally have len: "Suc (length (filter (\<lambda>x. sequence x \<noteq> sequence e) (live (queued s)))) = length (live (queued s))"
    using length_pos_if_in_set [OF e(1)] e(1) by (simp add: length_remove1 del: live_append in_live)
  have ent': "((entries s)(rid := None)) r = Some x \<longleftrightarrow>
      x \<in> set (filter (\<lambda>x. sequence x \<noteq> sequence e) (live (queued s))) \<and> entry_id x = r" for r x
    using ent [of r x] key [of x] e Some by (auto simp del: in_live live_append)
  have "next_sequence s = length (filter (\<lambda>x. sequence x \<noteq> sequence e) (live (queued s))) + card (active_ids s)
      + completed s + failed_count s + Suc (cancelled_count s)"
    using inv len by (simp add: sched_inv_def del: live_append)
  moreover have "snd (cancel s rid) = s\<lparr>entries := (entries s)(rid := None),
      interactive := set_cancelled (sequence e) (interactive s),
      background := set_cancelled (sequence e) (background s), cancelled_count := cancelled_count s + 1\<rparr>"
    by (simp add: cancel_def Some)
  moreover have "active_ids s \<inter> dom ((entries s)(rid := None)) = {}" using sched_invD(4) [OF inv] by auto
  moreover have "finite (active_ids s)" "sequence ` set (interactive s) \<inter> sequence ` set (background s) = {}"
    using inv by (simp_all add: sched_inv_def)
  ultimately show ?thesis
    using set_cancelled_heap [OF sched_invD(1) [OF inv], of "sequence e"]
      set_cancelled_heap [OF sched_invD(2) [OF inv], of "sequence e"] lv ent'
    by (simp add: sched_inv_def del: live_append in_live fun_upd_apply)
qed (use inv in \<open>simp add: cancel_def\<close>)

lemma finish_inv [inv_rules]:
  assumes "sched_inv s" "finish s rid failed = Inr t"
  shows "sched_inv t"
proof -
  have rid: "rid \<in> active_ids s"
    and t: "t = s\<lparr>active_ids := active_ids s - {rid}, failed_count := failed_count s + (if failed then 1 else 0),
                  completed := completed s + (if failed then 0 else 1)\<rparr>"
    using assms(2) by (auto simp: finish_def Let_def split: if_splits)
  have fin: "finite (active_ids s)" using assms(1) by (simp add: sched_inv_def)
  have "card (active_ids s) = Suc (card (active_ids s - {rid}))" using fin rid by (rule card.remove)
  moreover have "(active_ids s - {rid}) \<inter> dom (entries s) = {}" using sched_invD(4) [OF assms(1)] by auto
  ultimately show ?thesis
    using assms(1) sched_invD(1,2) [OF assms(1)] fin unfolding t
    by (cases failed) (simp_all add: sched_inv_def del: live_append in_live)
qed

lemma next_inv:
  assumes "sched_inv s" "next_item now s = Inr (i, t)"
  shows "sched_inv t"
proof (cases "picked now s")
  case None
  then show ?thesis using next_item_none(1) [OF None] assms sched_inv_discard by simp
next
  case (Some e)
  then show ?thesis using next_item_some [OF assms(1) Some] assms(2) by (metis Inr_inject prod.inject)
qed

lemma new_scheduler_inv: "new_scheduler k = Inr s \<Longrightarrow> sched_inv s"
  by (auto simp: new_scheduler_def sched_inv_def heap_ok_def split: if_splits)

lemma call_inv [inv_rules]: "sched_inv s \<Longrightarrow> sched_inv (call now ev s)"
  by (cases ev) (auto simp: ok_or_def intro: enqueue_inv next_inv cancel_inv finish_inv split: sum.splits)

lemma calls_inv [inv_rules]: "sched_inv s \<Longrightarrow> sched_inv (calls evs s)"
  by (induction evs s rule: calls.induct) (auto intro: call_inv)

section \<open>Starvation\<close>

text \<open>
  The clock of the scheduler is monotone: background entries were enqueued in the order of
  their sequence numbers, and no recorded time lies in the future.
\<close>

definition clock_ok :: "time \<Rightarrow> 'p PriorityScheduler \<Rightarrow> bool" where
  "clock_ok now s \<longleftrightarrow>
     (\<forall>x \<in> set (background s). enqueued_at x \<le> now) \<and>
     (\<forall>x \<in> set (background s). \<forall>y \<in> set (background s). sequence x < sequence y \<longrightarrow> enqueued_at x \<le> enqueued_at y)"

definition waiting :: "'p PriorityScheduler \<Rightarrow> 'p Entry \<Rightarrow> bool" where
  "waiting s e \<longleftrightarrow> entries s (entry_id e) = Some e"

definition ahead :: "'p PriorityScheduler \<Rightarrow> 'p Entry \<Rightarrow> nat" where
  "ahead s e = length (filter (\<lambda>x. sequence x < sequence e) (live (background s)))"

text \<open>The calls of \<open>next\<close> in a run at whose time the entry \<open>e\<close> had starved long enough.\<close>

fun due_calls :: "(time \<times> 'p event) list \<Rightarrow> 'p PriorityScheduler \<Rightarrow> 'p Entry \<Rightarrow> nat" where
  "due_calls [] s e = 0"
| "due_calls ((now, ev) # evs) s e =
     (case ev of Next \<Rightarrow> if due now s e then 1 else 0 | _ \<Rightarrow> 0) + due_calls evs (call now ev s) e"

fun clocked :: "time \<Rightarrow> (time \<times> 'p event) list \<Rightarrow> bool" where
  "clocked t [] = True"
| "clocked t ((now, ev) # evs) = (t \<le> now \<and> clocked now evs)"

lemma waiting_bound: "sched_inv s \<Longrightarrow> waiting s e \<Longrightarrow> sequence e < next_sequence s"
  using sched_invD(1-3) [of s] by (fastforce simp: waiting_def heap_ok_def)

text \<open>Once an entry no longer waits, it never waits again: later entries have later numbers.\<close>

lemma call_next_sequence: "sched_inv s \<Longrightarrow> next_sequence s \<le> next_sequence (call now ev s)"
proof (cases ev)
  case Next
  assume inv: "sched_inv s"
  show ?thesis
  proof (cases "picked now s")
    case None
    then show ?thesis using Next next_item_none(1) [OF None] by simp
  next
    case (Some e)
    then show ?thesis using Next by (auto elim: next_item_some [OF inv])
  qed
qed (auto simp: ok_or_def cancel_def finish_def Let_def dest: enqueue_InrD(3) split: sum.splits option.splits)

lemma call_not_waiting:
  assumes inv: "sched_inv s" and "\<not> waiting s e" "sequence e < next_sequence s"
  shows "\<not> waiting (call now ev s) e"
proof (cases ev)
  case (Enqueue rid p prio)
  show ?thesis
  proof (cases "enqueue now s rid p prio")
    case (Inr t)
    have "e \<noteq> new_entry now s rid p prio" using assms(3) by auto
    then show ?thesis using Enqueue Inr assms(2) enqueue_InrD(3) [OF inv Inr] by (auto simp: ok_or_def waiting_def)
  qed (use Enqueue assms(2) in \<open>simp add: ok_or_def\<close>)
next
  case Next
  show ?thesis
  proof (cases "picked now s")
    case None
    then show ?thesis using Next next_item_none(1) [OF None] assms(2) by (simp add: waiting_def)
  next
    case (Some x)
    then show ?thesis using Next assms(2) by (auto elim!: next_item_some [OF inv] simp: waiting_def split: if_splits)
  qed
qed (use assms(2) in \<open>auto simp: ok_or_def cancel_def finish_def waiting_def Let_def split: sum.splits option.splits if_splits\<close>)

lemma calls_not_waiting:
  "sched_inv s \<Longrightarrow> \<not> waiting s e \<Longrightarrow> sequence e < next_sequence s \<Longrightarrow> \<not> waiting (calls evs s) e"
proof (induction evs s rule: calls.induct)
  case (2 now ev evs s)
  have "sequence e < next_sequence (call now ev s)"
    using call_next_sequence [OF "2.prems"(1), of now ev] "2.prems"(3) by simp
  then show ?case using 2 call_inv call_not_waiting by (metis calls.simps(2))
qed simp

lemma waiting_background:
  assumes "sched_inv s" "waiting s e" "entry_priority e = BACKGROUND"
  shows "e \<in> set (live (background s))"
  using sched_invD(1,3) [OF assms(1)] assms(2,3) by (auto simp: waiting_def heap_ok_def)

lemma live_sorted: "heap_ok n prio q \<Longrightarrow> heap_ok n prio (live q)"
  by (auto simp: heap_ok_def live_def sorted_wrt_filter)

lemma due_picks_head:
  assumes inv: "sched_inv s" and clock: "clock_ok t s"
    and e: "e \<in> set (live (background s))" and due: "due now s e"
  obtains h r where "live (background s) = h # r" "picked now s = Some h" "h = e \<or> sequence h < sequence e"
proof -
  obtain h r where lv: "live (background s) = h # r" using e by (cases "live (background s)") auto
  have heap: "heap_ok (next_sequence s) BACKGROUND (h # r)"
    using live_sorted [OF sched_invD(2) [OF inv]] lv by simp
  then have le: "h = e \<or> sequence h < sequence e" using e lv by (auto simp: heap_ok_Cons)
  have mem: "h \<in> set (background s)" "e \<in> set (background s)"
    using e lv in_live by (metis list.set_intros(1), metis)
  have "enqueued_at h \<le> enqueued_at e" using le clock mem by (auto simp: clock_ok_def)
  then have "due now s h" using due by (auto simp: due_def starvation_started_def split: option.splits)
  then show ?thesis using that lv le by (simp add: picked_def)
qed

lemma call_ahead:
  assumes inv: "sched_inv s" and clock: "clock_ok t s"
    and e: "waiting s e" "entry_priority e = BACKGROUND" and after: "waiting (call now ev s) e"
  shows "ahead (call now ev s) e + (case ev of Next \<Rightarrow> if due now s e then 1 else 0 | _ \<Rightarrow> 0) \<le> ahead s e"
proof (cases ev)
  case (Enqueue rid p prio)
  have "\<not> next_sequence s < sequence e" using waiting_bound [OF inv e(1)] by simp
  then show ?thesis
    using Enqueue by (auto simp: ahead_def ok_or_def live_def dest!: enqueue_InrD(3) [OF inv] split: sum.splits)
next
  case Next
  show ?thesis
  proof (cases "picked now s")
    case None
    then show ?thesis using next_item_none(2) [OF None] waiting_background [OF inv e] by auto
  next
    case (Some x)
    obtain u where u: "call now Next s = u" "entries u = (entries s)(entry_id x := None)"
      "live (background u) = filter (\<lambda>y. y \<noteq> x) (live (background s))"
      using next_item_some [OF inv Some] by (metis (no_types, lifting) call.simps(2) case_prod_conv sum.simps(6))
    let ?f = "filter (\<lambda>y. sequence y < sequence e)"
    have eq: "?f (live (background u)) = filter (\<lambda>y. y \<noteq> x) (?f (live (background s)))"
      unfolding u(3) by (simp add: conj_commute)
    show ?thesis
    proof (cases "due now s e")
      case True
      obtain h r where h: "live (background s) = h # r" "picked now s = Some h" "h = e \<or> sequence h < sequence e"
        by (rule due_picks_head [OF inv clock waiting_background [OF inv e] True])
      have "x = h" using h(2) Some by simp
      then have "h \<noteq> e" using u(1,2) after Next by (auto simp: waiting_def)
      then have "x \<in> set (?f (live (background s)))" using h \<open>x = h\<close> by simp
      then have "length (filter (\<lambda>y. y \<noteq> x) (?f (live (background s)))) < length (?f (live (background s)))"
        by (rule length_filter_less) simp
      then show ?thesis using Next True u(1) eq by (simp add: ahead_def)
    next
      case False
      then show ?thesis using Next u(1) eq by (simp add: ahead_def length_filter_conj_le)
    qed
  qed
next
  case (Cancel rid)
  then show ?thesis
    by (auto simp: ahead_def cancel_def live_set_cancelled length_filter_conj_le split: option.splits)
next
  case (Finish rid failed)
  then show ?thesis by (auto simp: ahead_def ok_or_def finish_def Let_def split: sum.splits if_splits)
qed

lemma call_background:
  assumes inv: "sched_inv s" and y: "y \<in> set (background (call now ev s))"
  shows "(\<exists>x \<in> set (background s). sequence y = sequence x \<and> enqueued_at y = enqueued_at x) \<or>
    sequence y = next_sequence s \<and> enqueued_at y = now"
proof (cases ev)
  case (Enqueue rid p prio)
  then show ?thesis
    using y by (auto simp: ok_or_def dest!: enqueue_InrD(3) [OF inv] split: sum.splits if_splits)
next
  case Next
  show ?thesis
  proof (cases "picked now s")
    case None
    then show ?thesis using Next y next_item_none(1) [OF None] discard_subset by fastforce
  next
    case (Some x)
    obtain u where "call now Next s = u" "set (background u) \<subseteq> set (background s)"
      using next_item_some [OF inv Some] by (metis (no_types, lifting) call.simps(2) case_prod_conv sum.simps(6))
    then show ?thesis using y Next by auto
  qed
next
  case (Cancel rid)
  have "\<exists>x \<in> set q. sequence z = sequence x \<and> enqueued_at z = enqueued_at x"
    if "z \<in> set (set_cancelled n q)" for n q and z :: "'a Entry"
    using that by (force simp: set_cancelled_def)
  then show ?thesis using Cancel y by (auto simp: cancel_def split: option.splits)
next
  case (Finish rid failed)
  then show ?thesis using y by (auto simp: ok_or_def finish_def Let_def split: sum.splits if_splits)
qed

lemma call_clock_ok:
  assumes inv: "sched_inv s" and clock: "clock_ok t s" and le: "t \<le> now"
  shows "clock_ok now (call now ev s)"
proof -
  have old: "enqueued_at x \<le> now \<and> sequence x < next_sequence s" if "x \<in> set (background s)" for x
    using clock le that sched_invD(2) [OF inv] by (force simp: clock_ok_def heap_ok_def)
  have mono: "enqueued_at x \<le> enqueued_at y"
    if "x \<in> set (background s)" "y \<in> set (background s)" "sequence x < sequence y" for x y
    using clock that by (auto simp: clock_ok_def)
  show ?thesis
    unfolding clock_ok_def
  proof (intro conjI ballI impI)
    fix x assume x: "x \<in> set (background (call now ev s))"
    show "enqueued_at x \<le> now" using call_background [OF inv x] old by auto
    fix y assume y: "y \<in> set (background (call now ev s))" and lt: "sequence x < sequence y"
    show "enqueued_at x \<le> enqueued_at y"
      using call_background [OF inv x] call_background [OF inv y] old mono lt by (metis order_less_asym)
  qed
qed

lemma due_calls_ahead:
  "sched_inv s \<Longrightarrow> clock_ok t s \<Longrightarrow> clocked t evs \<Longrightarrow> entry_priority e = BACKGROUND \<Longrightarrow> waiting s e \<Longrightarrow>
   waiting (calls evs s) e \<Longrightarrow> due_calls evs s e + ahead (calls evs s) e \<le> ahead s e"
proof (induction evs arbitrary: s t)
  case (Cons p evs)
  obtain now ev where p: "p = (now, ev)" by (cases p)
  let ?s = "call now ev s"
  have inv: "sched_inv ?s" and clock: "clock_ok now ?s"
    using Cons.prems p call_inv call_clock_ok by auto
  have "sequence e < next_sequence ?s"
    using waiting_bound [OF Cons.prems(1,5)] call_next_sequence [OF Cons.prems(1), of now ev] by simp
  then have w: "waiting ?s e" using calls_not_waiting [OF inv] Cons.prems(6) p by auto
  then have "due_calls evs ?s e + ahead (calls evs ?s) e \<le> ahead ?s e"
    using Cons.IH [OF inv clock] Cons.prems p by simp
  moreover note call_ahead [OF Cons.prems(1,2,5,4) w]
  ultimately show ?case using p by simp
qed simp

text \<open>
  C17: Starvation of background work is bounded. In any run of the scheduler with a monotone
  clock, while a background request waits, \<open>next\<close> is called at most as often at a time at
  which that request is due (it and the last relief are \<open>starvation_seconds\<close> old) as live
  background requests were ahead of it; every further such call hands it out, however many
  interactive requests are queued.
\<close>

theorem background_starvation_bounded:
  assumes "sched_inv s" "clock_ok t s" "clocked t evs"
    and "waiting s e" "entry_priority e = BACKGROUND" "due_calls evs s e > ahead s e"
  shows "\<not> waiting (calls evs s) e"
  using due_calls_ahead [OF assms(1-3,5,4)] assms(6) by auto

definition oldest_waiting :: "'p PriorityScheduler \<Rightarrow> Priority \<Rightarrow> 'p Entry \<Rightarrow> bool" where
  "oldest_waiting s prio e \<longleftrightarrow> waiting s e \<and> entry_priority e = prio \<and>
     (\<forall>x. waiting s x \<and> entry_priority x = prio \<longrightarrow> sequence e \<le> sequence x)"

definition queue_of :: "'p PriorityScheduler \<Rightarrow> Priority \<Rightarrow> 'p Entry list" where
  "queue_of s prio = (case prio of INTERACTIVE \<Rightarrow> interactive s | BACKGROUND \<Rightarrow> background s)"

lemma waiting_queue:
  assumes "sched_inv s"
  shows "waiting s x \<and> entry_priority x = prio \<longleftrightarrow> x \<in> set (live (queue_of s prio))"
  using sched_invD(1-3) [OF assms] by (cases prio) (auto simp: waiting_def heap_ok_def queue_of_def)

lemma oldest_waiting_iff:
  assumes inv: "sched_inv s"
  shows "oldest_waiting s prio x \<longleftrightarrow> live (queue_of s prio) \<noteq> [] \<and> x = hd (live (queue_of s prio))"
proof (cases "live (queue_of s prio)")
  case Nil
  then show ?thesis using waiting_queue [OF inv, of x prio] by (auto simp: oldest_waiting_def)
next
  case (Cons h r)
  have "heap_ok (next_sequence s) prio (queue_of s prio)"
    using sched_invD(1,2) [OF inv] by (cases prio) (simp_all add: queue_of_def)
  from live_sorted [OF this] have heap: "heap_ok (next_sequence s) prio (h # r)" by (simp add: Cons)
  have w: "waiting s y \<and> entry_priority y = prio \<longleftrightarrow> y = h \<or> y \<in> set r" for y
    using waiting_queue [OF inv, of y prio] unfolding Cons by simp
  show ?thesis
  proof
    assume "oldest_waiting s prio x"
    then have x: "x = h \<or> x \<in> set r" "sequence x \<le> sequence h" using w by (auto simp: oldest_waiting_def)
    then show "live (queue_of s prio) \<noteq> [] \<and> x = hd (live (queue_of s prio))"
      using heap Cons by (auto simp: heap_ok_Cons)
  next
    assume "live (queue_of s prio) \<noteq> [] \<and> x = hd (live (queue_of s prio))"
    then have "x = h" by (simp add: Cons)
    then show "oldest_waiting s prio x"
      using w [of x] w heap by (auto simp: oldest_waiting_def heap_ok_Cons)
  qed
qed

text \<open>
  C18: The order of the scheduler. In every state reached from an empty scheduler by any calls,
  \<open>next\<close> does not raise and hands out the waiting request with the least sequence number of
  its priority; it hands out a background request only when no interactive request waits or
  that request is due, it waits only when no request is queued, and every accepted request is
  counted as exactly one of queued, active, completed, failed and cancelled.
\<close>

theorem scheduler_order:
  assumes "new_scheduler k = Inr s0" "s = calls evs s0"
  shows "\<exists>r t. next_item now s = Inr (r, t) \<and>
    (case r of None \<Rightarrow> \<nexists>x. waiting s x
     | Some i \<Rightarrow> \<exists>e. i = \<lparr>item_id = entry_id e, item_payload = payload e, item_priority = entry_priority e,
                         item_enqueued_at = enqueued_at e\<rparr> \<and>
         oldest_waiting s (entry_priority e) e \<and>
         (if entry_priority e = BACKGROUND then due now s e \<or> (\<nexists>x. oldest_waiting s INTERACTIVE x)
          else \<nexists>x. oldest_waiting s BACKGROUND x \<and> due now s x)) \<and>
    next_sequence s = queued_interactive (metrics now s) + queued_background (metrics now s)
      + active_requests (metrics now s) + completed_requests (metrics now s)
      + failed_requests (metrics now s) + cancelled_requests (metrics now s)"
proof -
  have inv: "sched_inv s" using assms new_scheduler_inv calls_inv by blast
  have count: "next_sequence s = queued_interactive (metrics now s) + queued_background (metrics now s)
      + active_requests (metrics now s) + completed_requests (metrics now s)
      + failed_requests (metrics now s) + cancelled_requests (metrics now s)"
    using inv by (simp add: sched_inv_def metrics_def Let_def live_def)
  note old = oldest_waiting_iff [OF inv, of INTERACTIVE] oldest_waiting_iff [OF inv, of BACKGROUND]
  show ?thesis
  proof (cases "picked now s")
    case None
    have "\<nexists>x. waiting s x"
    proof
      assume "\<exists>x. waiting s x"
      then obtain x where "waiting s x" by blast
      then have "x \<in> set (live (queue_of s (entry_priority x)))" using waiting_queue [OF inv] by blast
      then show False
        using next_item_none(2) [OF None] by (cases "entry_priority x") (simp_all add: queue_of_def del: in_live)
    qed
    then show ?thesis using next_item_none(1) [OF None] count by auto
  next
    case (Some e)
    obtain t where t: "next_item now s = Inr (Some \<lparr>item_id = entry_id e, item_payload = payload e,
        item_priority = entry_priority e, item_enqueued_at = enqueued_at e\<rparr>, t)"
      using next_item_some [OF inv Some] by metis
    have prio: "entry_priority (hd (live (queue_of s p))) = p" if "live (queue_of s p) \<noteq> []" for p
      using waiting_queue [OF inv, of "hd (live (queue_of s p))" p] hd_in_set [OF that] by simp
    have "oldest_waiting s (entry_priority e) e \<and>
         (if entry_priority e = BACKGROUND then due now s e \<or> (\<nexists>x. oldest_waiting s INTERACTIVE x)
          else \<nexists>x. oldest_waiting s BACKGROUND x \<and> due now s x)"
      using Some prio [of INTERACTIVE] prio [of BACKGROUND] old
      by (auto simp: picked_def queue_of_def split: if_splits)
    then show ?thesis using t count by auto
  qed
qed

text \<open>A run on which both properties apply: interactive work arrives before every call of \<open>next\<close>.\<close>

definition sample_scheduler :: "nat PriorityScheduler" where
  "sample_scheduler =
     \<lparr>starvation_seconds = 60, interactive = [], background = [], entries = Map.empty, next_sequence = 0,
      last_background_relief = None, active_ids = {}, completed = 0, failed_count = 0, cancelled_count = 0\<rparr>"

definition sample_entry :: "nat Entry" where
  "sample_entry = \<lparr>sequence = 0, enqueued_at = 0, entry_id = ''b'', payload = 0,
     entry_priority = BACKGROUND, entry_cancelled = False\<rparr>"

theorem background_starvation_bounded_witness:
  "\<not> waiting (calls [(30, Enqueue ''i'' 1 INTERACTIVE), (61, Next)]
      (call 0 (Enqueue ''b'' 0 BACKGROUND) sample_scheduler)) sample_entry"
proof (rule background_starvation_bounded [where t = 0])
  let ?s = "call 0 (Enqueue ''b'' 0 BACKGROUND) sample_scheduler"
  have "new_scheduler 60 = Inr sample_scheduler" by (simp add: new_scheduler_def sample_scheduler_def)
  then show "sched_inv ?s" using new_scheduler_inv call_inv by blast
  have s: "background ?s = [sample_entry]" "entries ?s ''b'' = Some sample_entry"
    by (simp_all add: sample_scheduler_def enqueue_def ok_or_def heappush_def new_entry_def sample_entry_def Let_def)
  show "clock_ok 0 ?s" using s by (simp add: clock_ok_def sample_entry_def)
  show "waiting ?s sample_entry" using s by (simp add: waiting_def sample_entry_def)
  show "ahead ?s sample_entry < due_calls [(30, Enqueue ''i'' 1 INTERACTIVE), (61, Next)] ?s sample_entry"
    by (simp add: ahead_def live_def sample_scheduler_def enqueue_def ok_or_def heappush_def new_entry_def
        sample_entry_def Let_def due_def starvation_started_def)
qed (simp_all add: sample_entry_def)

theorem scheduler_order_witness:
  "\<exists>i t e. next_item 7 (calls [(0, Enqueue ''b'' 0 BACKGROUND), (1, Enqueue ''i'' 1 INTERACTIVE)] sample_scheduler)
     = Inr (Some i, t) \<and> item_id i = ''i'' \<and> entry_id e = ''i'' \<and>
     oldest_waiting (calls [(0, Enqueue ''b'' 0 BACKGROUND), (1, Enqueue ''i'' 1 INTERACTIVE)] sample_scheduler)
       (entry_priority e) e"
proof -
  let ?s = "calls [(0, Enqueue ''b'' 0 BACKGROUND), (1, Enqueue ''i'' 1 INTERACTIVE)] sample_scheduler"
  have new: "new_scheduler 60 = Inr sample_scheduler" by (simp add: new_scheduler_def sample_scheduler_def)
  have "\<exists>i t. next_item 7 ?s = Inr (Some i, t) \<and> item_id i = ''i''"
    by (simp add: sample_scheduler_def enqueue_def ok_or_def heappush_def new_entry_def Let_def
        next_item_def choose_entry_def discard_both_def due_def starvation_started_def)
  then obtain i t where i: "next_item 7 ?s = Inr (Some i, t)" "item_id i = ''i''" by blast
  have "\<exists>e. item_id i = entry_id e \<and> oldest_waiting ?s (entry_priority e) e"
    using scheduler_order [OF new refl, where now = 7 and
        evs = "[(0, Enqueue ''b'' 0 BACKGROUND), (1, Enqueue ''i'' 1 INTERACTIVE)]"] i(1)
    by (auto simp del: calls.simps)
  then show ?thesis using i by metis
qed

end
