(* ===== verification/Admission.thy ===== *)
theory Admission
  imports Text
begin

text \<open>
  The two admission controls of the runtime processes: runtime/limits.py (one semaphore per
  stage of the inference pipeline) and runtime/maintenance_gate.py (writes are refused while
  a maintenance operation drains them). Each method body runs without suspension under its
  lock, so it is one step; where the source waits on a semaphore or an event the step is
  enabled only when the wait would end.
\<close>

section \<open>Stage limits\<close>

datatype Stage = DIGITAL_IO | GENERATION | RERANK | EMBEDDING | OCR_STAGE

definition all_stages :: "Stage list" where
  "all_stages = [DIGITAL_IO, GENERATION, RERANK, EMBEDDING, OCR_STAGE]"

definition DEFAULT_STAGE_LIMITS :: "(Stage \<times> int) list" where
  "DEFAULT_STAGE_LIMITS =
     [(DIGITAL_IO, 2), (GENERATION, 1), (RERANK, 1), (EMBEDDING, 1), (OCR_STAGE, 1)]"

record StageLimits =
  stage_limits :: "Stage \<Rightarrow> int"
  semaphores :: "Stage \<Rightarrow> int"
  stage_active :: "Stage \<Rightarrow> int"

text \<open>The constructor; a dictionary is the list of its items.\<close>

definition new_stage_limits :: "(Stage \<times> int) list option \<Rightarrow> (string, StageLimits) result" where
  "new_stage_limits limits =
     (let configured = (case limits of None \<Rightarrow> DEFAULT_STAGE_LIMITS | Some l \<Rightarrow> l);
          limit = (\<lambda>s. case map_of configured s of None \<Rightarrow> 0 | Some n \<Rightarrow> n)
      in if set (map fst configured) \<noteq> set all_stages
         then Inl ''limits must define every runtime stage exactly once''
         else if \<exists>(s, n) \<in> set configured. n < 1 then Inl ''stage limits must be positive integers''
         else Inr \<lparr>stage_limits = limit, semaphores = limit, stage_active = (\<lambda>_. 0)\<rparr>)"

text \<open>Entering \<open>acquire\<close> passes when the semaphore is positive; leaving it gives the permit back.\<close>

definition stage_free :: "StageLimits \<Rightarrow> Stage \<Rightarrow> bool" where
  "stage_free l s \<longleftrightarrow> 0 < semaphores l s"

definition stage_enter :: "StageLimits \<Rightarrow> Stage \<Rightarrow> StageLimits" where
  "stage_enter l s = l\<lparr>semaphores := (semaphores l)(s := semaphores l s - 1),
                       stage_active := (stage_active l)(s := stage_active l s + 1)\<rparr>"

definition stage_leave :: "StageLimits \<Rightarrow> Stage \<Rightarrow> StageLimits" where
  "stage_leave l s = l\<lparr>stage_active := (stage_active l)(s := stage_active l s - 1),
                       semaphores := (semaphores l)(s := semaphores l s + 1)\<rparr>"

definition snapshot :: "StageLimits \<Rightarrow> (Stage \<times> int \<times> int) list" where
  "snapshot l = map (\<lambda>s. (s, stage_limits l s, stage_active l s)) all_stages"

definition limits_inv :: "StageLimits \<Rightarrow> bool" where
  "limits_inv l \<longleftrightarrow> (\<forall>s. 0 \<le> stage_active l s \<and> 0 \<le> semaphores l s \<and>
     stage_active l s + semaphores l s = stage_limits l s)"

lemma UNIV_stages: "set all_stages = UNIV"
proof -
  have "s \<in> set all_stages" for s by (cases s) (simp_all add: all_stages_def)
  then show ?thesis by blast
qed

lemma new_stage_limits_inv:
  assumes "new_stage_limits c = Inr l"
  shows "limits_inv l" "1 \<le> stage_limits l s"
proof -
  define conf where "conf = (case c of None \<Rightarrow> DEFAULT_STAGE_LIMITS | Some x \<Rightarrow> x)"
  have keys: "set (map fst conf) = UNIV" and pos: "\<forall>(s, n) \<in> set conf. 1 \<le> n"
    and l: "l = \<lparr>stage_limits = (\<lambda>s. case map_of conf s of None \<Rightarrow> 0 | Some n \<Rightarrow> n),
        semaphores = (\<lambda>s. case map_of conf s of None \<Rightarrow> 0 | Some n \<Rightarrow> n), stage_active = (\<lambda>_. 0)\<rparr>"
    using assms by (auto simp: new_stage_limits_def Let_def conf_def [symmetric] UNIV_stages split: if_splits)
  have lim: "\<exists>n. map_of conf s = Some n \<and> 1 \<le> n" for s
  proof -
    have "s \<in> fst ` set conf" using keys by (metis UNIV_I list.set_map)
    then obtain n where "map_of conf s = Some n" by (metis map_of_eq_None_iff option.exhaust)
    then show ?thesis using pos by (auto dest: map_of_SomeD)
  qed
  have "1 \<le> stage_limits l s" for s using lim [of s] by (auto simp: l)
  then show "1 \<le> stage_limits l s" and "limits_inv l"
    by (auto simp: limits_inv_def l intro: order_trans [of 0 1])
qed

lemma stage_enter_inv [inv_rules]: "limits_inv l \<Longrightarrow> stage_free l s \<Longrightarrow> limits_inv (stage_enter l s)"
  by (auto simp: limits_inv_def stage_free_def stage_enter_def)

lemma stage_leave_inv [inv_rules]: "limits_inv l \<Longrightarrow> 0 < stage_active l s \<Longrightarrow> limits_inv (stage_leave l s)"
  by (auto simp: limits_inv_def stage_leave_def)

section \<open>Maintenance gate\<close>

record MaintenanceGate =
  gate_draining :: bool
  active_mutations :: int
  gate_idle :: bool

definition new_gate :: MaintenanceGate where
  "new_gate = \<lparr>gate_draining = False, active_mutations = 0, gate_idle = True\<rparr>"

definition enter_mutation :: "MaintenanceGate \<Rightarrow> bool \<times> MaintenanceGate" where
  "enter_mutation g =
     (if gate_draining g then (False, g)
      else (True, g\<lparr>active_mutations := active_mutations g + 1, gate_idle := False\<rparr>))"

definition leave_mutation :: "MaintenanceGate \<Rightarrow> MaintenanceGate" where
  "leave_mutation g =
     (let g1 = g\<lparr>active_mutations := active_mutations g - 1\<rparr>
      in if active_mutations g1 = 0 then g1\<lparr>gate_idle := True\<rparr> else g1)"

text \<open>\<open>drain\<close> up to its wait for the idle event; the wait ends when the event is set.\<close>

definition start_drain :: "MaintenanceGate \<Rightarrow> MaintenanceGate" where
  "start_drain g =
     (let g1 = g\<lparr>gate_draining := True\<rparr>
      in if active_mutations g1 = 0 then g1\<lparr>gate_idle := True\<rparr> else g1)"

definition resume_gate :: "MaintenanceGate \<Rightarrow> MaintenanceGate" where
  "resume_gate g = g\<lparr>gate_draining := False\<rparr>"

definition gate_status :: "MaintenanceGate \<Rightarrow> bool \<times> int" where
  "gate_status g = (gate_draining g, active_mutations g)"

text \<open>The middleware: a request that is a mutation and not internal passes through the gate.\<close>

record http_scope =
  scope_type :: string
  scope_method :: string
  scope_path :: string

definition MUTATION_METHODS :: "string set" where
  "MUTATION_METHODS = {''POST'', ''PUT'', ''PATCH'', ''DELETE''}"

definition gated :: "http_scope \<Rightarrow> bool" where
  "gated r \<longleftrightarrow> (scope_type r = ''http'' \<and> scope_method r \<in> MUTATION_METHODS)
     \<and> \<not> starts_with (scope_path r) ''/internal/controller/''"

datatype gate_reply = Forwarded bool | Refused503

definition begin_request :: "MaintenanceGate \<Rightarrow> http_scope \<Rightarrow> gate_reply \<times> MaintenanceGate" where
  "begin_request g r =
     (if gated r then (case enter_mutation g of (True, g1) \<Rightarrow> (Forwarded True, g1) | (False, g1) \<Rightarrow> (Refused503, g1))
      else (Forwarded False, g))"

definition end_request :: "MaintenanceGate \<Rightarrow> bool \<Rightarrow> MaintenanceGate" where
  "end_request g entered = (if entered then leave_mutation g else g)"

text \<open>The gate with the requests the application is handling, each with its \<open>entered\<close> flag.\<close>

type_synonym gate_state = "MaintenanceGate \<times> (http_scope \<times> bool) list"

inductive gate_step :: "gate_state \<Rightarrow> gate_state \<Rightarrow> bool" where
  step_refuse: "begin_request g r = (Refused503, g') \<Longrightarrow> gate_step (g, rs) (g', rs)"
| step_begin: "begin_request g r = (Forwarded b, g') \<Longrightarrow> gate_step (g, rs) (g', (r, b) # rs)"
| step_end: "gate_step (g, xs @ (r, b) # ys) (end_request g b, xs @ ys)"
| step_drain: "gate_step (g, rs) (start_drain g, rs)"
| step_resume: "gate_step (g, rs) (resume_gate g, rs)"

inductive_cases gate_stepE: "gate_step s t"

definition gate_inv :: "gate_state \<Rightarrow> bool" where
  "gate_inv s \<longleftrightarrow> (case s of (g, rs) \<Rightarrow>
     active_mutations g = int (length (filter snd rs)) \<and>
     (gate_idle g \<longleftrightarrow> active_mutations g = 0) \<and>
     (\<forall>p \<in> set rs. snd p \<longleftrightarrow> gated (fst p)))"

lemma gate_step_inv [inv_rules]: "gate_step s t \<Longrightarrow> gate_inv s \<Longrightarrow> gate_inv t"
  by (induction rule: gate_step.induct)
     (auto simp: gate_inv_def begin_request_def enter_mutation_def end_request_def leave_mutation_def
        start_drain_def resume_gate_def Let_def split: if_splits)

lemma gate_inv_reachable: "gate_step\<^sup>*\<^sup>* s t \<Longrightarrow> gate_inv s \<Longrightarrow> gate_inv t"
  by (induction rule: rtranclp_induct) (auto intro: gate_step_inv)

text \<open>A run without a resume: once a drain has begun, gated requests only finish.\<close>

inductive drained_step :: "gate_state \<Rightarrow> gate_state \<Rightarrow> bool" where
  "gate_step s t \<Longrightarrow> gate_draining (fst t) \<Longrightarrow> drained_step s t"

lemma drained_step_writes:
  assumes "gate_step s t" "gate_draining (fst s)" "x \<in> set (filter snd (snd t))"
  shows "x \<in> set (filter snd (snd s))"
  using assms by (induction rule: gate_step.induct)
    (auto simp: begin_request_def enter_mutation_def split: if_splits)

text \<open>
  C19: The maintenance gate separates maintenance from writes. In every state reached from the
  initial one, the wait of \<open>drain\<close> ends (the idle event is set) exactly when no write that
  went through the gate is in progress; and from a state in which a drain has begun, as long
  as the gate is not resumed, every write in progress was already in progress, so once the
  drain has finished no write runs.
\<close>

theorem maintenance_excludes_writes:
  assumes "gate_step\<^sup>*\<^sup>* (new_gate, []) s" "gate_draining (fst s)" "drained_step\<^sup>*\<^sup>* s t"
  shows "(gate_idle (fst t) \<longleftrightarrow> (\<forall>p \<in> set (snd t). \<not> gated (fst p))) \<and>
    {r. (r, True) \<in> set (snd t)} \<subseteq> {r. (r, True) \<in> set (snd s)} \<and>
    (gate_idle (fst s) \<longrightarrow> gate_idle (fst t))"
proof -
  have inv_s: "gate_inv s" using assms(1) by (rule gate_inv_reachable) (simp add: gate_inv_def new_gate_def)
  have "gate_inv t \<and> gate_draining (fst t) \<and> set (filter snd (snd t)) \<subseteq> set (filter snd (snd s))"
    using assms(3)
  proof (induction rule: rtranclp_induct)
    case (step u v)
    then have "gate_step u v" "gate_draining (fst v)" by (auto elim: drained_step.cases)
    then show ?case using step.IH gate_step_inv drained_step_writes by blast
  qed (use inv_s assms(2) in simp)
  note t = this
  have idle: "gate_idle (fst x) \<longleftrightarrow> filter snd (snd x) = []" if "gate_inv x" for x
    using that by (cases x) (auto simp: gate_inv_def)
  have "filter snd (snd t) = [] \<longleftrightarrow> (\<forall>p \<in> set (snd t). \<not> gated (fst p))"
    using t by (cases t) (auto simp: gate_inv_def filter_empty_conv)
  moreover have "(r, True) \<in> set (snd s)" if "(r, True) \<in> set (snd t)" for r
    using t that by (auto simp: subset_iff)
  moreover have "filter snd (snd t) = []" if "filter snd (snd s) = []"
    using t that by (metis set_empty subset_empty)
  ultimately show ?thesis using idle [OF inv_s] idle [of t] t by auto
qed

theorem maintenance_excludes_writes_witness:
  "\<exists>s t r. gate_step\<^sup>*\<^sup>* (new_gate, []) s \<and> drained_step\<^sup>*\<^sup>* s t \<and>
     (r, True) \<in> set (snd s) \<and> \<not> gate_idle (fst s) \<and> gate_idle (fst t) \<and> gate_draining (fst t)"
proof -
  let ?r = "\<lparr>scope_type = ''http'', scope_method = ''POST'', scope_path = ''/api/chats''\<rparr>"
  let ?g1 = "\<lparr>gate_draining = False, active_mutations = 1, gate_idle = False\<rparr>"
  let ?g2 = "\<lparr>gate_draining = True, active_mutations = 1, gate_idle = False\<rparr>"
  let ?g3 = "\<lparr>gate_draining = True, active_mutations = 0, gate_idle = True\<rparr>"
  have "begin_request new_gate ?r = (Forwarded True, ?g1)" by code_simp
  then have 1: "gate_step (new_gate, []) (?g1, [(?r, True)])" by (rule step_begin)
  have 2: "gate_step (?g1, [(?r, True)]) (?g2, [(?r, True)])"
    using step_drain [of ?g1 "[(?r, True)]"] by (simp add: start_drain_def Let_def)
  have "gate_step (?g2, [(?r, True)]) (?g3, [])"
    using step_end [of ?g2 "[]" ?r True "[]"] by (simp add: end_request_def leave_mutation_def Let_def)
  then have 3: "drained_step (?g2, [(?r, True)]) (?g3, [])" by (simp add: drained_step.simps)
  have run: "gate_step\<^sup>*\<^sup>* (new_gate, []) (?g2, [(?r, True)])" using 1 2 by auto
  have "gate_idle (fst (?g3, [])) \<longleftrightarrow> (\<forall>p \<in> set (snd (?g3, [] :: (http_scope \<times> bool) list)). \<not> gated (fst p))"
    using maintenance_excludes_writes [OF run, of "(?g3, [])"] 3 by simp
  then show ?thesis using run 3 by (intro exI [of _ "(?g2, [(?r, True)])"] exI [of _ "(?g3, [])"]) auto
qed

end
