(* ===== verification/Coordinator.thy ===== *)
theory Coordinator
  imports Scheduler Admission
begin

text \<open>
  runtime/coordinator.py with the request types of runtime/protocol.py: the inference
  coordinator accepts requests, hands them from the scheduler to tasks, runs them under the
  stage limits and answers through a future or a stream queue.

  The event loop runs one task at a time between suspension points, so the model is a
  transition system whose steps are the pieces of code between them: a call of \<open>submit\<close> or
  \<open>stream\<close> up to its wait (the scheduler's lock is never held across a suspension, so
  \<open>enqueue\<close> and \<open>cancel\<close> do not suspend), one round of \<open>_dispatch\<close>, the start of a task,
  its admission to a stage, a result or chunk of the adapter, the \<open>finally\<close> block, a read of
  a stream, \<open>cancel\<close>, \<open>drain\<close>, \<open>resume\<close> and the two halves of \<open>close\<close>. What the adapter
  returns is an argument of the step. A task that is cancelled is stopped at its next
  step; one that has not started yet never runs its body, so neither its \<open>finally\<close> block.
\<close>

section \<open>Requests\<close>

record CoordinatorRequest =
  request_id :: string
  request_stage :: Stage
  request_priority :: Priority
  request_inputs :: "string list"
  request_think :: bool

text \<open>\<open>REQUEST_ID_PATTERN\<close>, \<open>^[a-z0-9](?:[a-z0-9-]{0,62}[a-z0-9])?$\<close>.\<close>

definition id_char :: "char \<Rightarrow> bool" where
  "id_char c = (let n = code c in 97 \<le> n \<and> n \<le> 122 \<or> 48 \<le> n \<and> n \<le> 57)"

definition valid_request_id :: "string \<Rightarrow> bool" where
  "valid_request_id s \<longleftrightarrow>
     s \<noteq> [] \<and> length s \<le> 64 \<and> id_char (hd s) \<and> id_char (last s) \<and>
     (\<forall>c \<in> set s. id_char c \<or> c = CHR ''-'')"

text \<open>The field constraints and \<open>validate_inputs\<close> of \<open>CoordinatorRequest\<close>.\<close>

definition validate_inputs :: "CoordinatorRequest \<Rightarrow> (string, unit) result" where
  "validate_inputs r =
     (if \<not> valid_request_id (request_id r) then Inl ''request_id''
      else if request_stage r \<notin> {GENERATION, RERANK, EMBEDDING} then Inl ''stage''
      else if request_inputs r = [] \<or> 32 < length (request_inputs r) then Inl ''inputs''
      else if \<exists>v \<in> set (request_inputs r). v = [] \<or> 32768 < length v
      then Inl ''inputs must contain 1-32768 characters''
      else if request_stage r = GENERATION \<and> length (request_inputs r) \<noteq> 1
      then Inl ''generation requires exactly one input''
      else if request_stage r = RERANK \<and> length (request_inputs r) < 2
      then Inl ''rerank requires a query and at least one passage''
      else Inr ())"

section \<open>State\<close>

datatype coordinator_error =
  RuntimeClosed | Draining | DuplicateRequest | SchedulerRaised scheduler_error | MissingRequest

datatype outcome = Outputs "string list" | Failed string | Cancelled

datatype stream_item = Chunk string | StreamFailure outcome | StreamDone

text \<open>
  \<open>Ending\<close> is a streaming task that has left its stage and waits to put the end mark.
\<close>

datatype phase = Created | WaitingStage Stage | InStage Stage | Ending

record task =
  task_phase :: phase
  task_payload :: CoordinatorRequest
  cancel_requested :: bool

record CoordinatorRuntime =
  sched :: "CoordinatorRequest PriorityScheduler"
  limits :: StageLimits
  active_tasks :: "string \<rightharpoonup> task"
  futures :: "string \<rightharpoonup> outcome option"
  streams :: "string \<rightharpoonup> nat"
  queues :: "nat \<Rightarrow> stream_item list"
  next_queue :: nat
  cancellations :: "string \<rightharpoonup> bool"
  closed :: bool
  draining :: bool
  idle :: bool
  answers :: "string \<Rightarrow> outcome list"

text \<open>
  A stream queue is an object shared by \<open>_streams\<close> and its reader; \<open>streams\<close> holds its number
  and \<open>queues\<close> its items. \<open>answers\<close> holds what the \<open>submit\<close> calls of a request
  identifier received, latest first: a future is answered when it is set while pending
  (\<open>if not future.done()\<close>).
\<close>

definition STREAM_QUEUE_SIZE :: nat where "STREAM_QUEUE_SIZE = 64"

definition new_runtime :: "CoordinatorRequest PriorityScheduler \<Rightarrow> StageLimits \<Rightarrow> CoordinatorRuntime" where
  "new_runtime s l =
     \<lparr>sched = s, limits = l, active_tasks = Map.empty, futures = Map.empty, streams = Map.empty,
      queues = (\<lambda>_. []), next_queue = 0, cancellations = Map.empty, closed = False, draining = False, idle = True, answers = (\<lambda>_. [])\<rparr>"

definition resolve :: "CoordinatorRuntime \<Rightarrow> string \<Rightarrow> outcome \<Rightarrow> CoordinatorRuntime" where
  "resolve c rid out =
     (case futures c rid of
        Some None \<Rightarrow> c\<lparr>futures := (futures c)(rid \<mapsto> Some out), answers := (answers c)(rid := out # answers c rid)\<rparr>
      | _ \<Rightarrow> c)"

definition set_idle_if_empty :: "CoordinatorRuntime \<Rightarrow> CoordinatorRuntime" where
  "set_idle_if_empty c = (if cancellations c = Map.empty then c\<lparr>idle := True\<rparr> else c)"

section \<open>Operations\<close>

definition admit :: "CoordinatorRuntime \<Rightarrow> (coordinator_error, unit) result" where
  "admit c = (if closed c then Inl RuntimeClosed else if draining c then Inl Draining else Inr ())"

text \<open>\<open>submit\<close> up to \<open>await future\<close>; the \<open>except\<close> block undoes the registration.\<close>

definition submit ::
  "time \<Rightarrow> CoordinatorRuntime \<Rightarrow> CoordinatorRequest \<Rightarrow> coordinator_error option \<times> CoordinatorRuntime" where
  "submit now c r =
     (case admit c of
        Inl e \<Rightarrow> (Some e, c)
      | Inr _ \<Rightarrow>
          if futures c (request_id r) \<noteq> None \<or> cancellations c (request_id r) \<noteq> None
          then (Some DuplicateRequest, c)
          else let c1 = c\<lparr>futures := (futures c)(request_id r \<mapsto> None),
                          cancellations := (cancellations c)(request_id r \<mapsto> False), idle := False\<rparr>
               in (case enqueue now (sched c1) (request_id r) r (request_priority r) of
                    Inl e \<Rightarrow> (Some (SchedulerRaised e),
                      set_idle_if_empty (c1\<lparr>futures := (futures c1)(request_id r := None),
                                            cancellations := (cancellations c1)(request_id r := None)\<rparr>))
                  | Inr s \<Rightarrow> (None, c1\<lparr>sched := s\<rparr>)))"

definition stream_request ::
  "time \<Rightarrow> CoordinatorRuntime \<Rightarrow> CoordinatorRequest \<Rightarrow> coordinator_error option \<times> CoordinatorRuntime" where
  "stream_request now c r =
     (case admit c of
        Inl e \<Rightarrow> (Some e, c)
      | Inr _ \<Rightarrow>
          if futures c (request_id r) \<noteq> None \<or> streams c (request_id r) \<noteq> None
             \<or> cancellations c (request_id r) \<noteq> None
          then (Some DuplicateRequest, c)
          else let c1 = c\<lparr>streams := (streams c)(request_id r \<mapsto> next_queue c),
                          next_queue := next_queue c + 1,
                          cancellations := (cancellations c)(request_id r \<mapsto> False), idle := False\<rparr>
               in (case enqueue now (sched c1) (request_id r) r (request_priority r) of
                    Inl e \<Rightarrow> (Some (SchedulerRaised e),
                      set_idle_if_empty (c1\<lparr>streams := (streams c1)(request_id r := None),
                                            cancellations := (cancellations c1)(request_id r := None)\<rparr>))
                  | Inr s \<Rightarrow> (None, c1\<lparr>sched := s\<rparr>)))"

definition put :: "CoordinatorRuntime \<Rightarrow> nat \<Rightarrow> stream_item \<Rightarrow> CoordinatorRuntime" where
  "put c q item = c\<lparr>queues := (queues c)(q := queues c q @ [item])\<rparr>"

definition has_room :: "CoordinatorRuntime \<Rightarrow> nat \<Rightarrow> bool" where
  "has_room c q \<longleftrightarrow> length (queues c q) < STREAM_QUEUE_SIZE"

text \<open>
  \<open>cancel\<close>. The queue of a request that is still queued is empty, so its \<open>put\<close> does not wait.
\<close>

definition cancel_request :: "CoordinatorRuntime \<Rightarrow> string \<Rightarrow> bool \<times> CoordinatorRuntime" where
  "cancel_request c rid =
     (if cancellations c rid = None then (False, c)
      else let c1 = c\<lparr>cancellations := (cancellations c)(rid \<mapsto> True)\<rparr>;
               (queued, s) = Scheduler.cancel (sched c1) rid;
               c2 = c1\<lparr>sched := s\<rparr>;
               c3 = (if queued
                     then (let d = resolve c2 rid Cancelled;
                               e = d\<lparr>futures := (futures d)(rid := None), streams := (streams d)(rid := None),
                                     cancellations := (cancellations d)(rid := None)\<rparr>
                           in case streams d rid of Some q \<Rightarrow> put e q (StreamFailure Cancelled) | None \<Rightarrow> e)
                     else c2)
           in (True, c3\<lparr>active_tasks := (case active_tasks c3 rid of None \<Rightarrow> active_tasks c3
                  | Some t \<Rightarrow> (active_tasks c3)(rid \<mapsto> t\<lparr>cancel_requested := True\<rparr>))\<rparr>))"

definition start_drain_runtime :: "CoordinatorRuntime \<Rightarrow> CoordinatorRuntime" where
  "start_drain_runtime c = set_idle_if_empty (c\<lparr>draining := True\<rparr>)"

definition resume :: "CoordinatorRuntime \<Rightarrow> CoordinatorRuntime" where
  "resume c = (if closed c then c else c\<lparr>draining := False\<rparr>)"

definition health :: "CoordinatorRuntime \<Rightarrow> time \<Rightarrow> string \<times> QueueMetrics \<times> (Stage \<times> int \<times> int) list" where
  "health c now = (if closed c then ''stopping'' else if draining c then ''draining'' else ''ready'',
     metrics now (sched c), snapshot (limits c))"

text \<open>\<open>close\<close> up to the \<open>gather\<close> of its tasks, and from there on, when every task has ended.\<close>

definition close_begin :: "CoordinatorRuntime \<Rightarrow> CoordinatorRuntime" where
  "close_begin c = c\<lparr>closed := True, draining := True,
     cancellations := (\<lambda>rid. map_option (\<lambda>_. True) (cancellations c rid)),
     active_tasks := (\<lambda>rid. map_option (\<lambda>t. t\<lparr>cancel_requested := True\<rparr>) (active_tasks c rid))\<rparr>"

definition close_end :: "CoordinatorRuntime \<Rightarrow> CoordinatorRuntime" where
  "close_end c = c\<lparr>answers := (\<lambda>rid. if futures c rid = Some None then Cancelled # answers c rid else answers c rid),
     futures := Map.empty, streams := Map.empty, cancellations := Map.empty\<rparr>"

text \<open>One round of \<open>_dispatch\<close>.\<close>

definition dispatch :: "time \<Rightarrow> CoordinatorRuntime \<Rightarrow> CoordinatorRuntime option" where
  "dispatch now c =
     (if closed c then None
      else case next_item now (sched c) of
             Inr (Some i, s) \<Rightarrow>
               Some (c\<lparr>sched := s, active_tasks := (active_tasks c)(item_id i \<mapsto>
                  \<lparr>task_phase = Created, task_payload = item_payload i, cancel_requested = False\<rparr>)\<rparr>)
           | _ \<Rightarrow> None)"

text \<open>
  The \<open>finally\<close> block of \<open>_execute\<close> and \<open>_execute_stream\<close> and the callbacks of the ended task.
  Both blocks also drop the entry of the other dictionary, which holds none for the request.
\<close>

definition finish_task :: "CoordinatorRuntime \<Rightarrow> string \<Rightarrow> bool \<Rightarrow> CoordinatorRuntime" where
  "finish_task c rid failed =
     (let c1 = (case finish (sched c) rid failed of Inl _ \<Rightarrow> c | Inr s \<Rightarrow> c\<lparr>sched := s\<rparr>);
          c2 = c1\<lparr>futures := (futures c1)(rid := None), streams := (streams c1)(rid := None),
                  cancellations := (cancellations c1)(rid := None)\<rparr>;
          c3 = set_idle_if_empty c2
      in c3\<lparr>active_tasks := (active_tasks c3)(rid := None)\<rparr>)"

definition leave_stage :: "CoordinatorRuntime \<Rightarrow> task \<Rightarrow> CoordinatorRuntime" where
  "leave_stage c t =
     (case task_phase t of InStage st \<Rightarrow> c\<lparr>limits := stage_leave (limits c) st\<rparr> | _ \<Rightarrow> c)"

text \<open>\<open>_put_stream_failure\<close>: a full queue drops the failure.\<close>

definition put_stream_failure :: "CoordinatorRuntime \<Rightarrow> string \<Rightarrow> outcome \<Rightarrow> CoordinatorRuntime" where
  "put_stream_failure c rid e =
     (case streams c rid of
        Some q \<Rightarrow> if has_room c q then put c q (StreamFailure e) else c
      | None \<Rightarrow> c)"

text \<open>A task that ends with an exception: the future or the stream receives it.\<close>

definition fail_task :: "CoordinatorRuntime \<Rightarrow> string \<Rightarrow> task \<Rightarrow> outcome \<Rightarrow> CoordinatorRuntime" where
  "fail_task c rid t e =
     (let c1 = leave_stage c t;
          c2 = (if streams c1 rid \<noteq> None then put_stream_failure c1 rid e else resolve c1 rid e)
      in finish_task c2 rid True)"

definition stage_of_task :: "CoordinatorRuntime \<Rightarrow> string \<Rightarrow> task \<Rightarrow> Stage" where
  "stage_of_task c rid t = (if streams c rid \<noteq> None then GENERATION else request_stage (task_payload t))"

text \<open>Entering the stage: \<open>_execute\<close> checks the cancellation event, \<open>_execute_stream\<close> does not.\<close>

definition enter_stage :: "CoordinatorRuntime \<Rightarrow> string \<Rightarrow> task \<Rightarrow> Stage \<Rightarrow> CoordinatorRuntime" where
  "enter_stage c rid t st =
     (let t1 = t\<lparr>task_phase := InStage st\<rparr>;
          c1 = c\<lparr>limits := stage_enter (limits c) st, active_tasks := (active_tasks c)(rid \<mapsto> t1)\<rparr>
      in if streams c rid = None \<and> cancellations c rid = Some True then fail_task c1 rid t1 Cancelled else c1)"

text \<open>The first step of a task.\<close>

definition start_task :: "CoordinatorRuntime \<Rightarrow> string \<Rightarrow> CoordinatorRuntime option" where
  "start_task c rid =
     (case active_tasks c rid of
        Some t \<Rightarrow>
          if task_phase t \<noteq> Created then None
          else if cancel_requested t then Some (c\<lparr>active_tasks := (active_tasks c)(rid := None)\<rparr>)
          else let st = stage_of_task c rid t
               in Some (if stage_free (limits c) st then enter_stage c rid t st
                        else c\<lparr>active_tasks := (active_tasks c)(rid \<mapsto> t\<lparr>task_phase := WaitingStage st\<rparr>)\<rparr>)
      | None \<Rightarrow> None)"

text \<open>A waiting task gets the semaphore.\<close>

definition admit_task :: "CoordinatorRuntime \<Rightarrow> string \<Rightarrow> CoordinatorRuntime option" where
  "admit_task c rid =
     (case active_tasks c rid of
        Some t \<Rightarrow> (case task_phase t of
            WaitingStage st \<Rightarrow> if cancel_requested t \<or> \<not> stage_free (limits c) st then None
                               else Some (enter_stage c rid t st)
          | _ \<Rightarrow> None)
      | None \<Rightarrow> None)"

text \<open>A started task whose cancellation was requested receives \<open>CancelledError\<close>.\<close>

definition interrupt_task :: "CoordinatorRuntime \<Rightarrow> string \<Rightarrow> CoordinatorRuntime option" where
  "interrupt_task c rid =
     (case active_tasks c rid of
        Some t \<Rightarrow> if cancel_requested t \<and> task_phase t \<noteq> Created then Some (fail_task c rid t Cancelled) else None
      | None \<Rightarrow> None)"

text \<open>The adapter's \<open>execute\<close> returns outputs or raises (\<open>Inl\<close> with the error's text).\<close>

definition adapter_returns ::
  "CoordinatorRuntime \<Rightarrow> string \<Rightarrow> string + string list \<Rightarrow> CoordinatorRuntime option" where
  "adapter_returns c rid res =
     (case active_tasks c rid of
        Some t \<Rightarrow>
          if cancel_requested t \<or> streams c rid \<noteq> None then None
          else (case task_phase t of
                  InStage st \<Rightarrow> Some (case res of
                      Inl e \<Rightarrow> fail_task c rid t (Failed e)
                    | Inr out \<Rightarrow> if cancellations c rid = Some True then fail_task c rid t Cancelled
                                 else finish_task (resolve (leave_stage c t) rid (Outputs out)) rid False)
                | _ \<Rightarrow> None)
      | None \<Rightarrow> None)"

text \<open>The adapter's stream yields a chunk, ends (\<open>Inr None\<close>) or raises; \<open>put\<close> waits for room.\<close>

definition adapter_streams ::
  "CoordinatorRuntime \<Rightarrow> string \<Rightarrow> string + string option \<Rightarrow> CoordinatorRuntime option" where
  "adapter_streams c rid res =
     (case (active_tasks c rid, streams c rid) of
        (Some t, Some q) \<Rightarrow>
          if cancel_requested t then None
          else (case task_phase t of
                  InStage st \<Rightarrow> (case res of
                      Inl e \<Rightarrow> Some (fail_task c rid t (Failed e))
                    | Inr (Some chunk) \<Rightarrow>
                        if cancellations c rid = Some True then Some (fail_task c rid t Cancelled)
                        else if has_room c q then Some (put c q (Chunk chunk)) else None
                    | Inr None \<Rightarrow> Some ((leave_stage c t)\<lparr>active_tasks :=
                         (active_tasks c)(rid \<mapsto> t\<lparr>task_phase := Ending\<rparr>)\<rparr>))
                | _ \<Rightarrow> None)
      | _ \<Rightarrow> None)"

definition end_stream :: "CoordinatorRuntime \<Rightarrow> string \<Rightarrow> CoordinatorRuntime option" where
  "end_stream c rid =
     (case (active_tasks c rid, streams c rid) of
        (Some t, Some q) \<Rightarrow>
          if cancel_requested t \<or> task_phase t \<noteq> Ending \<or> \<not> has_room c q then None
          else Some (finish_task (put c q StreamDone) rid False)
      | _ \<Rightarrow> None)"

text \<open>The reader of a stream takes the next item; without one it waits.\<close>

definition read_stream :: "CoordinatorRuntime \<Rightarrow> nat \<Rightarrow> CoordinatorRuntime option" where
  "read_stream c q =
     (case queues c q of [] \<Rightarrow> None | i # is \<Rightarrow> Some (c\<lparr>queues := (queues c)(q := is)\<rparr>))"

section \<open>Runs\<close>

datatype event =
  Submit time CoordinatorRequest
| Stream time CoordinatorRequest
| CancelRequest string
| Dispatch time
| Start string
| Admit string
| Interrupt string
| Returns string "string + string list"
| Streams string "string + string option"
| EndStream string
| Read nat
| Drain
| Resume
| CloseBegin
| CloseEnd

fun step :: "event \<Rightarrow> CoordinatorRuntime \<Rightarrow> CoordinatorRuntime option" where
  "step (Submit now r) c = Some (snd (submit now c r))"
| "step (Stream now r) c = Some (snd (stream_request now c r))"
| "step (CancelRequest rid) c = Some (snd (cancel_request c rid))"
| "step (Dispatch now) c = dispatch now c"
| "step (Start rid) c = start_task c rid"
| "step (Admit rid) c = admit_task c rid"
| "step (Interrupt rid) c = interrupt_task c rid"
| "step (Returns rid res) c = adapter_returns c rid res"
| "step (Streams rid res) c = adapter_streams c rid res"
| "step (EndStream rid) c = end_stream c rid"
| "step (Read q) c = read_stream c q"
| "step Drain c = Some (start_drain_runtime c)"
| "step Resume c = Some (resume c)"
| "step CloseBegin c = Some (close_begin c)"
| "step CloseEnd c = (if closed c \<and> active_tasks c = Map.empty then Some (close_end c) else None)"

fun run :: "event list \<Rightarrow> CoordinatorRuntime \<Rightarrow> CoordinatorRuntime option" where
  "run [] c = Some c"
| "run (e # es) c = (case step e c of None \<Rightarrow> None | Some d \<Rightarrow> run es d)"

section \<open>Invariant\<close>

definition in_stage :: "task option \<Rightarrow> Stage option" where
  "in_stage x = (case x of Some t \<Rightarrow> (case task_phase t of InStage st \<Rightarrow> Some st | _ \<Rightarrow> None) | None \<Rightarrow> None)"

definition tasks_in :: "CoordinatorRuntime \<Rightarrow> Stage \<Rightarrow> string set" where
  "tasks_in c st = {rid. in_stage (active_tasks c rid) = Some st}"

definition stages_inv :: "CoordinatorRuntime \<Rightarrow> bool" where
  "stages_inv c \<longleftrightarrow> limits_inv (limits c) \<and> finite (dom (active_tasks c)) \<and>
     (\<forall>st. stage_active (limits c) st = int (card (tasks_in c st)))"

definition ids_inv :: "CoordinatorRuntime \<Rightarrow> bool" where
  "ids_inv c \<longleftrightarrow> sched_inv (sched c) \<and> dom (active_tasks c) \<subseteq> active_ids (sched c) \<and>
     (idle c \<longrightarrow> cancellations c = Map.empty) \<and>
     dom (futures c) \<subseteq> dom (cancellations c) \<and> dom (streams c) \<subseteq> dom (cancellations c) \<and>
     dom (cancellations c) \<subseteq> dom (entries (sched c)) \<union> active_ids (sched c) \<and>
     (\<not> closed c \<longrightarrow> dom (entries (sched c)) \<union> active_ids (sched c) \<subseteq> dom (cancellations c))"

subsection \<open>Stages\<close>

lemma tasks_in_finite: "stages_inv c \<Longrightarrow> finite (tasks_in c st)"
  by (rule finite_subset [of _ "dom (active_tasks c)"])
     (auto simp: stages_inv_def tasks_in_def in_stage_def split: option.splits)

lemma stages_keep:
  assumes "stages_inv c" "in_stage (active_tasks c rid) = in_stage x"
    and "active_tasks c' = (active_tasks c)(rid := x)" "limits c' = limits c"
  shows "stages_inv c'"
proof -
  have "tasks_in c' st = tasks_in c st" for st using assms(2,3) by (auto simp: tasks_in_def)
  moreover have "finite (dom (active_tasks c'))" using assms(1,3) by (simp add: stages_inv_def)
  ultimately show ?thesis using assms(1,4) by (simp add: stages_inv_def)
qed

lemma stages_enter:
  assumes "stages_inv c" "in_stage (active_tasks c rid) = None" "in_stage x = Some st" "stage_free (limits c) st"
    and "active_tasks c' = (active_tasks c)(rid := x)" "limits c' = stage_enter (limits c) st"
  shows "stages_inv c'"
proof -
  have new: "tasks_in c' u = (if u = st then insert rid (tasks_in c u) else tasks_in c u)" for u
    using assms(2,3,5) by (auto simp: tasks_in_def)
  have "rid \<notin> tasks_in c st" using assms(2) by (simp add: tasks_in_def)
  then have "stage_active (limits c') u = int (card (tasks_in c' u))" for u
    using assms(1,6) tasks_in_finite [OF assms(1)] by (simp add: new stages_inv_def stage_enter_def)
  moreover have "limits_inv (limits c')" using assms(1,4,6) stage_enter_inv by (simp add: stages_inv_def)
  moreover have "finite (dom (active_tasks c'))" using assms(1,5) by (simp add: stages_inv_def)
  ultimately show ?thesis by (simp add: stages_inv_def)
qed

lemma stages_leave:
  assumes "stages_inv c" "in_stage (active_tasks c rid) = Some st" "in_stage x = None"
    and "active_tasks c' = (active_tasks c)(rid := x)" "limits c' = stage_leave (limits c) st"
  shows "stages_inv c'"
proof -
  have new: "tasks_in c' u = (if u = st then tasks_in c u - {rid} else tasks_in c u)" for u
    using assms(2-4) by (auto simp: tasks_in_def)
  have mem: "rid \<in> tasks_in c st" using assms(2) by (simp add: tasks_in_def)
  note fin = tasks_in_finite [OF assms(1), of st]
  have pos: "0 < card (tasks_in c st)" using mem fin card_gt_0_iff by blast
  have "stage_active (limits c') u = int (card (tasks_in c' u))" for u
    using assms(1,5) mem fin pos by (simp add: new stages_inv_def stage_leave_def of_nat_diff)
  moreover have "limits_inv (limits c')"
    using assms(1,5) pos stage_leave_inv [of "limits c" st] by (simp add: stages_inv_def)
  moreover have "finite (dom (active_tasks c'))" using assms(1,4) by (simp add: stages_inv_def)
  ultimately show ?thesis by (simp add: stages_inv_def)
qed

subsection \<open>What the helpers change\<close>

lemma resolve_fields [simp]:
  "next_queue (resolve c rid x) = next_queue c"
  "sched (resolve c rid x) = sched c" "limits (resolve c rid x) = limits c"
  "active_tasks (resolve c rid x) = active_tasks c" "streams (resolve c rid x) = streams c"
  "queues (resolve c rid x) = queues c" "cancellations (resolve c rid x) = cancellations c"
  "closed (resolve c rid x) = closed c" "draining (resolve c rid x) = draining c"
  "idle (resolve c rid x) = idle c" "dom (futures (resolve c rid x)) = dom (futures c)"
  by (auto simp: resolve_def split: option.splits)

lemma put_fields [simp]:
  "next_queue (put c q x) = next_queue c"
  "answers (put c q x) = answers c"
  "sched (put c q x) = sched c" "limits (put c q x) = limits c"
  "active_tasks (put c q x) = active_tasks c" "streams (put c q x) = streams c"
  "cancellations (put c q x) = cancellations c" "futures (put c q x) = futures c"
  "closed (put c q x) = closed c" "draining (put c q x) = draining c" "idle (put c q x) = idle c"
  by (simp_all add: put_def)

lemma set_idle_fields [simp]:
  "next_queue (set_idle_if_empty c) = next_queue c"
  "answers (set_idle_if_empty c) = answers c"
  "sched (set_idle_if_empty c) = sched c" "limits (set_idle_if_empty c) = limits c"
  "active_tasks (set_idle_if_empty c) = active_tasks c" "streams (set_idle_if_empty c) = streams c"
  "cancellations (set_idle_if_empty c) = cancellations c" "futures (set_idle_if_empty c) = futures c"
  "queues (set_idle_if_empty c) = queues c"
  "closed (set_idle_if_empty c) = closed c" "draining (set_idle_if_empty c) = draining c"
  "idle (set_idle_if_empty c) = (cancellations c = Map.empty \<or> idle c)"
  by (simp_all add: set_idle_if_empty_def)

lemma leave_stage_fields [simp]:
  "next_queue (leave_stage c t) = next_queue c"
  "answers (leave_stage c t) = answers c"
  "sched (leave_stage c t) = sched c" "active_tasks (leave_stage c t) = active_tasks c"
  "streams (leave_stage c t) = streams c" "queues (leave_stage c t) = queues c"
  "cancellations (leave_stage c t) = cancellations c" "futures (leave_stage c t) = futures c"
  "closed (leave_stage c t) = closed c" "draining (leave_stage c t) = draining c" "idle (leave_stage c t) = idle c"
  "limits (leave_stage c t) = (case in_stage (Some t) of Some st \<Rightarrow> stage_leave (limits c) st | None \<Rightarrow> limits c)"
  by (simp_all add: leave_stage_def in_stage_def split: phase.splits)

lemma put_failure_fields [simp]:
  "next_queue (put_stream_failure c rid x) = next_queue c"
  "answers (put_stream_failure c rid x) = answers c"
  "sched (put_stream_failure c rid x) = sched c" "limits (put_stream_failure c rid x) = limits c"
  "active_tasks (put_stream_failure c rid x) = active_tasks c" "streams (put_stream_failure c rid x) = streams c"
  "cancellations (put_stream_failure c rid x) = cancellations c" "futures (put_stream_failure c rid x) = futures c"
  "closed (put_stream_failure c rid x) = closed c" "draining (put_stream_failure c rid x) = draining c"
  "idle (put_stream_failure c rid x) = idle c"
  by (simp_all add: put_stream_failure_def split: option.splits)

lemma finish_task_fields [simp]:
  "next_queue (finish_task c rid b) = next_queue c"
  "answers (finish_task c rid b) = answers c"
  "sched (finish_task c rid b) = ok_or (sched c) (finish (sched c) rid b)"
  "limits (finish_task c rid b) = limits c"
  "active_tasks (finish_task c rid b) = (active_tasks c)(rid := None)"
  "futures (finish_task c rid b) = (futures c)(rid := None)"
  "streams (finish_task c rid b) = (streams c)(rid := None)"
  "cancellations (finish_task c rid b) = (cancellations c)(rid := None)"
  "queues (finish_task c rid b) = queues c"
  "closed (finish_task c rid b) = closed c" "draining (finish_task c rid b) = draining c"
  "idle (finish_task c rid b) = ((cancellations c)(rid := None) = Map.empty \<or> idle c)"
  by (simp_all add: finish_task_def Let_def ok_or_def split: sum.splits)

lemma fail_task_fields [simp]:
  "next_queue (fail_task c rid t e) = next_queue c"
  "sched (fail_task c rid t e) = ok_or (sched c) (finish (sched c) rid True)"
  "limits (fail_task c rid t e) = (case in_stage (Some t) of Some st \<Rightarrow> stage_leave (limits c) st | None \<Rightarrow> limits c)"
  "active_tasks (fail_task c rid t e) = (active_tasks c)(rid := None)"
  "dom (futures (fail_task c rid t e)) = dom (futures c) - {rid}"
  "streams (fail_task c rid t e) = (streams c)(rid := None)"
  "cancellations (fail_task c rid t e) = (cancellations c)(rid := None)"
  "closed (fail_task c rid t e) = closed c" "draining (fail_task c rid t e) = draining c"
  "idle (fail_task c rid t e) = ((cancellations c)(rid := None) = Map.empty \<or> idle c)"
  by (simp_all add: fail_task_def Let_def)

subsection \<open>What the scheduler changes\<close>

lemma enqueue_ids:
  assumes "sched_inv s" "enqueue now s rid p prio = Inr t"
  shows "sched_inv t" "dom (entries t) = insert rid (dom (entries s))" "active_ids t = active_ids s"
  using enqueue_inv [OF assms] enqueue_InrD [OF assms] by (auto split: if_splits)

lemma cancel_ids:
  assumes "sched_inv s" "Scheduler.cancel s rid = (b, t)"
  shows "sched_inv t" "b \<longleftrightarrow> rid \<in> dom (entries s)" "dom (entries t) = dom (entries s) - {rid}" "active_ids t = active_ids s"
  using cancel_inv [OF assms(1), of rid] assms(2) by (auto simp: cancel_def split: option.splits if_splits)

lemma next_ids:
  assumes inv: "sched_inv s" and n: "next_item now s = Inr (Some i, t)"
  shows "sched_inv t" "item_id i \<in> dom (entries s)" "dom (entries t) = dom (entries s) - {item_id i}"
    "active_ids t = insert (item_id i) (active_ids s)"
proof -
  show "sched_inv t" using next_inv [OF inv n] .
  have keep: "entries u = entries s \<and> active_ids u = active_ids s" if "choose_entry now (discard_both s) = Some (e, u)" for e u
    using that by (auto simp: choose_entry_def split: if_splits)
  show "item_id i \<in> dom (entries s)" "dom (entries t) = dom (entries s) - {item_id i}"
    "active_ids t = insert (item_id i) (active_ids s)"
    using n keep by (auto simp: next_item_def split: option.splits prod.splits if_splits)
qed

lemma finish_ids:
  assumes "sched_inv s"
  shows "sched_inv (ok_or s (finish s rid b))" "entries (ok_or s (finish s rid b)) = entries s"
    "active_ids (ok_or s (finish s rid b)) = active_ids s - {rid}"
  using assms finish_inv [OF assms, of rid b]
  by (auto simp: ok_or_def finish_def Let_def split: sum.splits if_splits)

lemma dispatch_SomeD:
  assumes "ids_inv c" "dispatch now c = Some d"
  obtains s and i :: "CoordinatorRequest ScheduledItem" where
    "next_item now (sched c) = Inr (Some i, s)" "\<not> closed c" "active_tasks c (item_id i) = None"
    "d = c\<lparr>sched := s, active_tasks := (active_tasks c)(item_id i \<mapsto>
        \<lparr>task_phase = Created, task_payload = item_payload i, cancel_requested = False\<rparr>)\<rparr>"
proof -
  obtain i s where i: "next_item now (sched c) = Inr (Some i, s)" "\<not> closed c"
    "d = c\<lparr>sched := s, active_tasks := (active_tasks c)(item_id i \<mapsto>
        \<lparr>task_phase = Created, task_payload = item_payload i, cancel_requested = False\<rparr>)\<rparr>"
    using assms(2) by (auto simp: dispatch_def split: if_splits sum.splits option.splits)
  have inv: "sched_inv (sched c)" using assms(1) by (simp add: ids_inv_def)
  have "entries (sched c) (item_id i) \<noteq> None" using next_ids(2) [OF inv i(1)] by (auto simp: domIff)
  then have "item_id i \<notin> active_ids (sched c)" using sched_invD(4) [OF inv] by metis
  then have "active_tasks c (item_id i) = None" using assms(1) by (auto simp: ids_inv_def domIff subset_iff)
  with i show ?thesis using that by blast
qed

subsection \<open>Stages are kept by every step\<close>

lemma stages_same: "stages_inv c \<Longrightarrow> active_tasks d = active_tasks c \<Longrightarrow> limits d = limits c \<Longrightarrow> stages_inv d"
  by (simp add: stages_inv_def tasks_in_def)

lemma fail_task_stages:
  assumes "stages_inv c" "active_tasks c rid = Some t"
  shows "stages_inv (fail_task c rid t e)"
proof (cases "in_stage (Some t)")
  case None
  show ?thesis by (rule stages_keep [of c rid None]) (use None assms in \<open>simp_all add: in_stage_def\<close>)
next
  case (Some st)
  show ?thesis by (rule stages_leave [of c rid st None]) (use Some assms in \<open>simp_all add: in_stage_def\<close>)
qed

lemma finish_after_leave_stages:
  assumes "stages_inv c" "active_tasks c rid = Some t"
    and "active_tasks d = active_tasks c" "limits d = limits (leave_stage c t)"
  shows "stages_inv (finish_task d rid b)"
proof (cases "in_stage (Some t)")
  case None
  show ?thesis by (rule stages_keep [of c rid None]) (use None assms in \<open>simp_all add: in_stage_def\<close>)
next
  case (Some st)
  show ?thesis by (rule stages_leave [of c rid st None]) (use Some assms in \<open>simp_all add: in_stage_def\<close>)
qed

lemma enter_stage_stages:
  assumes "stages_inv c" "active_tasks c rid = Some t" "in_stage (Some t) = None" "stage_free (limits c) st"
  shows "stages_inv (enter_stage c rid t st)"
proof -
  let ?t = "t\<lparr>task_phase := InStage st\<rparr>"
  let ?c = "c\<lparr>limits := stage_enter (limits c) st, active_tasks := (active_tasks c)(rid \<mapsto> ?t)\<rparr>"
  have "stages_inv ?c"
    by (rule stages_enter [of c rid "Some ?t" st]) (use assms in \<open>simp_all add: in_stage_def\<close>)
  then show ?thesis using fail_task_stages [of ?c rid ?t] by (simp add: enter_stage_def Let_def)
qed

lemma cancel_request_tasks:
  "active_tasks (snd (cancel_request c rid)) =
     (case (cancellations c rid, active_tasks c rid) of
        (Some _, Some t) \<Rightarrow> (active_tasks c)(rid \<mapsto> t\<lparr>cancel_requested := True\<rparr>) | _ \<Rightarrow> active_tasks c)"
  "limits (snd (cancel_request c rid)) = limits c"
  by (auto simp: cancel_request_def Let_def split: prod.splits option.splits)

lemma submit_tasks:
  "active_tasks (snd (submit now c r)) = active_tasks c" "limits (snd (submit now c r)) = limits c"
  "active_tasks (snd (stream_request now c r)) = active_tasks c" "limits (snd (stream_request now c r)) = limits c"
  by (auto simp: submit_def stream_request_def Let_def split: sum.splits)

lemma close_begin_stages: "stages_inv c \<Longrightarrow> stages_inv (close_begin c)"
proof -
  assume inv: "stages_inv c"
  have "in_stage (map_option (\<lambda>t. t\<lparr>cancel_requested := True\<rparr>) x) = in_stage x" for x
    by (cases x) (simp_all add: in_stage_def)
  moreover have "dom (\<lambda>rid. map_option f (m rid)) = dom m" for f :: "task \<Rightarrow> task" and m :: "string \<rightharpoonup> task"
    by (auto simp: dom_def)
  ultimately show ?thesis using inv by (simp add: stages_inv_def tasks_in_def close_begin_def)
qed

lemma step_stages [inv_rules]:
  assumes inv: "stages_inv c" and ids: "ids_inv c" and step: "step e c = Some d"
  shows "stages_inv d"
proof (cases e)
  case (CancelRequest rid)
  have "in_stage (Some (t\<lparr>cancel_requested := True\<rparr>)) = in_stage (Some t)" for t by (simp add: in_stage_def)
  then show ?thesis
    using CancelRequest step inv cancel_request_tasks [of c rid] stages_same [of c d]
      stages_keep [of c rid "map_option (\<lambda>t. t\<lparr>cancel_requested := True\<rparr>) (active_tasks c rid)" d]
    by (auto split: option.splits)
next
  case (Dispatch now)
  obtain s and i :: "CoordinatorRequest ScheduledItem" where i: "d = c\<lparr>sched := s, active_tasks := (active_tasks c)(item_id i \<mapsto>
      \<lparr>task_phase = Created, task_payload = item_payload i, cancel_requested = False\<rparr>)\<rparr>" "active_tasks c (item_id i) = None"
    using Dispatch step by (auto elim: dispatch_SomeD [OF ids])
  show ?thesis by (rule stages_keep [OF inv]) (auto simp: i in_stage_def)
next
  case (Start rid)
  obtain t where t: "active_tasks c rid = Some t" "task_phase t = Created"
    using Start step by (auto simp: start_task_def split: option.splits if_splits)
  have none: "in_stage (Some t) = None" "in_stage (Some (t\<lparr>task_phase := WaitingStage st\<rparr>)) = None" "in_stage None = None" for st
    using t by (simp_all add: in_stage_def)
  show ?thesis
    using Start step t none inv enter_stage_stages [OF inv t(1) none(1)] stages_keep [OF inv, of rid None d]
      stages_keep [OF inv, of rid "Some (t\<lparr>task_phase := WaitingStage (stage_of_task c rid t)\<rparr>)" d]
    by (auto simp: start_task_def Let_def split: if_splits)
next
  case (Admit rid)
  then show ?thesis
    using step inv by (auto simp: admit_task_def in_stage_def intro!: enter_stage_stages split: option.splits phase.splits if_splits)
next
  case (Interrupt rid)
  then show ?thesis using step inv fail_task_stages by (auto simp: interrupt_task_def split: option.splits if_splits)
next
  case (Returns rid res)
  then show ?thesis
    using step inv fail_task_stages finish_after_leave_stages
    by (auto simp: adapter_returns_def split: option.splits if_splits phase.splits sum.splits)
next
  case (Streams rid res)
  obtain t st where t: "active_tasks c rid = Some t" "task_phase t = InStage st"
    using Streams step by (auto simp: adapter_streams_def split: option.splits if_splits phase.splits)
  have "in_stage (Some t) = Some st" "in_stage (Some (t\<lparr>task_phase := Ending\<rparr>)) = None" using t by (simp_all add: in_stage_def)
  then show ?thesis
    using Streams step t inv fail_task_stages [OF inv t(1)] stages_same [OF inv]
      stages_leave [OF inv, of rid st "Some (t\<lparr>task_phase := Ending\<rparr>)" d]
    by (auto simp: adapter_streams_def split: option.splits if_splits sum.splits)
next
  case (EndStream rid)
  then show ?thesis
    using step inv by (auto simp: end_stream_def leave_stage_def intro!: finish_after_leave_stages split: option.splits if_splits)
qed (use step inv submit_tasks close_begin_stages in \<open>auto simp: start_drain_runtime_def resume_def close_end_def
       read_stream_def intro: stages_same split: if_splits list.splits\<close>)

subsection \<open>Identifiers are kept by every step\<close>

lemma ids_fields:
  assumes "ids_inv c" "sched d = sched c" "dom (active_tasks d) = dom (active_tasks c)" "idle d \<longrightarrow> idle c \<or> cancellations d = Map.empty"
    and "dom (futures d) = dom (futures c)" "streams d = streams c" "dom (cancellations d) = dom (cancellations c)"
    and "closed d = closed c"
  shows "ids_inv d"
  using assms unfolding ids_inv_def by (metis dom_eq_empty_conv)

lemma finish_task_ids:
  assumes "ids_inv c" "active_tasks c rid = Some t"
  shows "ids_inv (finish_task c rid b)"
proof -
  have "rid \<in> active_ids (sched c)" using assms by (auto simp: ids_inv_def)
  then have "rid \<notin> dom (entries (sched c))" using assms(1) sched_invD(4) [of "sched c"] by (auto simp: ids_inv_def)
  then show ?thesis using assms finish_ids [of "sched c" rid b] by (auto simp: ids_inv_def)
qed

lemma ids_helpers:
  assumes "ids_inv c"
  shows "ids_inv (resolve c rid x)" "ids_inv (put c q i)" "ids_inv (leave_stage c t)" "ids_inv (put_stream_failure c rid x)"
  by (rule ids_fields [OF assms]; simp)+

lemma fail_task_ids:
  assumes "ids_inv c" "active_tasks c rid = Some t"
  shows "ids_inv (fail_task c rid t e)"
  unfolding fail_task_def Let_def
  by (rule finish_task_ids [of _ _ t]) (use assms ids_helpers in \<open>auto split: if_splits\<close>)

lemma update_task_ids:
  assumes "ids_inv c" "active_tasks c rid = Some t"
  shows "ids_inv (c\<lparr>active_tasks := (active_tasks c)(rid \<mapsto> u)\<rparr>)"
  using assms by (intro ids_fields [OF assms(1)]) auto

lemma enter_stage_ids:
  assumes "ids_inv c" "active_tasks c rid = Some t"
  shows "ids_inv (enter_stage c rid t st)"
proof -
  let ?t = "t\<lparr>task_phase := InStage st\<rparr>"
  let ?c = "c\<lparr>limits := stage_enter (limits c) st, active_tasks := (active_tasks c)(rid \<mapsto> ?t)\<rparr>"
  have "ids_inv ?c" using assms by (intro ids_fields [OF assms(1)]) auto
  then show ?thesis using fail_task_ids [of ?c rid ?t] by (simp add: enter_stage_def Let_def)
qed

text \<open>Registering a fresh request and undoing the registration.\<close>

lemma register_ids:
  assumes inv: "ids_inv c" and open_: "\<not> closed c" and fresh: "cancellations c rid = None"
    and enq: "enqueue now (sched c) rid r prio = Inr s"
    and d: "sched d = s" "active_tasks d = active_tasks c" "\<not> idle d" "cancellations d = (cancellations c)(rid \<mapsto> b)"
      "dom (futures d) \<subseteq> insert rid (dom (futures c))" "dom (streams d) \<subseteq> insert rid (dom (streams c))"
      "closed d = closed c"
  shows "ids_inv d"
proof -
  have "sched_inv (sched c)" using inv by (simp add: ids_inv_def)
  note e = enqueue_ids [OF this enq]
  have c: "dom (active_tasks c) \<subseteq> active_ids (sched c)" "dom (futures c) \<subseteq> dom (cancellations c)"
    "dom (streams c) \<subseteq> dom (cancellations c)"
    "dom (cancellations c) = dom (entries (sched c)) \<union> active_ids (sched c)"
    using inv open_ by (auto simp: ids_inv_def simp del: domIff)
  have "dom (cancellations d) = insert rid (dom (cancellations c))" using d(4) by simp
  moreover have "dom (futures d) \<subseteq> insert rid (dom (cancellations c))" "dom (streams d) \<subseteq> insert rid (dom (cancellations c))"
    using c(2,3) d(5,6) by blast+
  ultimately show ?thesis unfolding ids_inv_def using c(1,4) e d(1-3) by (metis Un_insert_left order_refl)
qed

lemma submit_ids:
  assumes inv: "ids_inv c"
  shows "ids_inv (snd (submit now c r))" "ids_inv (snd (stream_request now c r))"
proof -
  let ?rid = "request_id r"
  let ?e = "enqueue now (sched c) ?rid r (request_priority r)"
  let ?f = "\<not> closed c \<and> \<not> draining c \<and> futures c ?rid = None \<and> cancellations c ?rid = None"
  have dup: "?e = Inl x \<Longrightarrow> ?f \<Longrightarrow> False" for x
    using inv by (auto simp: enqueue_def ids_inv_def domIff Let_def split: if_splits)
  let ?c = "c\<lparr>futures := (futures c)(?rid \<mapsto> None), cancellations := (cancellations c)(?rid \<mapsto> False), idle := False\<rparr>"
  have "ids_inv (?c\<lparr>sched := s\<rparr>)" if "?e = Inr s" ?f for s
    by (rule register_ids [OF inv _ _ that(1)]) (use that in auto)
  then show "ids_inv (snd (submit now c r))"
    using inv dup by (auto simp: submit_def admit_def Let_def split: sum.splits)
  let ?c = "c\<lparr>streams := (streams c)(?rid \<mapsto> next_queue c), next_queue := next_queue c + 1,
      cancellations := (cancellations c)(?rid \<mapsto> False), idle := False\<rparr>"
  have "ids_inv (?c\<lparr>sched := s\<rparr>)" if "?e = Inr s" ?f for s
    by (rule register_ids [OF inv _ _ that(1)]) (use that in auto)
  then show "ids_inv (snd (stream_request now c r))"
    using inv dup by (auto simp: stream_request_def admit_def Let_def split: sum.splits)
qed

lemma cancel_request_ids:
  assumes inv: "ids_inv c"
  shows "ids_inv (snd (cancel_request c rid))"
proof (cases "cancellations c rid = None")
  case False
  obtain b s where s: "Scheduler.cancel (sched c) rid = (b, s)" by fastforce
  have si: "sched_inv (sched c)" using inv by (simp add: ids_inv_def)
  note k = cancel_ids [OF si s]
  show ?thesis
  proof (cases b)
    case True
    then have "rid \<notin> active_ids (sched c)" using k(2) sched_invD(4) [OF si] by auto
    then have "active_tasks c rid = None" using inv by (auto simp: ids_inv_def domIff)
    then show ?thesis
      using False True s k inv \<open>rid \<notin> active_ids (sched c)\<close>
      by (auto simp: cancel_request_def Let_def ids_inv_def split: option.splits)
  next
    case False
    then have "dom (entries s) = dom (entries (sched c))" using k by auto
    then show ?thesis
      using False \<open>cancellations c rid \<noteq> None\<close> s k inv
      by (auto simp: cancel_request_def Let_def ids_inv_def split: option.splits)
  qed
qed (use inv in \<open>simp add: cancel_request_def\<close>)

lemma drop_task_ids: "ids_inv c \<Longrightarrow> ids_inv (c\<lparr>active_tasks := (active_tasks c)(rid := None)\<rparr>)"
  by (auto simp: ids_inv_def)

lemma dom_map_option_fun: "dom (\<lambda>x. map_option f (m x)) = dom m"
  by (auto simp: dom_def)

lemma close_begin_ids:
  assumes "ids_inv c"
  shows "ids_inv (close_begin c)"
  using assms unfolding ids_inv_def by (simp add: close_begin_def dom_map_option_fun)

lemma step_ids [inv_rules]:
  assumes inv: "ids_inv c" and step: "step e c = Some d"
  shows "ids_inv d"
proof (cases e)
  case (Dispatch now)
  then have "dispatch now c = Some d" using step by simp
  then show ?thesis
  proof (rule dispatch_SomeD [OF inv])
    fix s and i :: "CoordinatorRequest ScheduledItem"
    assume i: "next_item now (sched c) = Inr (Some i, s)" "\<not> closed c" "active_tasks c (item_id i) = None"
      and d: "d = c\<lparr>sched := s, active_tasks := (active_tasks c)(item_id i \<mapsto>
        \<lparr>task_phase = Created, task_payload = item_payload i, cancel_requested = False\<rparr>)\<rparr>"
    have "sched_inv (sched c)" using inv by (simp add: ids_inv_def)
    from next_ids [OF this i(1)] show ?thesis using inv i(2) unfolding d ids_inv_def by auto
  qed
next
  case (Start rid)
  then show ?thesis
    using step inv by (auto simp: start_task_def Let_def drop_task_ids update_task_ids enter_stage_ids
        split: option.splits if_splits)
next
  case (Admit rid)
  then show ?thesis
    using step inv by (auto simp: admit_task_def intro: enter_stage_ids split: option.splits phase.splits if_splits)
next
  case (Interrupt rid)
  then show ?thesis
    using step inv by (auto simp: interrupt_task_def intro: fail_task_ids split: option.splits if_splits)
next
  case (Returns rid res)
  have "ids_inv (finish_task (resolve (leave_stage c t) rid x) rid b)" if "active_tasks c rid = Some t" for t x b
    using inv that by (intro finish_task_ids [of _ _ t] ids_helpers) simp_all
  then show ?thesis
    using Returns step inv
    by (auto simp: adapter_returns_def intro: fail_task_ids
        split: option.splits if_splits phase.splits sum.splits)
next
  case (Streams rid res)
  then show ?thesis
    using step inv update_task_ids [OF ids_helpers(3) [OF inv], where rid = rid]
    by (auto simp: adapter_streams_def intro: fail_task_ids ids_helpers
        split: option.splits if_splits phase.splits sum.splits)
next
  case (EndStream rid)
  then show ?thesis
    using step inv by (auto simp: end_stream_def intro: finish_task_ids ids_helpers split: option.splits if_splits)
next
  case (Read q)
  then show ?thesis using step by (auto simp: read_stream_def intro: ids_fields [OF inv] split: list.splits)
next
  case Drain
  then have "d = set_idle_if_empty (c\<lparr>draining := True\<rparr>)" using step by (simp add: start_drain_runtime_def)
  then show ?thesis by (intro ids_fields [OF inv]) simp_all
next
  case Resume
  then have "d = c \<or> d = c\<lparr>draining := False\<rparr>" using step by (simp add: resume_def split: if_splits)
  then show ?thesis using inv ids_fields [OF inv, of d] by auto
next
  case CloseBegin
  then show ?thesis using step inv by (auto simp: close_begin_ids)
next
  case CloseEnd
  then show ?thesis using step inv by (auto simp: close_end_def ids_inv_def split: if_splits)
qed (use step inv submit_ids cancel_request_ids in auto)

definition coord_inv :: "CoordinatorRuntime \<Rightarrow> bool" where
  "coord_inv c \<longleftrightarrow> ids_inv c \<and> stages_inv c"

lemma run_inv [inv_rules]: "run es c = Some d \<Longrightarrow> coord_inv c \<Longrightarrow> coord_inv d"
  by (induction es arbitrary: c) (auto simp: coord_inv_def intro: step_ids step_stages split: option.splits)

lemma new_runtime_inv:
  assumes "new_scheduler k = Inr s" "new_stage_limits l = Inr m"
  shows "coord_inv (new_runtime s m)"
proof -
  have "entries s = Map.empty" "active_ids s = {}" using assms(1) by (auto simp: new_scheduler_def split: if_splits)
  moreover have "stage_active m st = 0" for st using assms(2) by (auto simp: new_stage_limits_def Let_def split: if_splits)
  ultimately show ?thesis
    using new_scheduler_inv [OF assms(1)] new_stage_limits_inv(1) [OF assms(2)]
    by (simp add: coord_inv_def ids_inv_def stages_inv_def new_runtime_def tasks_in_def in_stage_def)
qed

section \<open>Stage limits and draining\<close>

lemma step_limit_const: "step e c = Some d \<Longrightarrow> stage_limits (limits d) = stage_limits (limits c)"
proof -
  have enter: "stage_limits (limits (enter_stage c rid t st)) = stage_limits (limits c)" for rid t st
    by (simp add: enter_stage_def Let_def stage_enter_def stage_leave_def in_stage_def)
  show "step e c = Some d \<Longrightarrow> stage_limits (limits d) = stage_limits (limits c)"
    by (cases e) (auto simp: submit_tasks cancel_request_tasks dispatch_def start_task_def admit_task_def enter
        interrupt_task_def adapter_returns_def adapter_streams_def end_stream_def read_stream_def
        start_drain_runtime_def resume_def close_begin_def close_end_def stage_leave_def Let_def
        split: option.splits if_splits sum.splits prod.splits phase.splits list.splits)
qed

lemma run_limit_const: "run es c = Some d \<Longrightarrow> stage_limits (limits d) = stage_limits (limits c)"
  by (induction es arbitrary: c) (auto simp: step_limit_const split: option.splits)

text \<open>
  C20: Stage limits hold. In every state the coordinator reaches from its start by any
  interleaving of requests, cancellations, task steps, adapter results, drains and closing,
  the active counter of a stage is the number of tasks inside that stage, and it is never
  above the configured limit.
\<close>

theorem stage_limits_hold:
  assumes "new_scheduler k = Inr s" "new_stage_limits l = Inr m" "run es (new_runtime s m) = Some c"
  shows "stage_active (limits c) st = int (card {rid. in_stage (active_tasks c rid) = Some st}) \<and>
    stage_active (limits c) st \<le> stage_limits m st"
proof -
  have "coord_inv c" using run_inv [OF assms(3) new_runtime_inv [OF assms(1,2)]] .
  moreover have "stage_limits (limits c) = stage_limits m"
    using run_limit_const [OF assms(3)] by (simp add: new_runtime_def)
  ultimately show ?thesis
    by (simp add: coord_inv_def stages_inv_def limits_inv_def tasks_in_def)
       (metis add_increasing2 order_refl)
qed

text \<open>
  C21: Draining stops at the exact boundary. In every state the coordinator reaches, if the
  idle event that \<open>drain\<close> waits for is set and the runtime is not closed, then no request is
  queued, none is active, no task exists and no future or stream is registered; and while
  the coordinator drains, \<open>submit\<close> and \<open>stream\<close> reject every request and change nothing.
\<close>

theorem drain_boundary:
  assumes "new_scheduler k = Inr s" "new_stage_limits l = Inr m" "run es (new_runtime s m) = Some c"
    and "\<not> closed c"
  shows "(idle c \<longrightarrow> entries (sched c) = Map.empty \<and> active_ids (sched c) = {} \<and> active_tasks c = Map.empty
           \<and> futures c = Map.empty \<and> streams c = Map.empty) \<and>
    (draining c \<longrightarrow> submit now c r = (Some Draining, c) \<and> stream_request now c r = (Some Draining, c))"
proof -
  have "ids_inv c" using run_inv [OF assms(3) new_runtime_inv [OF assms(1,2)]] by (simp add: coord_inv_def)
  then show ?thesis
    using assms(4) by (auto simp: ids_inv_def submit_def stream_request_def admit_def)
qed

section \<open>Lost requests\<close>

text \<open>A request whose task ended before its first step.\<close>

definition lost :: "CoordinatorRuntime \<Rightarrow> string \<Rightarrow> bool" where
  "lost c rid \<longleftrightarrow> active_tasks c rid = None \<and> rid \<in> active_ids (sched c) \<and> cancellations c rid \<noteq> None \<and>
     futures c rid = Some None \<and> streams c rid = None"

definition view :: "CoordinatorRuntime \<Rightarrow> string \<Rightarrow>
    task option \<times> bool option \<times> outcome option option \<times> nat option \<times> outcome list \<times> bool" where
  "view c rid = (active_tasks c rid, cancellations c rid, futures c rid, streams c rid, answers c rid,
     rid \<in> active_ids (sched c))"

lemma view_other:
  assumes "r \<noteq> rid"
  shows "view (resolve c r x) rid = view c rid" "view (put c q i) rid = view c rid"
    "view (leave_stage c t) rid = view c rid" "view (put_stream_failure c r x) rid = view c rid"
    "view (finish_task c r b) rid = view c rid"
    "view (c\<lparr>active_tasks := (active_tasks c)(r := u)\<rparr>) rid = view c rid"
    "view ((leave_stage c t)\<lparr>active_tasks := (active_tasks c)(r := u)\<rparr>) rid = view c rid"
proof -
  have "active_ids (ok_or (sched c) (finish (sched c) r b)) - {r} = active_ids (sched c) - {r}"
    by (auto simp: ok_or_def finish_def Let_def split: sum.splits if_splits)
  then have "rid \<in> active_ids (ok_or (sched c) (finish (sched c) r b)) \<longleftrightarrow> rid \<in> active_ids (sched c)"
    using assms by blast
  then show "view (finish_task c r b) rid = view c rid" using assms by (simp add: view_def)
  show "view (resolve c r x) rid = view c rid" using assms by (auto simp: view_def resolve_def split: option.splits)
qed (use assms in \<open>simp_all add: view_def\<close>)

lemma view_tasks_other:
  assumes "r \<noteq> rid"
  shows "view (fail_task c r t e) rid = view c rid" "view (enter_stage c r t st) rid = view c rid"
proof -
  show fail: "view (fail_task c r t e) rid = view c rid" for c t e
    using assms by (simp add: fail_task_def Let_def view_other)
  show "view (enter_stage c r t st) rid = view c rid"
  proof -
    let ?c = "c\<lparr>limits := stage_enter (limits c) st, active_tasks := (active_tasks c)(r \<mapsto> t\<lparr>task_phase := InStage st\<rparr>)\<rparr>"
    have "view ?c rid = view c rid" using assms by (simp add: view_def)
    then show ?thesis using fail by (simp add: enter_stage_def Let_def)
  qed
qed

lemma view_cancel_other: "r \<noteq> rid \<Longrightarrow> view (snd (cancel_request c r)) rid = view c rid"
  by (auto simp: cancel_request_def Let_def view_def cancel_def resolve_def split: option.splits)

lemma view_submit_other:
  assumes "ids_inv c" "request_id r \<noteq> rid"
  shows "view (snd (submit now c r)) rid = view c rid" "view (snd (stream_request now c r)) rid = view c rid"
proof -
  have "active_ids t = active_ids (sched c)" if "enqueue now (sched c) i r p = Inr t" for t i p
    using enqueue_ids(3) [OF _ that] assms(1) by (simp add: ids_inv_def)
  then show "view (snd (submit now c r)) rid = view c rid" "view (snd (stream_request now c r)) rid = view c rid"
    using assms(2) by (auto simp: submit_def stream_request_def Let_def view_def split: sum.splits)
qed

lemma view_lost: "lost c rid \<longleftrightarrow> (\<exists>b a. view c rid = (None, Some b, Some None, None, a, True))"
  by (auto simp: lost_def view_def)

lemma lost_step:
  assumes inv: "ids_inv c" and lost: "lost c rid" and step: "step e c = Some d" and e: "e \<noteq> CloseEnd"
  shows "lost d rid \<and> answers d rid = answers c rid"
proof -
  have si: "sched_inv (sched c)" using inv by (simp add: ids_inv_def)
  have queued: "entries (sched c) rid = None" using lost sched_invD(4) [OF si] by (simp add: lost_def)
  have same: ?thesis if "view d rid = view c rid"
    using that lost by (auto simp: view_lost) (simp add: view_def)
  show ?thesis
  proof (cases e)
    case (Submit now r)
    show ?thesis
    proof (cases "request_id r = rid")
      case True
      then have "d = c" using Submit step lost by (auto simp: submit_def lost_def split: sum.splits)
      then show ?thesis using lost by simp
    qed (use Submit step same view_submit_other [OF inv] in auto)
  next
    case (Stream now r)
    show ?thesis
    proof (cases "request_id r = rid")
      case True
      then have "d = c" using Stream step lost by (auto simp: stream_request_def lost_def split: sum.splits)
      then show ?thesis using lost by simp
    qed (use Stream step same view_submit_other [OF inv] in auto)
  next
    case (CancelRequest r)
    show ?thesis
    proof (cases "r = rid")
      case True
      then show ?thesis
        using CancelRequest step lost queued by (auto simp: lost_def cancel_request_def cancel_def Let_def)
    qed (use CancelRequest step same view_cancel_other in auto)
  next
    case (Dispatch now)
    then have "dispatch now c = Some d" using step by simp
    then show ?thesis
    proof (rule dispatch_SomeD [OF inv])
      fix s and i :: "CoordinatorRequest ScheduledItem"
      assume i: "next_item now (sched c) = Inr (Some i, s)"
        and d: "d = c\<lparr>sched := s, active_tasks := (active_tasks c)(item_id i \<mapsto>
          \<lparr>task_phase = Created, task_payload = item_payload i, cancel_requested = False\<rparr>)\<rparr>"
      have "item_id i \<noteq> rid" using next_ids(2) [OF si i] queued by auto
      then show ?thesis using lost next_ids(4) [OF si i] by (auto simp: d lost_def)
    qed
  next
    case (Start r)
    then have "r \<noteq> rid" using step lost by (auto simp: start_task_def lost_def)
    then show ?thesis
      using Start step same by (auto simp: start_task_def Let_def view_other view_tasks_other split: option.splits if_splits)
  next
    case (Admit r)
    then have "r \<noteq> rid" using step lost by (auto simp: admit_task_def lost_def)
    then show ?thesis
      using Admit step same by (auto simp: admit_task_def view_tasks_other split: option.splits phase.splits if_splits)
  next
    case (Interrupt r)
    then have "r \<noteq> rid" using step lost by (auto simp: interrupt_task_def lost_def)
    then show ?thesis
      using Interrupt step same by (auto simp: interrupt_task_def view_tasks_other split: option.splits if_splits)
  next
    case (Returns r res)
    then have "r \<noteq> rid" using step lost by (auto simp: adapter_returns_def lost_def)
    then show ?thesis
      using Returns step same
      by (auto simp: adapter_returns_def view_tasks_other view_other split: option.splits phase.splits if_splits sum.splits)
  next
    case (Streams r res)
    then have "r \<noteq> rid" using step lost by (auto simp: adapter_streams_def lost_def)
    then show ?thesis
      using Streams step same
      by (auto simp: adapter_streams_def view_tasks_other view_other split: option.splits phase.splits if_splits sum.splits)
  next
    case (EndStream r)
    then have "r \<noteq> rid" using step lost by (auto simp: end_stream_def lost_def)
    then show ?thesis
      using EndStream step same by (auto simp: end_stream_def view_other split: option.splits if_splits)
  next
    case (Read q)
    then show ?thesis using step same by (auto simp: read_stream_def view_def split: list.splits)
  next
    case CloseBegin
    then show ?thesis using step lost by (auto simp: close_begin_def lost_def)
  qed (use step same e in \<open>auto simp: start_drain_runtime_def resume_def set_idle_if_empty_def view_def split: if_splits\<close>)
qed

lemma lost_run:
  "run es c = Some d \<Longrightarrow> ids_inv c \<Longrightarrow> lost c rid \<Longrightarrow> CloseEnd \<notin> set es \<Longrightarrow>
   lost d rid \<and> answers d rid = answers c rid \<and> ids_inv d"
proof (induction es arbitrary: c)
  case (Cons e es)
  then obtain c' where c': "step e c = Some c'" "run es c' = Some d" by (auto split: option.splits)
  have "lost c' rid \<and> answers c' rid = answers c rid" using lost_step [OF Cons.prems(2,3) c'(1)] Cons.prems(4) by auto
  then show ?case using Cons.IH [OF c'(2) step_ids [OF Cons.prems(2) c'(1)]] Cons.prems(4) by simp
qed simp

text \<open>
  C34: Cancelling a request between its dispatch and the first step of its task loses it. The
  cancelled task never runs its \<open>finally\<close> block, so from then on, whatever happens short of
  closing the runtime, the caller's future stays unanswered, the request identifier stays
  taken and active, and the idle event is not set, so that no \<open>drain\<close> returns.
\<close>

theorem cancel_before_start_loses_request:
  assumes "ids_inv c" "active_tasks c rid = Some t" "task_phase t = Created" "futures c rid = Some None"
    and "streams c rid = None"
    and "run (CancelRequest rid # Start rid # es) c = Some d" "CloseEnd \<notin> set es"
  shows "futures d rid = Some None \<and> answers d rid = answers c rid \<and> rid \<in> active_ids (sched d) \<and>
    \<not> idle d \<and> active_tasks d rid = None"
proof -
  let ?c = "snd (cancel_request c rid)"
  have reg: "cancellations c rid \<noteq> None" and act: "rid \<in> active_ids (sched c)"
    using assms(1,2,4) by (auto simp: ids_inv_def domIff)
  then have q: "entries (sched c) rid = None" using assms(1) sched_invD(4) by (auto simp: ids_inv_def)
  have c: "?c = c\<lparr>cancellations := (cancellations c)(rid \<mapsto> True),
      active_tasks := (active_tasks c)(rid \<mapsto> t\<lparr>cancel_requested := True\<rparr>)\<rparr>"
    using reg q assms(2) by (auto simp: cancel_request_def cancel_def Let_def)
  let ?e = "?c\<lparr>active_tasks := (active_tasks ?c)(rid := None)\<rparr>"
  have st: "start_task ?c rid = Some ?e" using assms(3) unfolding c by (simp add: start_task_def)
  have "ids_inv ?e" using drop_task_ids cancel_request_ids [OF assms(1)] by blast
  moreover have "lost ?e rid" using assms(4,5) act unfolding c by (simp add: lost_def)
  moreover have "run es ?e = Some d" using assms(6) st by simp
  ultimately have d: "lost d rid \<and> answers d rid = answers ?e rid \<and> ids_inv d" using lost_run assms(7) by blast
  then show ?thesis unfolding c by (auto simp: lost_def ids_inv_def)
qed

definition dormant :: "CoordinatorRuntime \<Rightarrow> bool" where
  "dormant c \<longleftrightarrow> \<not> idle c \<and> draining c \<and> cancellations c = Map.empty \<and> active_tasks c = Map.empty \<and>
     entries (sched c) = Map.empty"

lemma dormant_step:
  assumes inv: "ids_inv c" and c: "dormant c" and step: "step e c = Some d" and e: "e \<noteq> Drain" "e \<noteq> Resume"
  shows "dormant d"
proof (cases e)
  case (Dispatch now)
  then have "dispatch now c = Some d" using step by simp
  then show ?thesis
  proof (rule dispatch_SomeD [OF inv])
    fix s and i :: "CoordinatorRequest ScheduledItem"
    assume i: "next_item now (sched c) = Inr (Some i, s)"
    have "sched_inv (sched c)" using inv by (simp add: ids_inv_def)
    then show ?thesis using next_ids(2) [OF _ i] c by (simp add: dormant_def)
  qed
qed (use step c e in \<open>auto simp: dormant_def submit_def stream_request_def admit_def cancel_request_def start_task_def
       admit_task_def interrupt_task_def adapter_returns_def adapter_streams_def end_stream_def read_stream_def
       close_begin_def close_end_def split: list.splits if_splits\<close>)

lemma dormant_run:
  "run es c = Some d \<Longrightarrow> ids_inv c \<Longrightarrow> dormant c \<Longrightarrow> Drain \<notin> set es \<Longrightarrow> Resume \<notin> set es \<Longrightarrow> dormant d"
proof (induction es arbitrary: c)
  case (Cons e es)
  then obtain c' where c': "step e c = Some c'" "run es c' = Some d" by (auto split: option.splits)
  have "dormant c'" using dormant_step [OF Cons.prems(2,3) c'(1)] Cons.prems(4,5) by auto
  then show ?case using Cons.IH [OF c'(2) step_ids [OF Cons.prems(2) c'(1)]] Cons.prems(4,5) by simp
qed simp

text \<open>
  A drain can miss its wake-up. If the last registered request is still queued when it is
  cancelled during a drain, the request is forgotten but the idle event is not set: nothing
  is queued, active or registered any more, and until somebody drains again or resumes, the
  event stays unset and the waiting \<open>drain\<close> runs into its timeout.
\<close>

theorem drain_misses_wakeup:
  assumes "ids_inv c" "draining c" "\<not> closed c" "\<not> idle c"
    and "cancellations c = [rid \<mapsto> b]" "entries (sched c) rid \<noteq> None"
    and "run (CancelRequest rid # es) c = Some d" "Drain \<notin> set es" "Resume \<notin> set es"
  shows "\<not> idle d \<and> cancellations d = Map.empty \<and> active_tasks d = Map.empty \<and> entries (sched d) = Map.empty"
proof -
  let ?c = "snd (cancel_request c rid)"
  have si: "sched_inv (sched c)" using assms(1) by (simp add: ids_inv_def)
  have "dom (entries (sched c)) \<union> active_ids (sched c) = {rid}"
    using assms(1,3,5) by (auto simp: ids_inv_def)
  moreover have "rid \<notin> active_ids (sched c)" using sched_invD(4) [OF si] assms(6) by auto
  ultimately have ids: "dom (entries (sched c)) = {rid}" "active_ids (sched c) = {}" using assms(6) by auto
  have tasks: "active_tasks c = Map.empty" using assms(1) ids(2) by (simp add: ids_inv_def)
  obtain q s where s: "Scheduler.cancel (sched c) rid = (q, s)" by fastforce
  have s': "q" "entries s = Map.empty" using cancel_ids(2,3) [OF si s] ids(1) assms(6) by auto
  have "dormant ?c"
    using s s' tasks assms(2,4,5) by (auto simp: dormant_def cancel_request_def Let_def split: option.splits)
  moreover have "run es ?c = Some d" using assms(7) by simp
  ultimately have "dormant d" using dormant_run cancel_request_ids [OF assms(1)] assms(8,9) by blast
  then show ?thesis by (simp add: dormant_def)
qed

section \<open>Lost stream failures\<close>

definition queues_inv :: "CoordinatorRuntime \<Rightarrow> bool" where
  "queues_inv c \<longleftrightarrow> (\<forall>rid q. streams c rid = Some q \<longrightarrow> q < next_queue c \<and>
     (\<forall>rid'. streams c rid' = Some q \<longrightarrow> rid' = rid))"

text \<open>The queue \<open>q\<close> has been handed out and no registered stream writes to it.\<close>

definition orphan :: "CoordinatorRuntime \<Rightarrow> nat \<Rightarrow> bool" where
  "orphan c q \<longleftrightarrow> q < next_queue c \<and> (\<forall>rid. streams c rid \<noteq> Some q)"

lemma fail_task_queues:
  "queues (fail_task c rid t e) = (case streams c rid of
      Some q \<Rightarrow> if has_room c q then (queues c)(q := queues c q @ [StreamFailure e]) else queues c
    | None \<Rightarrow> queues c)"
  by (simp add: fail_task_def Let_def put_stream_failure_def has_room_def put_def split: option.splits)

lemma fail_task_orphan:
  "orphan c q \<Longrightarrow> orphan (fail_task c rid t e) q \<and> queues (fail_task c rid t e) q = queues c q"
  by (auto simp: orphan_def fail_task_queues split: option.splits)

lemma enter_stage_orphan:
  "orphan c q \<Longrightarrow> orphan (enter_stage c rid t st) q \<and> queues (enter_stage c rid t st) q = queues c q"
  using fail_task_orphan [of "c\<lparr>limits := stage_enter (limits c) st, active_tasks := (active_tasks c)(rid \<mapsto> t\<lparr>task_phase := InStage st\<rparr>)\<rparr>" q]
  by (auto simp: enter_stage_def Let_def orphan_def)

lemma cancel_request_orphan:
  assumes "orphan c q"
  shows "orphan (snd (cancel_request c rid)) q \<and> queues (snd (cancel_request c rid)) q = queues c q"
proof (cases "cancellations c rid = None")
  case False
  obtain b s where "Scheduler.cancel (sched c) rid = (b, s)" by fastforce
  then show ?thesis
    using False assms by (cases "streams c rid") (auto simp: cancel_request_def Let_def put_def orphan_def)
qed (use assms in \<open>simp add: cancel_request_def\<close>)

lemma orphan_step:
  assumes "orphan c q" "step e c = Some d"
  shows "orphan d q \<and> suffix (queues d q) (queues c q)"
proof (cases e)
  case (CancelRequest rid)
  then show ?thesis using assms cancel_request_orphan by auto
next
  case (Start rid)
  then show ?thesis
    using assms enter_stage_orphan by (auto simp: start_task_def Let_def orphan_def split: option.splits if_splits)
next
  case (Admit rid)
  then show ?thesis
    using assms enter_stage_orphan by (auto simp: admit_task_def split: option.splits if_splits phase.splits)
next
  case (Interrupt rid)
  then show ?thesis
    using assms fail_task_orphan by (auto simp: interrupt_task_def split: option.splits if_splits)
next
  case (Returns rid res)
  then show ?thesis
    using assms fail_task_orphan
    by (auto simp: adapter_returns_def orphan_def split: option.splits if_splits phase.splits sum.splits)
next
  case (Streams rid res)
  then show ?thesis
    using assms fail_task_orphan [OF assms(1)]
    by (auto simp: adapter_streams_def orphan_def put_def split: option.splits if_splits phase.splits sum.splits)
next
  case (EndStream rid)
  then show ?thesis using assms by (auto simp: end_stream_def orphan_def put_def split: option.splits if_splits)
next
  case (Read q')
  then show ?thesis using assms by (auto simp: read_stream_def orphan_def suffix_def split: list.splits)
qed (use assms in \<open>auto simp: orphan_def submit_def stream_request_def dispatch_def start_drain_runtime_def resume_def
       close_begin_def close_end_def Let_def split: sum.splits option.splits if_splits prod.splits\<close>)

lemma orphan_run: "run es c = Some d \<Longrightarrow> orphan c q \<Longrightarrow> suffix (queues d q) (queues c q)"
proof (induction es arbitrary: c)
  case (Cons e es)
  then obtain c' where "step e c = Some c'" "run es c' = Some d" by (auto split: option.splits)
  then show ?case using Cons orphan_step suffix_order.trans by blast
qed simp

text \<open>
  A stream can lose its failure. If the adapter raises while the queue of 64 items to the
  reader is full, the failure is dropped and the request is forgotten: whatever happens
  afterwards, the reader finds only chunks that were already queued, never an end mark or a
  failure, so after reading them it waits for ever.
\<close>

theorem full_queue_loses_failure:
  assumes "queues_inv c" "streams c rid = Some q" "length (queues c q) = 64"
    and "\<forall>i \<in> set (queues c q). \<exists>s. i = Chunk s"
    and "run (Streams rid (Inl err) # es) c = Some d"
  shows "suffix (queues d q) (queues c q) \<and> (\<forall>i \<in> set (queues d q). \<exists>s. i = Chunk s) \<and> streams c rid = Some q"
proof -
  obtain t where "active_tasks c rid = Some t" "adapter_streams c rid (Inl err) = Some (fail_task c rid t (Failed err))"
    using assms(2,5) by (auto simp: adapter_streams_def split: option.splits if_splits phase.splits)
  then have r: "run es (fail_task c rid t (Failed err)) = Some d" using assms(5) by simp
  have "orphan (fail_task c rid t (Failed err)) q"
    using assms(1,2) by (auto simp: orphan_def queues_inv_def)
  from orphan_run [OF r this] have suf: "suffix (queues d q) (queues c q)"
    using assms(2,3) by (simp add: fail_task_queues has_room_def STREAM_QUEUE_SIZE_def)
  then show ?thesis using assms(2,4) set_mono_suffix by blast
qed

section \<open>Sample runs\<close>

definition sample_request :: CoordinatorRequest where
  "sample_request = \<lparr>request_id = ''a'', request_stage = EMBEDDING, request_priority = INTERACTIVE,
     request_inputs = [''x''], request_think = False\<rparr>"

definition sample_limits :: StageLimits where
  "sample_limits = \<lparr>stage_limits = (\<lambda>_. 1), semaphores = (\<lambda>_. 1), stage_active = (\<lambda>_. 0)\<rparr>"

definition sample_queue :: "CoordinatorRequest PriorityScheduler" where
  "sample_queue =
     \<lparr>starvation_seconds = 60, interactive = [], background = [], entries = Map.empty, next_sequence = 0,
      last_background_relief = None, active_ids = {}, completed = 0, failed_count = 0, cancelled_count = 0\<rparr>"

lemma sample_start:
  "new_scheduler 60 = Inr sample_queue"
  "new_stage_limits (Some (map (\<lambda>s. (s, 1)) all_stages)) = Inr sample_limits"
proof -
  show "new_scheduler 60 = Inr sample_queue" by (simp add: new_scheduler_def sample_queue_def)
  have "(case map_of (map (\<lambda>s. (s, 1)) all_stages) s of None \<Rightarrow> 0 | Some n \<Rightarrow> n) = (1 :: int)" for s
    by (cases s) (simp_all add: all_stages_def)
  then show "new_stage_limits (Some (map (\<lambda>s. (s, 1)) all_stages)) = Inr sample_limits"
    by (auto simp: new_stage_limits_def sample_limits_def Let_def image_image)
qed

lemma run_append: "run (es @ fs) c = (case run es c of None \<Rightarrow> None | Some d \<Rightarrow> run fs d)"
  by (induction es arbitrary: c) (auto split: option.splits)

text \<open>The states after the request was submitted and after it was dispatched.\<close>

definition submitted :: CoordinatorRuntime where
  "submitted = snd (submit 0 (new_runtime sample_queue sample_limits) sample_request)"

definition dispatched :: CoordinatorRuntime where
  "dispatched = (case dispatch 0 submitted of Some c \<Rightarrow> c | None \<Rightarrow> submitted)"

lemmas sample_eval = submitted_def submit_def admit_def new_runtime_def sample_queue_def sample_request_def
  enqueue_def new_entry_def heappush_def Let_def next_item_def choose_entry_def discard_both_def dispatch_def

lemma submitted_facts:
  "run [Submit 0 sample_request] (new_runtime sample_queue sample_limits) = Some submitted"
  "coord_inv submitted" "cancellations submitted = [''a'' \<mapsto> False]" "entries (sched submitted) ''a'' \<noteq> None"
  "\<not> closed submitted" "\<not> idle submitted"
proof -
  show r: "run [Submit 0 sample_request] (new_runtime sample_queue sample_limits) = Some submitted"
    by (simp add: submitted_def)
  show "coord_inv submitted" using run_inv [OF r new_runtime_inv [OF sample_start]] .
qed (simp_all add: sample_eval)

definition sample_task :: task where
  "sample_task = \<lparr>task_phase = Created, task_payload = sample_request, cancel_requested = False\<rparr>"

lemma dispatched_facts:
  "run [Submit 0 sample_request, Dispatch 0] (new_runtime sample_queue sample_limits) = Some dispatched"
  "coord_inv dispatched" "active_tasks dispatched ''a'' = Some sample_task" "futures dispatched ''a'' = Some None"
  "streams dispatched ''a'' = None" "limits dispatched = sample_limits" "cancellations dispatched ''a'' = Some False"
proof -
  have d: "dispatch 0 submitted = Some dispatched" by (simp add: dispatched_def sample_eval)
  show r: "run [Submit 0 sample_request, Dispatch 0] (new_runtime sample_queue sample_limits) = Some dispatched"
    using run_append [of "[Submit 0 sample_request]" "[Dispatch 0]"] submitted_facts(1) d by simp
  show "coord_inv dispatched" using run_inv [OF r new_runtime_inv [OF sample_start]] .
qed (simp_all add: dispatched_def sample_eval sample_task_def)

theorem stage_limits_hold_witness:
  "\<exists>c. run [Submit 0 sample_request, Dispatch 0, Start ''a''] (new_runtime sample_queue sample_limits) = Some c \<and>
     stage_active (limits c) EMBEDDING = 1 \<and> stage_active (limits c) EMBEDDING \<le> stage_limits sample_limits EMBEDDING"
proof -
  obtain d where d: "start_task dispatched ''a'' = Some d" "limits d = stage_enter sample_limits EMBEDDING"
    using dispatched_facts(3-7) by (simp add: start_task_def stage_of_task_def sample_request_def stage_free_def
        sample_limits_def sample_task_def enter_stage_def Let_def)
  have run: "run [Submit 0 sample_request, Dispatch 0, Start ''a''] (new_runtime sample_queue sample_limits) = Some d"
    using run_append [of "[Submit 0 sample_request, Dispatch 0]" "[Start ''a'']"] dispatched_facts(1) d(1) by simp
  have "stage_active (limits d) EMBEDDING \<le> stage_limits sample_limits EMBEDDING"
    using stage_limits_hold [OF sample_start run] by blast
  moreover have "stage_active (limits d) EMBEDDING = 1" using d(2) by (simp add: stage_enter_def sample_limits_def)
  ultimately show ?thesis using run by blast
qed

theorem drain_boundary_witness:
  "\<exists>c. run [Drain] (new_runtime sample_queue sample_limits) = Some c \<and> idle c \<and> entries (sched c) = Map.empty \<and>
     submit 1 c sample_request = (Some Draining, c)"
proof -
  let ?c = "start_drain_runtime (new_runtime sample_queue sample_limits)"
  have run: "run [Drain] (new_runtime sample_queue sample_limits) = Some ?c" by simp
  have "idle ?c" "draining ?c" "\<not> closed ?c" by (simp_all add: start_drain_runtime_def new_runtime_def)
  then show ?thesis using drain_boundary [OF sample_start run] run by blast
qed

theorem cancel_before_start_loses_request_witness:
  "\<exists>d. run [Submit 0 sample_request, Dispatch 0, CancelRequest ''a'', Start ''a'', Drain]
       (new_runtime sample_queue sample_limits) = Some d \<and>
     futures d ''a'' = Some None \<and> \<not> idle d \<and> active_tasks d ''a'' = None"
proof -
  have ids: "ids_inv dispatched" using dispatched_facts(2) by (simp add: coord_inv_def)
  have created: "task_phase sample_task = Created" by (simp add: sample_task_def)
  have "\<exists>d. run [CancelRequest ''a'', Start ''a'', Drain] dispatched = Some d"
    using cancel_request_tasks(1) [of dispatched "''a''"] dispatched_facts(3,7) created by (simp add: start_task_def)
  then obtain d where d: "run [CancelRequest ''a'', Start ''a'', Drain] dispatched = Some d" by blast
  have "run [Submit 0 sample_request, Dispatch 0, CancelRequest ''a'', Start ''a'', Drain]
       (new_runtime sample_queue sample_limits) = Some d"
    using run_append [of "[Submit 0 sample_request, Dispatch 0]" "[CancelRequest ''a'', Start ''a'', Drain]"]
      dispatched_facts(1) d by simp
  then show ?thesis
    using cancel_before_start_loses_request [OF ids dispatched_facts(3) created dispatched_facts(4,5) d] by auto
qed

theorem drain_misses_wakeup_witness:
  "\<exists>d. run [Submit 0 sample_request, Drain, CancelRequest ''a''] (new_runtime sample_queue sample_limits) = Some d \<and>
     \<not> idle d \<and> cancellations d = Map.empty"
proof -
  let ?c = "start_drain_runtime submitted"
  let ?d = "snd (cancel_request ?c ''a'')"
  have "ids_inv ?c" using submitted_facts(2) step_ids [of submitted Drain ?c] by (simp add: coord_inv_def)
  moreover have "draining ?c" "\<not> closed ?c" "\<not> idle ?c" "cancellations ?c = [''a'' \<mapsto> False]" "entries (sched ?c) ''a'' \<noteq> None"
    using submitted_facts(3-6) by (simp_all add: start_drain_runtime_def)
  moreover have "run [CancelRequest ''a''] ?c = Some ?d" by simp
  ultimately have "\<not> idle ?d \<and> cancellations ?d = Map.empty"
    using drain_misses_wakeup [of ?c "''a''" False "[]" ?d] by simp
  then show ?thesis
    using run_append [of "[Submit 0 sample_request]" "[Drain, CancelRequest ''a'']"] submitted_facts(1) by simp
qed

theorem full_queue_loses_failure_witness:
  "\<exists>c d. streams c ''a'' = Some 0 \<and> length (queues c 0) = 64 \<and> run [Streams ''a'' (Inl ''boom'')] c = Some d \<and>
     (\<forall>i \<in> set (queues d 0). \<exists>s. i = Chunk s)"
proof -
  let ?t = "\<lparr>task_phase = InStage GENERATION, task_payload = sample_request, cancel_requested = False\<rparr>"
  let ?c = "(new_runtime sample_queue (stage_enter sample_limits GENERATION))\<lparr>streams := [''a'' \<mapsto> 0], next_queue := 1,
     queues := (\<lambda>_. replicate 64 (Chunk ''x'')), cancellations := [''a'' \<mapsto> False], active_tasks := [''a'' \<mapsto> ?t]\<rparr>"
  have "queues_inv ?c" by (simp add: queues_inv_def)
  moreover have s: "streams ?c ''a'' = Some 0" "length (queues ?c 0) = 64" "\<forall>i \<in> set (queues ?c 0). \<exists>s. i = Chunk s"
    by simp_all
  moreover have run: "run [Streams ''a'' (Inl ''boom'')] ?c = Some (fail_task ?c ''a'' ?t (Failed ''boom''))"
    by (simp add: adapter_streams_def)
  ultimately have "\<forall>i \<in> set (queues (fail_task ?c ''a'' ?t (Failed ''boom'')) 0). \<exists>s. i = Chunk s"
    using full_queue_loses_failure by blast
  then show ?thesis using s run by blast
qed

end
