(* ===== verification/Library.thy ===== *)
theory Library
  imports Text
begin

text \<open>
  services/library.py: names of library nodes, the resolution of nodes into views with their
  ancestors and logical paths, the checks before an insertion and a move, and the choice of a
  free file name. NFC normalisation and case folding of the standard library are the
  parameters \<open>nfc\<close> and \<open>casefold\<close>. Database rows are arguments; a dictionary that is
  iterated is an association list in insertion order.
\<close>

definition MAX_LIBRARY_NODES :: nat where "MAX_LIBRARY_NODES = 10000"
definition MAX_LIBRARY_DEPTH :: nat where "MAX_LIBRARY_DEPTH = 256"

datatype library_error =
  LibraryNotFound string
| LibraryConflict string
| LibraryNotFolder string
| LibraryCycle string
| LibraryNotEmpty string
| LibraryCorruption string
| InvalidLibraryName string
| LibraryRuntimeError string
| MissingKey

section \<open>Names\<close>

text \<open>The general categories Cc, Cf and Cs among the code points 0 to 255.\<close>

definition control_or_format :: "char \<Rightarrow> bool" where
  "control_or_format c = (let n = code c in n < 32 \<or> 127 \<le> n \<and> n < 160 \<or> n = 173)"

definition utf8_length :: "string \<Rightarrow> nat" where
  "utf8_length s = sum_list (map (\<lambda>c. if code c < 128 then 1 else 2) s)"

definition quoted :: "string \<Rightarrow> string" where
  "quoted s = [CHR 0x27] @ s @ [CHR 0x27]"

definition normalize_library_name ::
  "(string \<Rightarrow> string) \<Rightarrow> (string \<Rightarrow> string) \<Rightarrow> string \<Rightarrow> (library_error, string \<times> string) result" where
  "normalize_library_name nfc casefold value =
     (let name = nfc (strip value) in
      if name = [] \<or> name = ''.'' \<or> name = ''..''
      then Inl (InvalidLibraryName (''name must not be empty, '' @ quoted ''.'' @ '' or '' @ quoted ''..''))
      else if CHR ''/'' \<in> set name \<or> CHR 0x5C \<in> set name
      then Inl (InvalidLibraryName ''name must not contain path separators'')
      else if 255 < length name then Inl (InvalidLibraryName ''name exceeds 255 characters'')
      else if \<exists>c \<in> set name. control_or_format c
      then Inl (InvalidLibraryName ''name contains a control, format, or surrogate character'')
      else let name_key = nfc (casefold name) in
           if 1024 < utf8_length name_key
           then Inl (InvalidLibraryName ''case-folded name exceeds 1024 UTF-8 bytes'')
           else Inr (name, name_key))"

definition library_name :: "string \<Rightarrow> bool" where
  "library_name name \<longleftrightarrow> name \<noteq> [] \<and> name \<noteq> ''.'' \<and> name \<noteq> ''..'' \<and> CHR ''/'' \<notin> set name \<and>
     CHR 0x5C \<notin> set name \<and> length name \<le> 255 \<and> (\<forall>c \<in> set name. \<not> control_or_format c)"

lemma normalize_library_name_Inr:
  assumes "normalize_library_name nfc casefold value = Inr (name, key)"
  shows "library_name name" "key = nfc (casefold name)" "utf8_length key \<le> 1024" "name = nfc (strip value)"
  using assms by (auto simp: normalize_library_name_def library_name_def Let_def split: if_splits)

text \<open>\<open>name.rfind(".")\<close>.\<close>

definition rfind_dot :: "string \<Rightarrow> int" where
  "rfind_dot s = int (length s) - 1 - int (length (takeWhile (\<lambda>c. c \<noteq> CHR ''.'') (rev s)))"

fun shorten_stem :: "(string \<Rightarrow> string) \<Rightarrow> (string \<Rightarrow> string) \<Rightarrow> string \<Rightarrow> string \<Rightarrow> string \<Rightarrow> string" where
  "shorten_stem nfc casefold stem marker extension =
     (if stem \<noteq> [] \<and> (255 < length (stem @ marker @ extension) \<or>
                       1024 < utf8_length (nfc (casefold (stem @ marker @ extension))))
      then shorten_stem nfc casefold (butlast stem) marker extension else stem)"

declare shorten_stem.simps [simp del]

definition split_extension :: "string \<Rightarrow> string \<times> string" where
  "split_extension name =
     (let dot = rfind_dot name
      in if 0 < dot \<and> dot < int (length name) - 1 then (take (nat dot) name, drop (nat dot) name)
         else (name, []))"

definition suffixed_name ::
  "(string \<Rightarrow> string) \<Rightarrow> (string \<Rightarrow> string) \<Rightarrow> string \<Rightarrow> nat \<Rightarrow> (library_error, string) result" where
  "suffixed_name nfc casefold name ordinal =
     (let (stem0, extension) = split_extension name;
          marker = '' ('' @ show_nat ordinal @ '')'';
          stem = shorten_stem nfc casefold stem0 marker extension
      in if stem = [] then Inl (LibraryConflict ''filename namespace is exhausted'')
         else Inr (stem @ marker @ extension))"

section \<open>Nodes and views\<close>

record LibraryNode =
  node_id :: uuid
  node_parent :: "uuid option"
  node_kind :: string
  node_name :: string
  node_name_key :: string
  node_document :: "uuid option"
  node_uploader :: "uuid option"

record LibraryNodeView =
  view_id :: uuid
  view_parent :: "uuid option"
  view_kind :: string
  view_name :: string
  view_name_key :: string
  logical_path :: string
  view_document :: "uuid option"
  view_uploader :: "uuid option"
  readable_document_count :: int
  can_create_children :: bool

record LibraryLocation =
  location_node :: uuid
  location_parent :: "uuid option"
  display_name :: string
  location_path :: string
  location_uploader :: "uuid option"

text \<open>\<open>can_manage\<close> of a view, for the role and the identifier of the actor.\<close>

datatype ActorRole = MEMBER | ADMIN

record ActorContext =
  actor_user_id :: uuid
  actor_role :: ActorRole

definition can_manage :: "LibraryNodeView \<Rightarrow> ActorContext \<Rightarrow> bool" where
  "can_manage v actor \<longleftrightarrow> actor_role actor = ADMIN \<or>
     (view_kind v = ''file'' \<and> view_uploader v = Some (actor_user_id actor))"

definition require_admin :: "ActorContext \<Rightarrow> (library_error, unit) result" where
  "require_admin actor = require (actor_role actor = ADMIN) (LibraryNotFound ''library node not found'')"

type_synonym records = "uuid \<rightharpoonup> LibraryNode"
type_synonym resolved = "(uuid \<times> LibraryNodeView) list \<times> (uuid \<rightharpoonup> uuid list)"

definition node_records :: "LibraryNode list \<Rightarrow> records" where
  "node_records nodes = map_of (rev (map (\<lambda>n. (node_id n, n)) nodes))"

definition make_view :: "LibraryNode \<Rightarrow> string list \<Rightarrow> LibraryNodeView" where
  "make_view node names =
     \<lparr>view_id = node_id node, view_parent = node_parent node, view_kind = node_kind node,
      view_name = node_name node, view_name_key = node_name_key node,
      logical_path = ''/'' @ join ''/'' (names @ [node_name node]), view_document = node_document node,
      view_uploader = node_uploader node, readable_document_count = 0, can_create_children = False\<rparr>"

function resolve_node ::
  "records \<Rightarrow> uuid \<Rightarrow> uuid list \<Rightarrow> resolved \<Rightarrow> (library_error, LibraryNodeView \<times> resolved) result" where
  "resolve_node records nid stack st =
     (case map_of (fst st) nid of
        Some v \<Rightarrow> Inr (v, st)
      | None \<Rightarrow>
          if nid \<in> set stack \<or> MAX_LIBRARY_DEPTH \<le> length stack
          then Inl (LibraryCorruption ''library contains a cycle or excessive depth'')
          else (case records nid of
             None \<Rightarrow> Inl MissingKey
           | Some node \<Rightarrow>
               rbind (case node_parent node of
                   None \<Rightarrow> Inr ([], [], st)
                 | Some p \<Rightarrow> (case records p of
                     None \<Rightarrow> Inl (LibraryCorruption ''library node has an invalid parent'')
                   | Some parent \<Rightarrow>
                       if node_kind parent \<noteq> ''folder''
                       then Inl (LibraryCorruption ''library node has an invalid parent'')
                       else rbind (resolve_node records (node_id parent) (stack @ [nid]) st)
                         (\<lambda>(parent_view, st1). case snd st1 (node_id parent) of
                            None \<Rightarrow> Inl MissingKey
                          | Some chain \<Rightarrow>
                              Inr (chain @ [node_id parent],
                                   filter (\<lambda>part. part \<noteq> []) (split_on CHR ''/'' (logical_path parent_view)), st1))))
                 (\<lambda>(ancestors, names, st2).
                    let view = make_view node names
                    in Inr (view, fst st2 @ [(nid, view)], (snd st2)(nid \<mapsto> ancestors)))))"
  by pat_completeness auto
termination
  by (relation "measure (\<lambda>(records, nid, stack, st). MAX_LIBRARY_DEPTH - length stack)") auto

declare resolve_node.simps [simp del]

fun resolve_all :: "records \<Rightarrow> uuid list \<Rightarrow> resolved \<Rightarrow> (library_error, resolved) result" where
  "resolve_all records [] st = Inr st"
| "resolve_all records (i # is) st =
     rbind (resolve_node records i [] st) (\<lambda>(v, st1). resolve_all records is st1)"

definition resolve_views :: "LibraryNode list \<Rightarrow> (library_error, resolved) result" where
  "resolve_views nodes =
     (if MAX_LIBRARY_NODES < length nodes
      then Inl (LibraryCorruption ''library exceeds the bounded node limit'')
      else resolve_all (node_records nodes) (fromkeys (map node_id nodes)) ([], Map.empty))"

text \<open>\<open>_load_nodes\<close> on the rows of the table, read with a limit of one more than allowed.\<close>

definition load_nodes :: "LibraryNode list \<Rightarrow> (library_error, LibraryNode list) result" where
  "load_nodes table =
     (let nodes = take (MAX_LIBRARY_NODES + 1) table
      in if MAX_LIBRARY_NODES < length nodes
         then Inl (LibraryCorruption ''library exceeds the bounded node limit'') else Inr nodes)"

definition view_from_nodes :: "LibraryNode list \<Rightarrow> uuid \<Rightarrow> (library_error, LibraryNodeView) result" where
  "view_from_nodes nodes i =
     rbind (resolve_views nodes) (\<lambda>(views, chains). case map_of views i of
       Some v \<Rightarrow> Inr v | None \<Rightarrow> Inl (LibraryNotFound ''library node not found''))"

definition location_for_document :: "LibraryNode list \<Rightarrow> uuid \<Rightarrow> (library_error, LibraryLocation) result" where
  "location_for_document table doc =
     rbind (load_nodes table) (\<lambda>nodes. rbind (resolve_views nodes) (\<lambda>(views, chains).
       case filter (\<lambda>v. view_document v = Some doc) (map snd views) of
         v # _ \<Rightarrow> Inr \<lparr>location_node = view_id v, location_parent = view_parent v, display_name = view_name v,
                      location_path = logical_path v, location_uploader = view_uploader v\<rparr>
       | [] \<Rightarrow> Inl (LibraryCorruption ''document has no canonical file node'')))"

definition validated_parent_depth :: "resolved \<Rightarrow> uuid option \<Rightarrow> (library_error, nat) result" where
  "validated_parent_depth st parent =
     (case parent of
        None \<Rightarrow> Inr 0
      | Some p \<Rightarrow> (case map_of (fst st) p of
          None \<Rightarrow> Inl (LibraryNotFound ''parent folder not found'')
        | Some v \<Rightarrow> if view_kind v \<noteq> ''folder'' then Inl (LibraryNotFolder ''parent node is not a folder'')
                    else (case snd st p of None \<Rightarrow> Inl MissingKey | Some chain \<Rightarrow> Inr (length chain + 1))))"

definition validate_insertion :: "LibraryNode list \<Rightarrow> uuid option \<Rightarrow> (library_error, unit) result" where
  "validate_insertion nodes parent =
     (if MAX_LIBRARY_NODES \<le> length nodes then Inl (LibraryConflict ''library node capacity is exhausted'')
      else rbind (resolve_views nodes) (\<lambda>st. rbind (validated_parent_depth st parent) (\<lambda>depth.
        if MAX_LIBRARY_DEPTH < depth + 1 then Inl (LibraryConflict ''library depth limit would be exceeded'')
        else Inr ())))"

definition chain_of :: "resolved \<Rightarrow> uuid \<Rightarrow> uuid list" where
  "chain_of st i = (case snd st i of Some c \<Rightarrow> c | None \<Rightarrow> [])"

text \<open>\<open>subtree_height\<close>: the largest relative depth in the subtree; the node itself counts one.\<close>

definition subtree_height :: "resolved \<Rightarrow> uuid \<Rightarrow> nat" where
  "subtree_height st i =
     foldr max (map (\<lambda>j. length (chain_of st j) - length (chain_of st i) + 1)
       (filter (\<lambda>j. j = i \<or> i \<in> set (chain_of st j)) (map (view_id \<circ> snd) (fst st)))) 1"

definition validate_move :: "LibraryNode list \<Rightarrow> uuid \<Rightarrow> uuid option \<Rightarrow> (library_error, unit) result" where
  "validate_move nodes i parent =
     rbind (resolve_views nodes) (\<lambda>st.
       if map_of (fst st) i = None then Inl (LibraryNotFound ''library node not found'')
       else rbind (validated_parent_depth st parent) (\<lambda>depth.
         if parent = Some i \<or> (case parent of None \<Rightarrow> False | Some p \<Rightarrow> i \<in> set (chain_of st p))
         then Inl (LibraryCycle ''folder move would create a cycle'')
         else if MAX_LIBRARY_DEPTH < depth + subtree_height st i
         then Inl (LibraryConflict ''library depth limit would be exceeded'')
         else Inr ()))"

section \<open>File names\<close>

text \<open>
  The loop of \<open>create_file_node\<close>: the first candidate whose key no sibling has. \<open>None\<close> is a loop
  that has not ended within the given number of rounds.
\<close>

fun free_name ::
  "(string \<Rightarrow> string) \<Rightarrow> (string \<Rightarrow> string) \<Rightarrow> string list \<Rightarrow> string \<Rightarrow> string \<Rightarrow> nat \<Rightarrow> nat \<Rightarrow>
   (library_error, string \<times> string) result option" where
  "free_name nfc casefold taken display candidate ordinal 0 = None"
| "free_name nfc casefold taken display candidate ordinal (Suc fuel) =
     (case normalize_library_name nfc casefold candidate of
        Inl e \<Rightarrow> Some (Inl e)
      | Inr (name, key) \<Rightarrow>
          if key \<notin> set taken then Some (Inr (name, key))
          else (case suffixed_name nfc casefold display (ordinal + 1) of
                  Inl e \<Rightarrow> Some (Inl e)
                | Inr c \<Rightarrow> free_name nfc casefold taken display c (ordinal + 1) fuel))"

definition sibling_keys :: "LibraryNode list \<Rightarrow> uuid option \<Rightarrow> string list" where
  "sibling_keys table parent = map node_name_key (filter (\<lambda>n. node_parent n = parent) table)"

text \<open>\<open>create_file_node\<close>; \<open>node_uuid\<close> is the name-based identifier of the document's node.\<close>

definition create_file_node ::
  "(string \<Rightarrow> string) \<Rightarrow> (string \<Rightarrow> string) \<Rightarrow> (uuid \<Rightarrow> uuid) \<Rightarrow> LibraryNode list \<Rightarrow> uuid \<Rightarrow> string \<Rightarrow>
   uuid option \<Rightarrow> uuid \<Rightarrow> nat \<Rightarrow> (library_error, LibraryNode) result option" where
  "create_file_node nfc casefold node_uuid table doc filename parent uploader fuel =
     (case rbind (load_nodes table) (\<lambda>nodes. rbind (validate_insertion nodes parent)
             (\<lambda>_. normalize_library_name nfc casefold filename)) of
        Inl e \<Rightarrow> Some (Inl e)
      | Inr (display, _) \<Rightarrow>
          map_option (\<lambda>r. rbind r (\<lambda>(name, key). Inr
            \<lparr>node_id = node_uuid doc, node_parent = parent, node_kind = ''file'', node_name = name,
             node_name_key = key, node_document = Some doc, node_uploader = Some uploader\<rparr>))
            (free_name nfc casefold (sibling_keys table parent) display display 1 fuel))"

definition validate_new_file_target ::
  "(string \<Rightarrow> string) \<Rightarrow> (string \<Rightarrow> string) \<Rightarrow> LibraryNode list \<Rightarrow> string \<Rightarrow> uuid option \<Rightarrow>
   (library_error, unit) result" where
  "validate_new_file_target nfc casefold table filename parent =
     rbind (normalize_library_name nfc casefold filename) (\<lambda>_.
       rbind (load_nodes table) (\<lambda>nodes. validate_insertion nodes parent))"

definition ensure_available ::
  "LibraryNode list \<Rightarrow> uuid option \<Rightarrow> string \<Rightarrow> uuid option \<Rightarrow> (library_error, unit) result" where
  "ensure_available table parent key excluding =
     (if \<exists>n \<in> set table. node_parent n = parent \<and> node_name_key n = key \<and> Some (node_id n) \<noteq> excluding
      then Inl (LibraryConflict ''a sibling with that name already exists'') else Inr ())"

section \<open>Ancestors\<close>

text \<open>The ancestors of a node, from the root down to its parent.\<close>

inductive ancestry :: "records \<Rightarrow> uuid \<Rightarrow> uuid list \<Rightarrow> bool" for records where
  ancestry_root: "records i = Some n \<Longrightarrow> node_parent n = None \<Longrightarrow> ancestry records i []"
| ancestry_child: "records i = Some n \<Longrightarrow> node_parent n = Some p \<Longrightarrow> records p = Some q \<Longrightarrow>
    node_kind q = ''folder'' \<Longrightarrow> ancestry records p c \<Longrightarrow> ancestry records i (c @ [p])"

inductive_cases ancestryE: "ancestry records i c"

definition keyed :: "records \<Rightarrow> bool" where
  "keyed records \<longleftrightarrow> (\<forall>i n. records i = Some n \<longrightarrow>
     node_id n = i \<and> node_name n \<noteq> [] \<and> CHR ''/'' \<notin> set (node_name n))"

definition name_of :: "records \<Rightarrow> uuid \<Rightarrow> string" where
  "name_of records i = (case records i of Some n \<Rightarrow> node_name n | None \<Rightarrow> [])"

definition resolved_ok :: "records \<Rightarrow> resolved \<Rightarrow> bool" where
  "resolved_ok records st \<longleftrightarrow> (\<forall>i v. map_of (fst st) i = Some v \<longrightarrow>
     (\<exists>n c. records i = Some n \<and> snd st i = Some c \<and> ancestry records i c \<and>
            v = make_view n (map (name_of records) c)))"

lemma split_join:
  "\<forall>w \<in> set ws. d \<notin> set w \<Longrightarrow> ws \<noteq> [] \<Longrightarrow> split_on d (join [d] ws) = ws"
proof (induction ws rule: induct_list012)
  case (3 w v ws)
  then show ?case by (simp add: split_on_append)
qed (simp_all add: split_on_simple)

lemma path_parts:
  assumes "\<forall>w \<in> set ws. w \<noteq> [] \<and> CHR ''/'' \<notin> set w" "ws \<noteq> []"
  shows "filter (\<lambda>part. part \<noteq> []) (split_on CHR ''/'' (''/'' @ join ''/'' ws)) = ws"
proof -
  have "split_on CHR ''/'' (''/'' @ join ''/'' ws) = [] # ws" using split_join [of ws "CHR ''/''"] assms by simp
  moreover have "filter (\<lambda>part. part \<noteq> []) ws = ws" using assms(1) by (auto simp: filter_id_conv)
  ultimately show ?thesis by simp
qed

lemma ancestry_names:
  assumes "keyed records" "ancestry records i c"
  shows "\<forall>w \<in> set (map (name_of records) (c @ [i])). w \<noteq> [] \<and> CHR ''/'' \<notin> set w"
  using assms(2) assms(1)
  by (induction rule: ancestry.induct) (auto simp: name_of_def keyed_def)

lemma resolved_ok_extend:
  assumes "resolved_ok records st" "map_of (fst st) i = None" "records i = Some n" "ancestry records i c"
  shows "resolved_ok records (fst st @ [(i, make_view n (map (name_of records) c))], (snd st)(i \<mapsto> c))"
  using assms by (auto simp: resolved_ok_def map_add_def split: option.splits)

lemma resolve_node_ok:
  "resolved_ok records st \<Longrightarrow> keyed records \<Longrightarrow> resolve_node records nid stack st = Inr (v, st') \<Longrightarrow>
    resolved_ok records st' \<and> map_of (fst st') nid = Some v \<and>
    (\<forall>i w. map_of (fst st) i = Some w \<longrightarrow> map_of (fst st') i = Some w) \<and>
    (\<forall>i \<in> set stack. map_of (fst st) i = None \<longrightarrow> map_of (fst st') i = None)"
proof (induction records nid stack st arbitrary: v st' rule: resolve_node.induct)
  case (1 records nid stack st)
  show ?case
  proof (cases "map_of (fst st) nid")
    case (Some w)
    then show ?thesis using "1.prems" by (simp add: resolve_node.simps [of records nid])
  next
    case None
    then have guard: "\<not> (nid \<in> set stack \<or> MAX_LIBRARY_DEPTH \<le> length stack)"
      using "1.prems"(3) by (auto simp: resolve_node.simps [of records nid])
    then obtain node where node: "records nid = Some node"
      using "1.prems"(3) None by (cases "records nid") (auto simp: resolve_node.simps [of records nid])
    have id: "node_id n = i" if "records i = Some n" for i n using "1.prems"(2) that by (simp add: keyed_def)
    show ?thesis
    proof (cases "node_parent node")
      case p: None
      have res: "v = make_view node []" "st' = (fst st @ [(nid, v)], (snd st)(nid \<mapsto> []))"
        using "1.prems"(3) None guard node p by (auto simp: resolve_node.simps [of records nid] Let_def)
      have "resolved_ok records st'"
        using resolved_ok_extend [OF "1.prems"(1) None node ancestry_root [of records nid node, OF node p]] res by simp
      then show ?thesis using res None guard by (auto simp: map_add_def split: option.splits)
    next
      case p: (Some p)
      obtain q where q: "records p = Some q" "node_kind q = ''folder''" "node_id q = p"
        using "1.prems"(3) None guard node p id
        by (cases "records p") (auto simp: resolve_node.simps [of records nid] split: if_splits)
      obtain pv st1 chain where rec: "resolve_node records p (stack @ [nid]) st = Inr (pv, st1)"
        and chain: "snd st1 p = Some chain"
        and res: "v = make_view node (filter (\<lambda>part. part \<noteq> []) (split_on CHR ''/'' (logical_path pv)))"
          "st' = (fst st1 @ [(nid, v)], (snd st1)(nid \<mapsto> chain @ [p]))"
        using "1.prems"(3) None guard node p q
        by (auto simp: resolve_node.simps [of records nid] rbind_Inr_iff Let_def split: option.splits)
      have IH: "resolved_ok records st1" "map_of (fst st1) p = Some pv"
        "\<forall>i w. map_of (fst st) i = Some w \<longrightarrow> map_of (fst st1) i = Some w"
        "\<forall>i \<in> set (stack @ [nid]). map_of (fst st) i = None \<longrightarrow> map_of (fst st1) i = None"
        using "1.IH" [OF None guard node p q(1) _ "1.prems"(1,2)] q(2,3) rec by auto
      have anc: "ancestry records p chain" and pv: "pv = make_view q (map (name_of records) chain)"
        using IH(1,2) chain q(1) unfolding resolved_ok_def by fastforce+
      have names: "map (name_of records) (chain @ [p]) = map (name_of records) chain @ [node_name q]"
        using q(1) by (simp add: name_of_def)
      have "filter (\<lambda>part. part \<noteq> []) (split_on CHR ''/'' (logical_path pv)) = map (name_of records) (chain @ [p])"
        using path_parts [OF ancestry_names [OF "1.prems"(2) anc]] unfolding names by (simp add: pv make_view_def)
      then have v: "v = make_view node (map (name_of records) (chain @ [p]))" using res(1) by simp
      have new: "map_of (fst st1) nid = None" using IH(4) None by auto
      have "resolved_ok records st'"
        using resolved_ok_extend [OF IH(1) new node ancestry_child [of records nid node p q chain, OF node p q(1,2) anc]] res(2) v by simp
      then show ?thesis using res(2) IH(3,4) new guard by (auto simp: map_add_def split: option.splits)
    qed
  qed
qed

lemma resolve_all_ok:
  "resolved_ok records st \<Longrightarrow> keyed records \<Longrightarrow> resolve_all records is st = Inr st' \<Longrightarrow>
   resolved_ok records st' \<and> (\<forall>i w. map_of (fst st) i = Some w \<longrightarrow> map_of (fst st') i = Some w) \<and>
   (\<forall>i \<in> set is. map_of (fst st') i \<noteq> None)"
proof (induction "is" arbitrary: st)
  case (Cons i "is")
  obtain v st1 where n: "resolve_node records i [] st = Inr (v, st1)" and a: "resolve_all records is st1 = Inr st'"
    using Cons.prems(3) by (auto simp: rbind_Inr_iff)
  show ?case using resolve_node_ok [OF Cons.prems(1,2) n] Cons.IH [OF _ Cons.prems(2) a] by fastforce
qed simp

text \<open>The nodes of the table as the database keeps them: unique identifiers, valid names.\<close>

definition nodes_ok :: "LibraryNode list \<Rightarrow> bool" where
  "nodes_ok nodes \<longleftrightarrow> distinct (map node_id nodes) \<and>
     (\<forall>n \<in> set nodes. node_name n \<noteq> [] \<and> CHR ''/'' \<notin> set (node_name n))"

lemma node_records_Some:
  assumes "nodes_ok nodes"
  shows "node_records nodes i = Some n \<longleftrightarrow> n \<in> set nodes \<and> node_id n = i"
proof -
  have "distinct (map fst (rev (map (\<lambda>n. (node_id n, n)) nodes)))"
    using assms by (simp add: nodes_ok_def comp_def flip: rev_map)
  then show ?thesis by (auto simp: node_records_def map_of_eq_Some_iff)
qed

lemma node_records_keyed: "nodes_ok nodes \<Longrightarrow> keyed (node_records nodes)"
  by (auto simp: keyed_def node_records_Some) (auto simp: nodes_ok_def)

lemma resolve_views_ok:
  assumes "nodes_ok nodes" "resolve_views nodes = Inr st"
  shows "resolved_ok (node_records nodes) st" "n \<in> set nodes \<Longrightarrow> map_of (fst st) (node_id n) \<noteq> None"
proof -
  have "resolved_ok (node_records nodes) ([], Map.empty)" by (simp add: resolved_ok_def)
  from resolve_all_ok [OF this node_records_keyed [OF assms(1)]] assms(2)
  show "resolved_ok (node_records nodes) st" "n \<in> set nodes \<Longrightarrow> map_of (fst st) (node_id n) \<noteq> None"
    by (auto simp: resolve_views_def split: if_splits)
qed

section \<open>Moves\<close>

definition move_node :: "LibraryNode list \<Rightarrow> uuid \<Rightarrow> uuid option \<Rightarrow> LibraryNode list" where
  "move_node nodes i parent = map (\<lambda>n. if node_id n = i then n\<lparr>node_parent := parent\<rparr> else n) nodes"

lemma move_nodes_ok: "nodes_ok nodes \<Longrightarrow> nodes_ok (move_node nodes i parent)"
  by (auto simp: nodes_ok_def move_node_def comp_def if_distrib cong: if_cong)

lemma moved_records:
  assumes "nodes_ok nodes"
  shows "node_records (move_node nodes i parent) j =
    map_option (\<lambda>n. if j = i then n\<lparr>node_parent := parent\<rparr> else n) (node_records nodes j)"
proof (cases "node_records nodes j")
  case None
  then have "\<forall>n \<in> set nodes. node_id n \<noteq> j" using node_records_Some [OF assms, of j] by auto
  then have "\<forall>n. node_records (move_node nodes i parent) j \<noteq> Some n"
    unfolding node_records_Some [OF move_nodes_ok [OF assms]] by (auto simp: move_node_def)
  then show ?thesis using None by (cases "node_records (move_node nodes i parent) j") auto
next
  case (Some n)
  then have "n \<in> set nodes" "node_id n = j" using node_records_Some [OF assms] by auto
  then have "node_records (move_node nodes i parent) j = Some (if j = i then n\<lparr>node_parent := parent\<rparr> else n)"
    unfolding node_records_Some [OF move_nodes_ok [OF assms]] by (force simp: move_node_def)
  then show ?thesis using Some by simp
qed

lemma ancestry_unique: "ancestry r i c \<Longrightarrow> ancestry r i d \<Longrightarrow> d = c"
proof (induction arbitrary: d rule: ancestry.induct)
  case (ancestry_root i n)
  then show ?case by (auto elim: ancestryE)
next
  case (ancestry_child i n p q c)
  obtain c' where "d = c' @ [p]" "ancestry r p c'"
    using ancestry_child.prems ancestry_child.hyps(1,2) by (cases rule: ancestry.cases) auto
  then show ?case using ancestry_child.IH by simp
qed

lemma ancestry_outside:
  assumes "ancestry r j c" "i \<notin> set (c @ [j])"
    and same: "\<And>k. k \<noteq> i \<Longrightarrow> r' k = r k" and kinds: "\<And>k. map_option node_kind (r' k) = map_option node_kind (r k)"
  shows "ancestry r' j c"
  using assms(1,2)
proof (induction rule: ancestry.induct)
  case (ancestry_root j n)
  then show ?case using same by (auto intro: ancestry.ancestry_root)
next
  case (ancestry_child j n p q c)
  then show ?case using same by (auto intro!: ancestry.ancestry_child [of r' j n p q c])
qed

lemma ancestry_inside:
  assumes "ancestry r j c" "i \<in> set (c @ [j])" and old: "ancestry r i ci" and new: "ancestry r' i d"
    and same: "\<And>k. k \<noteq> i \<Longrightarrow> r' k = r k" and kinds: "\<And>k. map_option node_kind (r' k) = map_option node_kind (r k)"
  shows "\<exists>b. c @ [j] = ci @ [i] @ b \<and> ancestry r' j (butlast (d @ [i] @ b))"
  using assms(1,2)
proof (induction rule: ancestry.induct)
  case (ancestry_root j n)
  then have "j = i" "ci = []" using old ancestry_unique ancestry.ancestry_root [of r j n] by auto
  then show ?case using new by (intro exI [of _ "[]"]) (simp add: butlast_append)
next
  case (ancestry_child j n p q c)
  show ?case
  proof (cases "j = i")
    case True
    then have "ci = c @ [p]" using old ancestry_unique ancestry.ancestry_child [OF ancestry_child.hyps] by blast
    then show ?thesis using True new by (intro exI [of _ "[]"]) (simp add: butlast_append)
  next
    case False
    then obtain b where b: "c @ [p] = ci @ [i] @ b" "ancestry r' p (butlast (d @ [i] @ b))"
      using ancestry_child by auto
    obtain q' where q': "r' p = Some q'" "node_kind q' = ''folder''"
      using kinds [of p] ancestry_child.hyps(3,4) by (cases "r' p") auto
    have "p = last ([i] @ b)" using arg_cong [OF b(1), of last] by (simp split: if_splits)
    then have "butlast (d @ [i] @ b) @ [p] = d @ [i] @ b"
      by (metis append_butlast_last_id append_is_Nil_conv last_append not_Cons_self2 append_Cons)
    moreover have "ancestry r' j (butlast (d @ [i] @ b) @ [p])"
      using ancestry.ancestry_child [OF _ ancestry_child.hyps(2) q' b(2), of j] same [OF False] ancestry_child.hyps(1) by simp
    ultimately have "ancestry r' j (butlast (d @ [i] @ b @ [j]))" by (simp add: butlast_append)
    then show ?thesis using b(1) by (intro exI [of _ "b @ [j]"]) simp
  qed
qed

lemma foldr_max_ge: "x \<in> set xs \<Longrightarrow> x \<le> foldr max xs (a :: nat)"
  by (induction xs) auto

lemma validated_parent:
  assumes ok: "resolved_ok r st" and "validated_parent_depth st parent = Inr depth"
  shows "(parent = None \<and> depth = 0) \<or>
    (\<exists>p q c. parent = Some p \<and> r p = Some q \<and> node_kind q = ''folder'' \<and> ancestry r p c \<and>
       chain_of st p = c \<and> depth = length c + 1)"
proof (cases parent)
  case (Some p)
  obtain v c where v: "map_of (fst st) p = Some v" "view_kind v = ''folder''" "snd st p = Some c" "depth = length c + 1"
    using assms(2) Some by (auto simp: validated_parent_depth_def split: option.splits if_splits)
  then obtain q where "r p = Some q" "ancestry r p c" "v = make_view q (map (name_of r) c)"
    using ok by (fastforce simp: resolved_ok_def)
  then show ?thesis using Some v by (auto simp: chain_of_def make_view_def)
qed (use assms(2) in \<open>simp add: validated_parent_depth_def\<close>)

lemma resolved_chain:
  assumes "nodes_ok nodes" "resolve_views nodes = Inr st" "n \<in> set nodes"
  shows "ancestry (node_records nodes) (node_id n) (chain_of st (node_id n))"
    "node_id n \<in> set (map (view_id \<circ> snd) (fst st))"
proof -
  note ok = resolve_views_ok [OF assms(1,2)]
  obtain v where v: "map_of (fst st) (node_id n) = Some v" using ok(2) [OF assms(3)] by blast
  obtain m c where m: "node_records nodes (node_id n) = Some m" "snd st (node_id n) = Some c"
    "ancestry (node_records nodes) (node_id n) c" "v = make_view m (map (name_of (node_records nodes)) c)"
    using ok(1) v unfolding resolved_ok_def by metis
  show "ancestry (node_records nodes) (node_id n) (chain_of st (node_id n))" using m(2,3) by (simp add: chain_of_def)
  have "(node_id n, v) \<in> set (fst st)" using v by (rule map_of_SomeD)
  moreover have "view_id v = node_id n" using m(1,4) node_records_Some [OF assms(1)] by (auto simp: make_view_def)
  ultimately show "node_id n \<in> set (map (view_id \<circ> snd) (fst st))" by force
qed

text \<open>
  C22: Resolution finds the tree. When \<open>_resolve_views\<close> succeeds on the nodes of the table, every
  node has a view whose logical path is the names of its ancestors and its own, and the
  ancestors are a chain of folders from a root, each the parent of the next: there is no
  cycle and no node hangs on a file or on a missing node.
\<close>

theorem resolve_views_correct:
  assumes "nodes_ok nodes" "resolve_views nodes = Inr (views, ancestors)" "n \<in> set nodes"
  shows "\<exists>c. ancestry (node_records nodes) (node_id n) c \<and> ancestors (node_id n) = Some c \<and>
    map_of views (node_id n) = Some (make_view n (map (name_of (node_records nodes)) c))"
proof -
  note ok = resolve_views_ok [OF assms(1,2)]
  obtain v where v: "map_of views (node_id n) = Some v" using ok(2) [OF assms(3)] by auto
  obtain m c where "node_records nodes (node_id n) = Some m" "ancestors (node_id n) = Some c"
    "ancestry (node_records nodes) (node_id n) c" "v = make_view m (map (name_of (node_records nodes)) c)"
    using ok(1) v unfolding resolved_ok_def by (metis fst_conv snd_conv)
  moreover have "node_records nodes (node_id n) = Some n" using node_records_Some [OF assms(1)] assms(3) by blast
  ultimately show ?thesis using v by auto
qed

text \<open>
  C23: A validated move keeps the library a tree of bounded depth. If \<open>_validate_move\<close> accepts
  moving a node, then after the move every node still has a chain of ancestors that ends in a
  root; nodes outside the moved subtree keep their chain, and every node of the moved subtree
  lies at most at the maximum depth.
\<close>

theorem validated_move_keeps_tree:
  assumes "nodes_ok nodes" "validate_move nodes i parent = Inr ()" "n \<in> set nodes"
  shows "\<exists>c c'. ancestry (node_records nodes) (node_id n) c \<and>
    ancestry (node_records (move_node nodes i parent)) (node_id n) c' \<and>
    (if i \<in> set (c @ [node_id n]) then length c' + 1 \<le> MAX_LIBRARY_DEPTH else c' = c)"
proof -
  let ?r = "node_records nodes" and ?r' = "node_records (move_node nodes i parent)"
  obtain st depth where st: "resolve_views nodes = Inr st" and i: "map_of (fst st) i \<noteq> None"
    and depth: "validated_parent_depth st parent = Inr depth"
    and acyclic: "\<not> (parent = Some i \<or> (\<exists>p. parent = Some p \<and> i \<in> set (chain_of st p)))"
    and bound: "depth + subtree_height st i \<le> MAX_LIBRARY_DEPTH"
    using assms(2) by (auto simp: validate_move_def rbind_Inr_iff split: if_splits option.splits)
  note ok = resolve_views_ok [OF assms(1) st]
  have same: "?r' k = ?r k" if "k \<noteq> i" for k using moved_records [OF assms(1)] that by (cases "?r k") auto
  have kinds: "map_option node_kind (?r' k) = map_option node_kind (?r k)" for k
    using moved_records [OF assms(1)] by (cases "?r k") auto
  obtain m where m: "m \<in> set nodes" "node_id m = i"
    using i ok(1) node_records_Some [OF assms(1)] unfolding resolved_ok_def by blast
  have ri: "?r' i = Some (m\<lparr>node_parent := parent\<rparr>)"
    using moved_records [OF assms(1), of i parent i] node_records_Some [OF assms(1), of i m] m by simp
  obtain d where d: "ancestry ?r' i d" "length d = depth"
    using validated_parent [OF ok(1) depth]
  proof (elim disjE exE conjE)
    assume "parent = None" "depth = 0"
    then show thesis using that [of "[]"] ri ancestry_root [of ?r' i] by simp
  next
    fix p q c assume p: "parent = Some p" "?r p = Some q" "node_kind q = ''folder''" "ancestry ?r p c"
      "chain_of st p = c" "depth = length c + 1"
    have "i \<notin> set (c @ [p])" using acyclic p(1,5) by auto
    then have "ancestry ?r' p c" using ancestry_outside [OF p(4) _ same kinds] by blast
    moreover have "?r' p = Some q" using same p acyclic by auto
    ultimately show thesis
      using that [of "c @ [p]"] ancestry_child [of ?r' i _ p q c] ri p by simp
  qed
  let ?c = "chain_of st (node_id n)"
  note n = resolved_chain [OF assms(1) st assms(3)]
  show ?thesis
  proof (cases "i \<in> set (?c @ [node_id n])")
    case False
    then show ?thesis using n(1) ancestry_outside [OF n(1) False same kinds] by auto
  next
    case True
    note ci = resolved_chain(1) [OF assms(1) st m(1), unfolded m(2)]
    obtain b where b: "?c @ [node_id n] = chain_of st i @ [i] @ b" "ancestry ?r' (node_id n) (butlast (d @ [i] @ b))"
      using ancestry_inside [OF n(1) True ci d(1) same kinds] by blast
    have "length ?c - length (chain_of st i) + 1 \<le> subtree_height st i"
      unfolding subtree_height_def by (rule foldr_max_ge) (use n(2) True in auto)
    moreover have "length ?c = length (chain_of st i) + length b" using arg_cong [OF b(1), of length] by simp
    ultimately have "length (butlast (d @ [i] @ b)) + 1 \<le> MAX_LIBRARY_DEPTH" using bound d(2) by simp
    then show ?thesis
      using n(1) b(2) True by (intro exI [of _ ?c] exI [of _ "butlast (d @ [i] @ b)"]) simp
  qed
qed

section \<open>A free name is found\<close>

definition ascii :: "string \<Rightarrow> bool" where
  "ascii s \<longleftrightarrow> (\<forall>c \<in> set s. code c < 128)"

text \<open>What the standard library documents of ASCII text.\<close>

definition ascii_unicode :: "(string \<Rightarrow> string) \<Rightarrow> (string \<Rightarrow> string) \<Rightarrow> bool" where
  "ascii_unicode nfc casefold \<longleftrightarrow> (\<forall>s. ascii s \<longrightarrow> nfc s = s \<and> casefold s = lower s)"

lemma shorten_stem_prefix: "prefix (shorten_stem nfc casefold stem marker ext) stem"
proof (induction nfc casefold stem marker ext rule: shorten_stem.induct)
  case (1 nfc casefold stem marker ext)
  then show ?case
    by (subst shorten_stem.simps) (auto intro: prefix_order.trans simp: prefixeq_butlast)
qed

lemma split_extension_append: "split_extension name = (stem, ext) \<Longrightarrow> stem @ ext = name"
  by (auto simp: split_extension_def Let_def split: if_splits)

lemma suffixed_name_Inr:
  assumes "suffixed_name nfc casefold name k = Inr s"
  obtains stem ext where "s = stem @ '' ('' @ show_nat k @ '')'' @ ext" "stem \<noteq> []" "ext = snd (split_extension name)"
    "prefix stem name" "ext = [] \<or> last ext = last name" "set ext \<subseteq> set name"
proof -
  obtain stem0 ext where se: "split_extension name = (stem0, ext)" by fastforce
  have app: "stem0 @ ext = name" using se by (rule split_extension_append)
  let ?m = "'' ('' @ show_nat k @ '')''"
  let ?stem = "shorten_stem nfc casefold stem0 ?m ext"
  have s: "s = ?stem @ ?m @ ext" "?stem \<noteq> []"
    using assms se by (auto simp: suffixed_name_def Let_def split: if_splits)
  show ?thesis
  proof (rule that [of ?stem ext])
    show "prefix ?stem name" using shorten_stem_prefix app prefix_order.trans prefixI by metis
    show "ext = [] \<or> last ext = last name" using app by (metis last_appendR)
    show "set ext \<subseteq> set name" using app by auto
    show "ext = snd (split_extension name)" using se by simp
  qed (use s in simp_all)
qed

lemma lower_ascii_marker: "lower ('' ('' @ show_nat k @ '')'') = '' ('' @ show_nat k @ '')''"
proof -
  have "lower_char c = c" if "is_digit c" for c using that by (auto simp: is_digit_def lower_char_def Let_def)
  then have "map lower_char (show_nat k) = show_nat k"
    using show_nat_digits [of k] by (auto intro: map_idI)
  moreover have "lower_char CHR '' '' = CHR '' ''" "lower_char CHR ''('' = CHR ''(''" "lower_char CHR '')'' = CHR '')''"
    by code_simp+
  ultimately show ?thesis by (simp add: lower_def)
qed

lemma marker_inj:
  assumes "a @ ''('' @ show_nat k @ '')'' @ ext = b @ ''('' @ show_nat l @ '')'' @ ext"
  shows "k = l"
proof -
  have "a @ ''('' @ show_nat k = b @ ''('' @ show_nat l" using assms by simp
  then have rev: "rev (show_nat k) @ CHR ''('' # rev a = rev (show_nat l) @ CHR ''('' # rev b"
    by (metis append.assoc append_Cons append_Nil rev.simps(2) rev_append rev_singleton_conv)
  have no: "CHR ''('' \<notin> set (show_nat m)" for m
    using show_nat_digits [of m] by (auto simp: is_digit_def code_def)
  have "takeWhile (\<lambda>c. c \<noteq> CHR ''('') (rev (show_nat m) @ CHR ''('' # r) = rev (show_nat m)" for m r
    using no [of m] by (subst takeWhile_append2) auto
  then have "show_nat k = show_nat l" using rev by (metis rev_rev_ident)
  then show ?thesis by (rule show_nat_inj)
qed

lemma suffixed_normal:
  assumes uni: "ascii_unicode nfc casefold" and d: "ascii display" "stripped display"
    and s: "suffixed_name nfc casefold display k = Inr s"
  shows "nfc (strip s) = s" "nfc (casefold s) = lower s"
proof -
  obtain stem ext where se: "s = stem @ '' ('' @ show_nat k @ '')'' @ ext" "stem \<noteq> []" "prefix stem display"
    "ext = [] \<or> last ext = last display" "set ext \<subseteq> set display"
    by (rule suffixed_name_Inr [OF s]) blast
  have ne: "display \<noteq> []" using se(2,3) by auto
  have dig: "code c < 128" if "c \<in> set (show_nat k)" for c
    using show_nat_digits [of k] that by (auto simp: is_digit_def Let_def)
  have "code CHR '' '' < 128" "code CHR ''('' < 128" "code CHR '')'' < 128" by code_simp+
  then have asc: "ascii s" using d(1) dig se(1,5) set_mono_prefix [OF se(3)] by (auto simp: ascii_def)
  have "hd s = hd display" using se(1-3) by (metis hd_append2 prefix_def)
  moreover have "last s = (if ext = [] then CHR '')'' else last display)" using se(1,4) by auto
  moreover have "\<not> is_space CHR '')''" by code_simp
  ultimately have "stripped s" using d(2) ne by (auto simp: stripped_def)
  then show "nfc (strip s) = s" using stripped_strip_id uni asc by (simp add: ascii_unicode_def)
  have "code (lower_char c) < 128" if "code c < 128" for c
    using that by (auto simp: lower_char_def Let_def code_def)
  then have "ascii (lower s)" using asc by (auto simp: ascii_def lower_def)
  then show "nfc (casefold s) = lower s" using uni asc by (simp add: ascii_unicode_def)
qed

lemma free_name_None:
  assumes uni: "ascii_unicode nfc casefold" and d: "ascii display" "stripped display"
  shows "free_name nfc casefold taken display cand k fuel = None \<Longrightarrow> suffixed_name nfc casefold display k = Inr cand \<Longrightarrow>
    \<forall>m \<in> {k ..< k + fuel}. \<exists>s. suffixed_name nfc casefold display m = Inr s \<and> lower s \<in> set taken"
proof (induction fuel arbitrary: cand k)
  case (Suc fuel)
  note norm = suffixed_normal [OF uni d Suc.prems(2)]
  obtain name key c where r: "normalize_library_name nfc casefold cand = Inr (name, key)" "key \<in> set taken"
    "suffixed_name nfc casefold display (k + 1) = Inr c" "free_name nfc casefold taken display c (k + 1) fuel = None"
    using Suc.prems(1) by (auto split: sum.splits if_splits)
  have "key = lower cand" using normalize_library_name_Inr(2,4) [OF r(1)] norm by simp
  then have "lower cand \<in> set taken" using r(2) by simp
  moreover have "m = k \<or> m \<in> {k + 1 ..< k + 1 + fuel}" if "m \<in> {k ..< k + Suc fuel}" for m using that by auto
  ultimately show ?case using Suc.IH [OF r(4,3)] Suc.prems(2) by blast
qed simp

lemma suffixed_key_inj:
  assumes "suffixed_name nfc casefold display k = Inr s" "suffixed_name nfc casefold display l = Inr t" "lower s = lower t"
  shows "k = l"
proof -
  obtain a where a: "s = a @ '' ('' @ show_nat k @ '')'' @ snd (split_extension display)"
    by (rule suffixed_name_Inr [OF assms(1)]) simp
  obtain b where b: "t = b @ '' ('' @ show_nat l @ '')'' @ snd (split_extension display)"
    by (rule suffixed_name_Inr [OF assms(2)]) simp
  have "lower (x @ y) = lower x @ lower y" for x y by (simp add: lower_def)
  then have low: "lower (x @ '' ('' @ show_nat n @ '')'' @ e) = (lower x @ '' '') @ ''('' @ show_nat n @ '')'' @ lower e" for x n e
    using lower_ascii_marker [of n] by (simp add: lower_def)
  show ?thesis using assms(3) unfolding a b low by (rule marker_inj)
qed

lemma free_name_Inr:
  "free_name nfc casefold taken display cand k fuel = Some (Inr (name, key)) \<Longrightarrow>
    key \<notin> set taken \<and> library_name name"
proof (induction fuel arbitrary: cand k)
  case (Suc fuel)
  obtain n0 k0 where n: "normalize_library_name nfc casefold cand = Inr (n0, k0)"
    using Suc.prems by (auto split: sum.splits)
  show ?case
  proof (cases "k0 \<in> set taken")
    case True
    then obtain c where "suffixed_name nfc casefold display (k + 1) = Inr c"
      using Suc.prems n by (auto split: sum.splits)
    then show ?thesis using Suc.prems n True Suc.IH [of c "k + 1"] by simp
  next
    case False
    then show ?thesis using Suc.prems n normalize_library_name_Inr(1) [OF n] by simp
  qed
qed simp

text \<open>A name with a suffix is valid, so the only error of the search is that no stem is left.\<close>

lemma shorten_stem_fits:
  assumes "shorten_stem nfc casefold stem marker ext \<noteq> []"
  shows "length (shorten_stem nfc casefold stem marker ext @ marker @ ext) \<le> 255 \<and>
    utf8_length (nfc (casefold (shorten_stem nfc casefold stem marker ext @ marker @ ext))) \<le> 1024"
  using assms
proof (induction nfc casefold stem marker ext rule: shorten_stem.induct)
  case (1 nfc casefold stem marker ext)
  show ?case
  proof (cases "stem \<noteq> [] \<and> (255 < length (stem @ marker @ ext) \<or> 1024 < utf8_length (nfc (casefold (stem @ marker @ ext))))")
    case True
    then have "shorten_stem nfc casefold stem marker ext = shorten_stem nfc casefold (butlast stem) marker ext"
      by (subst shorten_stem.simps) simp
    then show ?thesis using 1 True by simp
  next
    case False
    then have "shorten_stem nfc casefold stem marker ext = stem" by (subst shorten_stem.simps) (simp only: if_False)
    then show ?thesis using 1(2) False by simp
  qed
qed

lemma suffixed_name_fits:
  "suffixed_name nfc casefold display k = Inr s \<Longrightarrow> length s \<le> 255 \<and> utf8_length (nfc (casefold s)) \<le> 1024"
  using shorten_stem_fits by (fastforce simp: suffixed_name_def Let_def split: prod.splits if_splits)

lemma suffixed_name_Inl: "suffixed_name nfc casefold display k = Inl e \<Longrightarrow> e = LibraryConflict ''filename namespace is exhausted''"
  by (auto simp: suffixed_name_def Let_def split: prod.splits if_splits)

lemma suffixed_valid:
  assumes uni: "ascii_unicode nfc casefold" and d: "ascii display" "stripped display" "library_name display"
    and s: "suffixed_name nfc casefold display k = Inr s"
  shows "normalize_library_name nfc casefold s = Inr (s, lower s)"
proof -
  obtain stem ext where se: "s = stem @ '' ('' @ show_nat k @ '')'' @ ext" "prefix stem display" "set ext \<subseteq> set display"
    by (rule suffixed_name_Inr [OF s]) blast
  define plain where "plain c \<longleftrightarrow> c \<noteq> CHR ''/'' \<and> c \<noteq> CHR 0x5C \<and> \<not> control_or_format c" for c
  have "plain c" if "is_digit c" for c using that by (auto simp: plain_def is_digit_def control_or_format_def code_def Let_def)
  then have digits: "\<forall>c \<in> set (show_nat k). plain c" using show_nat_digits [of k] by blast
  have marks: "plain CHR '' ''" "plain CHR ''(''" "plain CHR '')''" unfolding plain_def by code_simp+
  have name: "\<forall>c \<in> set display. plain c" using d(3) by (auto simp: library_name_def plain_def)
  have "set s \<subseteq> set display \<union> set (show_nat k) \<union> {CHR '' '', CHR ''('', CHR '')''}"
    using se(3) set_mono_prefix [OF se(2)] by (auto simp: se(1))
  then have "\<forall>c \<in> set s. plain c" using digits marks name by blast
  then have chars: "\<forall>c \<in> set s. c \<noteq> CHR ''/'' \<and> c \<noteq> CHR 0x5C \<and> \<not> control_or_format c" by (simp only: plain_def)
  have "CHR '')'' \<in> set s" by (simp add: se(1))
  then have "s \<noteq> []" "s \<noteq> ''.''" "s \<noteq> ''..''" by auto
  then show ?thesis
    using chars suffixed_normal [OF uni d(1,2) s] suffixed_name_fits [OF s] by (auto simp: normalize_library_name_def Let_def)
qed

lemma normalize_library_name_again:
  assumes "normalize_library_name nfc casefold value = Inr (name, key)" "ascii_unicode nfc casefold" "ascii name" "stripped name"
  shows "\<exists>k. normalize_library_name nfc casefold name = Inr k"
proof -
  have "nfc (strip name) = name" using assms(2-4) stripped_strip_id by (simp add: ascii_unicode_def)
  then show ?thesis using normalize_library_name_Inr [OF assms(1)] by (auto simp: normalize_library_name_def library_name_def Let_def)
qed

lemma free_name_Inl:
  assumes uni: "ascii_unicode nfc casefold" and d: "ascii display" "stripped display" "library_name display"
  shows "free_name nfc casefold taken display cand k fuel = Some (Inl e) \<Longrightarrow>
    (\<exists>name. normalize_library_name nfc casefold cand = Inr name) \<Longrightarrow> e = LibraryConflict ''filename namespace is exhausted''"
proof (induction fuel arbitrary: cand k)
  case (Suc fuel)
  show ?case
  proof (cases "suffixed_name nfc casefold display (k + 1)")
    case (Inl x)
    then show ?thesis using Suc.prems suffixed_name_Inl [OF Inl] by (auto split: if_splits)
  next
    case (Inr c)
    then show ?thesis using Suc.prems Suc.IH [of c "k + 1"] suffixed_valid [OF uni d Inr] by (auto split: if_splits)
  qed
qed simp

text \<open>
  C24: A file with an ASCII name gets a name of its own. Where normalization and case folding of
  ASCII text are as the standard library documents, creating the file node ends after at most two rounds
  more than the table has nodes. A node it yields lies under the requested parent, carries the
  document, its name is a valid library name, and no node under that parent has its name key. It
  yields an error only when the checks before the search do, or when the extension leaves no room for
  a numbered name.
\<close>

theorem create_file_node_free_name:
  assumes "ascii_unicode nfc casefold" "ascii filename"
  shows "\<exists>r. create_file_node nfc casefold node_uuid table doc filename parent uploader (length table + 2) = Some r \<and>
    (\<forall>node. r = Inr node \<longrightarrow> node_parent node = parent \<and> node_document node = Some doc \<and>
       library_name (node_name node) \<and>
       (\<forall>n \<in> set table. node_parent n = parent \<longrightarrow> node_name_key n \<noteq> node_name_key node)) \<and>
    (\<forall>e. r = Inl e \<longrightarrow> validate_new_file_target nfc casefold table filename parent \<noteq> Inr () \<or>
       e = LibraryConflict ''filename namespace is exhausted'')"
proof -
  let ?taken = "sibling_keys table parent"
  let ?pre = "rbind (load_nodes table) (\<lambda>nodes. rbind (validate_insertion nodes parent)
             (\<lambda>_. normalize_library_name nfc casefold filename))"
  show ?thesis
  proof (cases ?pre)
    case (Inr p)
    obtain display key where p: "p = (display, key)" by fastforce
    have n: "normalize_library_name nfc casefold filename = Inr (display, key)"
      using Inr p by (auto simp: rbind_Inr_iff)
    have asc: "ascii (strip filename)" using assms(2) set_mono_sublist [OF strip_sublist [of filename]] by (auto simp: ascii_def)
    then have disp: "display = strip filename" "ascii display" "stripped display"
      using normalize_library_name_Inr(4) [OF n] assms(1) strip_stripped by (auto simp: ascii_unicode_def)
    have "free_name nfc casefold ?taken display display 1 (Suc (Suc (length table))) \<noteq> None"
    proof
      assume none: "free_name nfc casefold ?taken display display 1 (Suc (Suc (length table))) = None"
      obtain c where c: "suffixed_name nfc casefold display 2 = Inr c"
        "free_name nfc casefold ?taken display c 2 (Suc (length table)) = None"
        using none by (simp del: free_name.simps(2) add: free_name.simps(2) [of _ _ _ _ _ _ "Suc (length table)"] numeral_2_eq_2
            split: sum.splits prod.splits if_splits)
      let ?f = "\<lambda>m. lower (projr (suffixed_name nfc casefold display m))"
      let ?A = "{2 ..< 2 + Suc (length table)}"
      note all = free_name_None [OF assms(1) disp(2,3) c(2,1)]
      have "?f ` ?A \<subseteq> set ?taken" using all by fastforce
      moreover have "inj_on ?f ?A"
      proof (rule inj_onI)
        fix k l assume kl: "k \<in> ?A" "l \<in> ?A" "?f k = ?f l"
        then show "k = l" using all suffixed_key_inj by (metis sum.sel(2))
      qed
      ultimately have "card ?A \<le> card (set ?taken)" by (metis card_image card_mono List.finite_set)
      also have "\<dots> \<le> length table"
        using card_length [of ?taken] length_filter_le [of _ table] by (auto simp: sibling_keys_def intro: le_trans)
      finally show False by simp
    qed
    then obtain r where r: "free_name nfc casefold ?taken display display 1 (length table + 2) = Some r" by auto
    have "\<forall>n \<in> set table. node_parent n = parent \<longrightarrow> node_name_key n \<in> set ?taken" by (auto simp: sibling_keys_def)
    moreover have "e = LibraryConflict ''filename namespace is exhausted''" if "r = Inl e" for e
      using free_name_Inl [OF assms(1) disp(2,3) normalize_library_name_Inr(1) [OF n]] r that normalize_library_name_again [OF n assms(1) disp(2,3)]
      by blast
    ultimately show ?thesis
      using Inr p r free_name_Inr by (cases r) (fastforce simp: create_file_node_def)+
  next
    case (Inl e)
    then have "validate_new_file_target nfc casefold table filename parent \<noteq> Inr ()"
      by (auto simp: validate_new_file_target_def rbind_def split: sum.splits)
    then show ?thesis using Inl by (simp add: create_file_node_def)
  qed
qed

text \<open>A library with two folders and a file in the first of them.\<close>

definition sample_nodes :: "LibraryNode list" where
  "sample_nodes =
     [\<lparr>node_id = 1, node_parent = None, node_kind = ''folder'', node_name = ''a'', node_name_key = ''a'',
       node_document = None, node_uploader = None\<rparr>,
      \<lparr>node_id = 2, node_parent = None, node_kind = ''folder'', node_name = ''b'', node_name_key = ''b'',
       node_document = None, node_uploader = None\<rparr>,
      \<lparr>node_id = 3, node_parent = Some 1, node_kind = ''file'', node_name = ''c.pdf'', node_name_key = ''c.pdf'',
       node_document = Some 7, node_uploader = Some 9\<rparr>]"

theorem resolve_views_correct_witness:
  "\<exists>views ancestors c. resolve_views sample_nodes = Inr (views, ancestors) \<and> ancestors 3 = Some c \<and>
     map_of views 3 = Some (make_view (sample_nodes ! 2) (map (name_of (node_records sample_nodes)) c))"
proof -
  obtain views ancestors where r: "resolve_views sample_nodes = Inr (views, ancestors)"
  proof -
    have "case resolve_views sample_nodes of Inl e \<Rightarrow> False | Inr st \<Rightarrow> True" by code_simp
    then show ?thesis using that by (auto split: sum.splits)
  qed
  have "nodes_ok sample_nodes" by code_simp
  moreover have "node_id (sample_nodes ! 2) = 3" "sample_nodes ! 2 \<in> set sample_nodes" by (simp_all add: sample_nodes_def)
  ultimately show ?thesis using resolve_views_correct [of sample_nodes views ancestors "sample_nodes ! 2"] r by metis
qed

theorem validated_move_keeps_tree_witness:
  "\<exists>c c'. ancestry (node_records sample_nodes) 3 c \<and>
     ancestry (node_records (move_node sample_nodes 1 (Some 2))) 3 c' \<and>
     (if 1 \<in> set (c @ [3]) then length c' + 1 \<le> MAX_LIBRARY_DEPTH else c' = c)"
proof -
  have "nodes_ok sample_nodes" "validate_move sample_nodes 1 (Some 2) = Inr ()" by code_simp+
  moreover have "node_id (sample_nodes ! 2) = 3" "sample_nodes ! 2 \<in> set sample_nodes" by (simp_all add: sample_nodes_def)
  ultimately show ?thesis using validated_move_keeps_tree [of sample_nodes 1 "Some 2" "sample_nodes ! 2"] by metis
qed

theorem create_file_node_free_name_witness:
  "\<exists>node. create_file_node id lower id sample_nodes 8 ''C.pdf'' (Some 1) 9 5 = Some (Inr node) \<and>
     node_name node = ''C (2).pdf'' \<and> (\<forall>n \<in> set sample_nodes. node_parent n = Some 1 \<longrightarrow> node_name_key n \<noteq> node_name_key node)"
proof -
  have "ascii_unicode id lower" "ascii ''C.pdf''" by (simp add: ascii_unicode_def, code_simp)
  from create_file_node_free_name [OF this, of id sample_nodes 8 "Some 1" 9]
  obtain r where r: "create_file_node id lower id sample_nodes 8 ''C.pdf'' (Some 1) 9 (length sample_nodes + 2) = Some r"
    "\<forall>node. r = Inr node \<longrightarrow> (\<forall>n \<in> set sample_nodes. node_parent n = Some 1 \<longrightarrow> node_name_key n \<noteq> node_name_key node)"
    by metis
  have len: "length sample_nodes + 2 = 5" by (simp add: sample_nodes_def)
  have "case create_file_node id lower id sample_nodes 8 ''C.pdf'' (Some 1) 9 5 of
      Some (Inr node) \<Rightarrow> node_name node = ''C (2).pdf'' | _ \<Rightarrow> False" by code_simp
  then show ?thesis using r unfolding len by (auto split: sum.splits)
qed

end
