(* ===== verification/Tables.thy ===== *)
theory Tables
  imports Anchors "HOL-Library.Product_Lexorder"
begin

text \<open>
  The tables of the database behind ingestion and reprocessing (migrations 0001, 0002, 0009 and
  0010): rows are records, a table is the list of its rows, a nullable column is an option.
  A statement of a stored function that writes a table is followed by \<open>checked\<close>, the check and
  unique constraints and the foreign keys of the tables; a violation is an error of the
  function, which leaves the database as it was. The statement timestamp, random identifiers
  and the set of rows locked by concurrent transactions are arguments of the functions.
\<close>

section \<open>Statements\<close>

datatype sql_error =
  Raised string
| NoDataFound
| CheckViolation
| UniqueViolation
| ForeignKeyViolation
| NotNullViolation

definition update_where :: "('r \<Rightarrow> bool) \<Rightarrow> ('r \<Rightarrow> 'r) \<Rightarrow> 'r list \<Rightarrow> 'r list" where
  "update_where p f rows = map (\<lambda>r. if p r then f r else r) rows"

definition delete_where :: "('r \<Rightarrow> bool) \<Rightarrow> 'r list \<Rightarrow> 'r list" where
  "delete_where p rows = filter (\<lambda>r. \<not> p r) rows"

definition select_strict :: "('r \<Rightarrow> bool) \<Rightarrow> 'r list \<Rightarrow> (sql_error, 'r) result" where
  "select_strict p rows = (case List.find p rows of None \<Rightarrow> Inl NoDataFound | Some r \<Rightarrow> Inr r)"

text \<open>\<open>ORDER BY key LIMIT n\<close>.\<close>

definition order_limit :: "('r \<Rightarrow> 'k::linorder) \<Rightarrow> nat \<Rightarrow> 'r list \<Rightarrow> 'r list" where
  "order_limit key n rows = take n (sort_key key rows)"

text \<open>Comparisons of a nullable column: they hold only when the column is not null.\<close>

definition sql_ne :: "'a option \<Rightarrow> 'a \<Rightarrow> bool" where
  "sql_ne x y = (case x of None \<Rightarrow> False | Some v \<Rightarrow> v \<noteq> y)"

definition sql_eq :: "'a option \<Rightarrow> 'a \<Rightarrow> bool" where
  "sql_eq x y = (case x of None \<Rightarrow> False | Some v \<Rightarrow> v = y)"

definition sql_le :: "time option \<Rightarrow> time \<Rightarrow> bool" where
  "sql_le x y = (case x of None \<Rightarrow> False | Some v \<Rightarrow> v \<le> y)"

definition sql_gt :: "time option \<Rightarrow> time \<Rightarrow> bool" where
  "sql_gt x y = (case x of None \<Rightarrow> False | Some v \<Rightarrow> v > y)"

definition between :: "int \<Rightarrow> int \<Rightarrow> int \<Rightarrow> bool" where
  "between x lo hi \<longleftrightarrow> lo \<le> x \<and> x \<le> hi"

definition hex64 :: "string \<Rightarrow> bool" where
  "hex64 s \<longleftrightarrow> length s = 64 \<and> (\<forall>c \<in> set s. 48 \<le> code c \<and> code c \<le> 57 \<or> 97 \<le> code c \<and> code c \<le> 102)"

definition btrim :: "string \<Rightarrow> string" where
  "btrim s = rev (dropWhile (\<lambda>c. c = CHR '' '') (rev (dropWhile (\<lambda>c. c = CHR '' '') s)))"

section \<open>Rows\<close>

datatype DocumentState = UPLOADED | PARSING | CHUNKING | EMBEDDING | INDEXING | READY | FAILED
datatype JobStatus = JOB_QUEUED | JOB_RUNNING | JOB_COMPLETED | JOB_FAILED | JOB_INTERRUPTED
datatype generation_state = BUILDING | GEN_READY | GEN_FAILED | QUALIFIED | ACTIVE | RETAINED | ABANDONED
datatype operation_type = REINDEX | REINGESTION
datatype operation_state = OP_RUNNING | OP_PAUSED | OP_QUALIFYING | OP_SUCCEEDED | OP_FAILED | OP_CANCELLED
datatype task_state = TASK_QUEUED | TASK_RUNNING | TASK_COMPLETED | TASK_FAILED

record document =
  d_id :: uuid
  d_sha256 :: string
  d_filename :: string
  d_byte_size :: int
  d_object_key :: string
  d_state :: DocumentState
  d_stage :: DocumentState
  d_error :: "string option"
  d_parser_version :: string
  d_chunking_version :: string
  d_embedding_version :: string
  d_page_count :: "int option"
  d_chunk_count :: int
  d_updated_at :: time
  d_active_generation :: uuid

record document_generation =
  g_id :: uuid
  g_document :: uuid
  g_operation :: "uuid option"
  g_parser_version :: string
  g_chunking_version :: string
  g_state :: generation_state
  g_page_count :: "int option"
  g_chunk_count :: int
  g_error :: "string option"
  g_ready_at :: "time option"
  g_retired_at :: "time option"
  g_updated_at :: time

record ingestion_job =
  j_id :: uuid
  j_document :: uuid
  j_status :: JobStatus
  j_stage :: DocumentState
  j_attempt :: int
  j_completed_units :: int
  j_total_units :: "int option"
  j_available_at :: time
  j_started_at :: "time option"
  j_heartbeat_at :: "time option"
  j_lease_expires_at :: "time option"
  j_lease_token :: "uuid option"
  j_lease_owner :: "string option"
  j_fencing_token :: int
  j_error :: "string option"
  j_created_at :: time
  j_updated_at :: time
  j_target_generation :: uuid
  j_operation :: "uuid option"

type_synonym vector = "rat list"

record chunk_source =
  s_id :: uuid
  s_ordinal :: int
  s_filename :: string
  s_page_start :: int
  s_page_end :: int
  s_section :: "string option"
  s_text :: string
  s_token_count :: int
  s_text_sha256 :: string
  s_source_sha256 :: string
  s_parse_method :: string
  s_parser_version :: string
  s_chunking_version :: string
  s_embedding_version :: string
  s_schema_version :: string
  s_citation_label :: string
  s_highlight_anchor :: json
  s_embedding :: vector

record chunk_row =
  c_document :: uuid
  c_generation :: uuid
  c_source :: chunk_source
  c_embedding :: "vector option"

abbreviation c_id :: "chunk_row \<Rightarrow> uuid" where
  "c_id c \<equiv> s_id (c_source c)"

record embedding_generation =
  e_id :: uuid
  e_operation :: "uuid option"
  e_profile :: string
  e_embedding_version :: string
  e_dimension :: int
  e_state :: generation_state
  e_source :: "uuid option"
  e_qualified_at :: "time option"
  e_activated_at :: "time option"
  e_retired_at :: "time option"
  e_qualification :: "(string \<times> bool) list"

record chunk_embedding =
  v_generation :: uuid
  v_chunk :: uuid
  v_document_generation :: uuid
  v_dimension :: int
  v_embedding :: vector
  v_text_sha256 :: string
  v_provenance :: string
  v_created_at :: time

record reindex_task =
  t_operation :: uuid
  t_generation :: uuid
  t_chunk :: uuid
  t_state :: task_state
  t_attempt :: int
  t_lease_owner :: "string option"
  t_lease_token :: "uuid option"
  t_lease_expires_at :: "time option"
  t_fencing_token :: int
  t_error :: "string option"
  t_created_at :: time
  t_updated_at :: time

record reprocessing_preview =
  p_id :: uuid
  p_actor :: uuid
  p_session :: uuid
  p_type :: operation_type
  p_profile :: string
  p_source_parser :: "string option"
  p_target_parser :: "string option"
  p_target_chunking :: "string option"
  p_target_embedding :: "string option"
  p_dimension :: "int option"
  p_document_count :: int
  p_chunk_count :: int
  p_estimated_bytes :: int
  p_impact_digest :: string
  p_expires_at :: time
  p_consumed_at :: "time option"
  p_created_at :: time

record reprocessing_operation =
  o_id :: uuid
  o_preview :: uuid
  o_actor :: uuid
  o_backup :: uuid
  o_type :: operation_type
  o_state :: operation_state
  o_stage :: string
  o_profile :: string
  o_source_parser :: "string option"
  o_target_parser :: "string option"
  o_target_chunking :: "string option"
  o_target_embedding :: "string option"
  o_dimension :: "int option"
  o_impact_digest :: string
  o_generation :: "uuid option"
  o_total_documents :: int
  o_completed_documents :: int
  o_failed_documents :: int
  o_total_chunks :: int
  o_completed_chunks :: int
  o_reason :: "string option"
  o_qualification :: "(string \<times> bool) list"
  o_lease_owner :: "string option"
  o_lease_token :: "uuid option"
  o_lease_expires_at :: "time option"
  o_fencing_token :: int
  o_created_at :: time
  o_finished_at :: "time option"
  o_updated_at :: time

record reauthentication_grant =
  r_id :: uuid
  r_actor :: uuid
  r_session :: uuid
  r_action :: string
  r_impact_digest :: string
  r_token_hash :: string
  r_issued_at :: time
  r_expires_at :: time
  r_consumed_at :: "time option"

record ingestion_version_configuration =
  v_revision :: string
  v_profile :: string
  v_parser :: string
  v_chunking :: string
  v_updated_by :: "uuid option"

text \<open>A restore verification joined with the run it verifies.\<close>

record backup_verification =
  b_run :: uuid
  b_succeeded :: bool
  b_verified_at :: time

record db =
  documents :: "document list"
  generations :: "document_generation list"
  jobs :: "ingestion_job list"
  chunks :: "chunk_row list"
  embedding_generations :: "embedding_generation list"
  active_embedding :: uuid
  chunk_embeddings :: "chunk_embedding list"
  tasks :: "reindex_task list"
  operations :: "reprocessing_operation list"
  previews :: "reprocessing_preview list"
  grants :: "reauthentication_grant list"
  version_configuration :: ingestion_version_configuration
  verifications :: "backup_verification list"
  turn_generations :: "(uuid \<times> uuid) list"
  audit :: "(string \<times> uuid option) list"

section \<open>Constraints\<close>

text \<open>
  Functions outside the database schema: SHA-256 in hexadecimal, the text of an identifier, and
  the floating-point addition and printing the anchor check uses.
\<close>

record env =
  sha256_hex :: "string \<Rightarrow> string"
  uuid_text :: "uuid \<Rightarrow> string"
  float_add :: "rat \<Rightarrow> rat \<Rightarrow> rat"
  float_text :: "rat \<Rightarrow> string"

definition document_ok :: "document \<Rightarrow> bool" where
  "document_ok d \<longleftrightarrow> 0 \<le> d_byte_size d \<and> (\<forall>n \<in> set_option (d_page_count d). 0 \<le> n) \<and> 0 \<le> d_chunk_count d \<and>
     d_object_key d \<noteq> [] \<and> hex64 (d_sha256 d) \<and> d_state d = d_stage d \<and>
     (d_state d = FAILED \<longleftrightarrow> d_error d \<noteq> None)"

definition generation_ok :: "document_generation \<Rightarrow> bool" where
  "generation_ok g \<longleftrightarrow> g_state g \<in> {BUILDING, GEN_READY, GEN_FAILED, RETAINED, ABANDONED} \<and>
     (\<forall>n \<in> set_option (g_page_count g). 0 \<le> n) \<and> 0 \<le> g_chunk_count g \<and>
     (g_state g = GEN_READY \<and> g_ready_at g \<noteq> None \<and> g_error g = None \<or>
      g_state g = RETAINED \<and> g_ready_at g \<noteq> None \<and> g_retired_at g \<noteq> None \<and> g_error g = None \<or>
      g_state g = GEN_FAILED \<and> g_error g \<noteq> None \<or> g_state g \<in> {BUILDING, ABANDONED})"

definition job_ok :: "ingestion_job \<Rightarrow> bool" where
  "job_ok j \<longleftrightarrow> 0 \<le> j_attempt j \<and> 0 \<le> j_completed_units j \<and>
     (\<forall>n \<in> set_option (j_total_units j). j_completed_units j \<le> n) \<and>
     (j_status j = JOB_RUNNING \<and> j_lease_expires_at j \<noteq> None \<and> j_lease_token j \<noteq> None \<and> j_lease_owner j \<noteq> None \<or>
      j_status j \<noteq> JOB_RUNNING \<and> j_lease_expires_at j = None \<and> j_lease_token j = None \<and> j_lease_owner j = None) \<and>
     0 \<le> j_fencing_token j \<and>
     (j_status j = JOB_COMPLETED \<and> j_stage j = READY \<and> j_error j = None \<or>
      j_status j = JOB_FAILED \<and> j_stage j = FAILED \<and> j_error j \<noteq> None \<or>
      j_status j \<in> {JOB_QUEUED, JOB_RUNNING} \<and> j_stage j \<noteq> READY \<and> j_error j = None \<or>
      j_status j = JOB_INTERRUPTED \<and> j_stage j \<noteq> READY)"

definition chunk_ok :: "env \<Rightarrow> chunk_row \<Rightarrow> bool" where
  "chunk_ok env c \<longleftrightarrow> (let s = c_source c in
     0 \<le> s_ordinal s \<and> 1 \<le> s_page_start s \<and> s_page_start s \<le> s_page_end s \<and> 0 < s_token_count s \<and>
     s_parse_method s \<in> {''direct'', ''ocr''} \<and> hex64 (s_text_sha256 s) \<and> hex64 (s_source_sha256 s) \<and>
     s_text s \<noteq> [] \<and>
     v5_is_valid_highlight_anchor (sha256_hex env) (float_add env) (float_text env)
       (s_highlight_anchor s) (s_page_start s) (s_page_end s))"

definition embedding_generation_ok :: "embedding_generation \<Rightarrow> bool" where
  "embedding_generation_ok e \<longleftrightarrow> between (e_dimension e) 1 4096 \<and>
     (e_state e = ACTIVE \<and> e_activated_at e \<noteq> None \<or> e_state e = QUALIFIED \<and> e_qualified_at e \<noteq> None \<or>
      e_state e = RETAINED \<and> e_activated_at e \<noteq> None \<and> e_retired_at e \<noteq> None \<or> e_state e \<in> {BUILDING, ABANDONED})"

definition chunk_embedding_ok :: "chunk_embedding \<Rightarrow> bool" where
  "chunk_embedding_ok v \<longleftrightarrow> between (v_dimension v) 1 4096 \<and> hex64 (v_text_sha256 v) \<and> hex64 (v_provenance v) \<and>
     int (length (v_embedding v)) = v_dimension v"

definition task_ok :: "reindex_task \<Rightarrow> bool" where
  "task_ok t \<longleftrightarrow> between (t_attempt t) 0 3 \<and> 0 \<le> t_fencing_token t"

definition preview_ok :: "reprocessing_preview \<Rightarrow> bool" where
  "preview_ok p \<longleftrightarrow> 0 \<le> p_document_count p \<and> 0 \<le> p_chunk_count p \<and> 0 \<le> p_estimated_bytes p \<and>
     hex64 (p_impact_digest p) \<and> p_created_at p < p_expires_at p \<and>
     (p_type p = REINDEX \<and> p_target_parser p = None \<and> p_target_chunking p = None \<and> p_target_embedding p \<noteq> None \<and>
        (\<exists>n \<in> set_option (p_dimension p). between n 1 4096) \<or>
      p_type p = REINGESTION \<and> p_target_parser p \<noteq> None \<and> p_target_chunking p \<noteq> None \<and>
        p_target_embedding p = None \<and> p_dimension p = None)"

definition terminal :: "operation_state \<Rightarrow> bool" where
  "terminal s \<longleftrightarrow> s \<in> {OP_SUCCEEDED, OP_FAILED, OP_CANCELLED}"

definition operation_ok :: "reprocessing_operation \<Rightarrow> bool" where
  "operation_ok p \<longleftrightarrow>
     o_stage p \<in> {''queued'', ''processing'', ''paused'', ''qualifying'', ''cutover'', ''succeeded'', ''failed'', ''cancelled''} \<and>
     hex64 (o_impact_digest p) \<and> 0 \<le> o_total_documents p \<and>
     0 \<le> o_completed_documents p \<and> o_completed_documents p \<le> o_total_documents p \<and>
     0 \<le> o_failed_documents p \<and> o_failed_documents p \<le> o_total_documents p \<and>
     0 \<le> o_total_chunks p \<and> 0 \<le> o_completed_chunks p \<and> 0 \<le> o_fencing_token p \<and>
     (terminal (o_state p) \<longleftrightarrow> o_finished_at p \<noteq> None)"

definition grant_ok :: "reauthentication_grant \<Rightarrow> bool" where
  "grant_ok r \<longleftrightarrow> r_action r \<in> {''apply_runtime_configuration'', ''start_reprocessing''} \<and>
     hex64 (r_impact_digest r) \<and> hex64 (r_token_hash r) \<and> r_issued_at r < r_expires_at r"

definition ADAPTIVE_PROFILE :: string where "ADAPTIVE_PROFILE = ''parser.paddleocr-vl-1.6.adaptive-v2''"
definition LEGACY_PROFILE :: string where "LEGACY_PROFILE = ''parser.paddleocr-vl-1.6.legacy-v1''"

text \<open>The parser and chunking versions of a profile.\<close>

definition profile_versions :: "string \<Rightarrow> (string \<times> string) option" where
  "profile_versions profile =
     (if profile = ADAPTIVE_PROFILE then Some (''pypdf+paddleocr-vl-v1.6-adaptive-v2'', ''fragment-paragraph-sentence-v2'')
      else if profile = LEGACY_PROFILE then Some (''pypdf+paddleocr-vl-v1.6'', ''paragraph-sentence-v1'')
      else None)"

definition configuration_ok :: "ingestion_version_configuration \<Rightarrow> bool" where
  "configuration_ok c \<longleftrightarrow> profile_versions (v_profile c) = Some (v_parser c, v_chunking c)"

definition check_ok :: "env \<Rightarrow> db \<Rightarrow> bool" where
  "check_ok env db \<longleftrightarrow>
     list_all document_ok (documents db) \<and> list_all generation_ok (generations db) \<and> list_all job_ok (jobs db) \<and>
     list_all (chunk_ok env) (chunks db) \<and> list_all embedding_generation_ok (embedding_generations db) \<and>
     list_all chunk_embedding_ok (chunk_embeddings db) \<and> list_all task_ok (tasks db) \<and>
     list_all operation_ok (operations db) \<and> list_all preview_ok (previews db) \<and> list_all grant_ok (grants db) \<and>
     configuration_ok (version_configuration db)"

definition live :: "operation_state \<Rightarrow> bool" where
  "live s \<longleftrightarrow> s \<in> {OP_RUNNING, OP_PAUSED, OP_QUALIFYING}"

definition unique_ok :: "db \<Rightarrow> bool" where
  "unique_ok db \<longleftrightarrow>
     distinct (map d_id (documents db)) \<and> distinct (map d_sha256 (documents db)) \<and>
     distinct (map d_object_key (documents db)) \<and> distinct (map g_id (generations db)) \<and>
     distinct (map j_id (jobs db)) \<and> distinct (map c_id (chunks db)) \<and>
     distinct (map (\<lambda>c. (c_generation c, s_ordinal (c_source c))) (chunks db)) \<and>
     distinct (map e_id (embedding_generations db)) \<and>
     distinct (map e_operation (filter (\<lambda>e. e_operation e \<noteq> None) (embedding_generations db))) \<and>
     length (filter (\<lambda>e. e_state e = ACTIVE) (embedding_generations db)) \<le> 1 \<and>
     distinct (map (\<lambda>v. (v_generation v, v_chunk v)) (chunk_embeddings db)) \<and>
     distinct (map (\<lambda>t. (t_operation t, t_chunk t)) (tasks db)) \<and>
     distinct (map o_id (operations db)) \<and> distinct (map o_preview (operations db)) \<and>
     length (filter (\<lambda>p. live (o_state p)) (operations db)) \<le> 1 \<and>
     distinct (map p_id (previews db)) \<and> distinct (map r_id (grants db)) \<and> distinct (map r_token_hash (grants db))"

definition foreign_ok :: "db \<Rightarrow> bool" where
  "foreign_ok db \<longleftrightarrow>
     (let ds = set (map d_id (documents db));
          gs = set (map (\<lambda>g. (g_id g, g_document g)) (generations db));
          cs = set (map c_id (chunks db));
          es = set (map e_id (embedding_generations db));
          os = set (map o_id (operations db))
      in list_all (\<lambda>g. g_document g \<in> ds \<and> set_option (g_operation g) \<subseteq> os) (generations db) \<and>
         list_all (\<lambda>d. (d_active_generation d, d_id d) \<in> gs) (documents db) \<and>
         list_all (\<lambda>c. (c_generation c, c_document c) \<in> gs) (chunks db) \<and>
         list_all (\<lambda>j. (j_target_generation j, j_document j) \<in> gs \<and> set_option (j_operation j) \<subseteq> os) (jobs db) \<and>
         list_all (\<lambda>e. set_option (e_operation e) \<subseteq> os \<and> set_option (e_source e) \<subseteq> es) (embedding_generations db) \<and>
         active_embedding db \<in> es \<and>
         list_all (\<lambda>v. v_generation v \<in> es \<and> v_chunk v \<in> cs \<and> v_document_generation v \<in> fst ` gs) (chunk_embeddings db) \<and>
         list_all (\<lambda>t. t_operation t \<in> os \<and> t_generation t \<in> es \<and> t_chunk t \<in> cs) (tasks db) \<and>
         list_all (\<lambda>p. o_preview p \<in> set (map p_id (previews db))) (operations db) \<and>
         list_all (\<lambda>(turn, e). e \<in> es) (turn_generations db))"

definition checked :: "env \<Rightarrow> db \<Rightarrow> (sql_error, db) result" where
  "checked env db =
     (if \<not> check_ok env db then Inl CheckViolation
      else if \<not> unique_ok db then Inl UniqueViolation
      else if \<not> foreign_ok db then Inl ForeignKeyViolation
      else Inr db)"

definition consistent :: "env \<Rightarrow> db \<Rightarrow> bool" where
  "consistent env db \<longleftrightarrow> check_ok env db \<and> unique_ok db \<and> foreign_ok db"

lemma checked_Inr_iff [simp]: "checked env db = Inr db' \<longleftrightarrow> db' = db \<and> consistent env db"
  by (auto simp: checked_def consistent_def)

section \<open>Cascading deletions\<close>

text \<open>Deleting chunks deletes their embeddings and their reindex tasks.\<close>

definition delete_chunks :: "(chunk_row \<Rightarrow> bool) \<Rightarrow> db \<Rightarrow> db" where
  "delete_chunks p db =
     (let gone = set (map c_id (filter p (chunks db)))
      in db\<lparr>chunks := delete_where p (chunks db),
            chunk_embeddings := delete_where (\<lambda>v. v_chunk v \<in> gone) (chunk_embeddings db),
            tasks := delete_where (\<lambda>t. t_chunk t \<in> gone) (tasks db)\<rparr>)"

text \<open>Deleting document generations deletes their chunks, embeddings and ingestion jobs.\<close>

definition delete_generations :: "(document_generation \<Rightarrow> bool) \<Rightarrow> db \<Rightarrow> db" where
  "delete_generations p db =
     (let gone = set (map g_id (filter p (generations db)));
          db1 = delete_chunks (\<lambda>c. c_generation c \<in> gone) db
      in db1\<lparr>generations := delete_where p (generations db1),
             jobs := delete_where (\<lambda>j. j_target_generation j \<in> gone) (jobs db1),
             chunk_embeddings := delete_where (\<lambda>v. v_document_generation v \<in> gone) (chunk_embeddings db1)\<rparr>)"

text \<open>Deleting a document deletes its generations, chunks and ingestion jobs.\<close>

definition delete_document :: "uuid \<Rightarrow> db \<Rightarrow> db" where
  "delete_document doc db =
     (let db1 = delete_generations (\<lambda>g. g_document g = doc) (delete_chunks (\<lambda>c. c_document c = doc) db)
      in db1\<lparr>documents := delete_where (\<lambda>d. d_id d = doc) (documents db1),
             jobs := delete_where (\<lambda>j. j_document j = doc) (jobs db1)\<rparr>)"

text \<open>Deleting embedding generations deletes their embeddings and their reindex tasks.\<close>

definition delete_embedding_generations :: "(embedding_generation \<Rightarrow> bool) \<Rightarrow> db \<Rightarrow> db" where
  "delete_embedding_generations p db =
     (let gone = set (map e_id (filter p (embedding_generations db)))
      in db\<lparr>embedding_generations := delete_where p (embedding_generations db),
            chunk_embeddings := delete_where (\<lambda>v. v_generation v \<in> gone) (chunk_embeddings db),
            tasks := delete_where (\<lambda>t. t_generation t \<in> gone) (tasks db)\<rparr>)"

section \<open>The database after the migrations\<close>

definition QWEN_PROFILE :: string where "QWEN_PROFILE = ''embedding.qwen3-0.6b-1024.ollama.windows-x64''"
definition QWEN_VERSION :: string where "QWEN_VERSION = ''qwen3-embedding-0.6b-1024''"

text \<open>An installation without documents; \<open>first_generation\<close> is the identifier of the first embedding generation.\<close>

definition initial_db :: "time \<Rightarrow> uuid \<Rightarrow> db" where
  "initial_db now first_generation =
     \<lparr>documents = [], generations = [], jobs = [], chunks = [],
      embedding_generations =
        [\<lparr>e_id = first_generation, e_operation = None, e_profile = QWEN_PROFILE, e_embedding_version = QWEN_VERSION,
          e_dimension = 1024, e_state = ACTIVE, e_source = None, e_qualified_at = Some now, e_activated_at = Some now,
          e_retired_at = None, e_qualification = [(''migration_backfill'', True)]\<rparr>],
      active_embedding = first_generation, chunk_embeddings = [], tasks = [], operations = [], previews = [],
      grants = [],
      version_configuration =
        \<lparr>v_revision = ''v8e-ingestion-initial'', v_profile = ADAPTIVE_PROFILE,
         v_parser = ''pypdf+paddleocr-vl-v1.6-adaptive-v2'', v_chunking = ''fragment-paragraph-sentence-v2'',
         v_updated_by = None\<rparr>,
      verifications = [], turn_generations = [], audit = []\<rparr>"

lemma initial_db_consistent: "consistent env (initial_db now g)"
  by (simp add: consistent_def check_ok_def unique_ok_def foreign_ok_def initial_db_def embedding_generation_ok_def
      between_def configuration_ok_def profile_versions_def)

lemma in_update_where: "x \<in> set (update_where p f rows) \<longleftrightarrow> (\<exists>r \<in> set rows. x = (if p r then f r else r))"
  by (auto simp: update_where_def)

lemma ball_update_where: "(\<forall>x \<in> set (update_where p f rows). P x) \<longleftrightarrow> (\<forall>r \<in> set rows. P (if p r then f r else r))"
  by (auto simp: update_where_def)

lemma bex_update_where: "(\<exists>x \<in> set (update_where p f rows). P x) \<longleftrightarrow> (\<exists>r \<in> set rows. P (if p r then f r else r))"
  by (auto simp: update_where_def)

lemma update_where_last: "\<forall>r \<in> set rows. \<not> p r \<Longrightarrow> p x \<Longrightarrow> update_where p f (rows @ [x]) = rows @ [f x]"
  by (induction rows) (auto simp: update_where_def)

lemma in_delete_where [simp]: "x \<in> set (delete_where p rows) \<longleftrightarrow> x \<in> set rows \<and> \<not> p x"
  by (auto simp: delete_where_def)

lemma update_where_key [simp]: "(\<And>r. p r \<Longrightarrow> key (f r) = key r) \<Longrightarrow> map key (update_where p f rows) = map key rows"
  by (simp add: update_where_def)

lemma in_concat_map: "a \<in> set xs \<Longrightarrow> x \<in> set (f a) \<Longrightarrow> x \<in> set (concat (map f xs))"
  by auto

lemma distinct_map_inj: "distinct (map f xs) \<Longrightarrow> x \<in> set xs \<Longrightarrow> y \<in> set xs \<Longrightarrow> f x = f y \<Longrightarrow> x = y"
  by (auto simp: distinct_map inj_on_def)

lemma delete_chunks_simps [simp]:
  "documents (delete_chunks p db) = documents db" "generations (delete_chunks p db) = generations db"
  "jobs (delete_chunks p db) = jobs db" "operations (delete_chunks p db) = operations db"
  "embedding_generations (delete_chunks p db) = embedding_generations db"
  "active_embedding (delete_chunks p db) = active_embedding db" "chunks (delete_chunks p db) = delete_where p (chunks db)"
  by (simp_all add: delete_chunks_def Let_def)

lemma find_SomeD: "List.find p rows = Some r \<Longrightarrow> r \<in> set rows \<and> p r"
  by (metis find_Some_iff nth_mem)

lemma select_strict_Inr: "select_strict p rows = Inr r \<Longrightarrow> r \<in> set rows \<and> p r"
  by (auto simp: select_strict_def split: option.splits dest: find_SomeD)

lemma order_limit_subset: "set (order_limit key n rows) \<subseteq> set rows"
  unfolding order_limit_def by (metis set_sort set_take_subset)

text \<open>A row left out by the limit is not before any row that is returned.\<close>

lemma order_limit_covers:
  assumes "x \<in> set rows"
  shows "x \<in> set (order_limit key n rows) \<or>
    length (order_limit key n rows) = n \<and> (\<forall>y \<in> set (order_limit key n rows). key y \<le> key x)"
proof -
  let ?s = "sort_key key rows"
  have "sorted (map key (take n ?s @ drop n ?s))" by simp
  then have le: "\<forall>y \<in> set (take n ?s). \<forall>z \<in> set (drop n ?s). key y \<le> key z"
    by (simp del: append_take_drop_id add: sorted_append)
  have "x \<in> set (take n ?s) \<or> x \<in> set (drop n ?s)" using assms by (metis Un_iff append_take_drop_id set_append set_sort)
  moreover have "length (take n ?s) = n" if "x \<in> set (drop n ?s)"
    using that by (metis drop_all empty_iff length_take list.set(1) min.absorb2 nat_le_linear)
  ultimately show ?thesis using le by (auto simp: order_limit_def)
qed

end
