(* ===== verification/IngestionStore.thy ===== *)
theory IngestionStore
  imports Tables Fencing
begin

text \<open>
  The ingestion contracts of the database: the triggers that bind documents and jobs to document
  generations, and the stored functions \<open>v4_claim_ingestion_job\<close>, \<open>v4_heartbeat_ingestion_job\<close>,
  \<open>v4_update_ingestion_progress\<close>, \<open>v4_commit_ingestion_job\<close>, \<open>v4_requeue_ingestion_job\<close> and
  \<open>v4_poison_ingestion_job\<close>, as the last migrations leave them.
\<close>

section \<open>Claims\<close>

record ingestion_claim =
  ic_job :: uuid
  ic_document :: uuid
  ic_object_key :: string
  ic_filename :: string
  ic_sha256 :: string
  ic_byte_size :: int
  ic_attempt :: int
  ic_lease_token :: uuid
  ic_fencing_token :: int
  ic_parser_version :: string
  ic_chunking_version :: string
  ic_embedding_version :: string

definition operation_running :: "db \<Rightarrow> uuid option \<Rightarrow> bool" where
  "operation_running db p =
     (case p of None \<Rightarrow> True
      | Some i \<Rightarrow> (\<exists>q \<in> set (operations db). o_id q = i \<and> o_state q = OP_RUNNING))"

definition claimable :: "db \<Rightarrow> time \<Rightarrow> ingestion_job \<Rightarrow> bool" where
  "claimable db now j \<longleftrightarrow>
     (j_status j = JOB_QUEUED \<and> j_available_at j \<le> now \<or>
      j_status j = JOB_RUNNING \<and> sql_le (j_lease_expires_at j) now) \<and>
     operation_running db (j_operation j)"

definition claimed_job :: "time \<Rightarrow> uuid \<Rightarrow> string \<Rightarrow> int \<Rightarrow> ingestion_job \<Rightarrow> ingestion_job" where
  "claimed_job now token owner seconds j =
     j\<lparr>j_status := JOB_RUNNING, j_attempt := j_attempt j + 1, j_stage := UPLOADED, j_completed_units := 0,
       j_total_units := None,
       j_started_at := (case j_started_at j of None \<Rightarrow> Some now | Some t \<Rightarrow> Some t),
       j_heartbeat_at := Some now, j_lease_owner := Some owner, j_lease_token := Some token,
       j_lease_expires_at := Some (now + of_int seconds), j_fencing_token := j_fencing_token j + 1,
       j_updated_at := now\<rparr>"

definition v4_claim_ingestion_job ::
  "env \<Rightarrow> time \<Rightarrow> uuid set \<Rightarrow> uuid \<Rightarrow> string \<Rightarrow> int \<Rightarrow> db \<Rightarrow> (sql_error, ingestion_claim option \<times> db) result" where
  "v4_claim_ingestion_job env now locked token owner seconds db =
     (if \<not> between seconds 5 3600 then Inl (Raised ''invalid ingestion lease duration'')
      else case order_limit (\<lambda>j. (j_available_at j, j_created_at j, j_id j)) 1
                  (filter (\<lambda>j. claimable db now j \<and> j_id j \<notin> locked) (jobs db)) of
             [] \<Rightarrow> Inr (None, db)
           | j # _ \<Rightarrow>
              (case (List.find (\<lambda>d. d_id d = j_document j) (documents db),
                     List.find (\<lambda>g. g_id g = j_target_generation j \<and> g_document g = j_document j) (generations db),
                     List.find (\<lambda>e. e_id e = active_embedding db) (embedding_generations db)) of
                 (Some d, Some g, Some e) \<Rightarrow>
                   rbind (checked env (db\<lparr>jobs := update_where (\<lambda>r. j_id r = j_id j)
                            (claimed_job now token owner seconds) (jobs db)\<rparr>))
                     (\<lambda>db1. Inr (Some \<lparr>ic_job = j_id j, ic_document = d_id d, ic_object_key = d_object_key d,
                         ic_filename = d_filename d, ic_sha256 = d_sha256 d, ic_byte_size = d_byte_size d,
                         ic_attempt = j_attempt j + 1, ic_lease_token = token, ic_fencing_token = j_fencing_token j + 1,
                         ic_parser_version = g_parser_version g, ic_chunking_version = g_chunking_version g,
                         ic_embedding_version = e_embedding_version e\<rparr>, db1))
               | _ \<Rightarrow> Inr (None, db)))"

section \<open>Operations under a lease\<close>

text \<open>The guard of every operation under a lease, as a condition on the row.\<close>

definition holds_lease :: "time \<Rightarrow> uuid \<Rightarrow> uuid \<Rightarrow> int \<Rightarrow> ingestion_job \<Rightarrow> bool" where
  "holds_lease now i token fence j \<longleftrightarrow>
     j_id j = i \<and> j_status j = JOB_RUNNING \<and> sql_eq (j_lease_token j) token \<and> j_fencing_token j = fence \<and>
     sql_gt (j_lease_expires_at j) now"

definition v4_heartbeat_ingestion_job ::
  "env \<Rightarrow> time \<Rightarrow> uuid \<Rightarrow> uuid \<Rightarrow> int \<Rightarrow> int \<Rightarrow> db \<Rightarrow> (sql_error, bool \<times> db) result" where
  "v4_heartbeat_ingestion_job env now i token fence seconds db =
     (let hit = (\<lambda>j. holds_lease now i token fence j \<and> between seconds 5 3600)
      in rbind (checked env (db\<lparr>jobs := update_where hit
            (\<lambda>j. j\<lparr>j_heartbeat_at := Some now, j_lease_expires_at := Some (now + of_int seconds), j_updated_at := now\<rparr>)
            (jobs db)\<rparr>))
          (\<lambda>db1. Inr (list_ex hit (jobs db), db1)))"

definition v4_requeue_ingestion_job ::
  "env \<Rightarrow> time \<Rightarrow> uuid \<Rightarrow> uuid \<Rightarrow> int \<Rightarrow> time \<Rightarrow> db \<Rightarrow> (sql_error, bool \<times> db) result" where
  "v4_requeue_ingestion_job env now i token fence available db =
     (let hit = (\<lambda>j. holds_lease now i token fence j \<and> now < available)
      in rbind (checked env (db\<lparr>jobs := update_where hit
            (\<lambda>j. j\<lparr>j_status := JOB_QUEUED, j_error := None, j_available_at := available, j_lease_owner := None,
                   j_lease_token := None, j_lease_expires_at := None, j_heartbeat_at := None, j_updated_at := now\<rparr>)
            (jobs db)\<rparr>))
          (\<lambda>db1. Inr (list_ex hit (jobs db), db1)))"

text \<open>\<open>CASE\<close> expressions of the progress function; the stage is text.\<close>

definition stage_rank :: "DocumentState \<Rightarrow> nat" where
  "stage_rank s = (case s of UPLOADED \<Rightarrow> 0 | PARSING \<Rightarrow> 1 | CHUNKING \<Rightarrow> 2 | EMBEDDING \<Rightarrow> 3 | INDEXING \<Rightarrow> 4 | _ \<Rightarrow> 5)"

definition progress_stage :: "string \<Rightarrow> DocumentState option" where
  "progress_stage s =
     (if s = ''parsing'' then Some PARSING else if s = ''chunking'' then Some CHUNKING
      else if s = ''embedding'' then Some EMBEDDING else if s = ''indexing'' then Some INDEXING else None)"

datatype progress_result = ACCEPTED | STALE

definition progress_regresses :: "ingestion_job \<Rightarrow> DocumentState \<Rightarrow> int \<Rightarrow> int \<Rightarrow> bool" where
  "progress_regresses j stage completed total_units \<longleftrightarrow>
     stage_rank stage < stage_rank (j_stage j) \<or>
     stage_rank stage = stage_rank (j_stage j) \<and>
       (completed < j_completed_units j \<or>
        (case j_total_units j of None \<Rightarrow> False | Some n \<Rightarrow> total_units < n))"

definition v4_update_ingestion_progress ::
  "env \<Rightarrow> time \<Rightarrow> uuid \<Rightarrow> uuid \<Rightarrow> int \<Rightarrow> string \<Rightarrow> int \<Rightarrow> int \<Rightarrow> db \<Rightarrow> (sql_error, progress_result \<times> db) result" where
  "v4_update_ingestion_progress env now i token fence stage completed total_units db =
     (case progress_stage stage of
        None \<Rightarrow> Inl (Raised ''invalid ingestion progress'')
      | Some st \<Rightarrow>
          if \<not> between total_units 1 1000000 \<or> \<not> between completed 0 total_units
          then Inl (Raised ''invalid ingestion progress'')
          else (case List.find (\<lambda>j. j_id j = i) (jobs db) of
             None \<Rightarrow> Inr (STALE, db)
           | Some j \<Rightarrow>
               if j_status j \<noteq> JOB_RUNNING \<or> sql_ne (j_lease_token j) token \<or> j_fencing_token j \<noteq> fence \<or>
                  sql_le (j_lease_expires_at j) now \<or> \<not> operation_running db (j_operation j)
               then Inr (STALE, db)
               else if progress_regresses j st completed total_units then Inr (STALE, db)
               else rbind (checked env (db\<lparr>jobs := update_where (\<lambda>r. j_id r = i)
                        (\<lambda>r. r\<lparr>j_stage := st, j_completed_units := completed, j_total_units := Some total_units,
                               j_heartbeat_at := Some now, j_updated_at := now\<rparr>) (jobs db)\<rparr>)) (\<lambda>db1.
                    rbind (checked env (db1\<lparr>documents := update_where
                        (\<lambda>d. d_id d = j_document j \<and> d_active_generation d = j_target_generation j \<and> d_state d \<noteq> READY)
                        (\<lambda>d. d\<lparr>d_state := st, d_stage := st, d_error := None, d_updated_at := now\<rparr>)
                        (documents db1)\<rparr>)) (\<lambda>db2. Inr (ACCEPTED, db2)))))"

section \<open>Commit\<close>

definition provenance :: "env \<Rightarrow> uuid \<Rightarrow> string \<Rightarrow> uuid \<Rightarrow> string \<Rightarrow> string" where
  "provenance env chunk text_sha generation version =
     sha256_hex env (join ''|'' [uuid_text env chunk, text_sha, uuid_text env generation, version])"

definition version_mismatch :: "document_generation \<Rightarrow> embedding_generation \<Rightarrow> chunk_source \<Rightarrow> bool" where
  "version_mismatch g e s \<longleftrightarrow>
     s_parser_version s \<noteq> g_parser_version g \<or> s_chunking_version s \<noteq> g_chunking_version g \<or>
     s_embedding_version s \<noteq> e_embedding_version e \<or> int (length (s_embedding s)) \<noteq> e_dimension e"

definition chunk_of_source :: "ingestion_job \<Rightarrow> document_generation \<Rightarrow> embedding_generation \<Rightarrow> chunk_source \<Rightarrow> chunk_row" where
  "chunk_of_source j g e s =
     \<lparr>c_document = j_document j, c_generation = g_id g, c_source = s,
      c_embedding = (if e_dimension e = 1024 then Some (s_embedding s) else None)\<rparr>"

definition embedding_of_source ::
  "env \<Rightarrow> time \<Rightarrow> document_generation \<Rightarrow> embedding_generation \<Rightarrow> chunk_source \<Rightarrow> chunk_embedding" where
  "embedding_of_source env now g e s =
     \<lparr>v_generation = e_id e, v_chunk = s_id s, v_document_generation = g_id g, v_dimension = e_dimension e,
      v_embedding = s_embedding s, v_text_sha256 = s_text_sha256 s,
      v_provenance = provenance env (s_id s) (s_text_sha256 s) (g_id g) (e_embedding_version e), v_created_at = now\<rparr>"

text \<open>The chunks of the generation are replaced by those of the payload, with their embeddings.\<close>

definition replace_chunks ::
  "env \<Rightarrow> time \<Rightarrow> ingestion_job \<Rightarrow> document_generation \<Rightarrow> embedding_generation \<Rightarrow> chunk_source list \<Rightarrow> db \<Rightarrow>
   (sql_error, db) result" where
  "replace_chunks env now j g e payload db =
     (let rows = map (chunk_of_source j g e) payload
      in rbind (checked env (delete_chunks (\<lambda>c. c_generation c = g_id g) db)) (\<lambda>db1.
         rbind (checked env (db1\<lparr>chunks := chunks db1 @ rows\<rparr>)) (\<lambda>db2.
         if length rows \<noteq> length payload then Inl (Raised ''chunk payload count changed'')
         else checked env (db2\<lparr>chunk_embeddings := chunk_embeddings db2 @ map (embedding_of_source env now g e) payload\<rparr>))))"

text \<open>The document switches to the generation; a generation that was ready before is retained.\<close>

definition activate_generation ::
  "env \<Rightarrow> time \<Rightarrow> ingestion_job \<Rightarrow> document_generation \<Rightarrow> embedding_generation \<Rightarrow> int \<Rightarrow> int \<Rightarrow> db \<Rightarrow>
   (sql_error, db) result" where
  "activate_generation env now j g e pages count db =
     rbind (select_strict (\<lambda>d. d_id d = j_document j) (documents db)) (\<lambda>doc.
     rbind (if d_active_generation doc \<noteq> g_id g
            then checked env (db\<lparr>generations := update_where
                   (\<lambda>r. g_id r = d_active_generation doc \<and> g_state r = GEN_READY)
                   (\<lambda>r. r\<lparr>g_state := RETAINED, g_retired_at := Some now, g_updated_at := now\<rparr>) (generations db)\<rparr>)
            else Inr db) (\<lambda>db1.
     rbind (checked env (db1\<lparr>generations := update_where (\<lambda>r. g_id r = g_id g)
              (\<lambda>r. r\<lparr>g_state := GEN_READY, g_error := None, g_page_count := Some pages, g_chunk_count := count,
                     g_ready_at := Some now, g_retired_at := None, g_updated_at := now\<rparr>) (generations db1)\<rparr>)) (\<lambda>db2.
     checked env (db2\<lparr>documents := update_where (\<lambda>d. d_id d = j_document j)
              (\<lambda>d. d\<lparr>d_active_generation := g_id g, d_parser_version := g_parser_version g,
                     d_chunking_version := g_chunking_version g, d_embedding_version := e_embedding_version e,
                     d_state := READY, d_stage := READY, d_error := None, d_page_count := Some pages,
                     d_chunk_count := count, d_updated_at := now\<rparr>) (documents db2)\<rparr>))))"

definition complete_job :: "env \<Rightarrow> time \<Rightarrow> uuid \<Rightarrow> int \<Rightarrow> db \<Rightarrow> (sql_error, db) result" where
  "complete_job env now i count db =
     checked env (db\<lparr>jobs := update_where (\<lambda>j. j_id j = i)
       (\<lambda>j. j\<lparr>j_status := JOB_COMPLETED, j_stage := READY, j_completed_units := count, j_total_units := Some count,
              j_error := None, j_lease_owner := None, j_lease_token := None, j_lease_expires_at := None,
              j_heartbeat_at := Some now, j_updated_at := now\<rparr>) (jobs db)\<rparr>)"

definition advance_operation :: "time \<Rightarrow> int \<Rightarrow> reprocessing_operation \<Rightarrow> reprocessing_operation" where
  "advance_operation now count p =
     (let finished = (o_completed_documents p + 1 = o_total_documents p)
      in p\<lparr>o_completed_documents := o_completed_documents p + 1, o_completed_chunks := o_completed_chunks p + count,
           o_state := (if finished then OP_SUCCEEDED else o_state p),
           o_stage := (if finished then ''succeeded'' else o_stage p),
           o_finished_at := (if finished then Some now else None), o_updated_at := now\<rparr>)"

definition v4_commit_ingestion_job ::
  "env \<Rightarrow> time \<Rightarrow> uuid \<Rightarrow> uuid \<Rightarrow> int \<Rightarrow> int \<Rightarrow> chunk_source list \<Rightarrow> db \<Rightarrow> (sql_error, bool \<times> db) result" where
  "v4_commit_ingestion_job env now i token fence pages payload db =
     (case List.find (holds_lease now i token fence) (jobs db) of
        None \<Rightarrow> Inr (False, db)
      | Some j \<Rightarrow>
          if pages < 0 \<or> \<not> operation_running db (j_operation j) then Inr (False, db)
          else rbind (select_strict (\<lambda>g. g_id g = j_target_generation j \<and> g_document g = j_document j) (generations db)) (\<lambda>g.
               rbind (select_strict (\<lambda>e. e_id e = active_embedding db) (embedding_generations db)) (\<lambda>e.
               if list_ex (version_mismatch g e) payload
               then Inl (Raised ''chunk ingestion version does not match target generation'')
               else let count = int (length payload)
                    in rbind (replace_chunks env now j g e payload db) (\<lambda>db1.
                       rbind (activate_generation env now j g e pages count db1) (\<lambda>db2.
                       rbind (complete_job env now i count db2) (\<lambda>db3.
                       case j_operation j of
                         None \<Rightarrow> Inr (True, db3)
                       | Some p \<Rightarrow>
                           rbind (checked env (db3\<lparr>operations := update_where (\<lambda>q. o_id q = p)
                                    (advance_operation now count) (operations db3)\<rparr>))
                             (\<lambda>db4. Inr (True, db4))))))))"

lemma commit_changes:
  assumes "db' \<noteq> db" "v4_commit_ingestion_job env now i token fence pages payload db = Inr (r, db')"
  shows "r"
  using assms unfolding v4_commit_ingestion_job_def Let_def by (auto simp: rbind_Inr_iff split: if_splits option.splits)

text \<open>The stages of a commit that succeeds.\<close>

lemma commit_cases:
  assumes "v4_commit_ingestion_job env now i token fence pages payload db = Inr (True, db')"
  obtains j g e db1 db2 db3 where
    "List.find (holds_lease now i token fence) (jobs db) = Some j"
    "select_strict (\<lambda>g. g_id g = j_target_generation j \<and> g_document g = j_document j) (generations db) = Inr g"
    "select_strict (\<lambda>e. e_id e = active_embedding db) (embedding_generations db) = Inr e"
    "replace_chunks env now j g e payload db = Inr db1"
    "activate_generation env now j g e pages (int (length payload)) db1 = Inr db2"
    "complete_job env now i (int (length payload)) db2 = Inr db3"
    "case j_operation j of None \<Rightarrow> db' = db3
      | Some p \<Rightarrow> checked env (db3\<lparr>operations := update_where (\<lambda>q. o_id q = p)
          (advance_operation now (int (length payload))) (operations db3)\<rparr>) = Inr db'"
  using assms unfolding v4_commit_ingestion_job_def Let_def
  by (auto simp: rbind_Inr_iff simp del: checked_Inr_iff split: if_splits option.splits)

lemma replace_chunks_effect:
  assumes "replace_chunks env now j g e payload db = Inr db1"
  shows "consistent env (delete_chunks (\<lambda>c. c_generation c = g_id g) db)" "consistent env db1"
    "chunks db1 = delete_where (\<lambda>c. c_generation c = g_id g) (chunks db) @ map (chunk_of_source j g e) payload"
    "chunk_embeddings db1 = chunk_embeddings (delete_chunks (\<lambda>c. c_generation c = g_id g) db) @
       map (embedding_of_source env now g e) payload"
    "documents db1 = documents db" "generations db1 = generations db" "active_embedding db1 = active_embedding db"
    "embedding_generations db1 = embedding_generations db"
  using assms by (auto simp: replace_chunks_def Let_def rbind_Inr_iff)

lemma activate_generation_effect:
  assumes "activate_generation env now j g e pages count db = Inr db1"
  shows "chunks db1 = chunks db" "chunk_embeddings db1 = chunk_embeddings db" "active_embedding db1 = active_embedding db"
    "embedding_generations db1 = embedding_generations db"
    "\<exists>d \<in> set (documents db1). d_state d = READY \<and> d_active_generation d = g_id g"
proof -
  show "\<exists>d \<in> set (documents db1). d_state d = READY \<and> d_active_generation d = g_id g"
    using assms unfolding activate_generation_def rbind_Inr_iff
    by (force simp: bex_update_where split: if_splits dest: select_strict_Inr)
qed (use assms in \<open>auto simp: activate_generation_def rbind_Inr_iff split: if_splits\<close>)

text \<open>
  A commit leaves the chunks of the payload in the target generation, which its document now
  shows, and gives each an embedding of the active embedding generation.
\<close>

lemma commit_effect:
  assumes "v4_commit_ingestion_job env now i token fence pages payload db = Inr (True, db')"
  obtains j g e where
    "consistent env (delete_chunks (\<lambda>c. c_generation c = g_id g) db)" "consistent env db'"
    "chunks db' = delete_where (\<lambda>c. c_generation c = g_id g) (chunks db) @ map (chunk_of_source j g e) payload"
    "chunk_embeddings db' = chunk_embeddings (delete_chunks (\<lambda>c. c_generation c = g_id g) db) @
       map (embedding_of_source env now g e) payload"
    "active_embedding db' = active_embedding db" "e_id e = active_embedding db"
    "\<exists>d \<in> set (documents db'). d_state d = READY \<and> d_active_generation d = g_id g"
    "List.find (holds_lease now i token fence) (jobs db) = Some j" "g_id g = j_target_generation j"
proof (rule commit_cases [OF assms])
  fix j g e db1 db2 db3
  assume h: "List.find (holds_lease now i token fence) (jobs db) = Some j"
    "select_strict (\<lambda>g. g_id g = j_target_generation j \<and> g_document g = j_document j) (generations db) = Inr g"
    "select_strict (\<lambda>e. e_id e = active_embedding db) (embedding_generations db) = Inr e"
    "replace_chunks env now j g e payload db = Inr db1"
    "activate_generation env now j g e pages (int (length payload)) db1 = Inr db2"
    "complete_job env now i (int (length payload)) db2 = Inr db3"
    "case j_operation j of None \<Rightarrow> db' = db3
      | Some p \<Rightarrow> checked env (db3\<lparr>operations := update_where (\<lambda>q. o_id q = p)
          (advance_operation now (int (length payload))) (operations db3)\<rparr>) = Inr db'"
  have "chunks db' = chunks db2" "chunk_embeddings db' = chunk_embeddings db2" "active_embedding db' = active_embedding db2"
    "documents db' = documents db2" "consistent env db'"
    using h(6,7) by (auto simp: complete_job_def split: option.splits)
  then show ?thesis
    using that [of g j e] h(1) replace_chunks_effect [OF h(4)] activate_generation_effect [OF h(5)] select_strict_Inr [OF h(2)]
      select_strict_Inr [OF h(3)] by simp
qed

section \<open>Poison\<close>

definition v4_poison_ingestion_job ::
  "env \<Rightarrow> time \<Rightarrow> uuid \<Rightarrow> uuid \<Rightarrow> int \<Rightarrow> string \<Rightarrow> db \<Rightarrow> (sql_error, bool \<times> db) result" where
  "v4_poison_ingestion_job env now i token fence err db =
     (let hit = (\<lambda>j. holds_lease now i token fence j \<and> between (int (length (btrim err))) 1 500);
          message = take 500 (btrim err)
      in case List.find hit (jobs db) of
           None \<Rightarrow> Inr (False, db)
         | Some j \<Rightarrow>
             rbind (checked env (db\<lparr>jobs := update_where hit
                (\<lambda>r. r\<lparr>j_status := JOB_FAILED, j_stage := FAILED, j_error := Some message, j_lease_owner := None,
                       j_lease_token := None, j_lease_expires_at := None, j_heartbeat_at := Some now,
                       j_updated_at := now\<rparr>) (jobs db)\<rparr>)) (\<lambda>db1.
             rbind (checked env (db1\<lparr>generations := update_where (\<lambda>g. g_id g = j_target_generation j)
                (\<lambda>g. g\<lparr>g_state := GEN_FAILED, g_error := Some message, g_updated_at := now\<rparr>) (generations db1)\<rparr>)) (\<lambda>db2.
             rbind (checked env (db2\<lparr>documents := update_where
                (\<lambda>d. d_id d = j_document j \<and> d_active_generation d = j_target_generation j \<and> d_state d \<noteq> READY)
                (\<lambda>d. d\<lparr>d_state := FAILED, d_stage := FAILED, d_error := Some message, d_updated_at := now\<rparr>)
                (documents db2)\<rparr>)) (\<lambda>db3.
             case j_operation j of
               None \<Rightarrow> Inr (True, db3)
             | Some p \<Rightarrow>
                 rbind (checked env (db3\<lparr>operations := update_where (\<lambda>q. o_id q = p)
                   (\<lambda>q. q\<lparr>o_state := OP_FAILED, o_stage := ''failed'', o_failed_documents := o_failed_documents q + 1,
                          o_reason := Some ''document_reingestion_failed'', o_finished_at := Some now,
                          o_updated_at := now\<rparr>) (operations db3)\<rparr>)) (\<lambda>db4. Inr (True, db4))))))"

end
