(* ===== verification/Reprocessing.thy ===== *)
theory Reprocessing
  imports IngestionStore
begin

text \<open>
  Documents, profiles and reprocessing in the database (migrations 0001, 0005 and 0010): the
  insertion of a document with its first generation and job, its re-ingestion after a failure,
  the administration contracts of reprocessing operations, and the contracts of the
  reprocessing worker, up to the cutover to a new embedding generation and its rollback.
\<close>

section \<open>Callers\<close>

text \<open>
  What the session functions \<open>v4_current_actor_id\<close> and \<open>v4_current_actor_is_admin\<close> return for the caller,
  and the identifier of its session when it is not revoked.
\<close>

record caller =
  caller_actor :: "uuid option"
  caller_is_admin :: bool
  caller_session :: "uuid option"

definition v4_require_admin :: "caller \<Rightarrow> (sql_error, uuid) result" where
  "v4_require_admin c =
     (case caller_actor c of
        None \<Rightarrow> Inl (Raised ''administrator capability required'')
      | Some a \<Rightarrow> if caller_is_admin c then Inr a else Inl (Raised ''administrator capability required''))"

definition current_session :: "caller \<Rightarrow> (sql_error, uuid) result" where
  "current_session c = (case caller_session c of None \<Rightarrow> Inl NoDataFound | Some s \<Rightarrow> Inr s)"

definition append_audit :: "string \<Rightarrow> uuid option \<Rightarrow> db \<Rightarrow> db" where
  "append_audit event target db = db\<lparr>audit := audit db @ [(event, target)]\<rparr>"

section \<open>Documents\<close>

text \<open>The generation the triggers on \<open>documents\<close> create for an inserted document.\<close>

definition v10_create_document_generation :: "time \<Rightarrow> document \<Rightarrow> document_generation" where
  "v10_create_document_generation now d =
     \<lparr>g_id = d_active_generation d, g_document = d_id d, g_operation = None, g_parser_version = d_parser_version d,
      g_chunking_version = d_chunking_version d,
      g_state = (if d_state d = READY then GEN_READY else if d_state d = FAILED then GEN_FAILED else BUILDING),
      g_page_count = d_page_count d, g_chunk_count = d_chunk_count d, g_error = d_error d,
      g_ready_at = (if d_state d = READY then Some (d_updated_at d) else None), g_retired_at = None, g_updated_at = now\<rparr>"

text \<open>A new job; its target is the active generation of its document unless one is given.\<close>

definition new_job :: "time \<Rightarrow> uuid \<Rightarrow> uuid \<Rightarrow> uuid \<Rightarrow> uuid option \<Rightarrow> ingestion_job" where
  "new_job now i doc target operation =
     \<lparr>j_id = i, j_document = doc, j_status = JOB_QUEUED, j_stage = UPLOADED, j_attempt = 0, j_completed_units = 0,
      j_total_units = None, j_available_at = now, j_started_at = None, j_heartbeat_at = None,
      j_lease_expires_at = None, j_lease_token = None, j_lease_owner = None, j_fencing_token = 0, j_error = None,
      j_created_at = now, j_updated_at = now, j_target_generation = target, j_operation = operation\<rparr>"

definition v10_bind_ingestion_target_generation ::
  "db \<Rightarrow> uuid \<Rightarrow> uuid option \<Rightarrow> (sql_error, uuid) result" where
  "v10_bind_ingestion_target_generation db doc target =
     (case target of Some g \<Rightarrow> Inr g
      | None \<Rightarrow> rbind (select_strict (\<lambda>d. d_id d = doc) (documents db)) (\<lambda>d. Inr (d_active_generation d)))"

text \<open>The document and the job an accepted upload inserts (\<open>v4_admin_commit_upload\<close>).\<close>

definition insert_upload ::
  "env \<Rightarrow> time \<Rightarrow> uuid \<Rightarrow> uuid \<Rightarrow> uuid \<Rightarrow> string \<Rightarrow> string \<Rightarrow> int \<Rightarrow> string \<Rightarrow> string \<times> string \<times> string \<Rightarrow> db \<Rightarrow>
   (sql_error, db) result" where
  "insert_upload env now doc generation job sha filename byte_size key versions db =
     (let d = \<lparr>d_id = doc, d_sha256 = sha, d_filename = filename, d_byte_size = byte_size, d_object_key = key,
               d_state = UPLOADED, d_stage = UPLOADED, d_error = None, d_parser_version = fst versions,
               d_chunking_version = fst (snd versions), d_embedding_version = snd (snd versions),
               d_page_count = None, d_chunk_count = 0, d_updated_at = now, d_active_generation = generation\<rparr>
      in rbind (checked env (db\<lparr>documents := documents db @ [d],
                               generations := generations db @ [v10_create_document_generation now d]\<rparr>)) (\<lambda>db1.
         rbind (v10_bind_ingestion_target_generation db1 doc None) (\<lambda>target.
         checked env (db1\<lparr>jobs := jobs db1 @ [new_job now job doc target None]\<rparr>))))"

text \<open>
  \<open>v4_commit_document_reingest\<close>. The file nodes of the library are pairs of a document and its
  uploader; \<open>snapshot\<close> is the digest of the document, its uploader and its latest job.
\<close>

datatype reingest_result = NOT_FOUND | NOT_RETRYABLE | ACTIVE_JOB | STALE_SNAPSHOT | CREATED

definition latest_job :: "db \<Rightarrow> uuid \<Rightarrow> ingestion_job option" where
  "latest_job db doc =
     (case rev (sort_key (\<lambda>j. (j_created_at j, j_id j)) (filter (\<lambda>j. j_document j = doc) (jobs db))) of
        [] \<Rightarrow> None | j # _ \<Rightarrow> Some j)"

definition reset_document :: "env \<Rightarrow> time \<Rightarrow> uuid \<Rightarrow> uuid \<Rightarrow> db \<Rightarrow> (sql_error, db) result" where
  "reset_document env now doc job db =
     rbind (checked env (delete_chunks (\<lambda>c. c_document c = doc) db)) (\<lambda>db1.
     rbind (checked env (db1\<lparr>documents := update_where (\<lambda>d. d_id d = doc)
        (\<lambda>d. d\<lparr>d_state := UPLOADED, d_stage := UPLOADED, d_error := None, d_page_count := None, d_chunk_count := 0,
               d_updated_at := now\<rparr>) (documents db1)\<rparr>)) (\<lambda>db2.
     rbind (v10_bind_ingestion_target_generation db2 doc None) (\<lambda>target.
     checked env (db2\<lparr>jobs := jobs db2 @ [new_job now job doc target None]\<rparr>))))"

definition v4_commit_document_reingest ::
  "env \<Rightarrow> time \<Rightarrow> (document \<Rightarrow> uuid option \<Rightarrow> ingestion_job \<Rightarrow> string) \<Rightarrow> (uuid \<times> uuid option) list \<Rightarrow> caller \<Rightarrow>
   uuid \<Rightarrow> string \<Rightarrow> uuid \<Rightarrow> db \<Rightarrow> (sql_error, reingest_result \<times> db) result" where
  "v4_commit_document_reingest env now snapshot file_nodes c doc token job db =
     (if \<not> hex64 token then Inl (Raised ''invalid document reingest request'')
      else case caller_actor c of
        None \<Rightarrow> Inr (NOT_FOUND, db)
      | Some actor \<Rightarrow>
          (case (List.find (\<lambda>d. d_id d = doc) (documents db),
                 List.find (\<lambda>n. fst n = doc \<and> (caller_is_admin c \<or> snd n = Some actor)) file_nodes) of
             (Some d, Some node) \<Rightarrow>
               if d_state d \<noteq> FAILED then Inr (NOT_RETRYABLE, db)
               else if \<exists>j \<in> set (jobs db). j_document j = doc \<and> j_status j \<in> {JOB_QUEUED, JOB_RUNNING}
               then Inr (ACTIVE_JOB, db)
               else (case latest_job db doc of
                  None \<Rightarrow> Inr (NOT_RETRYABLE, db)
                | Some j \<Rightarrow>
                    if j_status j \<notin> {JOB_FAILED, JOB_INTERRUPTED} then Inr (NOT_RETRYABLE, db)
                    else if snapshot d (snd node) j \<noteq> token then Inr (STALE_SNAPSHOT, db)
                    else rbind (reset_document env now doc job db)
                           (\<lambda>db1. Inr (CREATED, append_audit ''document_reingest_queued'' (Some doc) db1)))
           | _ \<Rightarrow> Inr (NOT_FOUND, db)))"

text \<open>\<open>v4_maintenance_requeue_document\<close>, the maintenance tool: the same reset, also of a document that is ready.\<close>

definition v4_maintenance_requeue_document ::
  "env \<Rightarrow> time \<Rightarrow> (uuid \<Rightarrow> db \<Rightarrow> string) \<Rightarrow> uuid \<Rightarrow> string \<Rightarrow> uuid \<Rightarrow> bool \<Rightarrow> db \<Rightarrow>
   (sql_error, reingest_result \<times> db) result" where
  "v4_maintenance_requeue_document env now snapshot doc token job retry_only db =
     (if \<not> hex64 token then Inl (Raised ''invalid maintenance requeue request'')
      else case List.find (\<lambda>d. d_id d = doc) (documents db) of
        None \<Rightarrow> Inr (NOT_FOUND, db)
      | Some d \<Rightarrow>
          if snapshot doc db \<noteq> token then Inr (STALE_SNAPSHOT, db)
          else if \<exists>j \<in> set (jobs db). j_document j = doc \<and> j_status j \<in> {JOB_QUEUED, JOB_RUNNING}
          then Inr (ACTIVE_JOB, db)
          else if retry_only \<and> (d_state d \<noteq> FAILED \<or>
                 (case latest_job db doc of None \<Rightarrow> False | Some j \<Rightarrow> j_status j \<notin> {JOB_FAILED, JOB_INTERRUPTED}))
          then Inr (NOT_RETRYABLE, db)
          else rbind (reset_document env now doc job db) (\<lambda>db1. Inr (CREATED, db1)))"

section \<open>Search\<close>

definition ready_chunks :: "db \<Rightarrow> chunk_row list" where
  "ready_chunks db =
     filter (\<lambda>c. \<exists>d \<in> set (documents db). d_state d = READY \<and> c_generation c = d_active_generation d) (chunks db)"

text \<open>
  The settings of a vector search (\<open>VectorSearchTuning\<close>). An exact search turns the index scan off and
  reads every embedding; otherwise the query may run through the index \<open>ix_chunk_embeddings_1024_hnsw\<close>,
  which need not reach all of them: \<open>reached\<close> tells which chunks it does under a tuning, and is a parameter.
\<close>

record VectorSearchTuning =
  vs_exact :: bool
  vs_ef_search :: int
  vs_iterative_scan :: string

definition default_tuning :: VectorSearchTuning where
  "default_tuning = \<lparr>vs_exact = False, vs_ef_search = 100, vs_iterative_scan = ''strict_order''\<rparr>"

definition apply_vector_search_tuning ::
  "(VectorSearchTuning \<Rightarrow> uuid \<Rightarrow> bool) \<Rightarrow> VectorSearchTuning \<Rightarrow> uuid \<Rightarrow> bool" where
  "apply_vector_search_tuning reached tuning k \<longleftrightarrow> vs_exact tuning \<or> reached tuning k"

text \<open>
  \<open>v10_retrieve_active_chunks\<close>: \<open>scanned\<close> are the chunks the scan under the settings of the transaction
  reaches, \<open>distance\<close> is the distance of the vector extension (a rational number here, a double there; only
  its order matters), \<open>can_read\<close> the access check of the caller. \<open>search_rows\<close> are the rows its query joins,
  before the order and the limit.
\<close>

definition in_scope :: "uuid list option \<Rightarrow> uuid \<Rightarrow> bool" where
  "in_scope wanted doc = (case wanted of None \<Rightarrow> True | Some ids \<Rightarrow> doc \<in> set ids)"

definition search_rows ::
  "(uuid \<Rightarrow> bool) \<Rightarrow> (vector \<Rightarrow> vector \<Rightarrow> rat) \<Rightarrow> (uuid \<Rightarrow> bool) \<Rightarrow> vector \<Rightarrow> uuid list option \<Rightarrow> embedding_generation \<Rightarrow> db \<Rightarrow>
   (rat \<times> uuid) list" where
  "search_rows scanned distance can_read query wanted e db =
     [(distance (v_embedding v) query, c_id c).
        v \<leftarrow> chunk_embeddings db, v_generation v = active_embedding db \<and> v_dimension v = e_dimension e \<and> scanned (v_chunk v),
        c \<leftarrow> chunks db, c_id c = v_chunk v,
        d \<leftarrow> documents db, d_id d = c_document c \<and> d_active_generation d = c_generation c \<and>
          d_state d = READY \<and> can_read (d_id d) \<and> in_scope wanted (d_id d)]"

definition v10_retrieve_active_chunks ::
  "(uuid \<Rightarrow> bool) \<Rightarrow> (vector \<Rightarrow> vector \<Rightarrow> rat) \<Rightarrow> (uuid \<Rightarrow> bool) \<Rightarrow> vector \<Rightarrow> int \<Rightarrow> uuid list option \<Rightarrow> db \<Rightarrow>
   (sql_error, (uuid \<times> rat) list) result" where
  "v10_retrieve_active_chunks scanned distance can_read query limit wanted db =
     (if \<not> between limit 1 100 then Inl (Raised ''invalid retrieval limit'')
      else rbind (select_strict (\<lambda>e. e_id e = active_embedding db) (embedding_generations db)) (\<lambda>e.
        if int (length query) \<noteq> e_dimension e
        then Inl (Raised ''query embedding dimension does not match active generation'')
        else if e_dimension e \<noteq> 1024 then Inl (Raised ''active embedding dimension is not release-qualified'')
        else Inr (map (\<lambda>(d, i). (i, d)) (order_limit id (nat limit)
          (search_rows scanned distance can_read query wanted e db)))))"

definition v10_effective_ingestion_version ::
  "db \<Rightarrow> (sql_error, ingestion_version_configuration \<times> embedding_generation) result" where
  "v10_effective_ingestion_version db =
     rbind (select_strict (\<lambda>e. e_id e = active_embedding db) (embedding_generations db))
       (\<lambda>e. Inr (version_configuration db, e))"

text \<open>The trigger that binds a chat turn to the active embedding generation.\<close>

definition v10_bind_turn_embedding_generation :: "uuid \<Rightarrow> db \<Rightarrow> db" where
  "v10_bind_turn_embedding_generation turn db =
     db\<lparr>turn_generations := turn_generations db @ [(turn, active_embedding db)]\<rparr>"

section \<open>Administration\<close>

definition v10_admin_set_ingestion_profile ::
  "env \<Rightarrow> caller \<Rightarrow> string \<Rightarrow> string \<Rightarrow> string \<Rightarrow> db \<Rightarrow> (sql_error, string \<times> db) result" where
  "v10_admin_set_ingestion_profile env c random base_revision profile db =
     rbind (v4_require_admin c) (\<lambda>actor.
       let row = version_configuration db
       in if base_revision \<noteq> v_revision row then Inl (Raised ''ingestion version selection is stale'')
          else if profile = v_profile row then Inl (Raised ''ingestion version selection has no changes'')
          else case profile_versions profile of
            None \<Rightarrow> Inl (Raised ''parser profile is unavailable'')
          | Some (parser, chunking) \<Rightarrow>
              let revision = ''v8e-ingestion-'' @ filter (\<lambda>x. x \<noteq> CHR ''-'') random
              in rbind (checked env (db\<lparr>version_configuration :=
                     \<lparr>v_revision = revision, v_profile = profile, v_parser = parser, v_chunking = chunking,
                      v_updated_by = caller_actor c\<rparr>\<rparr>))
                   (\<lambda>db1. Inr (revision, append_audit ''ingestion_profile_selected'' None db1)))"

text \<open>The documents a re-ingestion to a parser version selects.\<close>

definition reingestion_target :: "string option \<Rightarrow> string \<Rightarrow> document \<Rightarrow> bool" where
  "reingestion_target source target d \<longleftrightarrow> d_state d = READY \<and>
     (case source of None \<Rightarrow> True | Some v \<Rightarrow> d_parser_version d = v) \<and> d_parser_version d \<noteq> target"

definition coalesce :: "string option \<Rightarrow> string" where
  "coalesce x = (case x of None \<Rightarrow> [] | Some s \<Rightarrow> s)"

definition backup_current :: "time \<Rightarrow> db \<Rightarrow> backup_verification list" where
  "backup_current now db =
     filter (\<lambda>b. b_succeeded b \<and> now - of_nat (30 * 24 * 60 * 60) \<le> b_verified_at b) (verifications db)"

text \<open>The content a preview counts: target versions and dimension, documents, chunks and bytes.\<close>

definition preview_content ::
  "string \<Rightarrow> string \<Rightarrow> string option \<Rightarrow> db \<Rightarrow>
   (sql_error, operation_type \<times> (string \<times> string) option \<times> (string \<times> int) option \<times> int \<times> int \<times> int) result" where
  "preview_content kind profile source db =
     (if kind = ''reindex'' then
        (if profile \<noteq> QWEN_PROFILE \<or> source \<noteq> None then Inl (Raised ''embedding profile is unavailable'')
         else let cs = ready_chunks db
              in Inr (REINDEX, None, Some (QWEN_VERSION, 1024),
                      int (length (filter (\<lambda>d. d_state d = READY \<and> (\<exists>c \<in> set (chunks db). c_generation c = d_active_generation d)) (documents db))),
                      int (length cs), int (length cs) * 1024 * 4))
      else if kind = ''reingestion'' then
        (case profile_versions profile of
           None \<Rightarrow> Inl (Raised ''parser profile is unavailable'')
         | Some (parser, chunking) \<Rightarrow>
             let ds = filter (reingestion_target source parser) (documents db)
             in Inr (REINGESTION, Some (parser, chunking), None, int (length ds),
                     sum_list (map d_chunk_count ds), sum_list (map d_byte_size ds)))
      else Inl (Raised ''invalid reprocessing operation''))"

definition v10_admin_preview_reprocessing ::
  "env \<Rightarrow> time \<Rightarrow> caller \<Rightarrow> uuid \<Rightarrow> string \<Rightarrow> string \<Rightarrow> string option \<Rightarrow> db \<Rightarrow>
   (sql_error, (reprocessing_preview \<times> bool) \<times> db) result" where
  "v10_admin_preview_reprocessing env now c preview kind profile source db =
     rbind (v4_require_admin c) (\<lambda>actor. rbind (current_session c) (\<lambda>session.
       if \<exists>p \<in> set (operations db). live (o_state p) then Inl (Raised ''a reprocessing operation is already active'')
       else rbind (preview_content kind profile source db) (\<lambda>(ptype, parser, embedding, docs, cks, bytes).
         if docs = 0 \<or> cks = 0 then Inl (Raised ''no ready content matches this operation'')
         else let row =
                \<lparr>p_id = preview, p_actor = actor, p_session = session, p_type = ptype, p_profile = profile,
                 p_source_parser = source, p_target_parser = map_option fst parser,
                 p_target_chunking = map_option snd parser, p_target_embedding = map_option fst embedding,
                 p_dimension = map_option snd embedding, p_document_count = docs, p_chunk_count = cks,
                 p_estimated_bytes = bytes,
                 p_impact_digest = sha256_hex env (join ''|'' [kind, profile, coalesce source,
                    coalesce (map_option fst parser), coalesce (map_option snd parser),
                    coalesce (map_option fst embedding), coalesce (map_option (show_int \<circ> snd) embedding),
                    show_int docs, show_int cks, show_int bytes]),
                 p_expires_at = now + 300, p_consumed_at = None, p_created_at = now\<rparr>
              in rbind (checked env (db\<lparr>previews := previews db @ [row]\<rparr>))
                   (\<lambda>db1. Inr ((row, backup_current now db \<noteq> []), db1)))))"

definition v10_admin_issue_reprocessing_grant ::
  "env \<Rightarrow> time \<Rightarrow> caller \<Rightarrow> uuid \<Rightarrow> uuid \<Rightarrow> string \<Rightarrow> string \<Rightarrow> db \<Rightarrow> (sql_error, time \<times> db) result" where
  "v10_admin_issue_reprocessing_grant env now c grant preview digest token_hash db =
     rbind (v4_require_admin c) (\<lambda>actor. rbind (current_session c) (\<lambda>session.
       if \<not> hex64 digest \<or> \<not> hex64 token_hash \<or>
          \<not> (\<exists>p \<in> set (previews db). p_id p = preview \<and> p_actor p = actor \<and> p_session p = session \<and>
               p_impact_digest p = digest \<and> p_consumed_at p = None \<and> now < p_expires_at p)
       then Inl (Raised ''reprocessing preview is stale'')
       else rbind (checked env (db\<lparr>grants := grants db @
              [\<lparr>r_id = grant, r_actor = actor, r_session = session, r_action = ''start_reprocessing'',
                r_impact_digest = digest, r_token_hash = token_hash, r_issued_at = now, r_expires_at = now + 300,
                r_consumed_at = None\<rparr>]\<rparr>)) (\<lambda>db1. Inr (now + 300, db1))))"

text \<open>The authorization of a start: the preview and the grant of this actor and session, unused and unexpired.\<close>

definition preview_usable :: "time \<Rightarrow> uuid \<Rightarrow> uuid \<Rightarrow> string \<Rightarrow> reprocessing_preview \<Rightarrow> bool" where
  "preview_usable now actor session digest p \<longleftrightarrow>
     p_actor p = actor \<and> p_session p = session \<and> p_impact_digest p = digest \<and> p_consumed_at p = None \<and> now < p_expires_at p"

definition grant_usable :: "time \<Rightarrow> uuid \<Rightarrow> uuid \<Rightarrow> string \<Rightarrow> reauthentication_grant \<Rightarrow> bool" where
  "grant_usable now actor session digest r \<longleftrightarrow>
     r_actor r = actor \<and> r_session r = session \<and> r_action r = ''start_reprocessing'' \<and> r_impact_digest r = digest \<and>
     r_consumed_at r = None \<and> now < r_expires_at r"

definition new_operation :: "time \<Rightarrow> uuid \<Rightarrow> uuid \<Rightarrow> uuid \<Rightarrow> reprocessing_preview \<Rightarrow> reprocessing_operation" where
  "new_operation now i actor backup p =
     \<lparr>o_id = i, o_preview = p_id p, o_actor = actor, o_backup = backup, o_type = p_type p, o_state = OP_RUNNING,
      o_stage = ''processing'', o_profile = p_profile p, o_source_parser = p_source_parser p,
      o_target_parser = p_target_parser p, o_target_chunking = p_target_chunking p,
      o_target_embedding = p_target_embedding p, o_dimension = p_dimension p, o_impact_digest = p_impact_digest p,
      o_generation = None, o_total_documents = p_document_count p, o_completed_documents = 0, o_failed_documents = 0,
      o_total_chunks = p_chunk_count p, o_completed_chunks = 0, o_reason = None, o_qualification = [],
      o_lease_owner = None, o_lease_token = None, o_lease_expires_at = None, o_fencing_token = 0,
      o_created_at = now, o_finished_at = None, o_updated_at = now\<rparr>"

definition new_task :: "time \<Rightarrow> uuid \<Rightarrow> uuid \<Rightarrow> chunk_row \<Rightarrow> reindex_task" where
  "new_task now operation generation c =
     \<lparr>t_operation = operation, t_generation = generation, t_chunk = c_id c, t_state = TASK_QUEUED, t_attempt = 0,
      t_lease_owner = None, t_lease_token = None, t_lease_expires_at = None, t_fencing_token = 0, t_error = None,
      t_created_at = now, t_updated_at = now\<rparr>"

definition start_reindex ::
  "env \<Rightarrow> time \<Rightarrow> uuid \<Rightarrow> uuid \<Rightarrow> reprocessing_preview \<Rightarrow> db \<Rightarrow> (sql_error, db) result" where
  "start_reindex env now operation generation p db =
     (case (p_target_embedding p, p_dimension p) of
        (Some version, Some dimension) \<Rightarrow>
          rbind (checked env (db\<lparr>embedding_generations := embedding_generations db @
            [\<lparr>e_id = generation, e_operation = Some operation, e_profile = p_profile p, e_embedding_version = version,
              e_dimension = dimension, e_state = BUILDING, e_source = Some (active_embedding db),
              e_qualified_at = None, e_activated_at = None, e_retired_at = None, e_qualification = []\<rparr>]\<rparr>)) (\<lambda>db1.
          rbind (checked env (db1\<lparr>operations := update_where (\<lambda>q. o_id q = operation)
            (\<lambda>q. q\<lparr>o_generation := Some generation\<rparr>) (operations db1)\<rparr>)) (\<lambda>db2.
          checked env (db2\<lparr>tasks := tasks db2 @ map (new_task now operation generation) (ready_chunks db2)\<rparr>)))
      | _ \<Rightarrow> Inl CheckViolation)"

text \<open>\<open>ids\<close> gives the random identifiers of the generation and of the job of a document.\<close>

definition start_reingestion ::
  "env \<Rightarrow> time \<Rightarrow> uuid \<Rightarrow> (uuid \<Rightarrow> uuid \<times> uuid) \<Rightarrow> reprocessing_preview \<Rightarrow> db \<Rightarrow> (sql_error, db) result" where
  "start_reingestion env now operation ids p db =
     (case (p_target_parser p, p_target_chunking p) of
        (Some parser, Some chunking) \<Rightarrow>
          (let targets = filter (reingestion_target (p_source_parser p) parser) (documents db)
           in rbind (checked env (db\<lparr>generations := generations db @ map (\<lambda>d.
                \<lparr>g_id = fst (ids (d_id d)), g_document = d_id d, g_operation = Some operation,
                 g_parser_version = parser, g_chunking_version = chunking, g_state = BUILDING, g_page_count = None,
                 g_chunk_count = 0, g_error = None, g_ready_at = None, g_retired_at = None, g_updated_at = now\<rparr>)
                targets\<rparr>)) (\<lambda>db1.
              checked env (db1\<lparr>jobs := jobs db1 @ map (\<lambda>d.
                new_job now (snd (ids (d_id d))) (d_id d) (fst (ids (d_id d))) (Some operation)) targets\<rparr>)))
      | _ \<Rightarrow> Inl CheckViolation)"

text \<open>The body of \<open>v10_admin_start_reprocessing\<close>; its handler renames a unique violation.\<close>

definition start_reprocessing_body ::
  "env \<Rightarrow> time \<Rightarrow> caller \<Rightarrow> uuid \<Rightarrow> uuid \<Rightarrow> (uuid \<Rightarrow> uuid \<times> uuid) \<Rightarrow> uuid \<Rightarrow> string \<Rightarrow> string \<Rightarrow> db \<Rightarrow>
   (sql_error, uuid \<times> db) result" where
  "start_reprocessing_body env now c operation generation ids preview digest token_hash db =
     rbind (v4_require_admin c) (\<lambda>actor. rbind (current_session c) (\<lambda>session.
       case (List.find (\<lambda>p. p_id p = preview) (previews db), List.find (\<lambda>r. r_token_hash r = token_hash) (grants db)) of
         (Some p, Some r) \<Rightarrow>
           if \<not> preview_usable now actor session digest p \<or> \<not> grant_usable now actor session digest r
           then Inl (Raised ''reprocessing authorization is invalid or stale'')
           else (case rev (sort_key b_verified_at (backup_current now db)) of
              [] \<Rightarrow> Inl (Raised ''a current restore-verified backup is required'')
            | b # _ \<Rightarrow>
                rbind (checked env (db\<lparr>operations := operations db @ [new_operation now operation actor (b_run b) p]\<rparr>)) (\<lambda>db1.
                rbind (if p_type p = REINDEX then start_reindex env now operation generation p db1
                       else start_reingestion env now operation ids p db1) (\<lambda>db2.
                rbind (checked env (db2\<lparr>previews := update_where (\<lambda>q. p_id q = preview)
                         (\<lambda>q. q\<lparr>p_consumed_at := Some now\<rparr>) (previews db2),
                       grants := update_where (\<lambda>q. r_id q = r_id r) (\<lambda>q. q\<lparr>r_consumed_at := Some now\<rparr>) (grants db2)\<rparr>))
                  (\<lambda>db3. Inr (operation, append_audit ''reprocessing_started'' (Some operation) db3)))))
       | _ \<Rightarrow> Inl (Raised ''reprocessing authorization is invalid or stale'')))"

definition v10_admin_start_reprocessing ::
  "env \<Rightarrow> time \<Rightarrow> caller \<Rightarrow> uuid \<Rightarrow> uuid \<Rightarrow> (uuid \<Rightarrow> uuid \<times> uuid) \<Rightarrow> uuid \<Rightarrow> string \<Rightarrow> string \<Rightarrow> db \<Rightarrow>
   (sql_error, uuid \<times> db) result" where
  "v10_admin_start_reprocessing env now c operation generation ids preview digest token_hash db =
     (case start_reprocessing_body env now c operation generation ids preview digest token_hash db of
        Inl UniqueViolation \<Rightarrow> Inl (Raised ''a reprocessing operation is already active'')
      | r \<Rightarrow> r)"

end
