(* ===== verification/Reindexing.thy ===== *)
theory Reindexing
  imports Reprocessing
begin

text \<open>
  The control and worker contracts of reprocessing operations (migration 0010): pause, resume,
  cancel, retry, rollback and cleanup by the administrator; claim, commit and failure of reindex
  tasks, and the qualification that cuts search over to a new embedding generation.
\<close>

section \<open>Control\<close>

definition work_running :: "db \<Rightarrow> uuid \<Rightarrow> bool" where
  "work_running db i \<longleftrightarrow>
     (\<exists>t \<in> set (tasks db). t_operation t = i \<and> t_state t = TASK_RUNNING) \<or>
     (\<exists>j \<in> set (jobs db). j_operation j = Some i \<and> j_status j = JOB_RUNNING)"

definition v10_admin_pause_reprocessing :: "env \<Rightarrow> time \<Rightarrow> caller \<Rightarrow> uuid \<Rightarrow> db \<Rightarrow> (sql_error, bool \<times> db) result" where
  "v10_admin_pause_reprocessing env now c i db =
     rbind (v4_require_admin c) (\<lambda>_.
       if work_running db i then Inl (Raised ''operation is between safe pause boundaries'')
       else let hit = (\<lambda>p. o_id p = i \<and> o_state p = OP_RUNNING)
            in rbind (checked env (db\<lparr>operations := update_where hit
                 (\<lambda>p. p\<lparr>o_state := OP_PAUSED, o_stage := ''paused'', o_updated_at := now\<rparr>) (operations db)\<rparr>))
                 (\<lambda>db1. Inr (list_ex hit (operations db), db1)))"

definition v10_admin_resume_reprocessing :: "env \<Rightarrow> time \<Rightarrow> caller \<Rightarrow> uuid \<Rightarrow> db \<Rightarrow> (sql_error, bool \<times> db) result" where
  "v10_admin_resume_reprocessing env now c i db =
     rbind (v4_require_admin c) (\<lambda>_.
       let hit = (\<lambda>p. o_id p = i \<and> o_state p = OP_PAUSED)
       in rbind (checked env (db\<lparr>operations := update_where hit
            (\<lambda>p. p\<lparr>o_state := OP_RUNNING, o_stage := ''processing'', o_updated_at := now\<rparr>) (operations db)\<rparr>))
            (\<lambda>db1. Inr (list_ex hit (operations db), db1)))"

definition v10_admin_cancel_reprocessing :: "env \<Rightarrow> time \<Rightarrow> caller \<Rightarrow> uuid \<Rightarrow> db \<Rightarrow> (sql_error, bool \<times> db) result" where
  "v10_admin_cancel_reprocessing env now c i db =
     rbind (v4_require_admin c) (\<lambda>_.
       case List.find (\<lambda>p. o_id p = i) (operations db) of
         None \<Rightarrow> Inr (False, db)
       | Some p \<Rightarrow>
           if o_state p \<notin> {OP_PAUSED, OP_FAILED} \<or> work_running db i then Inr (False, db)
           else
             rbind (checked env (db\<lparr>jobs := delete_where (\<lambda>j. j_operation j = Some i \<and>
                      j_status j \<in> {JOB_QUEUED, JOB_FAILED, JOB_INTERRUPTED}) (jobs db)\<rparr>)) (\<lambda>db1.
             rbind (checked env (db1\<lparr>generations := update_where
                      (\<lambda>g. g_operation g = Some i \<and> g_state g \<in> {BUILDING, GEN_FAILED})
                      (\<lambda>g. g\<lparr>g_state := ABANDONED, g_retired_at := Some now, g_updated_at := now\<rparr>) (generations db1)\<rparr>)) (\<lambda>db2.
             rbind (checked env (db2\<lparr>embedding_generations := update_where
                      (\<lambda>e. e_operation e = Some i \<and> e_state e \<in> {BUILDING, QUALIFIED})
                      (\<lambda>e. e\<lparr>e_state := ABANDONED, e_retired_at := Some now\<rparr>) (embedding_generations db2)\<rparr>)) (\<lambda>db3.
             rbind (checked env (db3\<lparr>operations := update_where (\<lambda>q. o_id q = i)
                      (\<lambda>q. q\<lparr>o_state := OP_CANCELLED, o_stage := ''cancelled'', o_reason := Some ''cancelled_by_admin'',
                             o_finished_at := Some now, o_updated_at := now\<rparr>) (operations db3)\<rparr>))
               (\<lambda>db4. Inr (True, db4))))))"

definition requeue_failed_tasks :: "time \<Rightarrow> uuid \<Rightarrow> reindex_task list \<Rightarrow> reindex_task list" where
  "requeue_failed_tasks now i =
     update_where (\<lambda>t. t_operation t = i \<and> t_state t = TASK_FAILED \<and> t_attempt t < 3)
       (\<lambda>t. t\<lparr>t_state := TASK_QUEUED, t_error := None, t_lease_owner := None, t_lease_token := None,
              t_lease_expires_at := None, t_updated_at := now\<rparr>)"

definition v10_admin_retry_reprocessing :: "env \<Rightarrow> time \<Rightarrow> caller \<Rightarrow> uuid \<Rightarrow> db \<Rightarrow> (sql_error, bool \<times> db) result" where
  "v10_admin_retry_reprocessing env now c i db =
     rbind (v4_require_admin c) (\<lambda>_.
       case List.find (\<lambda>p. o_id p = i) (operations db) of
         None \<Rightarrow> Inr (False, db)
       | Some p \<Rightarrow>
           if o_state p \<noteq> OP_FAILED then Inr (False, db)
           else rbind
             (if o_type p = REINDEX then
                rbind (checked env (db\<lparr>tasks := requeue_failed_tasks now i (tasks db)\<rparr>)) (\<lambda>db1.
                checked env (db1\<lparr>embedding_generations := update_where (\<lambda>e. e_operation e = Some i)
                  (\<lambda>e. e\<lparr>e_state := BUILDING, e_retired_at := None\<rparr>) (embedding_generations db1)\<rparr>))
              else
                rbind (checked env (db\<lparr>jobs := update_where (\<lambda>j. j_operation j = Some i \<and> j_status j = JOB_FAILED)
                  (\<lambda>j. j\<lparr>j_status := JOB_QUEUED, j_stage := UPLOADED, j_error := None, j_available_at := now,
                         j_lease_owner := None, j_lease_token := None, j_lease_expires_at := None,
                         j_updated_at := now\<rparr>) (jobs db)\<rparr>)) (\<lambda>db1.
                checked env (db1\<lparr>generations := update_where (\<lambda>g. g_operation g = Some i \<and> g_state g = GEN_FAILED)
                  (\<lambda>g. g\<lparr>g_state := BUILDING, g_error := None, g_retired_at := None, g_updated_at := now\<rparr>)
                  (generations db1)\<rparr>)))
             (\<lambda>db2. rbind (checked env (db2\<lparr>operations := update_where (\<lambda>q. o_id q = i)
                (\<lambda>q. q\<lparr>o_state := OP_RUNNING, o_stage := ''processing'', o_reason := None, o_failed_documents := 0,
                       o_finished_at := None, o_updated_at := now\<rparr>) (operations db2)\<rparr>))
                (\<lambda>db3. Inr (True, db3))))"

definition v10_admin_rollback_embedding_generation ::
  "env \<Rightarrow> time \<Rightarrow> caller \<Rightarrow> uuid \<Rightarrow> db \<Rightarrow> (sql_error, bool \<times> db) result" where
  "v10_admin_rollback_embedding_generation env now c generation db =
     rbind (v4_require_admin c) (\<lambda>_.
       let current = active_embedding db
       in if \<not> (\<exists>e \<in> set (embedding_generations db). e_id e = generation \<and> e_state e = RETAINED \<and>
                 (case e_retired_at e of None \<Rightarrow> False | Some t \<Rightarrow> now - of_nat (30 * 24 * 60 * 60) \<le> t))
          then Inr (False, db)
          else
            rbind (checked env (db\<lparr>embedding_generations := update_where (\<lambda>e. e_id e = current)
              (\<lambda>e. e\<lparr>e_state := RETAINED, e_retired_at := Some now\<rparr>) (embedding_generations db)\<rparr>)) (\<lambda>db1.
            rbind (checked env (db1\<lparr>embedding_generations := update_where (\<lambda>e. e_id e = generation)
              (\<lambda>e. e\<lparr>e_state := ACTIVE, e_retired_at := None, e_activated_at := Some now\<rparr>) (embedding_generations db1)\<rparr>)) (\<lambda>db2.
            rbind (checked env (db2\<lparr>active_embedding := generation\<rparr>)) (\<lambda>db3.
            Inr (True, append_audit ''embedding_generation_rolled_back'' (Some generation) db3)))))"

definition v10_admin_cleanup_generation ::
  "env \<Rightarrow> caller \<Rightarrow> string \<Rightarrow> uuid \<Rightarrow> db \<Rightarrow> (sql_error, bool \<times> db) result" where
  "v10_admin_cleanup_generation env c kind generation db =
     rbind (v4_require_admin c) (\<lambda>_.
       if kind = ''embedding'' then
         (let hit = (\<lambda>e. e_id e = generation \<and> e_operation e \<noteq> None \<and> e_state e \<in> {RETAINED, ABANDONED} \<and>
                         e_id e \<noteq> active_embedding db)
          in rbind (checked env (delete_embedding_generations hit db))
               (\<lambda>db1. Inr (list_ex hit (embedding_generations db), db1)))
       else if kind = ''document'' then
         (let hit = (\<lambda>g. g_id g = generation \<and> g_operation g \<noteq> None \<and> g_state g \<in> {RETAINED, ABANDONED, GEN_FAILED} \<and>
                         \<not> (\<exists>d \<in> set (documents db). d_active_generation d = g_id g))
          in rbind (checked env (delete_generations hit db))
               (\<lambda>db1. Inr (list_ex hit (generations db), db1)))
       else Inl (Raised ''invalid generation type''))"

section \<open>Reindex tasks\<close>

record ReindexClaim =
  rc_operation :: uuid
  rc_generation :: uuid
  rc_chunk :: uuid
  rc_chunk_text :: string
  rc_text_sha256 :: string
  rc_dimension :: int
  rc_embedding_version :: string
  rc_lease_token :: uuid
  rc_fencing_token :: int
  rc_attempt :: int

definition task_claimable :: "db \<Rightarrow> time \<Rightarrow> reindex_task \<Rightarrow> bool" where
  "task_claimable db now t \<longleftrightarrow>
     (\<exists>p \<in> set (operations db). o_id p = t_operation t \<and> o_state p = OP_RUNNING) \<and>
     (t_state t = TASK_QUEUED \<or> t_state t = TASK_RUNNING \<and> sql_le (t_lease_expires_at t) now)"

text \<open>\<open>token\<close> gives the random lease token of a task, by its chunk.\<close>

definition claimed_task :: "time \<Rightarrow> (uuid \<Rightarrow> uuid) \<Rightarrow> string \<Rightarrow> int \<Rightarrow> reindex_task \<Rightarrow> reindex_task" where
  "claimed_task now token owner seconds t =
     t\<lparr>t_state := TASK_RUNNING, t_attempt := t_attempt t + 1, t_lease_owner := Some owner,
       t_lease_token := Some (token (t_chunk t)), t_lease_expires_at := Some (now + of_int seconds),
       t_fencing_token := t_fencing_token t + 1, t_updated_at := now\<rparr>"

definition v10_claim_reindex_tasks ::
  "env \<Rightarrow> time \<Rightarrow> (uuid \<times> uuid) set \<Rightarrow> (uuid \<Rightarrow> uuid) \<Rightarrow> string \<Rightarrow> int \<Rightarrow> int \<Rightarrow> db \<Rightarrow>
   (sql_error, ReindexClaim list \<times> db) result" where
  "v10_claim_reindex_tasks env now locked token owner seconds limit db =
     (if \<not> between (int (length owner)) 1 255 \<or> \<not> between seconds 5 3600 \<or> \<not> between limit 1 32
      then Inl (Raised ''invalid reindex claim'')
      else let candidates = order_limit (\<lambda>t. (t_created_at t, t_chunk t)) (nat limit)
                 (filter (\<lambda>t. task_claimable db now t \<and> (t_operation t, t_chunk t) \<notin> locked) (tasks db));
               picked = set (map (\<lambda>t. (t_operation t, t_chunk t)) candidates)
           in rbind (checked env (db\<lparr>tasks := update_where (\<lambda>t. (t_operation t, t_chunk t) \<in> picked)
                  (claimed_task now token owner seconds) (tasks db)\<rparr>)) (\<lambda>db1.
              Inr ([\<lparr>rc_operation = t_operation t, rc_generation = t_generation t, rc_chunk = t_chunk t,
                     rc_chunk_text = s_text (c_source c), rc_text_sha256 = s_text_sha256 (c_source c),
                     rc_dimension = e_dimension e, rc_embedding_version = e_embedding_version e,
                     rc_lease_token = token (t_chunk t), rc_fencing_token = t_fencing_token t + 1,
                     rc_attempt = t_attempt t + 1\<rparr>.
                   t \<leftarrow> candidates, c \<leftarrow> chunks db, c_id c = t_chunk t,
                   e \<leftarrow> embedding_generations db, e_id e = t_generation t], db1)))"

definition holds_task :: "uuid \<Rightarrow> uuid \<Rightarrow> uuid \<Rightarrow> int \<Rightarrow> reindex_task \<Rightarrow> bool" where
  "holds_task operation chunk token fence t \<longleftrightarrow>
     t_operation t = operation \<and> t_chunk t = chunk \<and> t_state t = TASK_RUNNING \<and> sql_eq (t_lease_token t) token \<and>
     t_fencing_token t = fence"

text \<open>\<open>INSERT ... ON CONFLICT (embedding_generation_id, chunk_id) DO UPDATE\<close>.\<close>

definition upsert_embedding :: "chunk_embedding \<Rightarrow> chunk_embedding list \<Rightarrow> chunk_embedding list" where
  "upsert_embedding v rows =
     (if \<exists>r \<in> set rows. v_generation r = v_generation v \<and> v_chunk r = v_chunk v
      then update_where (\<lambda>r. v_generation r = v_generation v \<and> v_chunk r = v_chunk v)
             (\<lambda>r. r\<lparr>v_embedding := v_embedding v, v_dimension := v_dimension v, v_text_sha256 := v_text_sha256 v,
                    v_provenance := v_provenance v, v_created_at := v_created_at v\<rparr>) rows
      else rows @ [v])"

definition finish_task_row :: "time \<Rightarrow> uuid \<Rightarrow> uuid \<Rightarrow> reindex_task list \<Rightarrow> reindex_task list" where
  "finish_task_row now operation chunk =
     update_where (\<lambda>t. t_operation t = operation \<and> t_chunk t = chunk)
       (\<lambda>t. t\<lparr>t_state := TASK_COMPLETED, t_error := None, t_lease_owner := None, t_lease_token := None,
              t_lease_expires_at := None, t_updated_at := now\<rparr>)"

definition v10_commit_reindex_task ::
  "env \<Rightarrow> time \<Rightarrow> uuid \<Rightarrow> uuid \<Rightarrow> uuid \<Rightarrow> int \<Rightarrow> vector \<Rightarrow> db \<Rightarrow> (sql_error, bool \<times> db) result" where
  "v10_commit_reindex_task env now operation chunk token fence embedding db =
     (case List.find (\<lambda>t. holds_task operation chunk token fence t \<and> sql_gt (t_lease_expires_at t) now) (tasks db) of
        None \<Rightarrow> Inr (False, db)
      | Some t \<Rightarrow>
          if \<not> (\<exists>p \<in> set (operations db). o_id p = operation \<and> o_state p = OP_RUNNING) then Inr (False, db)
          else rbind (select_strict (\<lambda>e. e_id e = t_generation t \<and> e_state e = BUILDING) (embedding_generations db)) (\<lambda>e.
               rbind (select_strict (\<lambda>c. c_id c = chunk) (chunks db)) (\<lambda>src.
               if int (length embedding) \<noteq> e_dimension e then Inl (Raised ''candidate embedding dimension mismatch'')
               else
                 rbind (checked env (db\<lparr>chunk_embeddings := upsert_embedding
                   \<lparr>v_generation = e_id e, v_chunk = c_id src, v_document_generation = c_generation src,
                    v_dimension = e_dimension e, v_embedding = embedding, v_text_sha256 = s_text_sha256 (c_source src),
                    v_provenance = provenance env (c_id src) (s_text_sha256 (c_source src)) (c_generation src)
                      (e_embedding_version e), v_created_at = now\<rparr> (chunk_embeddings db)\<rparr>)) (\<lambda>db1.
                 rbind (checked env (db1\<lparr>tasks := finish_task_row now operation chunk (tasks db1)\<rparr>)) (\<lambda>db2.
                 let own = filter (\<lambda>t. t_operation t = operation) (tasks db2);
                     finished = length (filter (\<lambda>t. t_state t = TASK_COMPLETED) own)
                 in rbind (checked env (db2\<lparr>operations := update_where (\<lambda>p. o_id p = operation)
                      (\<lambda>p. p\<lparr>o_completed_chunks := int finished,
                             o_state := (if finished = length own then OP_QUALIFYING else o_state p),
                             o_stage := (if finished = length own then ''qualifying'' else o_stage p),
                             o_updated_at := now\<rparr>) (operations db2)\<rparr>)) (\<lambda>db3. Inr (True, db3)))))))"

definition v10_fail_reindex_task ::
  "env \<Rightarrow> time \<Rightarrow> uuid \<Rightarrow> uuid \<Rightarrow> uuid \<Rightarrow> int \<Rightarrow> string \<Rightarrow> db \<Rightarrow> (sql_error, bool \<times> db) result" where
  "v10_fail_reindex_task env now operation chunk token fence err db =
     (case List.find (holds_task operation chunk token fence) (tasks db) of
        None \<Rightarrow> Inr (False, db)
      | Some t \<Rightarrow>
          rbind (checked env (db\<lparr>tasks := update_where (holds_task operation chunk token fence)
            (\<lambda>r. r\<lparr>t_state := (if t_attempt r < 3 then TASK_QUEUED else TASK_FAILED),
                   t_error := Some (take 500 (btrim err)), t_lease_owner := None, t_lease_token := None,
                   t_lease_expires_at := None, t_updated_at := now\<rparr>) (tasks db)\<rparr>)) (\<lambda>db1.
          if t_attempt t < 3 then Inr (True, db1)
          else
            rbind (checked env (db1\<lparr>embedding_generations := update_where (\<lambda>e. e_operation e = Some operation)
              (\<lambda>e. e\<lparr>e_state := ABANDONED, e_retired_at := Some now\<rparr>) (embedding_generations db1)\<rparr>)) (\<lambda>db2.
            rbind (checked env (db2\<lparr>operations := update_where (\<lambda>p. o_id p = operation)
              (\<lambda>p. p\<lparr>o_state := OP_FAILED, o_stage := ''failed'', o_reason := Some ''embedding_task_failed'',
                     o_finished_at := Some now, o_updated_at := now\<rparr>) (operations db2)\<rparr>))
              (\<lambda>db3. Inr (True, db3)))))"

section \<open>Qualification and cutover\<close>

record QualificationClaim =
  qc_operation :: uuid
  qc_generation :: uuid
  qc_dimension :: int
  qc_lease_token :: uuid
  qc_fencing_token :: int

definition v10_claim_reindex_qualification ::
  "env \<Rightarrow> time \<Rightarrow> uuid set \<Rightarrow> uuid \<Rightarrow> string \<Rightarrow> int \<Rightarrow> db \<Rightarrow> (sql_error, QualificationClaim option \<times> db) result" where
  "v10_claim_reindex_qualification env now locked token owner seconds db =
     (if \<not> between (int (length owner)) 1 255 \<or> \<not> between seconds 5 3600
      then Inl (Raised ''invalid qualification claim'')
      else case order_limit o_created_at 1 (filter (\<lambda>p. o_type p = REINDEX \<and> o_state p = OP_QUALIFYING \<and>
                  (o_lease_token p = None \<or> sql_le (o_lease_expires_at p) now) \<and> o_id p \<notin> locked) (operations db)) of
             [] \<Rightarrow> Inr (None, db)
           | p # _ \<Rightarrow>
               (case List.find (\<lambda>e. o_generation p = Some (e_id e)) (embedding_generations db) of
                  None \<Rightarrow> Inr (None, db)
                | Some e \<Rightarrow>
                    rbind (checked env (db\<lparr>operations := update_where (\<lambda>q. o_id q = o_id p)
                      (\<lambda>q. q\<lparr>o_lease_owner := Some owner, o_lease_token := Some token,
                             o_lease_expires_at := Some (now + of_int seconds),
                             o_fencing_token := o_fencing_token q + 1, o_updated_at := now\<rparr>) (operations db)\<rparr>))
                    (\<lambda>db1. Inr (Some \<lparr>qc_operation = o_id p, qc_generation = e_id e, qc_dimension = e_dimension e,
                        qc_lease_token = token, qc_fencing_token = o_fencing_token p + 1\<rparr>, db1))))"

definition v10_reindex_qualification_sample :: "uuid \<Rightarrow> db \<Rightarrow> chunk_row list" where
  "v10_reindex_qualification_sample operation db =
     order_limit (\<lambda>c. c_id c) 2
       [c. p \<leftarrow> operations db, o_id p = operation \<and> o_state p = OP_QUALIFYING,
           t \<leftarrow> tasks db, t_operation t = o_id p \<and> t_state t = TASK_COMPLETED,
           c \<leftarrow> chunks db, c_id c = t_chunk t]"

text \<open>
  Its query orders by the uncast embedding, which no index covers (\<open>ix_chunk_embeddings_1024_hnsw\<close> is over the
  cast to 1024 dimensions), so it reads every embedding of the generation.
\<close>

definition v10_candidate_retrieve ::
  "(vector \<Rightarrow> vector \<Rightarrow> rat) \<Rightarrow> uuid \<Rightarrow> vector \<Rightarrow> int \<Rightarrow> db \<Rightarrow> (sql_error, (uuid \<times> rat) list) result" where
  "v10_candidate_retrieve distance operation query limit db =
     rbind (select_strict (\<lambda>p. o_id p = operation \<and> o_state p = OP_QUALIFYING) (operations db)) (\<lambda>p.
     rbind (select_strict (\<lambda>e. o_generation p = Some (e_id e)) (embedding_generations db)) (\<lambda>e.
     if \<not> between limit 1 20 \<or> int (length query) \<noteq> e_dimension e
     then Inl (Raised ''invalid candidate retrieval request'')
     else Inr (map (\<lambda>v. (v_chunk v, distance (v_embedding v) query))
       (order_limit (\<lambda>v. distance (v_embedding v) query) (nat limit)
         (filter (\<lambda>v. v_generation v = e_id e) (chunk_embeddings db))))))"

text \<open>The content of search changed since the operation started.\<close>

definition source_changed :: "uuid \<Rightarrow> db \<Rightarrow> bool" where
  "source_changed operation db \<longleftrightarrow>
     set (map t_chunk (filter (\<lambda>t. t_operation t = operation) (tasks db))) \<noteq> set (map c_id (ready_chunks db))"

definition candidate_rows :: "uuid \<Rightarrow> db \<Rightarrow> (chunk_embedding \<times> chunk_row) list" where
  "candidate_rows generation db =
     [(v, c). v \<leftarrow> chunk_embeddings db, v_generation v = generation, c \<leftarrow> chunks db, c_id c = v_chunk v]"

definition provenance_row_ok :: "env \<Rightarrow> embedding_generation \<Rightarrow> chunk_embedding \<times> chunk_row \<Rightarrow> bool" where
  "provenance_row_ok env e = (\<lambda>(v, c).
     v_dimension v = e_dimension e \<and> int (length (v_embedding v)) = e_dimension e \<and>
     v_text_sha256 v = s_text_sha256 (c_source c) \<and> v_document_generation v = c_generation c \<and>
     v_provenance v = provenance env (c_id c) (s_text_sha256 (c_source c)) (c_generation c) (e_embedding_version e))"

definition fail_qualification ::
  "env \<Rightarrow> time \<Rightarrow> uuid \<Rightarrow> uuid \<Rightarrow> (string \<times> bool) list \<Rightarrow> string \<Rightarrow> db \<Rightarrow> (sql_error, bool \<times> db) result" where
  "fail_qualification env now operation generation result reason db =
     rbind (checked env (db\<lparr>embedding_generations := update_where (\<lambda>e. e_id e = generation)
       (\<lambda>e. e\<lparr>e_state := ABANDONED, e_retired_at := Some now, e_qualification := result\<rparr>) (embedding_generations db)\<rparr>)) (\<lambda>db1.
     rbind (checked env (db1\<lparr>operations := update_where (\<lambda>p. o_id p = operation)
       (\<lambda>p. p\<lparr>o_state := OP_FAILED, o_stage := ''failed'',
              o_reason := Some (take 128 (if reason = [] then ''candidate_qualification_failed'' else reason)),
              o_qualification := result, o_finished_at := Some now, o_lease_owner := None, o_lease_token := None,
              o_lease_expires_at := None, o_updated_at := now\<rparr>) (operations db1)\<rparr>)) (\<lambda>db2. Inr (True, db2)))"

definition cutover ::
  "env \<Rightarrow> time \<Rightarrow> uuid \<Rightarrow> embedding_generation \<Rightarrow> db \<Rightarrow> (sql_error, bool \<times> db) result" where
  "cutover env now operation e db =
     (let result = map (\<lambda>k. (k, True)) [''source_unchanged'', ''count_parity'', ''provenance'', ''dimensions'', ''retrieval'',
                     ''rerank'', ''citation'', ''insufficient_context'']
      in rbind (checked env (db\<lparr>embedding_generations := update_where (\<lambda>r. e_id r = active_embedding db)
           (\<lambda>r. r\<lparr>e_state := RETAINED, e_retired_at := Some now\<rparr>) (embedding_generations db)\<rparr>)) (\<lambda>db1.
         rbind (checked env (db1\<lparr>embedding_generations := update_where (\<lambda>r. e_id r = e_id e)
           (\<lambda>r. r\<lparr>e_state := ACTIVE, e_qualified_at := Some now, e_activated_at := Some now, e_retired_at := None,
                  e_qualification := result\<rparr>) (embedding_generations db1)\<rparr>)) (\<lambda>db2.
         rbind (checked env (db2\<lparr>active_embedding := e_id e\<rparr>)) (\<lambda>db3.
         rbind (checked env (db3\<lparr>documents := update_where (\<lambda>d. d_state d = READY)
           (\<lambda>d. d\<lparr>d_embedding_version := e_embedding_version e, d_updated_at := now\<rparr>) (documents db3)\<rparr>)) (\<lambda>db4.
         rbind (checked env (db4\<lparr>operations := update_where (\<lambda>p. o_id p = operation)
           (\<lambda>p. p\<lparr>o_state := OP_SUCCEEDED, o_stage := ''succeeded'', o_reason := None, o_qualification := result,
                  o_completed_documents := o_total_documents p, o_completed_chunks := o_total_chunks p,
                  o_finished_at := Some now, o_lease_owner := None, o_lease_token := None,
                  o_lease_expires_at := None, o_updated_at := now\<rparr>) (operations db4)\<rparr>)) (\<lambda>db5.
         Inr (True, append_audit ''embedding_generation_cutover'' (Some (e_id e)) db5)))))))"

definition v10_complete_reindex_qualification ::
  "env \<Rightarrow> time \<Rightarrow> uuid \<Rightarrow> uuid \<Rightarrow> int \<Rightarrow> bool \<Rightarrow> bool \<Rightarrow> bool \<Rightarrow> bool \<Rightarrow> string \<Rightarrow> db \<Rightarrow> (sql_error, bool \<times> db) result" where
  "v10_complete_reindex_qualification env now operation token fence retrieval rerank citation insufficient reason db =
     (case List.find (\<lambda>p. o_id p = operation \<and> o_state p = OP_QUALIFYING \<and> sql_eq (o_lease_token p) token \<and>
                          o_fencing_token p = fence \<and> sql_gt (o_lease_expires_at p) now) (operations db) of
        None \<Rightarrow> Inr (False, db)
      | Some p \<Rightarrow>
          rbind (select_strict (\<lambda>e. o_generation p = Some (e_id e)) (embedding_generations db)) (\<lambda>e.
            let rows = candidate_rows (e_id e) db;
                parity = (int (length rows) = o_total_chunks p);
                proven = (rows \<noteq> [] \<and> list_all (provenance_row_ok env e) rows)
            in if source_changed operation db \<or> \<not> parity \<or> \<not> proven \<or> \<not> retrieval \<or> \<not> rerank \<or> \<not> citation \<or> \<not> insufficient
               then fail_qualification env now operation (e_id e)
                      [(''source_unchanged'', \<not> source_changed operation db), (''count_parity'', parity),
                       (''provenance'', proven), (''retrieval'', retrieval), (''rerank'', rerank),
                       (''citation'', citation), (''insufficient_context'', insufficient)] reason db
               else cutover env now operation e db))"

end
