(* ===== verification/SearchIndex.thy ===== *)
theory SearchIndex
  imports Reindexing
begin

text \<open>
  Every document that is ready can be found: the invariant of the database behind search, over
  all interleavings of the contracts of ingestion, administration and the reprocessing
  worker, short of a rollback of the active generation of embeddings.
\<close>

section \<open>The invariant\<close>

definition indexed :: "db \<Rightarrow> chunk_row \<Rightarrow> bool" where
  "indexed db c \<longleftrightarrow> (\<exists>v \<in> set (chunk_embeddings db). v_generation v = active_embedding db \<and> v_chunk v = c_id c \<and>
     (\<forall>e \<in> set (embedding_generations db). e_id e = active_embedding db \<longrightarrow> v_dimension v = e_dimension e))"

definition searchable :: "db \<Rightarrow> bool" where
  "searchable db \<longleftrightarrow> (\<forall>c \<in> set (ready_chunks db). indexed db c)"

definition active_unique :: "db \<Rightarrow> bool" where
  "active_unique db \<longleftrightarrow> (\<forall>e \<in> set (embedding_generations db). e_state e = ACTIVE \<longleftrightarrow> e_id e = active_embedding db)"

definition generations_owned :: "db \<Rightarrow> bool" where
  "generations_owned db \<longleftrightarrow> (\<forall>e \<in> set (embedding_generations db). \<forall>p \<in> set (operations db).
     (e_operation e = Some (o_id p) \<longleftrightarrow> o_generation p = Some (e_id e)) \<and>
     (e_operation e = Some (o_id p) \<longrightarrow> o_type p = REINDEX \<and> (e_state e \<in> {ACTIVE, RETAINED} \<longrightarrow> o_state p = OP_SUCCEEDED)))"

definition tasks_owned :: "db \<Rightarrow> bool" where
  "tasks_owned db \<longleftrightarrow> (\<forall>t \<in> set (tasks db). \<forall>p \<in> set (operations db). o_id p = t_operation t \<longrightarrow>
     o_type p = REINDEX \<and> o_generation p = Some (t_generation t) \<and>
     (o_state p \<in> {OP_QUALIFYING, OP_SUCCEEDED} \<longrightarrow> t_state t = TASK_COMPLETED))"

definition completed_indexed :: "db \<Rightarrow> bool" where
  "completed_indexed db \<longleftrightarrow> (\<forall>t \<in> set (tasks db). t_state t = TASK_COMPLETED \<longrightarrow>
     (\<exists>v \<in> set (chunk_embeddings db). v_generation v = t_generation t \<and> v_chunk v = t_chunk t))"

definition jobs_owned :: "db \<Rightarrow> bool" where
  "jobs_owned db \<longleftrightarrow> (\<forall>j \<in> set (jobs db). \<forall>p \<in> set (operations db). j_operation j = Some (o_id p) \<longrightarrow> o_type p = REINGESTION)"

text \<open>An embedding names the document generation of its chunk.\<close>

definition embeddings_located :: "db \<Rightarrow> bool" where
  "embeddings_located db \<longleftrightarrow> (\<forall>v \<in> set (chunk_embeddings db). \<forall>c \<in> set (chunks db).
     c_id c = v_chunk v \<longrightarrow> v_document_generation v = c_generation c)"

definition index_core :: "db \<Rightarrow> bool" where
  "index_core db \<longleftrightarrow> searchable db \<and> active_unique db \<and> generations_owned db \<and>
     tasks_owned db \<and> completed_indexed db \<and> jobs_owned db \<and> embeddings_located db"

definition index_inv :: "env \<Rightarrow> db \<Rightarrow> bool" where
  "index_inv env db \<longleftrightarrow> consistent env db \<and> index_core db"

lemma index_coreI:
  "searchable db \<Longrightarrow> active_unique db \<Longrightarrow> generations_owned db \<Longrightarrow>
   tasks_owned db \<Longrightarrow> completed_indexed db \<Longrightarrow> jobs_owned db \<Longrightarrow> embeddings_located db \<Longrightarrow> index_core db"
  by (simp add: index_core_def)

lemma index_invI:
  "consistent env db \<Longrightarrow> searchable db \<Longrightarrow> active_unique db \<Longrightarrow> generations_owned db \<Longrightarrow>
   tasks_owned db \<Longrightarrow> completed_indexed db \<Longrightarrow> jobs_owned db \<Longrightarrow> embeddings_located db \<Longrightarrow> index_inv env db"
  by (simp add: index_inv_def index_core_def)

lemma index_invD:
  assumes "index_inv env db"
  shows "consistent env db" "searchable db" "active_unique db" "generations_owned db" "tasks_owned db"
    "completed_indexed db" "jobs_owned db" "embeddings_located db"
  using assms by (simp_all add: index_inv_def index_core_def)

lemma initial_index_inv: "index_inv env (initial_db now g)"
  by (rule index_invI, rule initial_db_consistent)
     (simp_all add: searchable_def active_unique_def generations_owned_def tasks_owned_def
        completed_indexed_def jobs_owned_def embeddings_located_def ready_chunks_def initial_db_def)

section \<open>Frames\<close>

text \<open>
  The generations search uses: the active generations of the documents that are ready.
\<close>

definition live_generations :: "db \<Rightarrow> uuid set" where
  "live_generations db = d_active_generation ` {d \<in> set (documents db). d_state d = READY}"

lemma set_ready_chunks: "set (ready_chunks db) = {c \<in> set (chunks db). c_generation c \<in> live_generations db}"
  by (auto simp: ready_chunks_def live_generations_def)

text \<open>The part of the database that the embeddings depend on.\<close>

definition same_index :: "db \<Rightarrow> db \<Rightarrow> bool" where
  "same_index db db' \<longleftrightarrow>
     chunks db' = chunks db \<and> embedding_generations db' = embedding_generations db \<and>
     active_embedding db' = active_embedding db \<and> chunk_embeddings db' = chunk_embeddings db \<and>
     tasks db' = tasks db"

lemma searchable_mono:
  assumes "searchable db" "same_index db db'" "live_generations db' \<subseteq> live_generations db"
  shows "searchable db'"
  using assms by (auto simp: searchable_def set_ready_chunks same_index_def indexed_def)

text \<open>A step that leaves embeddings and operations alone and adds no job of an operation keeps the invariant.\<close>

lemma index_core_frame:
  assumes "index_core db" "same_index db db'" "operations db' = operations db"
    "live_generations db' \<subseteq> live_generations db"
    "\<And>j p. j \<in> set (jobs db') \<Longrightarrow> j_operation j = Some p \<Longrightarrow> \<exists>k \<in> set (jobs db). j_operation k = Some p"
  shows "index_core db'"
proof (rule index_coreI)
  have inv: "searchable db" "active_unique db" "generations_owned db" "tasks_owned db"
    "completed_indexed db" "jobs_owned db" "embeddings_located db" using assms(1) by (simp_all add: index_core_def)
  show "searchable db'" using inv(1) assms(2,4) by (rule searchable_mono)
  show "jobs_owned db'" using inv(6) assms(3,5) unfolding jobs_owned_def by metis
  show "active_unique db'" "generations_owned db'" "tasks_owned db'" "completed_indexed db'" "embeddings_located db'"
    using inv assms(2,3)
    by (simp_all add: same_index_def active_unique_def generations_owned_def tasks_owned_def completed_indexed_def
        embeddings_located_def)
qed

lemma index_inv_frame:
  assumes "index_inv env db" "consistent env db'" "same_index db db'" "operations db' = operations db"
    "live_generations db' \<subseteq> live_generations db"
    "\<And>j p. j \<in> set (jobs db') \<Longrightarrow> j_operation j = Some p \<Longrightarrow> \<exists>k \<in> set (jobs db). j_operation k = Some p"
  shows "index_inv env db'"
  using assms index_core_frame [of db db'] by (simp add: index_inv_def)

lemma live_generations_update:
  assumes "\<And>d. p d \<Longrightarrow> d_state (f d) \<noteq> READY \<or> d_state d = READY \<and> d_active_generation (f d) = d_active_generation d"
  shows "live_generations (db\<lparr>documents := update_where p f (documents db)\<rparr>) \<subseteq> live_generations db"
  using assms by (fastforce simp: live_generations_def in_update_where)

lemma live_generations_cong: "documents db' = documents db \<Longrightarrow> live_generations db' = live_generations db"
  by (simp add: live_generations_def)

lemma append_audit_simps [simp]:
  "documents (append_audit ev x db) = documents db" "jobs (append_audit ev x db) = jobs db"
  "chunks (append_audit ev x db) = chunks db" "embedding_generations (append_audit ev x db) = embedding_generations db"
  "active_embedding (append_audit ev x db) = active_embedding db" "chunk_embeddings (append_audit ev x db) = chunk_embeddings db"
  "tasks (append_audit ev x db) = tasks db" "operations (append_audit ev x db) = operations db"
  "consistent env (append_audit ev x db) = consistent env db"
  by (simp_all add: append_audit_def consistent_def check_ok_def unique_ok_def foreign_ok_def)

section \<open>Ingestion\<close>

text \<open>Statements that change the rows of jobs, but not the operations they belong to.\<close>

lemma checked_jobs:
  assumes "checked env (db\<lparr>jobs := update_where p f (jobs db)\<rparr>) = Inr db1" "index_inv env db"
    "\<And>j. j_operation (f j) = j_operation j"
  shows "index_inv env db1"
  by (rule index_inv_frame [OF assms(2)])
     (use assms(1) in \<open>auto simp: same_index_def live_generations_def in_update_where assms(3) split: if_splits\<close>)

text \<open>Statements that change documents without making one ready.\<close>

lemma checked_documents:
  assumes "checked env (db\<lparr>documents := update_where p f (documents db)\<rparr>) = Inr db1" "index_inv env db"
    "\<And>d. p d \<Longrightarrow> d_state (f d) \<noteq> READY \<or> d_state d = READY \<and> d_active_generation (f d) = d_active_generation d"
  shows "index_inv env db1"
  by (rule index_inv_frame [OF assms(2)])
     (use assms(1) live_generations_update [OF assms(3)] in \<open>auto simp: same_index_def\<close>)

lemma checked_generations:
  assumes "checked env (db\<lparr>generations := gs\<rparr>) = Inr db1" "index_inv env db"
  shows "index_inv env db1"
  by (rule index_inv_frame [OF assms(2)]) (use assms(1) in \<open>auto simp: same_index_def live_generations_def\<close>)

lemma claim_job_inv:
  assumes "index_inv env db" "v4_claim_ingestion_job env now locked token owner seconds db = Inr (r, db')"
  shows "index_inv env db'"
  using assms(2,1) unfolding v4_claim_ingestion_job_def
  by (auto simp: rbind_Inr_iff claimed_job_def simp del: checked_Inr_iff
      split: if_splits list.splits option.splits elim: checked_jobs)

lemma heartbeat_job_inv:
  assumes "index_inv env db" "v4_heartbeat_ingestion_job env now i token fence seconds db = Inr (r, db')"
  shows "index_inv env db'"
  using assms(2,1) by (auto simp: v4_heartbeat_ingestion_job_def Let_def rbind_Inr_iff simp del: checked_Inr_iff elim: checked_jobs)

lemma requeue_inv:
  assumes "index_inv env db" "v4_requeue_ingestion_job env now i token fence available db = Inr (r, db')"
  shows "index_inv env db'"
  using assms(2,1) by (auto simp: v4_requeue_ingestion_job_def Let_def rbind_Inr_iff simp del: checked_Inr_iff elim: checked_jobs)

lemma progress_stage_not_ready: "progress_stage s = Some st \<Longrightarrow> st \<noteq> READY"
  by (auto simp: progress_stage_def split: if_splits)

lemma progress_inv:
  assumes "index_inv env db" "v4_update_ingestion_progress env now i token fence stage completed total_units db = Inr (r, db')"
  shows "index_inv env db'"
  using assms(2,1) unfolding v4_update_ingestion_progress_def
  by (auto simp: rbind_Inr_iff simp del: checked_Inr_iff split: if_splits option.splits
      dest: progress_stage_not_ready elim!: checked_documents checked_jobs)

text \<open>Statements that end an operation of re-ingestion.\<close>

lemma checked_reingestion:
  assumes "checked env (db\<lparr>operations := update_where (\<lambda>q. o_id q = i) f (operations db)\<rparr>) = Inr db1" "index_inv env db"
    "\<And>p. p \<in> set (operations db) \<Longrightarrow> o_id p = i \<Longrightarrow> o_type p = REINGESTION"
    "\<And>p. o_id (f p) = o_id p \<and> o_type (f p) = o_type p \<and> o_generation (f p) = o_generation p"
  shows "index_inv env db1"
proof (rule index_invI)
  note inv = index_invD [OF assms(2)]
  have db1: "db1 = db\<lparr>operations := update_where (\<lambda>q. o_id q = i) f (operations db)\<rparr>" and "consistent env db1"
    using assms(1) by simp_all
  then show "consistent env db1" by simp
  show "searchable db1" by (rule searchable_mono [OF inv(2)]) (simp_all add: db1 same_index_def live_generations_def)
  show "active_unique db1" "completed_indexed db1" "embeddings_located db1"
    using inv by (simp_all add: db1 active_unique_def completed_indexed_def embeddings_located_def)
  show "jobs_owned db1" using inv(7) assms(4) by (auto simp: db1 jobs_owned_def in_update_where)
  show "generations_owned db1"
    using inv(4) assms(3,4) unfolding generations_owned_def db1
    by (auto simp: in_update_where) (metis operation_type.distinct(1))+
  show "tasks_owned db1"
    using inv(5) assms(3,4) unfolding tasks_owned_def db1
    by (auto simp: in_update_where) (metis operation_type.distinct(1))+
qed

lemma poison_inv:
  assumes "index_inv env db" "v4_poison_ingestion_job env now i token fence err db = Inr (r, db')"
  shows "index_inv env db'"
proof -
  have reingestion: "o_type q = REINGESTION"
    if "List.find P (jobs db) = Some j" "j_operation j = Some p" "q \<in> set (operations db)" "o_id q = p" for P j p q
    using index_invD(7) [OF assms(1)] find_SomeD [OF that(1)] that(2-4) unfolding jobs_owned_def by blast
  from assms show ?thesis unfolding v4_poison_ingestion_job_def Let_def
    apply (auto simp: rbind_Inr_iff simp del: checked_Inr_iff split: option.splits)
    subgoal for j p db3 db1 db2
      apply (erule checked_reingestion)
        apply (erule checked_documents, erule checked_generations, erule checked_jobs; simp)
       apply (rule reingestion; simp)
      apply simp
      done
    subgoal by (erule checked_documents, erule checked_generations, erule checked_jobs) simp_all
    done
qed

section \<open>Chunks\<close>

lemma delete_chunks_sets:
  assumes "distinct (map c_id (chunks db))"
  shows "set (chunks (delete_chunks p db)) = {c \<in> set (chunks db). \<not> p c}"
    and "v \<in> set (chunk_embeddings db) \<Longrightarrow> c \<in> set (chunks db) \<Longrightarrow> \<not> p c \<Longrightarrow> v_chunk v = c_id c \<Longrightarrow>
      v \<in> set (chunk_embeddings (delete_chunks p db))"
    and "set (tasks (delete_chunks p db)) \<subseteq> set (tasks db)"
    and "v \<in> set (chunk_embeddings db) \<Longrightarrow> t \<in> set (tasks (delete_chunks p db)) \<Longrightarrow> v_chunk v = t_chunk t \<Longrightarrow>
      v \<in> set (chunk_embeddings (delete_chunks p db))"
  using distinct_map_inj [OF assms] by (auto simp: delete_chunks_def Let_def)

lemma delete_chunks_core:
  assumes "index_core db" "distinct (map c_id (chunks db))"
  shows "index_core (delete_chunks p db)"
proof (rule index_coreI)
  have inv: "searchable db" "active_unique db" "generations_owned db" "tasks_owned db"
    "completed_indexed db" "jobs_owned db" "embeddings_located db" using assms(1) by (simp_all add: index_core_def)
  note sets = delete_chunks_sets [OF assms(2)]
  show "searchable (delete_chunks p db)"
    using inv(1) sets(1,2) unfolding searchable_def set_ready_chunks indexed_def live_generations_def
    by simp blast
  show "completed_indexed (delete_chunks p db)" using inv(5) sets(3,4) unfolding completed_indexed_def by (metis subsetD)
  show "tasks_owned (delete_chunks p db)" using inv(4) sets(3) unfolding tasks_owned_def by auto
  show "embeddings_located (delete_chunks p db)"
    using inv(7) sets(1) by (auto simp: embeddings_located_def delete_chunks_def Let_def)
  show "active_unique (delete_chunks p db)" "generations_owned (delete_chunks p db)" "jobs_owned (delete_chunks p db)"
    using inv by (simp_all add: active_unique_def generations_owned_def jobs_owned_def)
qed

lemma delete_chunks_inv:
  assumes "index_inv env db" "checked env (delete_chunks p db) = Inr db1"
  shows "index_inv env db1"
  using assms delete_chunks_core [of db p] by (simp add: index_inv_def consistent_def unique_ok_def)

text \<open>A generation all of whose chunks are indexed may become the active one of a document.\<close>

definition generation_indexed :: "db \<Rightarrow> uuid \<Rightarrow> bool" where
  "generation_indexed db g \<longleftrightarrow> (\<forall>c \<in> set (chunks db). c_generation c = g \<longrightarrow> indexed db c)"

lemma replace_chunks_inv:
  assumes "index_inv env db" "replace_chunks env now j g e payload db = Inr db1"
    "e \<in> set (embedding_generations db)" "e_id e = active_embedding db"
  shows "index_inv env db1" "generation_indexed db1 (g_id g)"
    "documents db1 = documents db" "operations db1 = operations db" "jobs db1 = jobs db"
    "generations db1 = generations db" "active_embedding db1 = active_embedding db"
    "embedding_generations db1 = embedding_generations db"
proof -
  let ?rows = "map (chunk_of_source j g e) payload" and ?vs = "map (embedding_of_source env now g e) payload"
  let ?db0 = "delete_chunks (\<lambda>c. c_generation c = g_id g) db"
  have db1: "db1 = ?db0\<lparr>chunks := chunks ?db0 @ ?rows, chunk_embeddings := chunk_embeddings ?db0 @ ?vs\<rparr>"
    and con: "consistent env db1" and con0: "checked env ?db0 = Inr ?db0"
    using assms(2) by (auto simp: replace_chunks_def Let_def rbind_Inr_iff)
  note inv0 = index_invD [OF delete_chunks_inv [OF assms(1) con0]]
  show frame: "documents db1 = documents db" "operations db1 = operations db" "jobs db1 = jobs db"
    "generations db1 = generations db" "active_embedding db1 = active_embedding db"
    "embedding_generations db1 = embedding_generations db" by (simp_all add: db1)
  have "distinct (map e_id (embedding_generations db))"
    using assms(1) by (simp add: index_inv_def consistent_def unique_ok_def)
  note e_only = distinct_map_inj [OF this _ assms(3)]
  have new: "indexed db1 c" if "c \<in> set ?rows" for c
  proof -
    from that obtain s where s: "s \<in> set payload" "c = chunk_of_source j g e s" unfolding set_map by (rule imageE) simp
    then have "embedding_of_source env now g e s \<in> set (chunk_embeddings db1)" by (simp add: db1)
    then show ?thesis using s(2) assms(4) e_only frame(5,6) unfolding indexed_def
      by (intro bexI [of _ "embedding_of_source env now g e s"]) (auto simp: embedding_of_source_def chunk_of_source_def)
  qed
  have old: "indexed db1 c" if "indexed ?db0 c" for c
    using that unfolding indexed_def by (auto simp: db1)
  have dist: "distinct (map c_id (chunks db))" using assms(1) by (simp add: index_inv_def consistent_def unique_ok_def)
  have chunks: "set (chunks db1) = {c \<in> set (chunks db). c_generation c \<noteq> g_id g} \<union> set ?rows"
    using delete_chunks_sets(1) [OF dist, of "\<lambda>c. c_generation c = g_id g"] by (simp add: db1)
  show "generation_indexed db1 (g_id g)" using new chunks by (auto simp: generation_indexed_def)
  have live: "live_generations db1 = live_generations ?db0" by (simp add: live_generations_def db1)
  show "index_inv env db1"
  proof (rule index_invI [OF con])
    show "searchable db1" using inv0(2) new old unfolding searchable_def set_ready_chunks live by (auto simp: db1)
    show "completed_indexed db1" using inv0(6) unfolding completed_indexed_def by (auto simp: db1)
    show "active_unique db1" "generations_owned db1" "tasks_owned db1" "jobs_owned db1"
      using inv0(3,4,5,7) by (simp_all add: db1 active_unique_def generations_owned_def tasks_owned_def jobs_owned_def)
    have ids: "distinct (map c_id (chunks ?db0 @ ?rows))" using con by (simp add: db1 consistent_def unique_ok_def)
    have old_v: "v_chunk v \<in> c_id ` set (chunks ?db0)" if "v \<in> set (chunk_embeddings ?db0)" for v
      using con0 that by (auto simp: consistent_def foreign_ok_def Let_def list_all_iff)
    have disj: "c_id ` set (chunks ?db0) \<inter> c_id ` set ?rows = {}"
      using ids unfolding map_append distinct_append set_map by blast
    have new_v: "v_document_generation v = g_id g" "v_chunk v \<in> c_id ` set ?rows" if "v \<in> set ?vs" for v
      using that by (auto simp: embedding_of_source_def chunk_of_source_def image_iff)
    have new_c: "c_generation c = g_id g" if "c \<in> set ?rows" for c using that by (auto simp: chunk_of_source_def)
    show "embeddings_located db1" unfolding embeddings_located_def
    proof (intro ballI impI)
      fix v c assume v: "v \<in> set (chunk_embeddings db1)" and c: "c \<in> set (chunks db1)" and eq: "c_id c = v_chunk v"
      consider (oo) "v \<in> set (chunk_embeddings ?db0)" "c \<in> set (chunks ?db0)" | (nn) "v \<in> set ?vs" "c \<in> set ?rows"
        | (on) "v \<in> set (chunk_embeddings ?db0)" "c \<in> set ?rows" | (no) "v \<in> set ?vs" "c \<in> set (chunks ?db0)"
        using v c unfolding db1 by fastforce
      then show "v_document_generation v = c_generation c"
      proof cases
        case oo then show ?thesis using inv0(8) eq unfolding embeddings_located_def by blast
      next
        case nn then show ?thesis using new_v(1) new_c by simp
      next
        case on then show ?thesis using old_v [OF on(1)] disj eq by (metis disjoint_iff imageI)
      next
        case no then show ?thesis using new_v(2) [OF no(1)] disj eq by (metis disjoint_iff imageI)
      qed
    qed
  qed
qed

lemma checked_activate:
  assumes "checked env (db\<lparr>documents := update_where p f (documents db)\<rparr>) = Inr db1" "index_inv env db"
    "generation_indexed db g" "\<And>d. d_active_generation (f d) = g"
  shows "index_inv env db1"
proof -
  have db1: "db1 = db\<lparr>documents := update_where p f (documents db)\<rparr>" and con: "consistent env db1" using assms(1) by simp_all
  note inv = index_invD [OF assms(2)]
  show ?thesis
  proof (rule index_invI [OF con])
    have "live_generations db1 \<subseteq> insert g (live_generations db)"
      using assms(4) by (fastforce simp: db1 live_generations_def in_update_where)
    then show "searchable db1" using inv(2) assms(3) unfolding searchable_def set_ready_chunks generation_indexed_def
      by (auto simp: db1 indexed_def)
    show "active_unique db1" "generations_owned db1" "tasks_owned db1" "completed_indexed db1" "jobs_owned db1"
      "embeddings_located db1"
      using inv by (simp_all add: db1 active_unique_def generations_owned_def tasks_owned_def completed_indexed_def
          jobs_owned_def embeddings_located_def)
  qed
qed

lemma generation_indexed_cong:
  "chunks db' = chunks db \<Longrightarrow> chunk_embeddings db' = chunk_embeddings db \<Longrightarrow> active_embedding db' = active_embedding db \<Longrightarrow>
   embedding_generations db' = embedding_generations db \<Longrightarrow> generation_indexed db' g = generation_indexed db g"
  by (simp add: generation_indexed_def indexed_def)

lemma activate_generation_inv:
  assumes "index_inv env db" "activate_generation env now j g e pages count db = Inr db1" "generation_indexed db (g_id g)"
  shows "index_inv env db1" "operations db1 = operations db" "jobs db1 = jobs db"
proof -
  have step: "index_inv env db'' \<and> generation_indexed db'' (g_id g)"
    if "checked env (db'\<lparr>generations := gs\<rparr>) = Inr db''" "index_inv env db' \<and> generation_indexed db' (g_id g)" for db' db'' gs
    using checked_generations [OF that(1)] that by (auto simp: generation_indexed_def indexed_def)
  obtain doc :: document and dba dbb where a: "(if d_active_generation doc \<noteq> g_id g
        then checked env (db\<lparr>generations := update_where (\<lambda>r. g_id r = d_active_generation doc \<and> g_state r = GEN_READY)
               (\<lambda>r. r\<lparr>g_state := RETAINED, g_retired_at := Some now, g_updated_at := now\<rparr>) (generations db)\<rparr>)
        else Inr db) = Inr dba"
    and b: "checked env (dba\<lparr>generations := update_where (\<lambda>r. g_id r = g_id g)
        (\<lambda>r. r\<lparr>g_state := GEN_READY, g_error := None, g_page_count := Some pages, g_chunk_count := count,
               g_ready_at := Some now, g_retired_at := None, g_updated_at := now\<rparr>) (generations dba)\<rparr>) = Inr dbb"
    and c: "checked env (dbb\<lparr>documents := update_where (\<lambda>d. d_id d = j_document j)
        (\<lambda>d. d\<lparr>d_active_generation := g_id g, d_parser_version := g_parser_version g,
               d_chunking_version := g_chunking_version g, d_embedding_version := e_embedding_version e,
               d_state := READY, d_stage := READY, d_error := None, d_page_count := Some pages,
               d_chunk_count := count, d_updated_at := now\<rparr>) (documents dbb)\<rparr>) = Inr db1"
    using assms(2) unfolding activate_generation_def rbind_Inr_iff by - (elim exE conjE, rule that, assumption+)
  have "index_inv env dba \<and> generation_indexed dba (g_id g)" using a step assms(1,3) by (auto split: if_splits)
  then have "index_inv env dbb" "generation_indexed dbb (g_id g)" using step [OF b] by simp_all
  then show "index_inv env db1" using checked_activate [OF c] by simp
  show "operations db1 = operations db" "jobs db1 = jobs db"
    using assms(2) unfolding activate_generation_def by (auto simp: rbind_Inr_iff split: if_splits)
qed

lemma commit_inv:
  assumes "index_inv env db" "v4_commit_ingestion_job env now i token fence pages payload db = Inr (r, db')"
  shows "index_inv env db'"
proof (cases "db' = db")
  case False
  then have "r" using assms(2) by (rule commit_changes)
  then obtain j g e db1 db2 db3 where
    j: "List.find (holds_lease now i token fence) (jobs db) = Some j" and
    e: "select_strict (\<lambda>e. e_id e = active_embedding db) (embedding_generations db) = Inr e" and
    db1: "replace_chunks env now j g e payload db = Inr db1" and
    db2: "activate_generation env now j g e pages (int (length payload)) db1 = Inr db2" and
    db3: "complete_job env now i (int (length payload)) db2 = Inr db3" and
    db': "case j_operation j of None \<Rightarrow> db' = db3
      | Some p \<Rightarrow> checked env (db3\<lparr>operations := update_where (\<lambda>q. o_id q = p)
          (advance_operation now (int (length payload))) (operations db3)\<rparr>) = Inr db'"
    using assms(2) by (simp, elim commit_cases)
  have "e \<in> set (embedding_generations db)" "e_id e = active_embedding db" using select_strict_Inr [OF e] by simp_all
  note r1 = replace_chunks_inv [OF assms(1) db1 this]
  note r2 = activate_generation_inv [OF r1(1) db2 r1(2)]
  have r3: "index_inv env db3" "operations db3 = operations db"
    using checked_jobs [OF db3 [unfolded complete_job_def] r2(1)] db3 r2(2) r1(4) by (simp_all add: complete_job_def)
  show ?thesis
  proof (cases "j_operation j")
    case (Some p)
    have "o_type q = REINGESTION" if "q \<in> set (operations db3)" "o_id q = p" for q
      using index_invD(7) [OF assms(1)] find_SomeD [OF j] that Some r3(2) unfolding jobs_owned_def by metis
    then show ?thesis using db' Some r3(1)
      by (auto simp del: checked_Inr_iff elim: checked_reingestion simp: advance_operation_def Let_def)
  qed (use db' r3 in simp)
qed (use assms in simp)

section \<open>Documents\<close>

lemma checked_new_jobs:
  assumes "checked env (db\<lparr>jobs := jobs db @ js\<rparr>) = Inr db1" "index_inv env db" "\<And>j. j \<in> set js \<Longrightarrow> j_operation j = None"
  shows "index_inv env db1"
  by (rule index_inv_frame [OF assms(2)]) (use assms(1,3) in \<open>auto simp: same_index_def live_generations_def\<close>)

lemma upload_inv:
  assumes "index_inv env db" "insert_upload env now doc generation job sha filename byte_size key versions db = Inr db'"
  shows "index_inv env db'"
proof -
  have docs: "index_inv env db1"
    if "checked env (db\<lparr>documents := documents db @ [d], generations := gs\<rparr>) = Inr db1" "d_state d = UPLOADED" for d gs db1
    by (rule index_inv_frame [OF assms(1)]) (use that in \<open>auto simp: same_index_def live_generations_def\<close>)
  show ?thesis using assms(2) unfolding insert_upload_def Let_def
    by (auto simp: rbind_Inr_iff new_job_def simp del: checked_Inr_iff elim!: checked_new_jobs docs)
qed

lemma reset_document_inv:
  assumes "index_inv env db" "reset_document env now doc job db = Inr db'"
  shows "index_inv env db'"
  using assms unfolding reset_document_def
  by (auto simp: rbind_Inr_iff new_job_def simp del: checked_Inr_iff
      elim!: checked_new_jobs checked_documents intro: delete_chunks_inv)

lemma append_audit_inv [simp]: "index_inv env (append_audit ev x db) = index_inv env db"
  by (simp add: index_inv_def index_core_def searchable_def ready_chunks_def indexed_def active_unique_def
      generations_owned_def tasks_owned_def completed_indexed_def jobs_owned_def embeddings_located_def)

lemma reingest_inv:
  assumes "index_inv env db" "v4_commit_document_reingest env now snapshot nodes c doc token job db = Inr (r, db')"
  shows "index_inv env db'"
  using assms(2,1) unfolding v4_commit_document_reingest_def
  by (auto simp: rbind_Inr_iff split: if_splits option.splits intro: reset_document_inv)

lemma maintenance_requeue_inv:
  assumes "index_inv env db" "v4_maintenance_requeue_document env now snapshot doc token job retry_only db = Inr (r, db')"
  shows "index_inv env db'"
  using assms(2,1) unfolding v4_maintenance_requeue_document_def
  by (auto simp: rbind_Inr_iff split: if_splits option.splits intro: reset_document_inv)

text \<open>Deleting document generations that no document searches with.\<close>

lemma delete_generations_core:
  assumes "index_core db" "distinct (map c_id (chunks db))"
    "list_all (\<lambda>v. v_chunk v \<in> set (map c_id (chunks db))) (chunk_embeddings db)"
  shows "index_core (delete_generations p db)"
proof -
  let ?gone = "set (map g_id (filter p (generations db)))"
  let ?db1 = "delete_chunks (\<lambda>c. c_generation c \<in> ?gone) db"
  have core: "index_core ?db1" using assms(1,2) by (rule delete_chunks_core)
  have loc: "embeddings_located db" using assms(1) by (simp add: index_core_def)
  have keep: "v \<in> set (chunk_embeddings ?db1) \<Longrightarrow> v_document_generation v \<notin> ?gone" for v
    using assms(3) loc by (auto simp: delete_chunks_def Let_def list_all_iff embeddings_located_def)
  then have "delete_where (\<lambda>v. v_document_generation v \<in> ?gone) (chunk_embeddings ?db1) = chunk_embeddings ?db1"
    by (auto simp: delete_where_def filter_id_conv)
  then have eq: "delete_generations p db =
      ?db1\<lparr>generations := delete_where p (generations ?db1), jobs := delete_where (\<lambda>j. j_target_generation j \<in> ?gone) (jobs ?db1)\<rparr>"
    by (simp add: delete_generations_def Let_def)
  show ?thesis unfolding eq
    by (rule index_core_frame [OF core]) (auto simp: same_index_def live_generations_def)
qed

lemma consistent_embeddings:
  assumes "consistent env db"
  shows "distinct (map c_id (chunks db))" "list_all (\<lambda>v. v_chunk v \<in> set (map c_id (chunks db))) (chunk_embeddings db)"
    "distinct (map e_id (embedding_generations db))" "distinct (map o_id (operations db))"
    "list_all (\<lambda>t. t_operation t \<in> set (map o_id (operations db))) (tasks db)"
  using assms by (auto simp: consistent_def unique_ok_def foreign_ok_def Let_def list_all_iff)

lemma delete_document_inv:
  assumes "index_inv env db" "checked env (delete_document doc db) = Inr db'"
  shows "index_inv env db'"
proof -
  let ?db0 = "delete_chunks (\<lambda>c. c_document c = doc) db"
  note con = consistent_embeddings [OF index_invD(1) [OF assms(1)]]
  have core: "index_core ?db0" using assms(1) con(1) by (simp add: index_inv_def delete_chunks_core)
  have "distinct (map c_id (chunks ?db0))" using con(1) by (simp add: delete_chunks_def Let_def delete_where_def distinct_map_filter)
  moreover have "v_chunk v \<in> set (map c_id (chunks ?db0))" if v: "v \<in> set (chunk_embeddings ?db0)" for v
  proof -
    obtain c where c: "c \<in> set (chunks db)" "c_id c = v_chunk v"
      using con(2) v by (auto simp: delete_chunks_def Let_def list_all_iff)
    then have "c_document c \<noteq> doc" using v by (force simp: delete_chunks_def Let_def image_iff)
    then show ?thesis using c delete_chunks_sets(1) [OF con(1)] by (auto simp: image_iff)
  qed
  then have "list_all (\<lambda>v. v_chunk v \<in> set (map c_id (chunks ?db0))) (chunk_embeddings ?db0)" by (simp add: list_all_iff)
  ultimately have "index_core (delete_generations (\<lambda>g. g_document g = doc) ?db0)" using delete_generations_core core by blast
  then have "index_core (delete_document doc db)" unfolding delete_document_def Let_def
    by (rule index_core_frame) (auto simp: same_index_def live_generations_def)
  then show ?thesis using assms(2) by (simp add: index_inv_def)
qed

section \<open>Operations, generations and tasks\<close>

lemma checked_operations:
  assumes "checked env (db\<lparr>operations := update_where p f (operations db)\<rparr>) = Inr db1" "index_inv env db"
    "\<And>q. o_id (f q) = o_id q \<and> o_type (f q) = o_type q \<and> o_generation (f q) = o_generation q"
    "\<And>q. q \<in> set (operations db) \<Longrightarrow> p q \<Longrightarrow> o_state q = OP_SUCCEEDED \<Longrightarrow> o_state (f q) = OP_SUCCEEDED"
    "\<And>q t. q \<in> set (operations db) \<Longrightarrow> p q \<Longrightarrow> o_state (f q) \<in> {OP_QUALIFYING, OP_SUCCEEDED} \<Longrightarrow>
      t \<in> set (tasks db) \<Longrightarrow> t_operation t = o_id q \<Longrightarrow> t_state t = TASK_COMPLETED"
  shows "index_inv env db1"
proof (rule index_invI)
  note inv = index_invD [OF assms(2)]
  have db1: "db1 = db\<lparr>operations := update_where p f (operations db)\<rparr>" and "consistent env db1" using assms(1) by simp_all
  then show "consistent env db1" by simp
  show "searchable db1" by (rule searchable_mono [OF inv(2)]) (simp_all add: db1 same_index_def live_generations_def)
  show "active_unique db1" "completed_indexed db1" "embeddings_located db1"
    using inv by (simp_all add: db1 active_unique_def completed_indexed_def embeddings_located_def)
  show "jobs_owned db1" using inv(7) assms(3) by (auto simp: db1 jobs_owned_def in_update_where)
  show "generations_owned db1" using inv(4) assms(4) by (auto simp: generations_owned_def db1 in_update_where assms(3) split: if_splits)
  show "tasks_owned db1" unfolding tasks_owned_def
  proof (intro ballI impI)
    fix t q' assume t: "t \<in> set (tasks db1)" and q': "q' \<in> set (operations db1)" and i: "o_id q' = t_operation t"
    obtain q where q: "q \<in> set (operations db)" "q' = (if p q then f q else q)" using q' by (auto simp: db1 in_update_where)
    then have "o_id q = t_operation t" using i assms(3) by (simp split: if_splits)
    then show "o_type q' = REINDEX \<and> o_generation q' = Some (t_generation t) \<and>
        (o_state q' \<in> {OP_QUALIFYING, OP_SUCCEEDED} \<longrightarrow> t_state t = TASK_COMPLETED)"
      using inv(5) assms(3) assms(5) [of q t] t q unfolding tasks_owned_def by (auto simp: db1)
  qed
qed

lemma checked_embedding_generations:
  assumes "checked env (db\<lparr>embedding_generations := update_where p f (embedding_generations db)\<rparr>) = Inr db1" "index_inv env db"
    "\<And>e. e_id (f e) = e_id e \<and> e_operation (f e) = e_operation e \<and> e_dimension (f e) = e_dimension e"
    "\<And>e. e \<in> set (embedding_generations db) \<Longrightarrow> p e \<Longrightarrow> e_state e \<noteq> ACTIVE \<and> e_state (f e) \<notin> {ACTIVE, RETAINED}"
  shows "index_inv env db1"
proof (rule index_invI)
  note inv = index_invD [OF assms(2)]
  have db1: "db1 = db\<lparr>embedding_generations := update_where p f (embedding_generations db)\<rparr>" and "consistent env db1"
    using assms(1) by simp_all
  then show "consistent env db1" by simp
  have keep: "e_id (if p e then f e else e) = e_id e" "e_operation (if p e then f e else e) = e_operation e"
    "e_dimension (if p e then f e else e) = e_dimension e" for e using assms(3) by simp_all
  have "(\<forall>e \<in> set (embedding_generations db1). e_id e = a \<longrightarrow> n = e_dimension e) \<longleftrightarrow>
      (\<forall>e \<in> set (embedding_generations db). e_id e = a \<longrightarrow> n = e_dimension e)" for a n
    by (simp add: db1 ball_update_where keep)
  then have "indexed db1 c" if "indexed db c" for c using that by (simp add: indexed_def db1)
  moreover have "set (ready_chunks db1) = set (ready_chunks db)" by (simp add: set_ready_chunks live_generations_def db1)
  ultimately show "searchable db1" using inv(2) by (simp add: searchable_def)
  show "active_unique db1" using inv(3) assms(4) by (auto simp: active_unique_def db1 in_update_where assms(3) split: if_splits)
  show "generations_owned db1" using inv(4) assms(4) by (auto simp: generations_owned_def db1 in_update_where assms(3) split: if_splits)
  show "tasks_owned db1" "completed_indexed db1" "embeddings_located db1" "jobs_owned db1"
    using inv by (simp_all add: db1 tasks_owned_def completed_indexed_def embeddings_located_def jobs_owned_def)
qed

lemma checked_tasks:
  assumes "checked env (db\<lparr>tasks := update_where p f (tasks db)\<rparr>) = Inr db1" "index_inv env db"
    "\<And>t. t_operation (f t) = t_operation t \<and> t_generation (f t) = t_generation t \<and> t_chunk (f t) = t_chunk t"
    "\<And>t. t \<in> set (tasks db) \<Longrightarrow> p t \<Longrightarrow> t_state t \<noteq> TASK_COMPLETED"
    "\<And>t. t \<in> set (tasks db) \<Longrightarrow> p t \<Longrightarrow> t_state (f t) = TASK_COMPLETED \<Longrightarrow>
      \<exists>v \<in> set (chunk_embeddings db). v_generation v = t_generation t \<and> v_chunk v = t_chunk t"
  shows "index_inv env db1"
proof (rule index_invI)
  note inv = index_invD [OF assms(2)]
  have db1: "db1 = db\<lparr>tasks := update_where p f (tasks db)\<rparr>" and "consistent env db1" using assms(1) by simp_all
  then show "consistent env db1" by simp
  show "tasks_owned db1" unfolding tasks_owned_def
  proof (intro ballI impI)
    fix t' q assume t': "t' \<in> set (tasks db1)" and q: "q \<in> set (operations db1)" and i: "o_id q = t_operation t'"
    obtain t where t: "t \<in> set (tasks db)" "t' = (if p t then f t else t)" using t' by (auto simp: db1 in_update_where)
    then have "o_id q = t_operation t" using i assms(3) by (simp split: if_splits)
    then have "o_type q = REINDEX \<and> o_generation q = Some (t_generation t) \<and>
        (o_state q \<in> {OP_QUALIFYING, OP_SUCCEEDED} \<longrightarrow> t_state t = TASK_COMPLETED)"
      using inv(5) t(1) q unfolding tasks_owned_def by (simp add: db1)
    then show "o_type q = REINDEX \<and> o_generation q = Some (t_generation t') \<and>
        (o_state q \<in> {OP_QUALIFYING, OP_SUCCEEDED} \<longrightarrow> t_state t' = TASK_COMPLETED)"
      using assms(3) assms(4) [OF t(1)] t(2) by auto
  qed
  show "completed_indexed db1"
    using inv(6) assms(3,5) by (fastforce simp: completed_indexed_def db1 in_update_where split: if_splits)
  have "set (ready_chunks db1) = set (ready_chunks db)" by (simp add: set_ready_chunks live_generations_def db1)
  then show "searchable db1" using inv(2) by (simp add: searchable_def indexed_def db1)
  show "active_unique db1" "generations_owned db1" "jobs_owned db1" "embeddings_located db1"
    using inv by (simp_all add: db1 active_unique_def generations_owned_def jobs_owned_def embeddings_located_def)
qed

section \<open>Administration\<close>

lemma checked_unrelated:
  assumes "checked env db2 = Inr db1" "index_inv env db" "same_index db db2" "operations db2 = operations db"
    "documents db2 = documents db" "jobs db2 = jobs db"
  shows "index_inv env db1"
  by (rule index_inv_frame [OF assms(2)]) (use assms(1,3-6) in \<open>auto simp: live_generations_def\<close>)

lemma profile_inv:
  assumes "index_inv env db" "v10_admin_set_ingestion_profile env c random base profile db = Inr (r, db')"
  shows "index_inv env db'"
  using assms(2,1) unfolding v10_admin_set_ingestion_profile_def Let_def
  by (auto simp: rbind_Inr_iff simp del: checked_Inr_iff split: if_splits option.splits simp: same_index_def elim!: checked_unrelated [OF _ assms(1)])

lemma preview_inv:
  assumes "index_inv env db" "v10_admin_preview_reprocessing env now c preview kind profile source db = Inr (r, db')"
  shows "index_inv env db'"
  using assms(2,1) unfolding v10_admin_preview_reprocessing_def Let_def
  by (auto simp: rbind_Inr_iff simp del: checked_Inr_iff split: if_splits simp: same_index_def elim!: checked_unrelated [OF _ assms(1)])

lemma grant_inv:
  assumes "index_inv env db" "v10_admin_issue_reprocessing_grant env now c grant preview digest token_hash db = Inr (r, db')"
  shows "index_inv env db'"
  using assms(2,1) unfolding v10_admin_issue_reprocessing_grant_def
  by (auto simp: rbind_Inr_iff simp del: checked_Inr_iff split: if_splits simp: same_index_def elim!: checked_unrelated [OF _ assms(1)])

lemma pause_inv:
  assumes "index_inv env db" "v10_admin_pause_reprocessing env now c i db = Inr (r, db')"
  shows "index_inv env db'"
  using assms(2,1) unfolding v10_admin_pause_reprocessing_def Let_def
  by (auto simp: rbind_Inr_iff simp del: checked_Inr_iff split: if_splits elim!: checked_operations)

lemma resume_inv:
  assumes "index_inv env db" "v10_admin_resume_reprocessing env now c i db = Inr (r, db')"
  shows "index_inv env db'"
  using assms(2,1) unfolding v10_admin_resume_reprocessing_def Let_def
  by (auto simp: rbind_Inr_iff simp del: checked_Inr_iff split: if_splits elim!: checked_operations)

lemma checked_delete_jobs:
  assumes "checked env (db\<lparr>jobs := delete_where p (jobs db)\<rparr>) = Inr db1" "index_inv env db"
  shows "index_inv env db1"
  by (rule index_inv_frame [OF assms(2)]) (use assms(1) in \<open>auto simp: same_index_def live_generations_def\<close>)

text \<open>Search cannot use the generation of an operation that has not succeeded.\<close>

lemma unfinished_generation:
  assumes "index_inv env db" "p \<in> set (operations db)" "o_state p \<noteq> OP_SUCCEEDED"
    "e \<in> set (embedding_generations db)" "e_operation e = Some (o_id p)"
  shows "e_state e \<notin> {ACTIVE, RETAINED}"
  using index_invD(4) [OF assms(1)] assms(2-5) unfolding generations_owned_def by blast

lemma same_operation:
  assumes "index_inv env db" "p \<in> set (operations db)" "q \<in> set (operations db)" "o_id p = o_id q"
  shows "p = q"
  using distinct_map_inj consistent_embeddings(4) [OF index_invD(1) [OF assms(1)]] assms(2-4) by metis

lemma cancel_operation_inv:
  assumes "index_inv env db" "v10_admin_cancel_reprocessing env now c i db = Inr (r, db')"
  shows "index_inv env db'"
proof (cases "db' = db")
  case False
  obtain p db1 db2 db3 where p: "List.find (\<lambda>p. o_id p = i) (operations db) = Some p" "o_state p \<in> {OP_PAUSED, OP_FAILED}"
    and db1: "checked env (db\<lparr>jobs := delete_where (\<lambda>j. j_operation j = Some i \<and>
        j_status j \<in> {JOB_QUEUED, JOB_FAILED, JOB_INTERRUPTED}) (jobs db)\<rparr>) = Inr db1"
    and db2: "checked env (db1\<lparr>generations := update_where
        (\<lambda>g. g_operation g = Some i \<and> g_state g \<in> {BUILDING, GEN_FAILED})
        (\<lambda>g. g\<lparr>g_state := ABANDONED, g_retired_at := Some now, g_updated_at := now\<rparr>) (generations db1)\<rparr>) = Inr db2"
    and db3: "checked env (db2\<lparr>embedding_generations := update_where
        (\<lambda>e. e_operation e = Some i \<and> e_state e \<in> {BUILDING, QUALIFIED})
        (\<lambda>e. e\<lparr>e_state := ABANDONED, e_retired_at := Some now\<rparr>) (embedding_generations db2)\<rparr>) = Inr db3"
    and db4: "checked env (db3\<lparr>operations := update_where (\<lambda>q. o_id q = i)
        (\<lambda>q. q\<lparr>o_state := OP_CANCELLED, o_stage := ''cancelled'', o_reason := Some ''cancelled_by_admin'',
               o_finished_at := Some now, o_updated_at := now\<rparr>) (operations db3)\<rparr>) = Inr db'"
    using assms(2) False unfolding v10_admin_cancel_reprocessing_def
    by (auto simp: rbind_Inr_iff simp del: checked_Inr_iff split: if_splits option.splits)
  have ops: "operations db3 = operations db" using db1 db2 db3 by simp
  have "index_inv env db3"
    by (rule checked_embedding_generations [OF db3 checked_generations [OF db2 checked_delete_jobs [OF db1 assms(1)]]]) auto
  moreover have "o_state q \<noteq> OP_SUCCEEDED" if "q \<in> set (operations db3)" "o_id q = i" for q
    using same_operation [OF assms(1), of q p] find_SomeD [OF p(1)] p(2) that by (auto simp: ops)
  ultimately show ?thesis by (intro checked_operations [OF db4]) auto
qed (use assms in simp)

lemma retry_inv:
  assumes "index_inv env db" "v10_admin_retry_reprocessing env now c i db = Inr (r, db')"
  shows "index_inv env db'"
proof (cases "db' = db")
  case False
  obtain p where p: "List.find (\<lambda>p. o_id p = i) (operations db) = Some p" "o_state p = OP_FAILED"
    using assms(2) False unfolding v10_admin_retry_reprocessing_def
    by (auto simp: rbind_Inr_iff split: if_splits option.splits)
  have i: "p \<in> set (operations db)" "o_id p = i" using find_SomeD [OF p(1)] by simp_all
  have finish: "index_inv env db'"
    if "checked env (db2\<lparr>operations := update_where (\<lambda>q. o_id q = i)
        (\<lambda>q. q\<lparr>o_state := OP_RUNNING, o_stage := ''processing'', o_reason := None, o_failed_documents := 0,
               o_finished_at := None, o_updated_at := now\<rparr>) (operations db2)\<rparr>) = Inr db'"
      "index_inv env db2" "operations db2 = operations db" for db2
  proof (rule checked_operations [OF that(1,2)])
    fix q assume "q \<in> set (operations db2)" "o_id q = i" "o_state q = OP_SUCCEEDED"
    then show "o_state (q\<lparr>o_state := OP_RUNNING, o_stage := ''processing'', o_reason := None, o_failed_documents := 0,
               o_finished_at := None, o_updated_at := now\<rparr>) = OP_SUCCEEDED"
      using same_operation [OF assms(1), of q p] i p(2) that(3) by simp
  qed simp_all
  show ?thesis
  proof (cases "o_type p = REINDEX")
    case True
    obtain db1 db2 where db1: "checked env (db\<lparr>tasks := requeue_failed_tasks now i (tasks db)\<rparr>) = Inr db1"
      and db2: "checked env (db1\<lparr>embedding_generations := update_where (\<lambda>e. e_operation e = Some i)
          (\<lambda>e. e\<lparr>e_state := BUILDING, e_retired_at := None\<rparr>) (embedding_generations db1)\<rparr>) = Inr db2"
      and db': "checked env (db2\<lparr>operations := update_where (\<lambda>q. o_id q = i)
        (\<lambda>q. q\<lparr>o_state := OP_RUNNING, o_stage := ''processing'', o_reason := None, o_failed_documents := 0,
               o_finished_at := None, o_updated_at := now\<rparr>) (operations db2)\<rparr>) = Inr db'"
      using assms(2) False True p unfolding v10_admin_retry_reprocessing_def
      by (auto simp: rbind_Inr_iff simp del: checked_Inr_iff)
    have inv1: "index_inv env db1"
      by (rule checked_tasks [OF db1 [unfolded requeue_failed_tasks_def] assms(1)]) auto
    have "index_inv env db2"
      by (rule checked_embedding_generations [OF db2 inv1])
         (use unfinished_generation [OF assms(1) i(1)] p(2) i(2) db1 in auto)
    then show ?thesis using finish [OF db'] db1 db2 by simp
  next
    case False
    with \<open>db' \<noteq> db\<close> show ?thesis using assms p unfolding v10_admin_retry_reprocessing_def
      by (auto simp: rbind_Inr_iff simp del: checked_Inr_iff intro!: finish elim!: checked_generations checked_jobs) simp_all
  qed
qed (use assms in simp)

lemma delete_embedding_generations_inv:
  assumes "index_inv env db" "checked env (delete_embedding_generations p db) = Inr db1"
    "\<And>e. p e \<Longrightarrow> e_id e \<noteq> active_embedding db"
  shows "index_inv env db1"
proof (rule index_invI)
  note inv = index_invD [OF assms(1)]
  have db1: "db1 = delete_embedding_generations p db" and "consistent env db1" using assms(2) by simp_all
  then show "consistent env db1" by simp
  let ?gone = "set (map e_id (filter p (embedding_generations db)))"
  have sel: "documents db1 = documents db" "chunks db1 = chunks db" "operations db1 = operations db" "jobs db1 = jobs db"
    "active_embedding db1 = active_embedding db"
    "set (embedding_generations db1) = {e \<in> set (embedding_generations db). \<not> p e}"
    "set (chunk_embeddings db1) = {v \<in> set (chunk_embeddings db). v_generation v \<notin> ?gone}"
    "set (tasks db1) = {t \<in> set (tasks db). t_generation t \<notin> ?gone}"
    by (auto simp: db1 delete_embedding_generations_def Let_def)
  have "active_embedding db \<notin> ?gone" by (auto dest: assms(3))
  then have "indexed db1 c" if "indexed db c" for c
  proof -
    obtain v where v: "v \<in> set (chunk_embeddings db)" "v_generation v = active_embedding db" "v_chunk v = c_id c"
      "\<forall>e \<in> set (embedding_generations db). e_id e = active_embedding db \<longrightarrow> v_dimension v = e_dimension e"
      using \<open>indexed db c\<close> unfolding indexed_def by blast
    then have "v \<in> set (chunk_embeddings db1)" using \<open>active_embedding db \<notin> ?gone\<close> by (simp add: sel)
    then show ?thesis unfolding indexed_def by (rule rev_bexI) (use v in \<open>auto simp: sel\<close>)
  qed
  moreover have "set (ready_chunks db1) = set (ready_chunks db)" by (simp add: set_ready_chunks live_generations_def sel)
  ultimately show "searchable db1" using inv(2) by (simp add: searchable_def)
  show "completed_indexed db1" using inv(6) unfolding completed_indexed_def sel by fastforce
  show "active_unique db1" "generations_owned db1" "tasks_owned db1" "jobs_owned db1" "embeddings_located db1"
    using inv(3,4,5,7,8) by (auto simp: active_unique_def generations_owned_def tasks_owned_def jobs_owned_def embeddings_located_def sel)
qed

lemma cleanup_inv:
  assumes "index_inv env db" "v10_admin_cleanup_generation env c kind generation db = Inr (r, db')"
  shows "index_inv env db'"
proof -
  note con = consistent_embeddings [OF index_invD(1) [OF assms(1)]]
  have docs: "index_inv env db1" if "checked env (delete_generations hit db) = Inr db1" for hit db1
    using delete_generations_core [of db hit] con(1,2) that assms(1) by (simp add: index_inv_def)
  have embs: "index_inv env db1"
    if "checked env (delete_embedding_generations (\<lambda>e. e_id e = generation \<and> e_operation e \<noteq> None \<and>
      e_state e \<in> {RETAINED, ABANDONED} \<and> e_id e \<noteq> active_embedding db) db) = Inr db1" for db1
    using delete_embedding_generations_inv [OF assms(1) that] by simp
  show ?thesis using assms(2) unfolding v10_admin_cleanup_generation_def Let_def rbind_Inr_iff
    by (auto simp del: checked_Inr_iff simp: rbind_Inr_iff split: if_splits intro: docs embs [simplified])
qed

section \<open>Reindex tasks\<close>

lemma same_task:
  assumes "index_inv env db" "t \<in> set (tasks db)" "u \<in> set (tasks db)" "t_operation t = t_operation u" "t_chunk t = t_chunk u"
  shows "t = u"
proof -
  have "distinct (map (\<lambda>t. (t_operation t, t_chunk t)) (tasks db))"
    using index_invD(1) [OF assms(1)] by (simp add: consistent_def unique_ok_def)
  from distinct_map_inj [OF this assms(2,3)] show ?thesis using assms(4,5) by simp
qed

lemma claim_tasks_inv:
  assumes "index_inv env db" "v10_claim_reindex_tasks env now locked token owner seconds limit db = Inr (r, db')"
  shows "index_inv env db'"
proof -
  let ?candidates = "order_limit (\<lambda>t. (t_created_at t, t_chunk t)) (nat limit)
      (filter (\<lambda>t. task_claimable db now t \<and> (t_operation t, t_chunk t) \<notin> locked) (tasks db))"
  have up: "checked env (db\<lparr>tasks := update_where (\<lambda>t. (t_operation t, t_chunk t) \<in>
        set (map (\<lambda>t. (t_operation t, t_chunk t)) ?candidates)) (claimed_task now token owner seconds) (tasks db)\<rparr>) = Inr db'"
    using assms(2) unfolding v10_claim_reindex_tasks_def Let_def
    by (auto simp del: checked_Inr_iff simp: rbind_Inr_iff split: if_splits)
  show ?thesis
  proof (rule checked_tasks [OF up assms(1)])
    fix t assume t: "t \<in> set (tasks db)" "(t_operation t, t_chunk t) \<in> set (map (\<lambda>t. (t_operation t, t_chunk t)) ?candidates)"
    then obtain u where u: "u \<in> set ?candidates" "t_operation t = t_operation u" "t_chunk t = t_chunk u" by auto
    then have "u \<in> set (tasks db)" "task_claimable db now u" using order_limit_subset by fastforce+
    then show "t_state t \<noteq> TASK_COMPLETED" using same_task [OF assms(1) t(1)] u(2,3) by (auto simp: task_claimable_def)
  qed (simp_all add: claimed_task_def)
qed

lemma fail_task_inv:
  assumes "index_inv env db" "v10_fail_reindex_task env now operation chunk token fence err db = Inr (r, db')"
  shows "index_inv env db'"
proof (cases "db' = db")
  case False
  obtain t db1 where t: "List.find (holds_task operation chunk token fence) (tasks db) = Some t"
    and db1: "checked env (db\<lparr>tasks := update_where (holds_task operation chunk token fence)
            (\<lambda>r. r\<lparr>t_state := (if t_attempt r < 3 then TASK_QUEUED else TASK_FAILED),
                   t_error := Some (take 500 (btrim err)), t_lease_owner := None, t_lease_token := None,
                   t_lease_expires_at := None, t_updated_at := now\<rparr>) (tasks db)\<rparr>) = Inr db1"
    and rest: "db' = db1 \<or> (\<exists>db2. checked env (db1\<lparr>embedding_generations := update_where (\<lambda>e. e_operation e = Some operation)
              (\<lambda>e. e\<lparr>e_state := ABANDONED, e_retired_at := Some now\<rparr>) (embedding_generations db1)\<rparr>) = Inr db2 \<and>
            checked env (db2\<lparr>operations := update_where (\<lambda>p. o_id p = operation)
              (\<lambda>p. p\<lparr>o_state := OP_FAILED, o_stage := ''failed'', o_reason := Some ''embedding_task_failed'',
                     o_finished_at := Some now, o_updated_at := now\<rparr>) (operations db2)\<rparr>) = Inr db')"
    using assms(2) False unfolding v10_fail_reindex_task_def
    by (auto simp: rbind_Inr_iff simp del: checked_Inr_iff split: if_splits option.splits)
  have inv1: "index_inv env db1"
    by (rule checked_tasks [OF db1 assms(1)]) (auto simp: holds_task_def split: if_splits)
  have t': "t \<in> set (tasks db)" "t_operation t = operation" "t_state t = TASK_RUNNING"
    using find_SomeD [OF t] by (auto simp: holds_task_def)
  have open_op: "o_state q \<noteq> OP_SUCCEEDED" if "q \<in> set (operations db)" "o_id q = operation" for q
    using index_invD(5) [OF assms(1)] t' that unfolding tasks_owned_def by fastforce
  have "\<exists>q \<in> set (operations db). o_id q = operation"
    using consistent_embeddings(5) [OF index_invD(1) [OF assms(1)]] t'(1,2) by (fastforce simp: list_all_iff)
  then have gens: "e_state e \<notin> {ACTIVE, RETAINED}" if "e \<in> set (embedding_generations db)" "e_operation e = Some operation" for e
    using unfinished_generation [OF assms(1)] open_op that by metis
  from rest show ?thesis
  proof (elim disjE exE conjE)
    fix db2 assume db2: "checked env (db1\<lparr>embedding_generations := update_where (\<lambda>e. e_operation e = Some operation)
              (\<lambda>e. e\<lparr>e_state := ABANDONED, e_retired_at := Some now\<rparr>) (embedding_generations db1)\<rparr>) = Inr db2"
      and db': "checked env (db2\<lparr>operations := update_where (\<lambda>p. o_id p = operation)
              (\<lambda>p. p\<lparr>o_state := OP_FAILED, o_stage := ''failed'', o_reason := Some ''embedding_task_failed'',
                     o_finished_at := Some now, o_updated_at := now\<rparr>) (operations db2)\<rparr>) = Inr db'"
    have "index_inv env db2"
      by (rule checked_embedding_generations [OF db2 inv1]) (use gens db1 in auto)
    then show ?thesis by (rule checked_operations [OF db']) (use open_op db1 db2 in auto)
  qed (simp add: inv1)
qed (use assms in simp)

text \<open>Embeddings only grow and keep their place.\<close>

lemma upsert_embedding_keeps:
  "v \<in> set rows \<Longrightarrow> \<exists>w \<in> set (upsert_embedding u rows). v_generation w = v_generation v \<and> v_chunk w = v_chunk v \<and>
     v_document_generation w = v_document_generation v \<and>
     (v_dimension w = v_dimension v \<or> v_generation v = v_generation u \<and> v_dimension w = v_dimension u)"
  unfolding upsert_embedding_def by (auto simp: bex_update_where intro!: rev_bexI)

lemma upsert_embedding_new:
  "\<exists>w \<in> set (upsert_embedding u rows). v_generation w = v_generation u \<and> v_chunk w = v_chunk u"
  unfolding upsert_embedding_def by (auto simp: bex_update_where)

lemma upsert_embedding_only:
  assumes "w \<in> set (upsert_embedding u rows)"
  shows "w = u \<or> (\<exists>v \<in> set rows. v_chunk w = v_chunk v \<and> v_document_generation w = v_document_generation v)"
proof (cases "\<exists>r \<in> set rows. v_generation r = v_generation u \<and> v_chunk r = v_chunk u")
  case True
  then obtain r where "r \<in> set rows" "v_chunk w = v_chunk r \<and> v_document_generation w = v_document_generation r"
    using assms by (auto simp: upsert_embedding_def in_update_where split: if_splits)
  then show ?thesis by blast
next
  case False
  then have "w \<in> set (rows @ [u])" using assms unfolding upsert_embedding_def by (simp only: if_False)
  then show ?thesis by auto
qed

lemma checked_upsert:
  assumes "checked env (db\<lparr>chunk_embeddings := upsert_embedding u (chunk_embeddings db)\<rparr>) = Inr db1" "index_inv env db"
    "e \<in> set (embedding_generations db)" "v_generation u = e_id e" "e_id e \<noteq> active_embedding db"
    "c \<in> set (chunks db)" "v_chunk u = c_id c" "v_document_generation u = c_generation c"
  shows "index_inv env db1"
proof (rule index_invI)
  note inv = index_invD [OF assms(2)]
  have db1: "db1 = db\<lparr>chunk_embeddings := upsert_embedding u (chunk_embeddings db)\<rparr>" and con: "consistent env db1"
    using assms(1) by simp_all
  show "consistent env db1" by (fact con)
  have "indexed db1 x" if ind: "indexed db x" for x
  proof -
    obtain v where v: "v \<in> set (chunk_embeddings db)" "v_generation v = active_embedding db" "v_chunk v = c_id x"
      "\<forall>e \<in> set (embedding_generations db). e_id e = active_embedding db \<longrightarrow> v_dimension v = e_dimension e"
      using ind unfolding indexed_def by blast
    obtain w where w: "w \<in> set (chunk_embeddings db1)" "v_generation w = v_generation v" "v_chunk w = v_chunk v"
      "v_dimension w = v_dimension v"
      using upsert_embedding_keeps [OF v(1), of u] assms(4,5) v(2) by (auto simp: db1)
    have "\<forall>e \<in> set (embedding_generations db1). e_id e = active_embedding db1 \<longrightarrow> v_dimension w = e_dimension e"
      using v(4) w(4) by (simp add: db1)
    then show ?thesis unfolding indexed_def using v(2,3) w(1-3) by (intro bexI [OF _ w(1)]) (simp add: db1)
  qed
  moreover have "set (ready_chunks db1) = set (ready_chunks db)" by (simp add: set_ready_chunks live_generations_def db1)
  ultimately show "searchable db1" using inv(2) by (simp add: searchable_def)
  show "completed_indexed db1" unfolding completed_indexed_def
  proof (intro ballI impI)
    fix t assume "t \<in> set (tasks db1)" "t_state t = TASK_COMPLETED"
    then obtain v where "v \<in> set (chunk_embeddings db)" "v_generation v = t_generation t" "v_chunk v = t_chunk t"
      using inv(6) by (auto simp: completed_indexed_def db1)
    then show "\<exists>v \<in> set (chunk_embeddings db1). v_generation v = t_generation t \<and> v_chunk v = t_chunk t"
      using upsert_embedding_keeps [of v "chunk_embeddings db" u] by (auto simp: db1)
  qed
  have dist: "distinct (map c_id (chunks db))" using inv(1) by (rule consistent_embeddings)
  show "embeddings_located db1" unfolding embeddings_located_def
  proof (intro ballI impI)
    fix w d assume w: "w \<in> set (chunk_embeddings db1)" and d: "d \<in> set (chunks db1)" "c_id d = v_chunk w"
    from w have "w = u \<or> (\<exists>v \<in> set (chunk_embeddings db). v_chunk w = v_chunk v \<and> v_document_generation w = v_document_generation v)"
      by (intro upsert_embedding_only) (simp add: db1)
    then show "v_document_generation w = c_generation d"
    proof
      assume "w = u"
      then have "d = c" using distinct_map_inj [OF dist _ assms(6)] d assms(7) by (simp add: db1)
      then show ?thesis using \<open>w = u\<close> assms(8) by simp
    qed (use inv(8) d in \<open>auto simp: embeddings_located_def db1\<close>)
  qed
  show "active_unique db1" "generations_owned db1" "tasks_owned db1" "jobs_owned db1"
    using inv by (simp_all add: db1 active_unique_def generations_owned_def tasks_owned_def jobs_owned_def)
qed

lemma filter_length_all: "length (filter P xs) = length xs \<Longrightarrow> x \<in> set xs \<Longrightarrow> P x"
  by (metis length_filter_less less_irrefl)

lemma commit_task_inv:
  assumes "index_inv env db" "v10_commit_reindex_task env now operation chunk token fence embedding db = Inr (r, db')"
  shows "index_inv env db'"
proof (cases "db' = db")
  case False
  let ?find = "\<lambda>t. holds_task operation chunk token fence t \<and> sql_gt (t_lease_expires_at t) now"
  let ?u = "\<lambda>e src. \<lparr>v_generation = e_id e, v_chunk = c_id src, v_document_generation = c_generation src,
     v_dimension = e_dimension e, v_embedding = embedding, v_text_sha256 = s_text_sha256 (c_source src),
     v_provenance = provenance env (c_id src) (s_text_sha256 (c_source src)) (c_generation src) (e_embedding_version e),
     v_created_at = now\<rparr>"
  let ?own = "\<lambda>db2. filter (\<lambda>t. t_operation t = operation) (tasks db2)"
  let ?fin = "\<lambda>db2. length (filter (\<lambda>t. t_state t = TASK_COMPLETED) (?own db2))"
  obtain t e src db1 db2 where t: "List.find ?find (tasks db) = Some t"
    and e: "select_strict (\<lambda>e. e_id e = t_generation t \<and> e_state e = BUILDING) (embedding_generations db) = Inr e"
    and src: "select_strict (\<lambda>c. c_id c = chunk) (chunks db) = Inr src"
    and op: "\<exists>p \<in> set (operations db). o_id p = operation \<and> o_state p = OP_RUNNING"
    and db1: "checked env (db\<lparr>chunk_embeddings := upsert_embedding (?u e src) (chunk_embeddings db)\<rparr>) = Inr db1"
    and db2: "checked env (db1\<lparr>tasks := finish_task_row now operation chunk (tasks db1)\<rparr>) = Inr db2"
    and db': "checked env (db2\<lparr>operations := update_where (\<lambda>p. o_id p = operation)
        (\<lambda>p. p\<lparr>o_completed_chunks := int (?fin db2),
               o_state := (if ?fin db2 = length (?own db2) then OP_QUALIFYING else o_state p),
               o_stage := (if ?fin db2 = length (?own db2) then ''qualifying'' else o_stage p),
               o_updated_at := now\<rparr>) (operations db2)\<rparr>) = Inr db'"
    using assms(2) False unfolding v10_commit_reindex_task_def Let_def
    by (auto simp: rbind_Inr_iff simp del: checked_Inr_iff split: if_splits option.splits)
  have t': "t \<in> set (tasks db)" "t_operation t = operation" "t_chunk t = chunk" "t_state t = TASK_RUNNING"
    using find_SomeD [OF t] by (auto simp: holds_task_def)
  have e': "e \<in> set (embedding_generations db)" "e_id e = t_generation t" "e_state e = BUILDING"
    and src': "src \<in> set (chunks db)" "c_id src = chunk" using select_strict_Inr [OF e] select_strict_Inr [OF src] by auto
  have "e_id e \<noteq> active_embedding db" using index_invD(3) [OF assms(1)] e' by (auto simp: active_unique_def)
  then have inv1: "index_inv env db1" by (intro checked_upsert [OF db1 assms(1) e'(1) _ _ src'(1)]) simp_all
  have new: "\<exists>v \<in> set (chunk_embeddings db1). v_generation v = e_id e \<and> v_chunk v = chunk"
    using upsert_embedding_new [of "?u e src" "chunk_embeddings db"] db1 src' by simp
  have one: "u = t" if "u \<in> set (tasks db1)" "t_operation u = operation" "t_chunk u = chunk" for u
    using same_task [OF assms(1), of u t] t' that db1 by simp
  have inv2: "index_inv env db2"
  proof (rule checked_tasks [OF db2 [unfolded finish_task_row_def] inv1])
    fix u assume "u \<in> set (tasks db1)" "t_operation u = operation \<and> t_chunk u = chunk"
    then show "t_state u \<noteq> TASK_COMPLETED" "\<exists>v \<in> set (chunk_embeddings db1). v_generation v = t_generation u \<and> v_chunk v = t_chunk u"
      using one t' new e'(2) by auto
  qed simp
  show ?thesis
  proof (rule checked_operations [OF db' inv2])
    fix q u assume q: "q \<in> set (operations db2)" "o_id q = operation"
    obtain p where p: "p \<in> set (operations db)" "o_id p = operation" "o_state p = OP_RUNNING" using op by blast
    have "operations db2 = operations db" using db1 db2 by simp
    then have "q = p" using same_operation [OF assms(1), of q p] p(1,2) q by simp
    then have "o_state q = OP_RUNNING" using p(3) by simp
    then show "o_state q = OP_SUCCEEDED \<Longrightarrow> o_state (q\<lparr>o_completed_chunks := int (?fin db2),
               o_state := (if ?fin db2 = length (?own db2) then OP_QUALIFYING else o_state q),
               o_stage := (if ?fin db2 = length (?own db2) then ''qualifying'' else o_stage q),
               o_updated_at := now\<rparr>) = OP_SUCCEEDED" by simp
    assume "o_state (q\<lparr>o_completed_chunks := int (?fin db2),
               o_state := (if ?fin db2 = length (?own db2) then OP_QUALIFYING else o_state q),
               o_stage := (if ?fin db2 = length (?own db2) then ''qualifying'' else o_stage q),
               o_updated_at := now\<rparr>) \<in> {OP_QUALIFYING, OP_SUCCEEDED}"
      and u: "u \<in> set (tasks db2)" "t_operation u = o_id q"
    then have "?fin db2 = length (?own db2)" using \<open>o_state q = OP_RUNNING\<close> by (auto split: if_splits)
    then show "t_state u = TASK_COMPLETED" using filter_length_all [of _ "?own db2" u] u q(2) by simp
  qed simp
qed (use assms in simp)

lemma claim_qualification_inv:
  assumes "index_inv env db" "v10_claim_reindex_qualification env now locked token owner seconds db = Inr (r, db')"
  shows "index_inv env db'"
proof (cases "db' = db")
  case False
  then obtain i where up: "checked env (db\<lparr>operations := update_where (\<lambda>q. o_id q = i)
      (\<lambda>q. q\<lparr>o_lease_owner := Some owner, o_lease_token := Some token, o_lease_expires_at := Some (now + of_int seconds),
             o_fencing_token := o_fencing_token q + 1, o_updated_at := now\<rparr>) (operations db)\<rparr>) = Inr db'"
    using assms(2) unfolding v10_claim_reindex_qualification_def
    by (auto simp: rbind_Inr_iff simp del: checked_Inr_iff split: if_splits list.splits option.splits)
  show ?thesis
    by (rule checked_operations [OF up assms(1)])
       (use index_invD(5) [OF assms(1)] in \<open>auto simp: tasks_owned_def\<close>)
qed (use assms in simp)

section \<open>Cutover\<close>

lemma candidate_rows_all:
  assumes "list_all (provenance_row_ok env e) (candidate_rows (e_id e) db)" "v \<in> set (chunk_embeddings db)"
    "v_generation v = e_id e" "c \<in> set (chunks db)" "c_id c = v_chunk v"
  shows "v_dimension v = e_dimension e"
proof -
  have "(v, c) \<in> set (candidate_rows (e_id e) db)" using assms(2-5) by (auto simp: candidate_rows_def)
  then show ?thesis using assms(1) by (auto simp: list_all_iff provenance_row_ok_def)
qed

text \<open>A generation whose tasks are all done and whose sources are unchanged covers all of search.\<close>

lemma qualified_generation_covers:
  assumes "index_inv env db" "p \<in> set (operations db)" "o_id p = operation" "o_state p = OP_QUALIFYING"
    "e \<in> set (embedding_generations db)" "o_generation p = Some (e_id e)" "\<not> source_changed operation db"
    "list_all (provenance_row_ok env e) (candidate_rows (e_id e) db)" "c \<in> set (ready_chunks db)"
  shows "\<exists>v \<in> set (chunk_embeddings db). v_generation v = e_id e \<and> v_chunk v = c_id c \<and> v_dimension v = e_dimension e"
proof -
  note inv = index_invD [OF assms(1)]
  have "c_id c \<in> set (map c_id (ready_chunks db))" using assms(9) by simp
  also have "\<dots> = set (map t_chunk (filter (\<lambda>t. t_operation t = operation) (tasks db)))"
    using assms(7) by (simp add: source_changed_def)
  finally obtain t where t: "t \<in> set (tasks db)" "t_operation t = operation" "t_chunk t = c_id c" by auto
  then have "t_generation t = e_id e" "t_state t = TASK_COMPLETED"
    using inv(5) assms(2-4,6) unfolding tasks_owned_def by fastforce+
  then obtain v where v: "v \<in> set (chunk_embeddings db)" "v_generation v = e_id e" "v_chunk v = c_id c"
    using inv(6) t unfolding completed_indexed_def by metis
  have "c \<in> set (chunks db)" using assms(9) by (simp add: set_ready_chunks)
  then have "v_dimension v = e_dimension e" using candidate_rows_all [OF assms(8) v(1,2)] v(3) by simp
  then show ?thesis using v by blast
qed

definition cut_generation :: "time \<Rightarrow> (string \<times> bool) list \<Rightarrow> uuid \<Rightarrow> uuid \<Rightarrow> embedding_generation \<Rightarrow> embedding_generation" where
  "cut_generation now result old new r =
     (if e_id r = new then r\<lparr>e_state := ACTIVE, e_qualified_at := Some now, e_activated_at := Some now, e_retired_at := None,
                              e_qualification := result\<rparr>
      else if e_id r = old then r\<lparr>e_state := RETAINED, e_retired_at := Some now\<rparr> else r)"

lemma cut_generation_simps [simp]:
  "e_id (cut_generation now result old new r) = e_id r" "e_operation (cut_generation now result old new r) = e_operation r"
  "e_dimension (cut_generation now result old new r) = e_dimension r"
  by (simp_all add: cut_generation_def)

definition succeeded :: "time \<Rightarrow> (string \<times> bool) list \<Rightarrow> reprocessing_operation \<Rightarrow> reprocessing_operation" where
  "succeeded now result p = p\<lparr>o_state := OP_SUCCEEDED, o_stage := ''succeeded'', o_reason := None, o_qualification := result,
     o_completed_documents := o_total_documents p, o_completed_chunks := o_total_chunks p,
     o_finished_at := Some now, o_lease_owner := None, o_lease_token := None,
     o_lease_expires_at := None, o_updated_at := now\<rparr>"

definition QUALIFIED_RESULT :: "(string \<times> bool) list" where
  "QUALIFIED_RESULT = map (\<lambda>k. (k, True)) [''source_unchanged'', ''count_parity'', ''provenance'', ''dimensions'', ''retrieval'',
     ''rerank'', ''citation'', ''insufficient_context'']"

lemma cutover_effect:
  assumes "cutover env now operation e db = Inr (r, db')" "e_id e \<noteq> active_embedding db"
  shows "consistent env db'"
    "db' = append_audit ''embedding_generation_cutover'' (Some (e_id e)) (db\<lparr>
       embedding_generations := map (cut_generation now QUALIFIED_RESULT (active_embedding db) (e_id e)) (embedding_generations db),
       active_embedding := e_id e,
       documents := update_where (\<lambda>d. d_state d = READY)
         (\<lambda>d. d\<lparr>d_embedding_version := e_embedding_version e, d_updated_at := now\<rparr>) (documents db),
       operations := update_where (\<lambda>p. o_id p = operation) (succeeded now QUALIFIED_RESULT) (operations db)\<rparr>)"
proof -
  have "update_where (\<lambda>r. e_id r = e_id e) (\<lambda>r. r\<lparr>e_state := ACTIVE, e_qualified_at := Some now, e_activated_at := Some now,
        e_retired_at := None, e_qualification := QUALIFIED_RESULT\<rparr>)
      (update_where (\<lambda>r. e_id r = active_embedding db) (\<lambda>r. r\<lparr>e_state := RETAINED, e_retired_at := Some now\<rparr>) es) =
      map (cut_generation now QUALIFIED_RESULT (active_embedding db) (e_id e)) es" for es
    using assms(2) by (induction es) (auto simp: update_where_def cut_generation_def)
  then show "consistent env db'"
    "db' = append_audit ''embedding_generation_cutover'' (Some (e_id e)) (db\<lparr>
       embedding_generations := map (cut_generation now QUALIFIED_RESULT (active_embedding db) (e_id e)) (embedding_generations db),
       active_embedding := e_id e,
       documents := update_where (\<lambda>d. d_state d = READY)
         (\<lambda>d. d\<lparr>d_embedding_version := e_embedding_version e, d_updated_at := now\<rparr>) (documents db),
       operations := update_where (\<lambda>p. o_id p = operation) (succeeded now QUALIFIED_RESULT) (operations db)\<rparr>)"
    using assms(1) unfolding cutover_def Let_def QUALIFIED_RESULT_def [symmetric]
    by (auto simp: rbind_Inr_iff succeeded_def [abs_def])
qed

lemma live_generations_same:
  assumes "\<And>d. d_state (f d) = d_state d \<and> d_active_generation (f d) = d_active_generation d"
    "documents db' = update_where p f (documents db)"
  shows "live_generations db' = live_generations db"
proof -
  have "map d_active_generation (filter (\<lambda>d. d_state d = READY) (update_where p f ds)) =
      map d_active_generation (filter (\<lambda>d. d_state d = READY) ds)" for ds
    by (induction ds) (simp_all add: update_where_def assms(1))
  then have "set (map d_active_generation (filter (\<lambda>d. d_state d = READY) (documents db'))) =
      set (map d_active_generation (filter (\<lambda>d. d_state d = READY) (documents db)))" by (simp only: assms(2))
  then show ?thesis by (simp add: live_generations_def)
qed

lemma cutover_inv:
  assumes "index_inv env db" "cutover env now operation e db = Inr (r, db')"
    "p \<in> set (operations db)" "o_id p = operation" "o_state p = OP_QUALIFYING"
    "e \<in> set (embedding_generations db)" "o_generation p = Some (e_id e)" "\<not> source_changed operation db"
    "list_all (provenance_row_ok env e) (candidate_rows (e_id e) db)"
  shows "index_inv env db'"
proof (rule index_invI)
  note inv = index_invD [OF assms(1)]
  have op: "e_operation e = Some operation" using inv(4) assms(3,4,6,7) by (auto simp: generations_owned_def)
  have "e_state e \<notin> {ACTIVE, RETAINED}" using unfinished_generation [OF assms(1,3) _ assms(6)] assms(4,5) op by simp
  then have ne: "e_id e \<noteq> active_embedding db" using inv(3) assms(6) by (auto simp: active_unique_def)
  note eff = cutover_effect [OF assms(2) ne]
  show "consistent env db'" by (fact eff(1))
  have sel: "chunks db' = chunks db" "jobs db' = jobs db" "chunk_embeddings db' = chunk_embeddings db" "tasks db' = tasks db"
    "active_embedding db' = e_id e"
    "embedding_generations db' = map (cut_generation now QUALIFIED_RESULT (active_embedding db) (e_id e)) (embedding_generations db)"
    "operations db' = update_where (\<lambda>p. o_id p = operation) (succeeded now QUALIFIED_RESULT) (operations db)"
    by (simp_all add: eff(2))
  have keep: "o_id (succeeded now x q) = o_id q" "o_type (succeeded now x q) = o_type q" "o_state (succeeded now x q) = OP_SUCCEEDED"
    "o_generation (succeeded now x q) = o_generation q" for x q by (simp_all add: succeeded_def)
  have "documents db' = update_where (\<lambda>d. d_state d = READY)
         (\<lambda>d. d\<lparr>d_embedding_version := e_embedding_version e, d_updated_at := now\<rparr>) (documents db)" by (simp add: eff(2))
  then have "live_generations db' = live_generations db" by (rule live_generations_same [rotated]) simp
  then have ready: "set (ready_chunks db') = set (ready_chunks db)" by (simp add: set_ready_chunks sel)
  have dim: "e_dimension x = e_dimension e" if "x \<in> set (embedding_generations db)" "e_id x = e_id e" for x
    using distinct_map_inj [OF consistent_embeddings(3) [OF inv(1)] that(1) assms(6)] that(2) by simp
  show "searchable db'" unfolding searchable_def ready
  proof
    fix c assume "c \<in> set (ready_chunks db)"
    from qualified_generation_covers [OF assms(1,3,4,5,6,7,8,9) this]
    obtain v where "v \<in> set (chunk_embeddings db)" "v_generation v = e_id e" "v_chunk v = c_id c" "v_dimension v = e_dimension e" by blast
    then show "indexed db' c" using dim by (auto simp: indexed_def sel)
  qed
  show "active_unique db'" using inv(3) by (auto simp: active_unique_def sel cut_generation_def)
  show "jobs_owned db'" using inv(7) by (auto simp: jobs_owned_def sel in_update_where keep)
  show "completed_indexed db'" "embeddings_located db'" using inv by (simp_all add: completed_indexed_def embeddings_located_def sel)
  show "tasks_owned db'" unfolding tasks_owned_def sel(4)
  proof (intro ballI impI)
    fix t q' assume t: "t \<in> set (tasks db)" and q': "q' \<in> set (operations db')" and i: "o_id q' = t_operation t"
    obtain q where q: "q \<in> set (operations db)" "q' = (if o_id q = operation then succeeded now QUALIFIED_RESULT q else q)"
      using q' by (auto simp: sel in_update_where)
    have "q = p" if "o_id q = operation" using same_operation [OF assms(1) q(1) assms(3)] that assms(4) by simp
    moreover have "o_id q = t_operation t" using i q(2) by (simp add: keep split: if_splits)
    then have "o_type q = REINDEX \<and> o_generation q = Some (t_generation t) \<and>
        (o_state q \<in> {OP_QUALIFYING, OP_SUCCEEDED} \<longrightarrow> t_state t = TASK_COMPLETED)"
      using inv(5) t q(1) unfolding tasks_owned_def by blast
    ultimately show "o_type q' = REINDEX \<and> o_generation q' = Some (t_generation t) \<and>
        (o_state q' \<in> {OP_QUALIFYING, OP_SUCCEEDED} \<longrightarrow> t_state t = TASK_COMPLETED)"
      using q(2) assms(5) by (auto simp: keep split: if_splits)
  qed
  show "generations_owned db'" unfolding generations_owned_def
  proof (intro ballI)
    fix x' q' assume x': "x' \<in> set (embedding_generations db')" and q': "q' \<in> set (operations db')"
    obtain x where x: "x \<in> set (embedding_generations db)" "x' = cut_generation now QUALIFIED_RESULT (active_embedding db) (e_id e) x"
      using x' by (auto simp: sel)
    obtain q where q: "q \<in> set (operations db)" "q' = (if o_id q = operation then succeeded now QUALIFIED_RESULT q else q)"
      using q' by (auto simp: sel in_update_where)
    have own: "(e_operation x = Some (o_id q) \<longleftrightarrow> o_generation q = Some (e_id x))"
      "e_operation x = Some (o_id q) \<Longrightarrow> o_type q = REINDEX \<and> (e_state x \<in> {ACTIVE, RETAINED} \<longrightarrow> o_state q = OP_SUCCEEDED)"
      using inv(4) x(1) q(1) unfolding generations_owned_def by blast+
    have "x = e" if "e_id x = e_id e" using distinct_map_inj [OF consistent_embeddings(3) [OF inv(1)] x(1) assms(6) that] .
    then have "o_state q' = OP_SUCCEEDED" if "e_operation x = Some (o_id q)" "e_state x' \<in> {ACTIVE, RETAINED}"
      using own(2) [OF that(1)] that inv(3) x op q(2) by (auto simp: cut_generation_def keep active_unique_def split: if_splits)
    then show "(e_operation x' = Some (o_id q') \<longleftrightarrow> o_generation q' = Some (e_id x')) \<and>
        (e_operation x' = Some (o_id q') \<longrightarrow> o_type q' = REINDEX \<and> (e_state x' \<in> {ACTIVE, RETAINED} \<longrightarrow> o_state q' = OP_SUCCEEDED))"
      using own x(2) q(2) by (auto simp: keep split: if_splits)
  qed
qed

lemma fail_qualification_inv:
  assumes "index_inv env db" "fail_qualification env now operation (e_id e) result reason db = Inr (r, db')"
    "e \<in> set (embedding_generations db)" "e_state e \<notin> {ACTIVE, RETAINED}"
    "p \<in> set (operations db)" "o_id p = operation" "o_state p = OP_QUALIFYING"
  shows "index_inv env db'"
proof -
  obtain db1 where db1: "checked env (db\<lparr>embedding_generations := update_where (\<lambda>x. e_id x = e_id e)
       (\<lambda>e. e\<lparr>e_state := ABANDONED, e_retired_at := Some now, e_qualification := result\<rparr>) (embedding_generations db)\<rparr>) = Inr db1"
    and db': "checked env (db1\<lparr>operations := update_where (\<lambda>p. o_id p = operation)
       (\<lambda>p. p\<lparr>o_state := OP_FAILED, o_stage := ''failed'',
              o_reason := Some (take 128 (if reason = [] then ''candidate_qualification_failed'' else reason)),
              o_qualification := result, o_finished_at := Some now, o_lease_owner := None, o_lease_token := None,
              o_lease_expires_at := None, o_updated_at := now\<rparr>) (operations db1)\<rparr>) = Inr db'"
    using assms(2) unfolding fail_qualification_def rbind_Inr_iff by auto
  have one: "x = e" if "x \<in> set (embedding_generations db)" "e_id x = e_id e" for x
    using distinct_map_inj [OF consistent_embeddings(3) [OF index_invD(1) [OF assms(1)]] that(1) assms(3) that(2)] .
  have "index_inv env db1"
    by (rule checked_embedding_generations [OF db1 assms(1)]) (use one assms(4) in auto)
  moreover have "o_state q \<noteq> OP_SUCCEEDED" if "q \<in> set (operations db1)" "o_id q = operation" for q
    using same_operation [OF assms(1), of q p] assms(5-7) that db1 by simp
  ultimately show ?thesis by (intro checked_operations [OF db']) simp_all
qed

lemma complete_qualification_inv:
  assumes "index_inv env db"
    "v10_complete_reindex_qualification env now operation token fence retrieval rerank citation insufficient reason db = Inr (r, db')"
  shows "index_inv env db'"
proof (cases "db' = db")
  case False
  let ?hit = "\<lambda>p. o_id p = operation \<and> o_state p = OP_QUALIFYING \<and> sql_eq (o_lease_token p) token \<and>
     o_fencing_token p = fence \<and> sql_gt (o_lease_expires_at p) now"
  obtain p e where p: "List.find ?hit (operations db) = Some p"
    and e: "select_strict (\<lambda>e. o_generation p = Some (e_id e)) (embedding_generations db) = Inr e"
    using assms(2) False unfolding v10_complete_reindex_qualification_def
    by (auto simp: rbind_Inr_iff split: option.splits)
  have p': "p \<in> set (operations db)" "o_id p = operation" "o_state p = OP_QUALIFYING" using find_SomeD [OF p] by auto
  have e': "e \<in> set (embedding_generations db)" "o_generation p = Some (e_id e)" using select_strict_Inr [OF e] by auto
  then have "e_operation e = Some (o_id p)" using index_invD(4) [OF assms(1)] p'(1) by (auto simp: generations_owned_def)
  then have state: "e_state e \<notin> {ACTIVE, RETAINED}" using unfinished_generation [OF assms(1) p'(1) _ e'(1)] p'(3) by simp
  have "(\<exists>result. fail_qualification env now operation (e_id e) result reason db = Inr (r, db')) \<or>
      \<not> source_changed operation db \<and> list_all (provenance_row_ok env e) (candidate_rows (e_id e) db) \<and>
      cutover env now operation e db = Inr (r, db')"
    using assms(2) p e unfolding v10_complete_reindex_qualification_def Let_def by (auto split: if_splits)
  then show ?thesis
    using fail_qualification_inv [OF assms(1) _ e'(1) state p'] cutover_inv [OF assms(1) _ p' e'] by blast
qed (use assms in simp)

end
