(* ===== verification/ExampleRun.thy ===== *)
theory ExampleRun
  imports Reindexing
begin

text \<open>
  One execution of the contracts on a small library, step by step: a document is uploaded, claimed and
  committed; a reindex operation is previewed, authorized and started; its task is claimed and
  committed, the candidate is qualified and search is cut over to it. The properties of the
  database are applied to these states.
\<close>

section \<open>The states\<close>

definition demo_hash :: string where "demo_hash = replicate 64 (CHR ''a'')"

definition demo_env :: env where
  "demo_env = \<lparr>sha256_hex = (\<lambda>_. demo_hash), uuid_text = (\<lambda>_. []), float_add = (+), float_text = (\<lambda>_. [])\<rparr>"

definition demo_source :: "vector \<Rightarrow> chunk_source" where
  "demo_source v = \<lparr>s_id = 7, s_ordinal = 0, s_filename = ''a.pdf'', s_page_start = 1, s_page_end = 1, s_section = None,
     s_text = ''text'', s_token_count = 1, s_text_sha256 = demo_hash, s_source_sha256 = demo_hash,
     s_parse_method = ''direct'', s_parser_version = ''p'', s_chunking_version = ''c'', s_embedding_version = QWEN_VERSION,
     s_schema_version = ''1'', s_citation_label = ''l'', s_highlight_anchor = JObj [], s_embedding = v\<rparr>"

definition demo_document :: document where
  "demo_document = \<lparr>d_id = 2, d_sha256 = demo_hash, d_filename = ''a.pdf'', d_byte_size = 10, d_object_key = ''k'',
     d_state = UPLOADED, d_stage = UPLOADED, d_error = None, d_parser_version = ''p'', d_chunking_version = ''c'',
     d_embedding_version = QWEN_VERSION, d_page_count = None, d_chunk_count = 0, d_updated_at = 0, d_active_generation = 3\<rparr>"

definition demo_uploaded :: db where
  "demo_uploaded = (initial_db 0 1)\<lparr>documents := [demo_document],
     generations := [v10_create_document_generation 0 demo_document], jobs := [new_job 0 4 2 3 None]\<rparr>"

definition demo_claimed :: db where
  "demo_claimed = demo_uploaded\<lparr>jobs := [claimed_job 1 5 ''w'' 60 (new_job 0 4 2 3 None)]\<rparr>"

definition demo_ready :: "vector \<Rightarrow> db" where
  "demo_ready v = demo_claimed\<lparr>
     chunks := [\<lparr>c_document = 2, c_generation = 3, c_source = demo_source v, c_embedding = Some v\<rparr>],
     chunk_embeddings := [\<lparr>v_generation = 1, v_chunk = 7, v_document_generation = 3, v_dimension = 1024, v_embedding = v,
       v_text_sha256 = demo_hash, v_provenance = demo_hash, v_created_at = 2\<rparr>],
     generations := [(v10_create_document_generation 0 demo_document)\<lparr>g_state := GEN_READY, g_page_count := Some 1,
       g_chunk_count := 1, g_ready_at := Some 2, g_updated_at := 2\<rparr>],
     documents := [demo_document\<lparr>d_state := READY, d_stage := READY, d_page_count := Some 1, d_chunk_count := 1,
       d_updated_at := 2\<rparr>],
     jobs := [(claimed_job 1 5 ''w'' 60 (new_job 0 4 2 3 None))\<lparr>j_status := JOB_COMPLETED, j_stage := READY,
       j_completed_units := 1, j_total_units := Some 1, j_lease_owner := None, j_lease_token := None,
       j_lease_expires_at := None, j_heartbeat_at := Some 2, j_updated_at := 2\<rparr>]\<rparr>"

definition demo_admin :: caller where
  "demo_admin = \<lparr>caller_actor = Some 30, caller_is_admin = True, caller_session = Some 31\<rparr>"

definition demo_preview :: reprocessing_preview where
  "demo_preview = \<lparr>p_id = 10, p_actor = 30, p_session = 31, p_type = REINDEX, p_profile = QWEN_PROFILE,
     p_source_parser = None, p_target_parser = None, p_target_chunking = None, p_target_embedding = Some QWEN_VERSION,
     p_dimension = Some 1024, p_document_count = 1, p_chunk_count = 1, p_estimated_bytes = 4096,
     p_impact_digest = demo_hash, p_expires_at = 303, p_consumed_at = None, p_created_at = 3\<rparr>"

definition demo_grant :: reauthentication_grant where
  "demo_grant = \<lparr>r_id = 14, r_actor = 30, r_session = 31, r_action = ''start_reprocessing'', r_impact_digest = demo_hash,
     r_token_hash = demo_hash, r_issued_at = 4, r_expires_at = 304, r_consumed_at = None\<rparr>"

definition demo_operation :: reprocessing_operation where
  "demo_operation = (new_operation 5 11 30 20 demo_preview)\<lparr>o_generation := Some 12\<rparr>"

definition demo_task :: reindex_task where
  "demo_task = \<lparr>t_operation = 11, t_generation = 12, t_chunk = 7, t_state = TASK_QUEUED, t_attempt = 0,
      t_lease_owner = None, t_lease_token = None, t_lease_expires_at = None, t_fencing_token = 0, t_error = None,
      t_created_at = 5, t_updated_at = 5\<rparr>"

definition demo_candidate :: embedding_generation where
  "demo_candidate = \<lparr>e_id = 12, e_operation = Some 11, e_profile = QWEN_PROFILE, e_embedding_version = QWEN_VERSION,
     e_dimension = 1024, e_state = BUILDING, e_source = Some 1, e_qualified_at = None, e_activated_at = None,
     e_retired_at = None, e_qualification = []\<rparr>"

definition demo_verified :: "vector \<Rightarrow> db" where
  "demo_verified v = (demo_ready v)\<lparr>verifications := [\<lparr>b_run = 20, b_succeeded = True, b_verified_at = 0\<rparr>]\<rparr>"

definition demo_previewed :: "vector \<Rightarrow> db" where
  "demo_previewed v = (demo_verified v)\<lparr>previews := [demo_preview]\<rparr>"

definition demo_granted :: "vector \<Rightarrow> db" where
  "demo_granted v = (demo_previewed v)\<lparr>grants := [demo_grant]\<rparr>"

definition demo_started :: "vector \<Rightarrow> db" where
  "demo_started v = (demo_granted v)\<lparr>operations := [demo_operation],
     embedding_generations := embedding_generations (demo_granted v) @ [demo_candidate],
     tasks := [demo_task], previews := [demo_preview\<lparr>p_consumed_at := Some 5\<rparr>],
     grants := [demo_grant\<lparr>r_consumed_at := Some 5\<rparr>], audit := [(''reprocessing_started'', Some 11)]\<rparr>"

text \<open>The task of the operation is claimed at a time, with a lease of a minute.\<close>

definition demo_task_claimed :: "vector \<Rightarrow> reindex_task \<Rightarrow> time \<Rightarrow> db" where
  "demo_task_claimed v t now = (demo_started v)\<lparr>tasks := [claimed_task now (\<lambda>_. 13) ''w'' 60 t]\<rparr>"

definition demo_embedded :: "vector \<Rightarrow> vector \<Rightarrow> db" where
  "demo_embedded v w = (demo_started v)\<lparr>
     tasks := [demo_task\<lparr>t_state := TASK_COMPLETED, t_attempt := 1, t_fencing_token := 1, t_updated_at := 7\<rparr>],
     chunk_embeddings := chunk_embeddings (demo_started v) @
       [\<lparr>v_generation = 12, v_chunk = 7, v_document_generation = 3, v_dimension = 1024, v_embedding = w,
         v_text_sha256 = demo_hash, v_provenance = demo_hash, v_created_at = 7\<rparr>],
     operations := [demo_operation\<lparr>o_completed_chunks := 1, o_state := OP_QUALIFYING, o_stage := ''qualifying'',
       o_updated_at := 7\<rparr>]\<rparr>"

definition demo_qualifying :: "vector \<Rightarrow> vector \<Rightarrow> db" where
  "demo_qualifying v w = (demo_embedded v w)\<lparr>operations := [demo_operation\<lparr>o_completed_chunks := 1,
     o_state := OP_QUALIFYING, o_stage := ''qualifying'', o_lease_owner := Some ''w'', o_lease_token := Some 15,
     o_lease_expires_at := Some 68, o_fencing_token := 1, o_updated_at := 8\<rparr>]\<rparr>"

text \<open>Search is cut over from generation 1 to generation 12.\<close>

definition demo_results :: "(string \<times> bool) list" where
  "demo_results = map (\<lambda>k. (k, True)) [''source_unchanged'', ''count_parity'', ''provenance'', ''dimensions'', ''retrieval'',
     ''rerank'', ''citation'', ''insufficient_context'']"

definition demo_cut :: "vector \<Rightarrow> vector \<Rightarrow> db" where
  "demo_cut v w = (demo_qualifying v w)\<lparr>
     embedding_generations :=
       [\<lparr>e_id = 1, e_operation = None, e_profile = QWEN_PROFILE, e_embedding_version = QWEN_VERSION,
         e_dimension = 1024, e_state = RETAINED, e_source = None, e_qualified_at = Some 0, e_activated_at = Some 0,
         e_retired_at = Some 9, e_qualification = [(''migration_backfill'', True)]\<rparr>,
        demo_candidate\<lparr>e_state := ACTIVE, e_qualified_at := Some 9, e_activated_at := Some 9, e_qualification := demo_results\<rparr>],
     active_embedding := 12,
     documents := [demo_document\<lparr>d_state := READY, d_stage := READY, d_page_count := Some 1, d_chunk_count := 1,
       d_updated_at := 9\<rparr>],
     operations := [demo_operation\<lparr>o_completed_documents := 1, o_completed_chunks := 1, o_state := OP_SUCCEEDED,
       o_stage := ''succeeded'', o_fencing_token := 1, o_qualification := demo_results, o_finished_at := Some 9,
       o_updated_at := 9\<rparr>],
     audit := [(''reprocessing_started'', Some 11), (''embedding_generation_cutover'', Some 12)]\<rparr>"

section \<open>The steps\<close>

lemma demo_hash_hex64 [simp]: "hex64 demo_hash"
  by (simp add: hex64_def demo_hash_def code_def)

lemma demo_anchor: "v5_is_valid_highlight_anchor f g h (JObj []) 1 1"
  by (simp add: v5_is_valid_highlight_anchor_def dict_get_def arrow_text_def)

lemmas demo_simps =
  demo_env_def demo_source_def demo_document_def initial_db_def v10_create_document_generation_def new_job_def claimed_job_def
  check_ok_def unique_ok_def foreign_ok_def checked_def document_ok_def generation_ok_def job_ok_def chunk_ok_def
  embedding_generation_ok_def chunk_embedding_ok_def between_def configuration_ok_def profile_versions_def
  task_ok_def operation_ok_def preview_ok_def grant_ok_def live_def terminal_def

lemmas demo_states =
  demo_ready_def demo_claimed_def demo_uploaded_def demo_verified_def demo_previewed_def demo_granted_def demo_started_def
  demo_preview_def demo_grant_def demo_operation_def demo_task_def demo_candidate_def new_operation_def demo_admin_def

lemma demo_upload:
  "insert_upload demo_env 0 2 3 4 demo_hash ''a.pdf'' 10 ''k'' (''p'', ''c'', QWEN_VERSION) (initial_db 0 1) = Inr demo_uploaded"
  by (simp add: insert_upload_def demo_uploaded_def demo_simps v10_bind_ingestion_target_generation_def
      select_strict_def rbind_def)

lemma demo_claim: "\<exists>claim. v4_claim_ingestion_job demo_env 1 {} 5 ''w'' 60 demo_uploaded = Inr (claim, demo_claimed)"
  by (simp add: v4_claim_ingestion_job_def demo_claimed_def demo_uploaded_def demo_simps order_limit_def claimable_def
      operation_running_def update_where_def rbind_def)

lemma demo_commit:
  assumes "length v = 1024"
  shows "v4_commit_ingestion_job demo_env 2 4 5 1 1 [demo_source v] demo_claimed = Inr (True, demo_ready v)"
  using assms
  by (simp add: v4_commit_ingestion_job_def demo_ready_def demo_claimed_def demo_uploaded_def demo_simps demo_anchor
      operation_running_def update_where_def delete_where_def rbind_def holds_lease_def sql_eq_def sql_gt_def version_mismatch_def
      replace_chunks_def activate_generation_def complete_job_def chunk_of_source_def embedding_of_source_def provenance_def
      delete_chunks_def select_strict_def)

lemma demo_ready_chunks:
  "ready_chunks (demo_verified v) = [\<lparr>c_document = 2, c_generation = 3, c_source = demo_source v, c_embedding = Some v\<rparr>]"
  by (simp add: ready_chunks_def demo_states demo_document_def)

lemma demo_content:
  "preview_content ''reindex'' QWEN_PROFILE None (demo_verified v) = Inr (REINDEX, None, Some (QWEN_VERSION, 1024), 1, 1, 4096)"
  "operations (demo_verified v) = []"
  by (simp add: preview_content_def demo_ready_chunks) (simp_all add: demo_states demo_simps)

lemma demo_preview_step:
  assumes "length v = 1024"
  shows "\<exists>r. v10_admin_preview_reprocessing demo_env 3 demo_admin 10 ''reindex'' QWEN_PROFILE None (demo_verified v) =
    Inr (r, demo_previewed v)"
  using assms
  by (simp add: v10_admin_preview_reprocessing_def v4_require_admin_def current_session_def demo_content rbind_def
      demo_previewed_def demo_admin_def)
     (simp add: demo_states demo_simps demo_anchor coalesce_def Let_def)

lemma demo_grant_step:
  assumes "length v = 1024"
  shows "v10_admin_issue_reprocessing_grant demo_env 4 demo_admin 14 10 demo_hash demo_hash (demo_previewed v) =
    Inr (304, demo_granted v)"
  using assms
  by (simp add: v10_admin_issue_reprocessing_grant_def v4_require_admin_def current_session_def rbind_def
      demo_states demo_simps demo_anchor)

lemma demo_start_step:
  assumes "length v = 1024"
  shows "v10_admin_start_reprocessing demo_env 5 demo_admin 11 12 ids 10 demo_hash demo_hash (demo_granted v) =
    Inr (11, demo_started v)"
  using assms
  by (simp add: v10_admin_start_reprocessing_def start_reprocessing_body_def v4_require_admin_def current_session_def rbind_def
      preview_usable_def grant_usable_def backup_current_def start_reindex_def ready_chunks_def new_task_def append_audit_def
      update_where_def demo_states demo_simps demo_anchor)

lemma demo_claim_task_step:
  assumes "length v = 1024" "t_operation t = 11" "t_generation t = 12" "t_chunk t = 7" "between (t_attempt t) 0 2"
    "0 \<le> t_fencing_token t" "t_state t = TASK_QUEUED \<or> t_state t = TASK_RUNNING \<and> sql_le (t_lease_expires_at t) now"
  shows "\<exists>claims. v10_claim_reindex_tasks demo_env now {} (\<lambda>_. 13) ''w'' 60 32 ((demo_started v)\<lparr>tasks := [t]\<rparr>) =
    Inr (claims, demo_task_claimed v t now)"
  using assms
  by (simp add: v10_claim_reindex_tasks_def task_claimable_def order_limit_def claimed_task_def update_where_def rbind_def
      demo_task_claimed_def demo_states demo_simps demo_anchor)

lemma demo_commit_task_step:
  assumes "length v = 1024" "length w = 1024"
  shows "v10_commit_reindex_task demo_env 7 11 7 13 1 w (demo_task_claimed v demo_task 6) = Inr (True, demo_embedded v w)"
  using assms
  by (simp add: v10_commit_reindex_task_def holds_task_def sql_gt_def sql_eq_def select_strict_def upsert_embedding_def
      finish_task_row_def claimed_task_def update_where_def rbind_def provenance_def
      demo_task_claimed_def demo_embedded_def demo_states demo_simps demo_anchor)

lemma demo_qualification_step:
  assumes "length v = 1024" "length w = 1024"
  shows "\<exists>claim. v10_claim_reindex_qualification demo_env 8 {} 15 ''w'' 60 (demo_embedded v w) = Inr (claim, demo_qualifying v w)"
  using assms
  by (simp add: v10_claim_reindex_qualification_def order_limit_def update_where_def rbind_def
      demo_qualifying_def demo_embedded_def demo_states demo_simps demo_anchor)

lemma demo_cutover_step:
  assumes "length v = 1024" "length w = 1024"
  shows "v10_complete_reindex_qualification demo_env 9 11 15 1 True True True True [] (demo_qualifying v w) =
    Inr (True, demo_cut v w)"
  using assms
  by (simp add: v10_complete_reindex_qualification_def cutover_def candidate_rows_def source_changed_def provenance_row_ok_def
      provenance_def ready_chunks_def append_audit_def select_strict_def sql_eq_def sql_gt_def update_where_def rbind_def Let_def
      demo_cut_def demo_results_def demo_qualifying_def demo_embedded_def demo_states demo_simps demo_anchor)

end
