(* ===== verification/ReprocessingRuns.thy ===== *)
theory ReprocessingRuns
  imports SearchIndex ExampleRun
begin

text \<open>
  Runs of the database: sequences of the contracts of ingestion, administration and the
  reprocessing worker, by any callers in any order, except the rollback of the active generation of
  embeddings, and what every run keeps. The rollback and other ways in which a run goes wrong are in
  ReprocessingFaults.
\<close>

section \<open>Starting an operation\<close>

lemma new_operation_simps [simp]:
  "o_id (new_operation now i actor backup p) = i" "o_type (new_operation now i actor backup p) = p_type p"
  "o_state (new_operation now i actor backup p) = OP_RUNNING" "o_generation (new_operation now i actor backup p) = None"
  by (simp_all add: new_operation_def)

text \<open>The state after an operation is inserted, and after its generation and tasks are.\<close>

lemma started_reindex_inv:
  assumes "index_inv env db" "consistent env db'" "p_type p = REINDEX"
    "operation \<notin> set (map o_id (operations db))" "e_id e \<notin> set (map e_id (embedding_generations db))"
    "\<forall>q \<in> set (operations db). o_generation q \<noteq> Some (e_id e)"
    "operations db' = operations db @ [q]" "o_id q = operation" "o_type q = REINDEX" "o_state q = OP_RUNNING"
    "o_generation q = Some (e_id e)" "embedding_generations db' = embedding_generations db @ [e]"
    "e_operation e = Some operation" "e_state e = BUILDING" "tasks db' = tasks db @ map (new_task now operation (e_id e)) cs"
    "documents db' = documents db" "chunks db' = chunks db" "jobs db' = jobs db" "chunk_embeddings db' = chunk_embeddings db"
    "active_embedding db' = active_embedding db"
  shows "index_inv env db'"
proof (rule index_invI [OF assms(2)])
  note inv = index_invD [OF assms(1)] and con = consistent_embeddings [OF index_invD(1) [OF assms(1)]]
  have foreign: "active_embedding db \<in> set (map e_id (embedding_generations db))"
    "\<forall>x \<in> set (embedding_generations db). e_operation x \<noteq> Some operation"
    "\<forall>t \<in> set (tasks db). t_operation t \<noteq> operation" "\<forall>j \<in> set (jobs db). j_operation j \<noteq> Some operation"
    using inv(1) assms(4) unfolding consistent_def foreign_ok_def Let_def list_all_iff by auto
  have ne: "active_embedding db \<noteq> e_id e" using foreign(1) assms(5) by auto
  show "searchable db'" using inv(2) ne unfolding searchable_def set_ready_chunks live_generations_def indexed_def
    by (simp add: assms(12,16-20))
  show "active_unique db'" using inv(3) ne assms(14) by (auto simp: active_unique_def assms(12,20))
  have nid: "e_id x \<noteq> e_id e" if "x \<in> set (embedding_generations db)" for x using assms(5) that by (force simp: image_iff)
  show "generations_owned db'" using inv(4) foreign(2) assms(4,6,8-11,13,14)
    by (auto simp: generations_owned_def assms(7,12) dest: nid)
  have nop: "o_id x \<noteq> operation" if "x \<in> set (operations db)" for x using assms(4) that by (force simp: image_iff)
  show "tasks_owned db'" using inv(5) foreign(3) assms(9-11)
    by (auto simp: tasks_owned_def assms(7,8,15) new_task_def dest: nop)
  show "completed_indexed db'" using inv(6) by (auto simp: completed_indexed_def assms(15,19) new_task_def)
  show "jobs_owned db'" using inv(7) foreign(4) assms(8) by (auto simp: jobs_owned_def assms(7,18))
  show "embeddings_located db'" using inv(8) by (simp add: embeddings_located_def assms(17,19))
qed

lemma started_reingestion_inv:
  assumes "index_inv env db" "consistent env db'" "operation \<notin> set (map o_id (operations db))"
    "operations db' = operations db @ [q]" "o_id q = operation" "o_type q = REINGESTION" "o_generation q = None"
    "jobs db' = jobs db @ js" "\<forall>j \<in> set js. j_operation j = Some operation"
    "documents db' = documents db" "same_index db db'"
  shows "index_inv env db'"
proof (rule index_invI [OF assms(2)])
  note inv = index_invD [OF assms(1)]
  have foreign: "\<forall>x \<in> set (embedding_generations db). e_operation x \<noteq> Some operation"
    "\<forall>t \<in> set (tasks db). t_operation t \<noteq> operation" "\<forall>j \<in> set (jobs db). j_operation j \<noteq> Some operation"
    using inv(1) assms(3) unfolding consistent_def foreign_ok_def Let_def list_all_iff by auto
  show "searchable db'" by (rule searchable_mono [OF inv(2) assms(11)]) (simp add: live_generations_def assms(10))
  show "generations_owned db'" using inv(4) foreign(1) assms(5-7,11) by (auto simp: generations_owned_def same_index_def assms(4))
  show "tasks_owned db'" using inv(5) foreign(2) assms(5,11) by (auto simp: tasks_owned_def same_index_def assms(4))
  show "jobs_owned db'" using inv(7) foreign(3) assms(3,5,6,9) by (auto simp: jobs_owned_def assms(4,8))
  show "active_unique db'" "completed_indexed db'" "embeddings_located db'"
    using inv(3,6,8) assms(11) by (simp_all add: active_unique_def completed_indexed_def embeddings_located_def same_index_def)
qed

lemma start_cases:
  assumes "v10_admin_start_reprocessing env now c operation generation ids preview digest token_hash db = Inr (r, db')"
  obtains actor and b :: backup_verification and p :: reprocessing_preview and db1 db2 :: db and x gs where
    "checked env (db\<lparr>operations := operations db @ [new_operation now operation actor (b_run b) p]\<rparr>) = Inr db1"
    "(if p_type p = REINDEX then start_reindex env now operation generation p db1
      else start_reingestion env now operation ids p db1) = Inr db2"
    "db' = append_audit ''reprocessing_started'' (Some operation) (db2\<lparr>previews := x, grants := gs\<rparr>)" "consistent env db'"
proof -
  have body: "start_reprocessing_body env now c operation generation ids preview digest token_hash db = Inr (r, db')"
    using assms unfolding v10_admin_start_reprocessing_def by (auto split: sum.splits sql_error.splits)
  obtain actor session where a: "v4_require_admin c = Inr actor" "current_session c = Inr session"
    using body unfolding start_reprocessing_body_def rbind_Inr_iff by blast
  obtain p g where pg: "List.find (\<lambda>p. p_id p = preview) (previews db) = Some p"
    "List.find (\<lambda>r. r_token_hash r = token_hash) (grants db) = Some g"
    using body a unfolding start_reprocessing_body_def by (simp split: option.splits)
  have ok: "preview_usable now actor session digest p" "grant_usable now actor session digest g"
    using body a pg unfolding start_reprocessing_body_def by (simp_all split: if_splits)
  obtain b bs where b: "rev (sort_key b_verified_at (backup_current now db)) = b # bs"
    using body a pg ok unfolding start_reprocessing_body_def by (simp split: list.splits)
  obtain db1 db2 x gs where
    "checked env (db\<lparr>operations := operations db @ [new_operation now operation actor (b_run b) p]\<rparr>) = Inr db1"
    "(if p_type p = REINDEX then start_reindex env now operation generation p db1
      else start_reingestion env now operation ids p db1) = Inr db2"
    "db' = append_audit ''reprocessing_started'' (Some operation) (db2\<lparr>previews := x, grants := gs\<rparr>)" "consistent env db'"
    using body a pg ok b unfolding start_reprocessing_body_def by (simp add: rbind_Inr_iff) fastforce
  then show ?thesis using that by blast
qed

lemma start_inv:
  assumes "index_inv env db"
    "v10_admin_start_reprocessing env now c operation generation ids preview digest token_hash db = Inr (r, db')"
    "\<forall>q \<in> set (operations db). o_generation q \<noteq> Some generation"
  shows "index_inv env db'"
  using assms(2)
proof (rule start_cases)
  fix actor and b :: backup_verification and p :: reprocessing_preview and db1 db2 :: db and x gs
  assume db1: "checked env (db\<lparr>operations := operations db @ [new_operation now operation actor (b_run b) p]\<rparr>) = Inr db1"
    and db2: "(if p_type p = REINDEX then start_reindex env now operation generation p db1
           else start_reingestion env now operation ids p db1) = Inr db2"
    and db': "db' = append_audit ''reprocessing_started'' (Some operation) (db2\<lparr>previews := x, grants := gs\<rparr>)" "consistent env db'"
  have "consistent env db1" using db1 by simp
  then have "distinct (map o_id (operations db1))" by (rule consistent_embeddings)
  then have fresh: "operation \<notin> set (map o_id (operations db))" using db1 by simp
  show ?thesis
  proof (cases "p_type p = REINDEX")
    case True
    obtain version dimension where
      x: "db2 = db1\<lparr>embedding_generations := embedding_generations db1 @
          [\<lparr>e_id = generation, e_operation = Some operation, e_profile = p_profile p, e_embedding_version = version,
            e_dimension = dimension, e_state = BUILDING, e_source = Some (active_embedding db1),
            e_qualified_at = None, e_activated_at = None, e_retired_at = None, e_qualification = []\<rparr>],
        operations := update_where (\<lambda>q. o_id q = operation) (\<lambda>q. q\<lparr>o_generation := Some generation\<rparr>) (operations db1),
        tasks := tasks db1 @ map (new_task now operation generation) (ready_chunks db2)\<rparr>"
      and con2: "consistent env db2"
      using db2 True by (auto simp: start_reindex_def rbind_Inr_iff ready_chunks_def split: option.splits)
    define e where "e = \<lparr>e_id = generation, e_operation = Some operation, e_profile = p_profile p, e_embedding_version = version,
            e_dimension = dimension, e_state = BUILDING, e_source = Some (active_embedding db1),
            e_qualified_at = None, e_activated_at = None, e_retired_at = None, e_qualification = []\<rparr>"
    have e: "e_id e = generation" "e_operation e = Some operation" "e_state e = BUILDING" by (simp_all add: e_def)
    note db2 = x [folded e_def]
    have ops: "operations db' = operations db @ [(new_operation now operation actor (b_run b) p)\<lparr>o_generation := Some generation\<rparr>]"
    proof -
      have "\<forall>q \<in> set (operations db). o_id q \<noteq> operation" using fresh by force
      from update_where_last [of "operations db" "\<lambda>q. o_id q = operation" "new_operation now operation actor (b_run b) p"
          "\<lambda>q. q\<lparr>o_generation := Some generation\<rparr>", OF this]
      show ?thesis using db1 by (subst db'(1), subst db2) simp
    qed
    have "distinct (map e_id (embedding_generations db2))" using con2 by (rule consistent_embeddings)
    then have new: "e_id e \<notin> set (map e_id (embedding_generations db))" using db1 by (subst (asm) db2) simp
    have sel: "embedding_generations db' = embedding_generations db @ [e]"
      "tasks db' = tasks db @ map (new_task now operation (e_id e)) (ready_chunks db2)"
      "documents db' = documents db" "chunks db' = chunks db" "jobs db' = jobs db" "chunk_embeddings db' = chunk_embeddings db"
      "active_embedding db' = active_embedding db"
      using db1 e(1) by (subst db'(1), subst db2, simp)+
    show ?thesis
      by (rule started_reindex_inv [OF assms(1) db'(2) True fresh new _ ops _ _ _ _ sel(1) e(2,3) sel(2-7)])
         (use assms(3) True e(1) in simp_all)
  next
    case False
    then obtain gs' js where db2: "db2 = db1\<lparr>generations := gs', jobs := jobs db1 @ js\<rparr>" "\<forall>j \<in> set js. j_operation j = Some operation"
      using db2 by (auto simp: start_reingestion_def Let_def rbind_Inr_iff new_job_def split: option.splits)
    then show ?thesis using db' db1 fresh False
      by (intro started_reingestion_inv [OF assms(1) db'(2) fresh]) (auto simp: same_index_def new_operation_def, cases "p_type p", auto)
  qed
qed

section \<open>Runs\<close>

text \<open>
  One step of the database. A start draws the identifier of its embedding generation at random,
  so it differs from those the existing operations drew. Rolling back an embedding generation is
  a step of its own.
\<close>

inductive db_step :: "env \<Rightarrow> db \<Rightarrow> db \<Rightarrow> bool" for env where
  step_upload: "insert_upload env now doc generation job sha filename byte_size key versions db = Inr db' \<Longrightarrow> db_step env db db'"
| step_reingest: "v4_commit_document_reingest env now snapshot nodes c doc token job db = Inr (res, db') \<Longrightarrow> db_step env db db'"
| step_maintenance: "v4_maintenance_requeue_document env now snapshot' doc token job retry_only db = Inr (res, db') \<Longrightarrow> db_step env db db'"
| step_delete: "checked env (delete_document doc db) = Inr db' \<Longrightarrow> db_step env db db'"
| step_turn: "consistent env db' \<Longrightarrow> db' = v10_bind_turn_embedding_generation turn db \<Longrightarrow> db_step env db db'"
| step_verification: "db' = db\<lparr>verifications := bs\<rparr> \<Longrightarrow> db_step env db db'"
| step_claim: "v4_claim_ingestion_job env now locked token owner seconds db = Inr (claim, db') \<Longrightarrow> db_step env db db'"
| step_heartbeat: "v4_heartbeat_ingestion_job env now i token fence seconds db = Inr (b, db') \<Longrightarrow> db_step env db db'"
| step_requeue: "v4_requeue_ingestion_job env now i token fence available db = Inr (b, db') \<Longrightarrow> db_step env db db'"
| step_progress: "v4_update_ingestion_progress env now i token fence stage completed total_units db = Inr (pr, db') \<Longrightarrow> db_step env db db'"
| step_commit: "v4_commit_ingestion_job env now i token fence pages payload db = Inr (b, db') \<Longrightarrow> db_step env db db'"
| step_poison: "v4_poison_ingestion_job env now i token fence err db = Inr (b, db') \<Longrightarrow> db_step env db db'"
| step_profile: "v10_admin_set_ingestion_profile env c random base profile db = Inr (revision, db') \<Longrightarrow> db_step env db db'"
| step_preview: "v10_admin_preview_reprocessing env now c preview kind profile source db = Inr (pv, db') \<Longrightarrow> db_step env db db'"
| step_grant: "v10_admin_issue_reprocessing_grant env now c grant preview digest token_hash db = Inr (expiry, db') \<Longrightarrow> db_step env db db'"
| step_start: "v10_admin_start_reprocessing env now c operation generation ids preview digest token_hash db = Inr (i, db') \<Longrightarrow>
    \<forall>q \<in> set (operations db). o_generation q \<noteq> Some generation \<Longrightarrow> db_step env db db'"
| step_pause: "v10_admin_pause_reprocessing env now c i db = Inr (b, db') \<Longrightarrow> db_step env db db'"
| step_resume: "v10_admin_resume_reprocessing env now c i db = Inr (b, db') \<Longrightarrow> db_step env db db'"
| step_cancel: "v10_admin_cancel_reprocessing env now c i db = Inr (b, db') \<Longrightarrow> db_step env db db'"
| step_retry: "v10_admin_retry_reprocessing env now c i db = Inr (b, db') \<Longrightarrow> db_step env db db'"
| step_cleanup: "v10_admin_cleanup_generation env c kind generation db = Inr (b, db') \<Longrightarrow> db_step env db db'"
| step_claim_tasks: "v10_claim_reindex_tasks env now locked' tokens owner seconds limit db = Inr (claims, db') \<Longrightarrow> db_step env db db'"
| step_commit_task: "v10_commit_reindex_task env now operation ck token fence embedding db = Inr (b, db') \<Longrightarrow> db_step env db db'"
| step_fail_task: "v10_fail_reindex_task env now operation ck token fence err db = Inr (b, db') \<Longrightarrow> db_step env db db'"
| step_claim_qualification: "v10_claim_reindex_qualification env now locked token owner seconds db = Inr (qc, db') \<Longrightarrow> db_step env db db'"
| step_complete_qualification: "v10_complete_reindex_qualification env now operation token fence b1 b2 b3 b4 reason db = Inr (b, db') \<Longrightarrow>
    db_step env db db'"

abbreviation db_run :: "env \<Rightarrow> db \<Rightarrow> db \<Rightarrow> bool" where
  "db_run env \<equiv> (db_step env)\<^sup>*\<^sup>*"

lemma turn_inv:
  assumes "index_inv env db" "consistent env db'" "db' = v10_bind_turn_embedding_generation turn db"
  shows "index_inv env db'"
  by (rule index_inv_frame [OF assms(1,2)])
     (auto simp: assms(3) v10_bind_turn_embedding_generation_def same_index_def live_generations_def)

lemma verification_inv:
  assumes "index_inv env db" "db' = db\<lparr>verifications := bs\<rparr>"
  shows "index_inv env db'"
  by (rule index_inv_frame [OF assms(1)])
     (use index_invD(1) [OF assms(1)] in
       \<open>auto simp: assms(2) same_index_def live_generations_def consistent_def check_ok_def unique_ok_def foreign_ok_def\<close>)

lemmas step_invs =
  upload_inv reingest_inv maintenance_requeue_inv delete_document_inv turn_inv verification_inv claim_job_inv heartbeat_job_inv
  requeue_inv progress_inv commit_inv poison_inv profile_inv preview_inv grant_inv start_inv pause_inv resume_inv
  cancel_operation_inv retry_inv cleanup_inv claim_tasks_inv commit_task_inv fail_task_inv claim_qualification_inv
  complete_qualification_inv

lemma db_step_inv: "db_step env db db' \<Longrightarrow> index_inv env db \<Longrightarrow> index_inv env db'"
  by (erule db_step.cases) (blast intro: step_invs)+

lemma db_run_inv: "db_run env db db' \<Longrightarrow> index_inv env db \<Longrightarrow> index_inv env db'"
  by (induction rule: rtranclp_induct) (auto intro: db_step_inv)

section \<open>Search is complete\<close>

lemma chunk_document:
  assumes "consistent env db" "c \<in> set (chunks db)" "d \<in> set (documents db)" "d_active_generation d = c_generation c"
  shows "d_id d = c_document c"
proof -
  have fk: "foreign_ok db" and "distinct (map g_id (generations db))"
    using assms(1) by (simp_all add: consistent_def unique_ok_def)
  obtain g where g: "g \<in> set (generations db)" "g_id g = c_generation c" "g_document g = c_document c"
    using fk assms(2) unfolding foreign_ok_def Let_def list_all_iff by force
  obtain h where h: "h \<in> set (generations db)" "g_id h = d_active_generation d" "g_document h = d_id d"
    using fk assms(3) unfolding foreign_ok_def Let_def list_all_iff by force
  have "g = h" using distinct_map_inj [OF \<open>distinct _\<close>] g h assms(4) by metis
  then show ?thesis using g h by simp
qed

lemma search_rows_intro:
  assumes "v \<in> set (chunk_embeddings db)" "v_generation v = active_embedding db" "v_dimension v = e_dimension e"
    "c \<in> set (chunks db)" "c_id c = v_chunk v" "d \<in> set (documents db)" "d_id d = c_document c"
    "d_active_generation d = c_generation c" "d_state d = READY" "can_read (d_id d)"
    "in_scope wanted (d_id d)" "scanned (v_chunk v)"
  shows "(distance (v_embedding v) query, c_id c) \<in> set (search_rows scanned distance can_read query wanted e db)"
  unfolding search_rows_def
  by (rule in_concat_map [OF assms(1)], simp only: assms(2,3,12) simp_thms if_True, rule in_concat_map [OF assms(4)],
      simp only: assms(5) simp_thms if_True, rule in_concat_map [OF assms(6)]) (use assms(7-12) in simp)

text \<open>
  C25: In every state that a sequence of uploads, deletions, ingestion, administration (but for a
  rollback of an embedding generation) and reprocessing steps reaches from a new installation,
  a chunk of a ready document that the caller may read has an embedding of the active generation, and a
  search whose scan reaches it returns it, unless as many chunks as the limit allows are at least as
  near. An exact search reaches every chunk; a search through the index need not.
\<close>

theorem search_finds_nearest:
  assumes "db_run env (initial_db start first) db" "between limit 1 100"
    "e \<in> set (embedding_generations db)" "e_id e = active_embedding db" "e_dimension e = 1024" "length query = 1024"
    "c \<in> set (ready_chunks db)" "can_read (c_document c)"
    "in_scope wanted (c_document c)" "scanned (c_id c)"
  shows "\<exists>hits v. v10_retrieve_active_chunks scanned distance can_read query limit wanted db = Inr hits \<and>
    v \<in> set (chunk_embeddings db) \<and> v_generation v = active_embedding db \<and> v_chunk v = c_id c \<and>
    ((c_id c, distance (v_embedding v) query) \<in> set hits \<or>
     length hits = nat limit \<and> (\<forall>(i, d) \<in> set hits. d \<le> distance (v_embedding v) query))"
proof -
  have inv: "index_inv env db" using db_run_inv [OF assms(1) initial_index_inv] .
  note con = index_invD(1) [OF inv]
  have e: "select_strict (\<lambda>e. e_id e = active_embedding db) (embedding_generations db) = Inr e"
  proof -
    obtain x where x: "select_strict (\<lambda>e. e_id e = active_embedding db) (embedding_generations db) = Inr x"
      using assms(3,4) by (cases "List.find (\<lambda>e. e_id e = active_embedding db) (embedding_generations db)")
        (auto simp: select_strict_def find_None_iff)
    moreover have "x = e" using select_strict_Inr [OF x] distinct_map_inj [OF consistent_embeddings(3) [OF con]] assms(3,4) by metis
    ultimately show ?thesis by simp
  qed
  have c: "c \<in> set (chunks db)" and "c_generation c \<in> live_generations db" using assms(7) by (auto simp: set_ready_chunks)
  then obtain d where d: "d \<in> set (documents db)" "d_state d = READY" "d_active_generation d = c_generation c"
    by (auto simp: live_generations_def)
  have di: "d_id d = c_document c" using chunk_document [OF con c d(1,3)] .
  obtain v where v: "v \<in> set (chunk_embeddings db)" "v_generation v = active_embedding db" "v_chunk v = c_id c"
    "v_dimension v = e_dimension e"
    using index_invD(2) [OF inv] assms(3,4,7) by (auto simp: searchable_def indexed_def)
  let ?rows = "search_rows scanned distance can_read query wanted e db"
  have "(distance (v_embedding v) query, c_id c) \<in> set ?rows"
    by (rule search_rows_intro [of v _ _ c d]) (use v c d di assms(8-10) in simp_all)
  note cov = order_limit_covers [OF this, of id "nat limit"]
  have "v10_retrieve_active_chunks scanned distance can_read query limit wanted db =
      Inr (map (\<lambda>(d, i). (i, d)) (order_limit id (nat limit) ?rows))"
    using assms(2,5,6) e by (simp add: v10_retrieve_active_chunks_def)
  then show ?thesis using cov v(1-3) by (fastforce simp: less_eq_prod_def)
qed

lemma demo_run:
  assumes "length v = 1024"
  shows "db_run demo_env (initial_db 0 1) (demo_ready v)"
proof -
  have u: "db_step demo_env (initial_db 0 1) demo_uploaded" using demo_upload by (rule step_upload)
  have c: "db_step demo_env demo_uploaded demo_claimed" using demo_claim by (blast intro: step_claim)
  have r: "db_step demo_env demo_claimed (demo_ready v)" using demo_commit [OF assms] by (rule step_commit)
  show ?thesis
    by (rule converse_rtranclp_into_rtranclp, rule u, rule converse_rtranclp_into_rtranclp, rule c, rule r_into_rtranclp, rule r)
qed

theorem search_finds_nearest_witness:
  "\<exists>hits v. v10_retrieve_active_chunks (apply_vector_search_tuning (\<lambda>_ _. False) (default_tuning\<lparr>vs_exact := True\<rparr>)) (\<lambda>x y. 0) (\<lambda>_. True) (replicate 1024 2) 5 None (demo_ready (replicate 1024 1)) = Inr hits \<and>
     v \<in> set (chunk_embeddings (demo_ready (replicate 1024 1))) \<and> v_generation v = 1 \<and> v_chunk v = 7 \<and>
     ((7, 0) \<in> set hits \<or> length hits = 5 \<and> (\<forall>(i, d) \<in> set hits. d \<le> 0))"
proof -
  let ?db = "demo_ready (replicate 1024 1)"
  have rows: "active_embedding ?db = 1" "embedding_generations ?db = embedding_generations (initial_db 0 1)"
    "ready_chunks ?db = [\<lparr>c_document = 2, c_generation = 3, c_source = demo_source (replicate 1024 1),
       c_embedding = Some (replicate 1024 1)\<rparr>]"
    by (simp_all add: demo_states demo_document_def initial_db_def ready_chunks_def)
  have "hd (embedding_generations (initial_db 0 1)) \<in> set (embedding_generations ?db)"
    "e_id (hd (embedding_generations (initial_db 0 1))) = active_embedding ?db"
    "e_dimension (hd (embedding_generations (initial_db 0 1))) = 1024"
    by (simp_all add: rows) (simp_all add: initial_db_def)
  moreover have "hd (ready_chunks ?db) \<in> set (ready_chunks ?db)" by (simp add: rows)
  ultimately show ?thesis
    using search_finds_nearest [OF demo_run, of "replicate 1024 1" 5 "hd (embedding_generations (initial_db 0 1))"
        "replicate 1024 2" "hd (ready_chunks ?db)" "\<lambda>_. True" None
        "apply_vector_search_tuning (\<lambda>_ _. False) (default_tuning\<lparr>vs_exact := True\<rparr>)" "\<lambda>x y. 0"]
    by (simp add: apply_vector_search_tuning_def between_def in_scope_def rows demo_source_def)
qed

end
