(* ===== verification/ReprocessingFaults.thy ===== *)
theory ReprocessingFaults
  imports ReprocessingRuns Chunking
begin

text \<open>
  Situations the reprocessing contracts do not handle: a rollback hides documents committed since the
  cutover, a retried reindex operation cannot finish, a worker that dies on its third attempt
  blocks the queue, a re-ingestion that yields an unchanged chunk cannot be committed, and a
  superseded embedding generation cannot be removed.
\<close>

section \<open>Rollback\<close>

lemma rollback_effect:
  assumes "v10_admin_rollback_embedding_generation env now c generation db = Inr (True, db')"
  shows "active_embedding db' = generation" "chunks db' = chunks db" "chunk_embeddings db' = chunk_embeddings db"
    "documents db' = documents db"
  using assms by (auto simp: v10_admin_rollback_embedding_generation_def Let_def rbind_Inr_iff append_audit_def split: if_splits)

lemma search_rows_elim:
  assumes "(x, k) \<in> set (search_rows scanned distance can_read query wanted e db)"
  obtains v where "v \<in> set (chunk_embeddings db)" "v_generation v = active_embedding db" "v_chunk v = k"
  using assms by (auto simp: search_rows_def split: if_splits)

lemma retrieved_indexed:
  assumes "v10_retrieve_active_chunks scanned distance can_read query limit wanted db = Inr hits" "k \<in> fst ` set hits"
  obtains v where "v \<in> set (chunk_embeddings db)" "v_generation v = active_embedding db" "v_chunk v = k"
proof -
  obtain e where "hits = map (\<lambda>(d, i). (i, d)) (order_limit id (nat limit) (search_rows scanned distance can_read query wanted e db))"
    using assms(1) by (auto simp: v10_retrieve_active_chunks_def rbind_Inr_iff split: if_splits)
  then obtain x where "(x, k) \<in> set (search_rows scanned distance can_read query wanted e db)"
    using assms(2) order_limit_subset [of id "nat limit" "search_rows scanned distance can_read query wanted e db"] by force
  then show ?thesis using that by (rule search_rows_elim)
qed

text \<open>
  A chunk has an embedding of a generation; a generation is set aside: retained, and not the active one.
\<close>

definition embedded :: "uuid \<Rightarrow> uuid \<Rightarrow> db \<Rightarrow> bool" where
  "embedded g k db \<longleftrightarrow> (\<exists>v \<in> set (chunk_embeddings db). v_generation v = g \<and> v_chunk v = k)"

definition aside :: "uuid \<Rightarrow> db \<Rightarrow> bool" where
  "aside g db \<longleftrightarrow> g \<noteq> active_embedding db \<and> (\<forall>e \<in> set (embedding_generations db). e_id e = g \<longrightarrow> e_state e = RETAINED)"

text \<open>
  No step of the database gives a chunk an embedding of a generation that is set aside: a commit of an
  ingestion writes those of the active generation, a reindex task those of the one being built.
\<close>

lemma embedded_mono: "set (chunk_embeddings db') \<subseteq> set (chunk_embeddings db) \<Longrightarrow> embedded g k db' \<Longrightarrow> embedded g k db"
  unfolding embedded_def by blast

lemma upload_embeddings: "insert_upload env now doc generation job sha filename byte_size key versions db = Inr db' \<Longrightarrow>
    chunk_embeddings db' = chunk_embeddings db"
  by (auto simp: insert_upload_def rbind_Inr_iff Let_def split: prod.splits if_splits option.splits)

lemma reingest_embeddings: "v4_commit_document_reingest env now snapshot nodes c doc token job db = Inr (res, db') \<Longrightarrow>
    set (chunk_embeddings db') \<subseteq> set (chunk_embeddings db)"
  apply (auto simp: v4_commit_document_reingest_def reset_document_def rbind_Inr_iff Let_def delete_chunks_def delete_where_def append_audit_def split: prod.splits if_splits option.splits)
  done

lemma maintenance_embeddings: "v4_maintenance_requeue_document env now snapshot' doc token job retry_only db = Inr (res, db') \<Longrightarrow>
    set (chunk_embeddings db') \<subseteq> set (chunk_embeddings db)"
  apply (auto simp: v4_maintenance_requeue_document_def reset_document_def rbind_Inr_iff Let_def delete_chunks_def delete_where_def split: prod.splits if_splits option.splits)
  done

lemma delete_document_embeddings: "set (chunk_embeddings (delete_document doc db)) \<subseteq> set (chunk_embeddings db)"
  by (auto simp: delete_document_def delete_generations_def delete_chunks_def delete_where_def Let_def)

lemma claim_embeddings: "v4_claim_ingestion_job env now locked token owner seconds db = Inr (claim, db') \<Longrightarrow>
    chunk_embeddings db' = chunk_embeddings db"
  by (auto simp: v4_claim_ingestion_job_def rbind_Inr_iff Let_def split: if_splits list.splits option.splits)

lemma heartbeat_embeddings: "v4_heartbeat_ingestion_job env now i token fence seconds db = Inr (b, db') \<Longrightarrow>
    chunk_embeddings db' = chunk_embeddings db"
  by (auto simp: v4_heartbeat_ingestion_job_def rbind_Inr_iff Let_def split: if_splits list.splits option.splits)

lemma requeue_embeddings: "v4_requeue_ingestion_job env now i token fence available db = Inr (b, db') \<Longrightarrow>
    chunk_embeddings db' = chunk_embeddings db"
  by (auto simp: v4_requeue_ingestion_job_def rbind_Inr_iff Let_def split: if_splits list.splits option.splits)

lemma progress_embeddings: "v4_update_ingestion_progress env now i token fence stage completed total_units db = Inr (pr, db') \<Longrightarrow>
    chunk_embeddings db' = chunk_embeddings db"
  by (auto simp: v4_update_ingestion_progress_def rbind_Inr_iff Let_def split: if_splits list.splits option.splits)

lemma poison_embeddings: "v4_poison_ingestion_job env now i token fence err db = Inr (b, db') \<Longrightarrow>
    chunk_embeddings db' = chunk_embeddings db"
  by (auto simp: v4_poison_ingestion_job_def rbind_Inr_iff Let_def split: if_splits list.splits option.splits)

lemma profile_embeddings: "v10_admin_set_ingestion_profile env c random base profile db = Inr (revision, db') \<Longrightarrow>
    chunk_embeddings db' = chunk_embeddings db"
  by (auto simp: v10_admin_set_ingestion_profile_def rbind_Inr_iff Let_def append_audit_def split: if_splits list.splits option.splits)

lemma preview_embeddings: "v10_admin_preview_reprocessing env now c preview kind profile source db = Inr (pv, db') \<Longrightarrow>
    chunk_embeddings db' = chunk_embeddings db"
  by (auto simp: v10_admin_preview_reprocessing_def rbind_Inr_iff Let_def split: if_splits list.splits option.splits)

lemma grant_embeddings: "v10_admin_issue_reprocessing_grant env now c grant preview digest token_hash db = Inr (expiry, db') \<Longrightarrow>
    chunk_embeddings db' = chunk_embeddings db"
  by (auto simp: v10_admin_issue_reprocessing_grant_def rbind_Inr_iff Let_def split: if_splits list.splits option.splits)

lemma start_reindex_embeddings: "start_reindex env now operation generation p db = Inr db' \<Longrightarrow> chunk_embeddings db' = chunk_embeddings db"
  by (auto simp: start_reindex_def rbind_Inr_iff split: option.splits)

lemma start_reingestion_embeddings: "start_reingestion env now operation ids p db = Inr db' \<Longrightarrow> chunk_embeddings db' = chunk_embeddings db"
  by (auto simp: start_reingestion_def rbind_Inr_iff Let_def split: option.splits)

lemma start_embeddings: "v10_admin_start_reprocessing env now c operation generation ids preview digest token_hash db = Inr (i, db') \<Longrightarrow>
    chunk_embeddings db' = chunk_embeddings db"
  by (erule start_cases) (auto split: if_splits dest: start_reindex_embeddings start_reingestion_embeddings)

lemma pause_embeddings: "v10_admin_pause_reprocessing env now c i db = Inr (b, db') \<Longrightarrow>
    chunk_embeddings db' = chunk_embeddings db"
  by (auto simp: v10_admin_pause_reprocessing_def rbind_Inr_iff Let_def split: if_splits list.splits option.splits)

lemma resume_embeddings: "v10_admin_resume_reprocessing env now c i db = Inr (b, db') \<Longrightarrow>
    chunk_embeddings db' = chunk_embeddings db"
  by (auto simp: v10_admin_resume_reprocessing_def rbind_Inr_iff Let_def split: if_splits list.splits option.splits)

lemma cancel_embeddings: "v10_admin_cancel_reprocessing env now c i db = Inr (b, db') \<Longrightarrow>
    chunk_embeddings db' = chunk_embeddings db"
  by (auto simp: v10_admin_cancel_reprocessing_def rbind_Inr_iff Let_def split: if_splits list.splits option.splits)

lemma retry_embeddings: "v10_admin_retry_reprocessing env now c i db = Inr (b, db') \<Longrightarrow>
    chunk_embeddings db' = chunk_embeddings db"
  by (auto simp: v10_admin_retry_reprocessing_def rbind_Inr_iff Let_def split: if_splits list.splits option.splits)

lemma cleanup_embeddings: "v10_admin_cleanup_generation env c kind generation db = Inr (b, db') \<Longrightarrow>
    set (chunk_embeddings db') \<subseteq> set (chunk_embeddings db)"
  by (auto simp: v10_admin_cleanup_generation_def delete_embedding_generations_def delete_generations_def delete_chunks_def delete_where_def
      rbind_Inr_iff Let_def split: if_splits list.splits option.splits)

lemma claim_tasks_embeddings: "v10_claim_reindex_tasks env now locked' tokens owner seconds limit db = Inr (claims, db') \<Longrightarrow>
    chunk_embeddings db' = chunk_embeddings db"
  by (auto simp: v10_claim_reindex_tasks_def rbind_Inr_iff Let_def split: if_splits)

lemma fail_task_embeddings: "v10_fail_reindex_task env now operation ck token fence err db = Inr (b, db') \<Longrightarrow>
    chunk_embeddings db' = chunk_embeddings db"
  by (auto simp: v10_fail_reindex_task_def rbind_Inr_iff Let_def split: if_splits list.splits option.splits)

lemma claim_qualification_embeddings: "v10_claim_reindex_qualification env now locked token owner seconds db = Inr (qc, db') \<Longrightarrow>
    chunk_embeddings db' = chunk_embeddings db"
  by (auto simp: v10_claim_reindex_qualification_def rbind_Inr_iff Let_def split: if_splits list.splits option.splits)

lemma complete_qualification_embeddings: "v10_complete_reindex_qualification env now operation token fence b1 b2 b3 b4 reason db = Inr (b, db') \<Longrightarrow>
    chunk_embeddings db' = chunk_embeddings db"
  by (auto simp: v10_complete_reindex_qualification_def fail_qualification_def cutover_def append_audit_def rbind_Inr_iff Let_def split: if_splits option.splits)

lemma rollback_embeddings: "v10_admin_rollback_embedding_generation env now c generation db = Inr (b, db') \<Longrightarrow>
    chunk_embeddings db' = chunk_embeddings db"
  by (auto simp: v10_admin_rollback_embedding_generation_def append_audit_def rbind_Inr_iff Let_def split: if_splits option.splits)

lemma commit_embeddings:
  assumes "v4_commit_ingestion_job env now i token fence pages payload db = Inr (b, db')" "v \<in> set (chunk_embeddings db')"
  shows "v \<in> set (chunk_embeddings db) \<or> v_generation v = active_embedding db"
proof (cases b)
  case True
  then have "v4_commit_ingestion_job env now i token fence pages payload db = Inr (True, db')" using assms(1) by simp
  then show ?thesis
    by (rule commit_effect) (use assms(2) in \<open>auto simp: delete_chunks_def delete_where_def Let_def embedding_of_source_def\<close>)
next
  case False
  then have "db' = db" using assms(1) by (auto simp: v4_commit_ingestion_job_def rbind_Inr_iff Let_def split: if_splits option.splits)
  then show ?thesis using assms(2) by simp
qed

lemma commit_task_embedded: "v10_commit_reindex_task env now operation ck token fence embedding db = Inr (b, db') \<Longrightarrow>
    aside g db \<Longrightarrow> embedded g k db' \<Longrightarrow> embedded g k db"
  by (auto simp: v10_commit_reindex_task_def upsert_embedding_def rbind_Inr_iff Let_def embedded_def aside_def ball_update_where bex_update_where in_update_where
     dest!: select_strict_Inr  split: if_splits option.splits)

lemmas embedding_frames = upload_embeddings claim_embeddings heartbeat_embeddings requeue_embeddings progress_embeddings poison_embeddings
  profile_embeddings preview_embeddings grant_embeddings start_embeddings pause_embeddings resume_embeddings cancel_embeddings
  retry_embeddings claim_tasks_embeddings fail_task_embeddings claim_qualification_embeddings complete_qualification_embeddings
  rollback_embeddings

lemmas embedding_subsets = reingest_embeddings maintenance_embeddings cleanup_embeddings

lemma step_embedded:
  assumes "db_step env db db'" "aside g db" "embedded g k db'"
  shows "embedded g k db"
  using assms(1)
proof cases
  case (step_commit now i token fence pages payload b)
  then show ?thesis using assms(2,3) commit_embeddings by (fastforce simp: embedded_def aside_def)
next
  case (step_commit_task now operation ck token fence embedding b)
  then show ?thesis using commit_task_embedded assms(2,3) by blast
next
  case (step_delete doc)
  then show ?thesis using assms(3) delete_document_embeddings [of doc db] by (auto intro: embedded_mono)
next
  case (step_turn turn)
  then show ?thesis using assms(3) by (simp add: embedded_def v10_bind_turn_embedding_generation_def)
next
  case (step_verification bs)
  then show ?thesis using assms(3) by (simp add: embedded_def)
qed (rule embedded_mono [OF _ assms(3)], (drule embedding_frames | drule embedding_subsets), simp)+

text \<open>Steps that leave a generation set aside, rollbacks to other generations among them.\<close>

inductive aside_step :: "env \<Rightarrow> uuid \<Rightarrow> db \<Rightarrow> db \<Rightarrow> bool" for env g where
  aside_step: "db_step env db db' \<Longrightarrow> aside g db' \<Longrightarrow> aside_step env g db db'"
| aside_rollback: "v10_admin_rollback_embedding_generation env now c other db = Inr (b, db') \<Longrightarrow> aside g db' \<Longrightarrow> aside_step env g db db'"

lemma aside_run:
  "(aside_step env g)\<^sup>*\<^sup>* db db' \<Longrightarrow> aside g db \<Longrightarrow> aside g db' \<and> (embedded g k db' \<longrightarrow> embedded g k db)"
proof (induction rule: rtranclp_induct)
  case (step db1 db2)
  from step(2) have "aside g db2 \<and> (embedded g k db2 \<longrightarrow> embedded g k db1)"
  proof cases
    case aside_step
    then show ?thesis using step_embedded step.IH [OF step.prems] by blast
  next
    case (aside_rollback now c other b)
    then show ?thesis using rollback_embeddings by (simp add: embedded_def)
  qed
  then show ?case using step.IH [OF step.prems] by blast
qed simp

text \<open>The chunks of a committed payload have embeddings of no other generation than the active one.\<close>

lemma committed_embeddings:
  assumes "v4_commit_ingestion_job env now i token fence pages payload db = Inr (True, db1)" "s \<in> set payload"
    "v \<in> set (chunk_embeddings db1)" "v_chunk v = s_id s"
  shows "v_generation v = active_embedding db"
proof (rule commit_effect [OF assms(1)])
  fix j and g :: document_generation and e :: embedding_generation
  let ?db0 = "delete_chunks (\<lambda>c. c_generation c = g_id g) db"
  assume con: "consistent env ?db0" "consistent env db1"
    and chunks: "chunks db1 = delete_where (\<lambda>c. c_generation c = g_id g) (chunks db) @ map (chunk_of_source j g e) payload"
    and embeddings: "chunk_embeddings db1 = chunk_embeddings ?db0 @ map (embedding_of_source env now g e) payload"
    and e: "e_id e = active_embedding db"
  have "s_id s \<notin> set (map c_id (chunks ?db0))"
    using con(2) assms(2) unfolding consistent_def unique_ok_def chunks by (auto simp: chunk_of_source_def)
  moreover have "v_chunk x \<in> set (map c_id (chunks ?db0))" if "x \<in> set (chunk_embeddings ?db0)" for x
    using con(1) that unfolding consistent_def foreign_ok_def Let_def list_all_iff by blast
  ultimately have "v \<notin> set (chunk_embeddings ?db0)" using assms(4) by metis
  then show ?thesis using assms(3) e by (auto simp: embeddings embedding_of_source_def)
qed

text \<open>
  C35: After a rollback to a retained embedding generation no search returns a chunk that was committed
  while the generation was set aside, whatever the steps in between and whatever the query, limit and
  filter of the search: the chunk is ready when it is committed, the rollback changes neither the
  documents nor the chunks, and nothing gives the chunk an embedding of the restored generation.
\<close>

theorem rollback_hides_documents:
  assumes "v4_commit_ingestion_job env now i token fence pages payload db = Inr (True, db1)" "s \<in> set payload"
    "aside generation db1" "(aside_step env generation)\<^sup>*\<^sup>* db1 db2"
    "v10_admin_rollback_embedding_generation env now' c generation db2 = Inr (True, db3)"
  shows "(\<exists>ck \<in> set (ready_chunks db1). c_source ck = s) \<and> ready_chunks db3 = ready_chunks db2 \<and>
    (\<forall>scanned distance can_read query limit wanted hits.
       v10_retrieve_active_chunks scanned distance can_read query limit wanted db3 = Inr hits \<longrightarrow> s_id s \<notin> fst ` set hits)"
proof -
  note r = rollback_effect [OF assms(5)]
  obtain j and g :: document_generation and e :: embedding_generation where
    chunks: "chunks db1 = delete_where (\<lambda>c. c_generation c = g_id g) (chunks db) @ map (chunk_of_source j g e) payload"
    and same: "active_embedding db1 = active_embedding db"
    and "\<exists>d \<in> set (documents db1). d_state d = READY \<and> d_active_generation d = g_id g"
    using assms(1) by (rule commit_effect)
  then have "chunk_of_source j g e s \<in> set (ready_chunks db1)"
    using assms(2) by (auto simp: ready_chunks_def chunk_of_source_def)
  then have ready: "\<exists>ck \<in> set (ready_chunks db1). c_source ck = s" by (rule bexI [rotated]) (simp add: chunk_of_source_def)
  have "\<not> embedded generation (s_id s) db1"
    using committed_embeddings [OF assms(1,2)] assms(3) same unfolding embedded_def aside_def by metis
  then have hidden: "\<not> embedded generation (s_id s) db3" using aside_run [OF assms(4,3)] r(3) by (auto simp: embedded_def)
  have "s_id s \<notin> fst ` set hits" if "v10_retrieve_active_chunks scanned distance can_read query limit wanted db3 = Inr hits"
    for scanned distance can_read query limit wanted hits
    using retrieved_indexed [OF that, of "s_id s"] hidden r(1) unfolding embedded_def by metis
  then show ?thesis using ready r(2,4) by (auto simp: ready_chunks_def)
qed

text \<open>A second document is uploaded, claimed and committed after the cutover of the example.\<close>

definition demo_hash' :: string where "demo_hash' = replicate 64 (CHR ''b'')"

lemma demo_hash' [simp]: "hex64 demo_hash'" "demo_hash \<noteq> demo_hash'" "demo_hash' \<noteq> demo_hash"
  by (simp_all add: hex64_def demo_hash'_def demo_hash_def code_def)

definition demo_second :: document where
  "demo_second = demo_document\<lparr>d_id := 40, d_sha256 := demo_hash', d_object_key := ''k2'', d_updated_at := 10,
     d_active_generation := 41\<rparr>"

definition demo_both :: "vector \<Rightarrow> db" where
  "demo_both v = (demo_cut v v)\<lparr>documents := documents (demo_cut v v) @ [demo_second],
     generations := generations (demo_cut v v) @ [v10_create_document_generation 10 demo_second],
     jobs := jobs (demo_cut v v) @ [claimed_job 11 43 ''w'' 60 (new_job 10 42 40 41 None)]\<rparr>"

definition demo_both_ready :: "vector \<Rightarrow> db" where
  "demo_both_ready v = (demo_both v)\<lparr>
     chunks := chunks (demo_both v) @ [\<lparr>c_document = 40, c_generation = 41, c_source = (demo_source v)\<lparr>s_id := 44\<rparr>, c_embedding = Some v\<rparr>],
     chunk_embeddings := chunk_embeddings (demo_both v) @
       [\<lparr>v_generation = 12, v_chunk = 44, v_document_generation = 41, v_dimension = 1024, v_embedding = v,
         v_text_sha256 = demo_hash, v_provenance = demo_hash, v_created_at = 12\<rparr>],
     generations := generations (demo_cut v v) @ [(v10_create_document_generation 10 demo_second)\<lparr>g_state := GEN_READY,
       g_page_count := Some 1, g_chunk_count := 1, g_ready_at := Some 12, g_updated_at := 12\<rparr>],
     documents := documents (demo_cut v v) @ [demo_second\<lparr>d_state := READY, d_stage := READY, d_page_count := Some 1,
       d_chunk_count := 1, d_updated_at := 12\<rparr>],
     jobs := jobs (demo_cut v v) @ [(claimed_job 11 43 ''w'' 60 (new_job 10 42 40 41 None))\<lparr>j_status := JOB_COMPLETED,
       j_stage := READY, j_completed_units := 1, j_total_units := Some 1, j_lease_owner := None, j_lease_token := None,
       j_lease_expires_at := None, j_heartbeat_at := Some 12, j_updated_at := 12\<rparr>]\<rparr>"

lemmas demo_cut_simps = demo_cut_def demo_qualifying_def demo_embedded_def demo_states demo_simps demo_anchor

lemma demo_both_commit:
  assumes "length v = 1024"
  shows "v4_commit_ingestion_job demo_env 12 42 43 1 1 [(demo_source v)\<lparr>s_id := 44\<rparr>] (demo_both v) = Inr (True, demo_both_ready v)"
  using assms
  by (simp add: v4_commit_ingestion_job_def demo_both_ready_def demo_both_def demo_second_def demo_cut_simps
      operation_running_def update_where_def delete_where_def rbind_def holds_lease_def sql_eq_def sql_gt_def version_mismatch_def
      replace_chunks_def activate_generation_def complete_job_def chunk_of_source_def embedding_of_source_def provenance_def
      delete_chunks_def select_strict_def)

text \<open>The backups are verified anew before the rollback.\<close>

definition demo_later :: "vector \<Rightarrow> db" where
  "demo_later v = (demo_both_ready v)\<lparr>verifications := [\<lparr>b_run = 20, b_succeeded = True, b_verified_at = 12\<rparr>]\<rparr>"

lemma demo_later_rollback:
  assumes "length v = 1024"
  shows "\<exists>db. v10_admin_rollback_embedding_generation demo_env 13 demo_admin 1 (demo_later v) = Inr (True, db)"
  using assms
  by (simp add: v10_admin_rollback_embedding_generation_def v4_require_admin_def rbind_def append_audit_def update_where_def
      demo_later_def demo_both_ready_def demo_both_def demo_second_def demo_cut_simps)

lemma demo_aside: "aside 1 (demo_both_ready v)" "aside 1 (demo_later v)"
  by (simp_all add: aside_def demo_later_def demo_both_ready_def demo_both_def demo_cut_def demo_candidate_def)

theorem rollback_hides_documents_witness:
  "\<exists>db. v10_admin_rollback_embedding_generation demo_env 13 demo_admin 1 (demo_later (replicate 1024 1)) = Inr (True, db) \<and>
     (\<exists>ck \<in> set (ready_chunks (demo_both_ready (replicate 1024 1))). c_source ck = (demo_source (replicate 1024 1))\<lparr>s_id := 44\<rparr>) \<and>
     ready_chunks db = ready_chunks (demo_later (replicate 1024 1)) \<and>
     (\<forall>scanned distance can_read query limit wanted hits.
       v10_retrieve_active_chunks scanned distance can_read query limit wanted db = Inr hits \<longrightarrow> 44 \<notin> fst ` set hits)"
proof -
  let ?v = "replicate 1024 (1 :: rat)"
  have v: "length ?v = 1024" by simp
  obtain db where db: "v10_admin_rollback_embedding_generation demo_env 13 demo_admin 1 (demo_later ?v) = Inr (True, db)"
    using demo_later_rollback [OF v] by blast
  have "aside_step demo_env 1 (demo_both_ready ?v) (demo_later ?v)"
    by (rule aside_step [OF step_verification demo_aside(2)]) (simp add: demo_later_def)
  then have "(aside_step demo_env 1)\<^sup>*\<^sup>* (demo_both_ready ?v) (demo_later ?v)" by (rule r_into_rtranclp)
  from rollback_hides_documents [OF demo_both_commit [OF v] _ demo_aside(1) this db, of "(demo_source ?v)\<lparr>s_id := 44\<rparr>"]
  show ?thesis using db by simp
qed

section \<open>Retry\<close>

text \<open>The steps of the reindex worker and the control of the operation, but for its cancellation.\<close>

inductive reindex_step :: "env \<Rightarrow> db \<Rightarrow> db \<Rightarrow> bool" for env where
  reindex_claim: "v10_claim_reindex_tasks env now locked tokens owner seconds limit db = Inr (claims, db') \<Longrightarrow> reindex_step env db db'"
| reindex_commit: "v10_commit_reindex_task env now operation ck token fence embedding db = Inr (b, db') \<Longrightarrow> reindex_step env db db'"
| reindex_fail: "v10_fail_reindex_task env now operation ck token fence err db = Inr (b, db') \<Longrightarrow> reindex_step env db db'"
| reindex_qualification: "v10_claim_reindex_qualification env now locked' token owner seconds db = Inr (qc, db') \<Longrightarrow> reindex_step env db db'"
| reindex_complete: "v10_complete_reindex_qualification env now operation token fence b1 b2 b3 b4 reason db = Inr (b, db') \<Longrightarrow>
    reindex_step env db db'"
| reindex_pause: "v10_admin_pause_reprocessing env now c operation db = Inr (b, db') \<Longrightarrow> reindex_step env db db'"
| reindex_resume: "v10_admin_resume_reprocessing env now c operation db = Inr (b, db') \<Longrightarrow> reindex_step env db db'"
| reindex_retry: "v10_admin_retry_reprocessing env now c operation db = Inr (b, db') \<Longrightarrow> reindex_step env db db'"

text \<open>Tasks no step of the worker changes any more.\<close>

definition settled :: "reindex_task \<Rightarrow> bool" where
  "settled t \<longleftrightarrow> t_state t = TASK_COMPLETED \<or> t_state t = TASK_FAILED \<and> 3 \<le> t_attempt t"

definition stuck_tasks :: "uuid \<Rightarrow> reindex_task list \<Rightarrow> bool" where
  "stuck_tasks i ts \<longleftrightarrow> (\<exists>t \<in> set ts. t_operation t = i \<and> t_state t = TASK_FAILED \<and> 3 \<le> t_attempt t) \<or>
     (\<forall>t \<in> set ts. t_operation t = i \<longrightarrow> t_state t = TASK_COMPLETED)"

definition unfinished :: "uuid \<Rightarrow> db \<Rightarrow> bool" where
  "unfinished i db \<longleftrightarrow> (\<forall>p \<in> set (operations db). o_id p = i \<longrightarrow> o_state p \<in> {OP_RUNNING, OP_PAUSED, OP_FAILED})"

abbreviation task_keys :: "db \<Rightarrow> (uuid \<times> uuid) list" where
  "task_keys db \<equiv> map (\<lambda>t. (t_operation t, t_chunk t)) (tasks db)"

definition stuck :: "uuid \<Rightarrow> db \<Rightarrow> bool" where
  "stuck i db \<longleftrightarrow> distinct (task_keys db) \<and> stuck_tasks i (tasks db) \<and> unfinished i db"

lemma stuck_update:
  assumes "stuck i db" "tasks db' = update_where P f (tasks db)" "\<And>t. t \<in> set (tasks db) \<Longrightarrow> P t \<Longrightarrow> \<not> settled t"
    "\<And>t. t_operation (f t) = t_operation t" "\<And>t. t_chunk (f t) = t_chunk t" "unfinished i db'"
  shows "stuck i db'"
proof -
  have "task_keys db' = task_keys db" by (simp add: assms(2,4,5))
  moreover have "stuck_tasks i (tasks db')"
  proof (cases "\<exists>t \<in> set (tasks db). t_operation t = i \<and> t_state t = TASK_FAILED \<and> 3 \<le> t_attempt t")
    case True
    then obtain t where t: "t \<in> set (tasks db)" "t_operation t = i" "t_state t = TASK_FAILED" "3 \<le> t_attempt t" by blast
    then have "\<not> P t" using assms(3) [of t] by (auto simp: settled_def)
    then show ?thesis using t by (auto simp: stuck_tasks_def assms(2) bex_update_where)
  next
    case False
    then have "\<forall>t \<in> set (tasks db). t_operation t = i \<longrightarrow> t_state t = TASK_COMPLETED"
      using assms(1) unfolding stuck_def stuck_tasks_def by blast
    then show ?thesis using assms(3,4) by (auto simp: stuck_tasks_def assms(2) ball_update_where settled_def)
  qed
  ultimately show ?thesis using assms(1,6) by (simp add: stuck_def)
qed

lemma stuck_same_tasks: "stuck i db \<Longrightarrow> tasks db' = tasks db \<Longrightarrow> unfinished i db' \<Longrightarrow> stuck i db'"
  by (simp add: stuck_def)

lemma unfinished_update:
  assumes "unfinished i db" "operations db' = update_where P f (operations db)" "\<And>p. o_id (f p) = o_id p"
    "\<And>p. p \<in> set (operations db) \<Longrightarrow> P p \<Longrightarrow> o_id p = i \<Longrightarrow> o_state p \<in> {OP_RUNNING, OP_PAUSED, OP_FAILED} \<Longrightarrow>
      o_state (f p) \<in> {OP_RUNNING, OP_PAUSED, OP_FAILED}"
  shows "unfinished i db'"
  using assms(1,3,4) unfolding unfinished_def assms(2) ball_update_where by (metis (full_types))

lemma stuck_claim:
  assumes "stuck i db" "v10_claim_reindex_tasks env now locked tokens owner seconds limit db = Inr (claims, db')"
  shows "stuck i db'"
proof -
  let ?candidates = "order_limit (\<lambda>t. (t_created_at t, t_chunk t)) (nat limit)
      (filter (\<lambda>t. task_claimable db now t \<and> (t_operation t, t_chunk t) \<notin> locked) (tasks db))"
  let ?P = "\<lambda>t. (t_operation t, t_chunk t) \<in> set (map (\<lambda>t. (t_operation t, t_chunk t)) ?candidates)"
  have db': "db' = db\<lparr>tasks := update_where ?P (claimed_task now tokens owner seconds) (tasks db)\<rparr>"
    using assms(2) unfolding v10_claim_reindex_tasks_def Let_def by (auto simp: rbind_Inr_iff split: if_splits)
  show ?thesis
  proof (rule stuck_update [OF assms(1), of _ ?P "claimed_task now tokens owner seconds"])
    fix t assume t: "t \<in> set (tasks db)" "?P t"
    then obtain u where u: "u \<in> set ?candidates" "t_operation t = t_operation u" "t_chunk t = t_chunk u" by auto
    then have "u \<in> set (tasks db)" "task_claimable db now u" using order_limit_subset by fastforce+
    moreover have "distinct (task_keys db)" using assms(1) by (simp add: stuck_def)
    ultimately have "task_claimable db now t" using distinct_map_inj [of _ _ t u, OF _ t(1)] u(2,3) by auto
    then show "\<not> settled t" by (auto simp: task_claimable_def settled_def)
  qed (use assms(1) db' in \<open>simp_all add: claimed_task_def stuck_def unfinished_def\<close>)
qed

lemma stuck_commit:
  assumes "stuck i db" "v10_commit_reindex_task env now operation ck token fence embedding db = Inr (b, db')"
  shows "stuck i db'"
proof (cases "db' = db")
  case False
  let ?own = "filter (\<lambda>t. t_operation t = operation) (finish_task_row now operation ck (tasks db))"
  let ?finished = "length (filter (\<lambda>t. t_state t = TASK_COMPLETED) ?own)"
  obtain t where t: "t \<in> set (tasks db)" "holds_task operation ck token fence t"
    and tasks: "tasks db' = finish_task_row now operation ck (tasks db)"
    and ops: "operations db' = update_where (\<lambda>p. o_id p = operation)
       (\<lambda>p. p\<lparr>o_completed_chunks := int ?finished, o_state := (if ?finished = length ?own then OP_QUALIFYING else o_state p),
              o_stage := (if ?finished = length ?own then ''qualifying'' else o_stage p), o_updated_at := now\<rparr>) (operations db)"
    using assms(2) False unfolding v10_commit_reindex_task_def Let_def
    by (auto simp: rbind_Inr_iff split: if_splits option.splits dest: find_SomeD)
  have keys: "distinct (task_keys db)" using assms(1) by (simp add: stuck_def)
  have only: "u = t" if "u \<in> set (tasks db)" "t_operation u = operation" "t_chunk u = ck" for u
    using distinct_map_inj [OF keys that(1) t(1)] t(2) that by (simp add: holds_task_def)
  have "?finished \<noteq> length ?own" if h: "operation = i"
  proof -
    obtain u where u: "u \<in> set (tasks db)" "t_operation u = i" "t_state u = TASK_FAILED"
      using assms(1) t h by (auto simp: stuck_def stuck_tasks_def holds_task_def)
    then have "u \<noteq> t" using t(2) by (auto simp: holds_task_def)
    then have "u \<in> set ?own" using u that only by (auto simp: finish_task_row_def in_update_where intro!: bexI [of _ u])
    then show ?thesis using u(3) by (metis (mono_tags, lifting) filter_id_conv length_filter_less less_irrefl task_state.distinct(11))
  qed
  then have "unfinished i db'"
    using assms(1) by (intro unfinished_update [OF _ ops]) (auto simp: stuck_def)
  then show ?thesis
    by (intro stuck_update [OF assms(1) tasks [unfolded finish_task_row_def]])
      (use only t(2) in \<open>auto simp: holds_task_def settled_def\<close>)
qed (use assms in simp)

lemma stuck_fail:
  assumes "stuck i db" "v10_fail_reindex_task env now operation ck token fence err db = Inr (b, db')"
  shows "stuck i db'"
proof (cases "db' = db")
  case False
  have tasks: "tasks db' = update_where (holds_task operation ck token fence)
      (\<lambda>r. r\<lparr>t_state := (if t_attempt r < 3 then TASK_QUEUED else TASK_FAILED),
             t_error := Some (take 500 (btrim err)), t_lease_owner := None, t_lease_token := None,
             t_lease_expires_at := None, t_updated_at := now\<rparr>) (tasks db)"
    and ops: "operations db' = operations db \<or> operations db' = update_where (\<lambda>p. o_id p = operation)
      (\<lambda>p. p\<lparr>o_state := OP_FAILED, o_stage := ''failed'', o_reason := Some ''embedding_task_failed'',
             o_finished_at := Some now, o_updated_at := now\<rparr>) (operations db)"
    using assms(2) False unfolding v10_fail_reindex_task_def
    by (auto simp: rbind_Inr_iff split: if_splits option.splits)
  from ops have "unfinished i db'"
  proof
    assume "operations db' = operations db"
    then show ?thesis using assms(1) by (simp add: stuck_def unfinished_def)
  next
    assume "operations db' = update_where (\<lambda>p. o_id p = operation)
      (\<lambda>p. p\<lparr>o_state := OP_FAILED, o_stage := ''failed'', o_reason := Some ''embedding_task_failed'',
             o_finished_at := Some now, o_updated_at := now\<rparr>) (operations db)"
    then show ?thesis by (rule unfinished_update [rotated]) (use assms(1) in \<open>simp_all add: stuck_def\<close>)
  qed
  then show ?thesis
    by (intro stuck_update [OF assms(1) tasks]) (auto simp: holds_task_def settled_def)
qed (use assms in simp)

lemma stuck_qualification:
  assumes "stuck i db" "v10_claim_reindex_qualification env now locked token owner seconds db = Inr (qc, db')"
  shows "stuck i db'"
proof (cases "db' = db")
  case False
  then obtain k where ops: "operations db' = update_where (\<lambda>q. o_id q = k)
      (\<lambda>q. q\<lparr>o_lease_owner := Some owner, o_lease_token := Some token,
             o_lease_expires_at := Some (now + of_int seconds),
             o_fencing_token := o_fencing_token q + 1, o_updated_at := now\<rparr>) (operations db)" and "tasks db' = tasks db"
    using assms(2)
    by (auto simp: v10_claim_reindex_qualification_def rbind_Inr_iff split: if_splits option.splits list.splits)
  moreover have "unfinished i db'" by (rule unfinished_update [OF _ ops]) (use assms(1) in \<open>auto simp: stuck_def\<close>)
  ultimately show ?thesis using stuck_same_tasks [OF assms(1)] by simp
qed (use assms in simp)

text \<open>The end of a qualification changes the state of its operation only.\<close>

definition only_operation :: "uuid \<Rightarrow> db \<Rightarrow> db \<Rightarrow> bool" where
  "only_operation k db db' \<longleftrightarrow> tasks db' = tasks db \<and>
     (\<exists>f. operations db' = update_where (\<lambda>p. o_id p = k) f (operations db) \<and> (\<forall>p. o_id (f p) = o_id p))"

lemma only_operationI:
  "tasks db' = tasks db \<Longrightarrow> operations db' = update_where (\<lambda>p. o_id p = k) f (operations db) \<Longrightarrow> (\<And>p. o_id (f p) = o_id p) \<Longrightarrow>
   only_operation k db db'"
  unfolding only_operation_def by blast

lemma only_operation_unfinished:
  assumes "only_operation k db db'" "unfinished i db" "k \<noteq> i"
  shows "unfinished i db'"
proof -
  obtain f where "operations db' = update_where (\<lambda>p. o_id p = k) f (operations db)" "\<forall>p. o_id (f p) = o_id p"
    using assms(1) unfolding only_operation_def by blast
  then show ?thesis using unfinished_update [OF assms(2), of db' "\<lambda>p. o_id p = k" f] assms(3) by simp
qed

lemma fail_qualification_only: "fail_qualification env now k g result reason db = Inr (b, db') \<Longrightarrow> only_operation k db db'"
  by (auto simp: fail_qualification_def rbind_Inr_iff simp del: if_split intro!: only_operationI)

lemma cutover_only: "cutover env now k e db = Inr (b, db') \<Longrightarrow> only_operation k db db'"
  by (auto simp: cutover_def Let_def rbind_Inr_iff append_audit_def intro!: only_operationI)

lemma complete_effect:
  assumes "v10_complete_reindex_qualification env now operation token fence b1 b2 b3 b4 reason db = Inr (b, db')"
  shows "db' = db \<or> only_operation operation db db' \<and> (\<exists>p \<in> set (operations db). o_id p = operation \<and> o_state p = OP_QUALIFYING)"
  using assms
  by (auto simp: v10_complete_reindex_qualification_def Let_def rbind_Inr_iff dest!: find_SomeD
      dest: fail_qualification_only cutover_only split: if_splits option.splits)

lemma stuck_complete:
  assumes "stuck i db" "v10_complete_reindex_qualification env now operation token fence b1 b2 b3 b4 reason db = Inr (b, db')"
  shows "stuck i db'"
proof (cases "db' = db")
  case False
  then have only: "only_operation operation db db'" and "\<exists>p \<in> set (operations db). o_id p = operation \<and> o_state p = OP_QUALIFYING"
    using complete_effect [OF assms(2)] by simp_all
  then have "operation \<noteq> i" using assms(1) by (auto simp: stuck_def unfinished_def)
  then show ?thesis using only only_operation_unfinished [OF only, of i] assms(1)
    by (intro stuck_same_tasks [OF assms(1)]) (simp_all add: stuck_def only_operation_def)
qed (use assms in simp)

lemma stuck_pause:
  assumes "stuck i db" "v10_admin_pause_reprocessing env now c operation db = Inr (b, db')"
  shows "stuck i db'"
  using assms by (intro stuck_same_tasks [OF assms(1)])
    (auto simp: v10_admin_pause_reprocessing_def rbind_Inr_iff Let_def stuck_def unfinished_def in_update_where split: if_splits)

lemma stuck_resume:
  assumes "stuck i db" "v10_admin_resume_reprocessing env now c operation db = Inr (b, db')"
  shows "stuck i db'"
  using assms by (intro stuck_same_tasks [OF assms(1)])
    (auto simp: v10_admin_resume_reprocessing_def rbind_Inr_iff Let_def stuck_def unfinished_def in_update_where split: if_splits)

lemma stuck_retry:
  assumes "stuck i db" "v10_admin_retry_reprocessing env now c operation db = Inr (b, db')"
  shows "stuck i db'"
proof (cases "tasks db' = tasks db")
  case True
  then show ?thesis using assms by (intro stuck_same_tasks [OF assms(1)])
    (auto simp: v10_admin_retry_reprocessing_def rbind_Inr_iff stuck_def unfinished_def in_update_where split: if_splits option.splits)
next
  case False
  then have tasks: "tasks db' = requeue_failed_tasks now operation (tasks db)"
    using assms(2) by (auto simp: v10_admin_retry_reprocessing_def rbind_Inr_iff split: if_splits option.splits)
  have "unfinished i db'" using assms
    by (auto simp: v10_admin_retry_reprocessing_def rbind_Inr_iff stuck_def unfinished_def in_update_where split: if_splits option.splits)
  then show ?thesis
    by (intro stuck_update [OF assms(1) tasks [unfolded requeue_failed_tasks_def]]) (auto simp: settled_def)
qed

lemma stuck_run: "(reindex_step env)\<^sup>*\<^sup>* db db' \<Longrightarrow> stuck i db \<Longrightarrow> stuck i db'"
  by (induction rule: rtranclp_induct)
     (auto elim!: reindex_step.cases intro: stuck_claim stuck_commit stuck_fail stuck_qualification stuck_complete
        stuck_pause stuck_resume stuck_retry)

lemma reindex_run1: "reindex_step env db db' \<Longrightarrow> (reindex_step env)\<^sup>*\<^sup>* db db'"
  by (rule r_into_rtranclp)

lemma consistent_keys:
  assumes "consistent env db"
  shows "distinct (task_keys db)" "distinct (map o_id (operations db))"
  using assms by (simp_all add: consistent_def unique_ok_def)

lemma exhausted_task_stuck:
  assumes "consistent env db" "v10_fail_reindex_task env now i ck token fence err db = Inr (True, db1)"
    "t \<in> set (tasks db)" "holds_task i ck token fence t" "3 \<le> t_attempt t"
  shows "stuck i db1"
proof -
  obtain u where u: "List.find (holds_task i ck token fence) (tasks db) = Some u"
    using assms(3,4) by (cases "List.find (holds_task i ck token fence) (tasks db)") (auto simp: find_None_iff)
  then have "u \<in> set (tasks db)" "holds_task i ck token fence u" by (simp_all add: find_SomeD)
  then have "u = t" using distinct_map_inj [OF consistent_keys(1) [OF assms(1)], of u t] assms(3,4) by (simp add: holds_task_def)
  let ?f = "\<lambda>r. r\<lparr>t_state := (if t_attempt r < 3 then TASK_QUEUED else TASK_FAILED),
             t_error := Some (take 500 (btrim err)), t_lease_owner := None, t_lease_token := None,
             t_lease_expires_at := None, t_updated_at := now\<rparr>"
  have tasks: "tasks db1 = update_where (holds_task i ck token fence) ?f (tasks db)"
    and ops: "operations db1 = update_where (\<lambda>p. o_id p = i)
      (\<lambda>p. p\<lparr>o_state := OP_FAILED, o_stage := ''failed'', o_reason := Some ''embedding_task_failed'',
             o_finished_at := Some now, o_updated_at := now\<rparr>) (operations db)"
    using assms(2,5) u \<open>u = t\<close> by (auto simp: v10_fail_reindex_task_def rbind_Inr_iff)
  have "?f t \<in> set (tasks db1)" using assms(3,4) by (auto simp: tasks in_update_where intro!: bexI [of _ t])
  moreover have "t_operation (?f t) = i" "t_state (?f t) = TASK_FAILED" "3 \<le> t_attempt (?f t)"
    using assms(4,5) by (simp_all add: holds_task_def)
  ultimately have "stuck_tasks i (tasks db1)" unfolding stuck_tasks_def by blast
  moreover have "task_keys db1 = task_keys db" by (simp add: tasks)
  moreover have "unfinished i db1" by (simp add: unfinished_def ops ball_update_where)
  ultimately show ?thesis using consistent_keys(1) [OF assms(1)] by (simp add: stuck_def)
qed

text \<open>
  C36: Once a task has failed its third attempt, no sequence of retries, pauses, resumptions and
  steps of the worker brings the reindex operation to its qualification: a retry requeues only tasks
  with attempts left, so the failed task is never done.
\<close>

theorem retried_reindex_never_finishes:
  assumes "consistent env db" "v10_fail_reindex_task env now i ck token fence err db = Inr (True, db1)"
    "t \<in> set (tasks db)" "holds_task i ck token fence t" "3 \<le> t_attempt t" "(reindex_step env)\<^sup>*\<^sup>* db1 db2"
  shows "\<forall>p \<in> set (operations db2). o_id p = i \<longrightarrow> o_state p \<notin> {OP_QUALIFYING, OP_SUCCEEDED}"
  using stuck_run [OF assms(6) exhausted_task_stuck [OF assms(1-5)]] by (auto simp: stuck_def unfinished_def)

text \<open>In the example the task is claimed three times, its leases run out, and the third attempt fails.\<close>

definition demo_second_attempt :: reindex_task where
  "demo_second_attempt = claimed_task 100 (\<lambda>_. 13) ''w'' 60 (claimed_task 6 (\<lambda>_. 13) ''w'' 60 demo_task)"

definition demo_third :: "vector \<Rightarrow> db" where
  "demo_third v = demo_task_claimed v demo_second_attempt 200"

lemmas demo_third_simps =
  demo_third_def demo_second_attempt_def demo_task_claimed_def claimed_task_def holds_task_def sql_eq_def demo_states demo_simps demo_anchor

lemma demo_third_consistent: "length v = 1024 \<Longrightarrow> consistent demo_env (demo_third v)"
  by (simp add: consistent_def demo_third_simps)

theorem retried_reindex_never_finishes_witness:
  "\<exists>db1 db2. v10_fail_reindex_task demo_env 201 11 7 13 3 ''timeout'' (demo_third (replicate 1024 1)) = Inr (True, db1) \<and>
     v10_admin_retry_reprocessing demo_env 202 demo_admin 11 db1 = Inr (True, db2) \<and>
     (\<forall>p \<in> set (operations db2). o_id p = 11 \<longrightarrow> o_state p \<notin> {OP_QUALIFYING, OP_SUCCEEDED})"
proof -
  let ?v = "replicate 1024 (1 :: rat)" and ?t = "claimed_task 200 (\<lambda>_. 13) ''w'' 60 demo_second_attempt"
  have v: "length ?v = 1024" by simp
  obtain db1 db2 where db1: "v10_fail_reindex_task demo_env 201 11 7 13 3 ''timeout'' (demo_third ?v) = Inr (True, db1)"
    and db2: "v10_admin_retry_reprocessing demo_env 202 demo_admin 11 db1 = Inr (True, db2)"
    using v by (simp add: v10_fail_reindex_task_def v10_admin_retry_reprocessing_def requeue_failed_tasks_def v4_require_admin_def
        update_where_def rbind_def demo_third_simps)
  have "?t \<in> set (tasks (demo_third ?v))" "holds_task 11 7 13 3 ?t" "3 \<le> t_attempt ?t" by (simp_all add: demo_third_simps)
  from retried_reindex_never_finishes [OF demo_third_consistent [OF v] db1 this reindex_run1 [OF reindex_retry [OF db2]]]
  show ?thesis using db1 db2 by blast
qed

text \<open>
  C37: After a failed qualification a retry leaves the operation without work: every task is
  completed, so no commit starts the qualification again and the operation never succeeds.
\<close>

theorem failed_qualification_never_repeated:
  assumes "consistent env db" "v10_complete_reindex_qualification env now i token fence b1 b2 b3 b4 reason db = Inr (True, db1)"
    "p \<in> set (operations db1)" "o_id p = i" "o_state p = OP_FAILED"
    "\<forall>t \<in> set (tasks db). t_operation t = i \<longrightarrow> t_state t = TASK_COMPLETED" "(reindex_step env)\<^sup>*\<^sup>* db1 db2"
  shows "\<forall>p \<in> set (operations db2). o_id p = i \<longrightarrow> o_state p \<notin> {OP_QUALIFYING, OP_SUCCEEDED}"
proof -
  have "tasks db1 = tasks db" "distinct (map o_id (operations db1))"
    using complete_effect [OF assms(2)] consistent_keys(2) [OF assms(1)] by (auto simp: only_operation_def)
  moreover from this have "o_state q = OP_FAILED" if "q \<in> set (operations db1)" "o_id q = i" for q
    using distinct_map_inj [of o_id "operations db1" q p] assms(3-5) that by simp
  ultimately have "stuck i db1"
    using assms(5,6) consistent_keys(1) [OF assms(1)] unfolding stuck_def unfinished_def stuck_tasks_def by simp
  then have "stuck i db2" by (rule stuck_run [OF assms(7)])
  then show ?thesis by (auto simp: stuck_def unfinished_def)
qed

theorem failed_qualification_never_repeated_witness:
  "\<exists>db1 db2. v10_complete_reindex_qualification demo_env 9 11 15 1 False True True True []
       (demo_qualifying (replicate 1024 1) (replicate 1024 1)) = Inr (True, db1) \<and>
     v10_admin_retry_reprocessing demo_env 10 demo_admin 11 db1 = Inr (True, db2) \<and>
     (\<forall>p \<in> set (operations db2). o_id p = 11 \<longrightarrow> o_state p \<notin> {OP_QUALIFYING, OP_SUCCEEDED})"
proof -
  let ?v = "replicate 1024 (1 :: rat)"
  let ?db = "demo_qualifying ?v ?v"
  have v: "length ?v = 1024" by simp
  have con: "consistent demo_env ?db" using v
    by (simp add: consistent_def demo_qualifying_def demo_embedded_def demo_states demo_simps demo_anchor)
  obtain db1 db2 p where db1: "v10_complete_reindex_qualification demo_env 9 11 15 1 False True True True [] ?db = Inr (True, db1)"
    and p: "p \<in> set (operations db1)" "o_id p = 11" "o_state p = OP_FAILED"
    and db2: "v10_admin_retry_reprocessing demo_env 10 demo_admin 11 db1 = Inr (True, db2)"
    using v by (simp add: v10_complete_reindex_qualification_def fail_qualification_def select_strict_def sql_eq_def sql_gt_def
        v10_admin_retry_reprocessing_def requeue_failed_tasks_def v4_require_admin_def update_where_def rbind_def Let_def
        demo_qualifying_def demo_embedded_def demo_states demo_simps demo_anchor)
  have "\<forall>t \<in> set (tasks ?db). t_operation t = 11 \<longrightarrow> t_state t = TASK_COMPLETED"
    by (simp add: demo_qualifying_def demo_embedded_def)
  from failed_qualification_never_repeated [OF con db1 p this reindex_run1 [OF reindex_retry [OF db2]]]
  show ?thesis using db1 db2 by blast
qed

section \<open>Expired attempts\<close>

text \<open>
  C38: A worker that dies during the third attempt of a task blocks the queue: once its lease has
  expired, every claim that takes the task, as one of the oldest within its limit, violates the check of
  the attempt counter and claims nothing, while the operation can be neither paused nor cancelled.
\<close>

theorem expired_third_attempt_blocks_claims:
  assumes "t_state t = TASK_RUNNING" "t_attempt t = 3"
    "t \<in> set (order_limit (\<lambda>u. (t_created_at u, t_chunk u)) (nat limit)
       (filter (\<lambda>u. task_claimable db now u \<and> (t_operation u, t_chunk u) \<notin> locked) (tasks db)))"
    "p \<in> set (operations db)" "o_id p = t_operation t"
    "between (int (length owner)) 1 255" "between seconds 5 3600" "between limit 1 32" "v4_require_admin c = Inr actor"
  shows "v10_claim_reindex_tasks env now locked token owner seconds limit db = Inl CheckViolation \<and>
    v10_admin_pause_reprocessing env now c (o_id p) db = Inl (Raised ''operation is between safe pause boundaries'') \<and>
    v10_admin_cancel_reprocessing env now c (o_id p) db = Inr (False, db)"
proof -
  have t: "t \<in> set (tasks db)" using assms(3) order_limit_subset by fastforce
  have "\<not> check_ok env (db\<lparr>tasks := update_where (\<lambda>u. (t_operation u, t_chunk u) \<in> set (map (\<lambda>t. (t_operation t, t_chunk t))
      (order_limit (\<lambda>t. (t_created_at t, t_chunk t)) (nat limit)
        (filter (\<lambda>t. task_claimable db now t \<and> (t_operation t, t_chunk t) \<notin> locked) (tasks db)))))
      (claimed_task now token owner seconds) (tasks db)\<rparr>)"
    using t assms(2,3) by (auto simp: check_ok_def list_all_iff ball_update_where task_ok_def claimed_task_def between_def intro!: bexI [of _ t])
  then have "v10_claim_reindex_tasks env now locked token owner seconds limit db = Inl CheckViolation"
    using assms(6-8) by (simp add: v10_claim_reindex_tasks_def Let_def checked_def rbind_def)
  moreover have "work_running db (o_id p)" using t assms(1,5) by (auto simp: work_running_def)
  moreover have "List.find (\<lambda>q. o_id q = o_id p) (operations db) \<noteq> None" using assms(4) by (auto simp: find_None_iff)
  ultimately show ?thesis using assms(9)
    by (auto simp: v10_admin_pause_reprocessing_def v10_admin_cancel_reprocessing_def rbind_def)
qed

theorem expired_third_attempt_blocks_claims_witness:
  "v10_claim_reindex_tasks demo_env 300 {} (\<lambda>_. 14) ''w'' 60 1 (demo_third (replicate 1024 1)) = Inl CheckViolation"
proof -
  let ?v = "replicate 1024 (1 :: rat)" and ?t = "claimed_task 200 (\<lambda>_. 13) ''w'' 60 demo_second_attempt"
  have "t_state ?t = TASK_RUNNING" "t_attempt ?t = 3" "task_claimable (demo_third ?v) 300 ?t" "tasks (demo_third ?v) = [?t]"
    "demo_operation \<in> set (operations (demo_third ?v))" "o_id demo_operation = t_operation ?t"
    by (simp_all add: task_claimable_def demo_third_simps sql_le_def)
  then show ?thesis
    using expired_third_attempt_blocks_claims [of ?t 1 "demo_third ?v" 300 "{}" demo_operation "''w''" 60 demo_admin 30]
    by (simp add: between_def demo_admin_def v4_require_admin_def order_limit_def)
qed

section \<open>Unchanged chunks\<close>

text \<open>
  C39: The identifier of a chunk depends on neither the parser nor the chunking version, so a
  re-ingestion that yields a chunk as the document already has it in another generation cannot be
  committed.
\<close>

theorem reingestion_unchanged_chunk_fails:
  assumes "List.find (holds_lease now i token fence) (jobs db) = Some j"
    "old \<in> set (chunks db)" "c_generation old \<noteq> j_target_generation j" "s \<in> set payload"
    "c_id old = chunk_uuid name_uuid show_uuid doc (nat (s_ordinal (c_source old))) (s_page_start (c_source old))
       (s_text_sha256 (c_source old)) (s_schema_version (c_source old))"
    "s_id s = chunk_uuid name_uuid show_uuid doc (nat (s_ordinal s)) (s_page_start s) (s_text_sha256 s) (s_schema_version s)"
    "s_ordinal s = s_ordinal (c_source old)" "s_page_start s = s_page_start (c_source old)"
    "s_text_sha256 s = s_text_sha256 (c_source old)" "s_schema_version s = s_schema_version (c_source old)"
  shows "\<forall>db'. v4_commit_ingestion_job env now i token fence pages payload db \<noteq> Inr (True, db')"
proof (intro allI notI)
  fix db' assume "v4_commit_ingestion_job env now i token fence pages payload db = Inr (True, db')"
  then obtain k and g :: document_generation and e :: embedding_generation where "consistent env db'"
    "chunks db' = delete_where (\<lambda>c. c_generation c = g_id g) (chunks db) @ map (chunk_of_source k g e) payload"
    "List.find (holds_lease now i token fence) (jobs db) = Some k" "g_id g = j_target_generation k"
    by (rule commit_effect)
  moreover from this have "old \<in> set (delete_where (\<lambda>c. c_generation c = g_id g) (chunks db))" using assms(1-3) by simp
  moreover have "s_id s = c_id old" using assms(5-10) by simp
  ultimately show False using assms(4) by (force simp: consistent_def unique_ok_def chunk_of_source_def)
qed

text \<open>In the example the document of chunk 7 is ingested again into generation 50.\<close>

definition demo_again :: "vector \<Rightarrow> db" where
  "demo_again v = (demo_ready v)\<lparr>
     generations := generations (demo_ready v) @ [(v10_create_document_generation 10 demo_document)\<lparr>g_id := 50\<rparr>],
     jobs := jobs (demo_ready v) @ [claimed_job 11 43 ''w'' 60 (new_job 10 42 2 50 None)]\<rparr>"

theorem reingestion_unchanged_chunk_fails_witness:
  "\<forall>db'. v4_commit_ingestion_job demo_env 12 42 43 1 1 [demo_source (replicate 1024 2)] (demo_again (replicate 1024 1)) \<noteq> Inr (True, db')"
proof -
  let ?v = "replicate 1024 (1 :: rat)" and ?j = "claimed_job 11 43 ''w'' 60 (new_job 10 42 2 50 None)"
  let ?old = "\<lparr>c_document = 2, c_generation = 3, c_source = demo_source ?v, c_embedding = Some ?v\<rparr>"
  have "List.find (holds_lease 12 42 43 1) (jobs (demo_again ?v)) = Some ?j"
    by (simp add: demo_again_def demo_ready_def demo_claimed_def claimed_job_def new_job_def holds_lease_def sql_eq_def sql_gt_def)
  moreover have "?old \<in> set (chunks (demo_again ?v))" "c_generation ?old \<noteq> j_target_generation ?j"
    by (simp_all add: demo_again_def demo_ready_def claimed_job_def new_job_def)
  ultimately show ?thesis
    by (rule reingestion_unchanged_chunk_fails [where s = "demo_source (replicate 1024 2)" and name_uuid = "\<lambda>_ _. 7" and show_uuid = "\<lambda>_. []" and doc = 2])
       (simp_all add: demo_source_def chunk_uuid_def)
qed

section \<open>Superseded generations\<close>

lemma check_ok_sublists:
  assumes "check_ok env db"
  shows "check_ok env (delete_embedding_generations p db)"
  using assms by (auto simp: check_ok_def delete_embedding_generations_def Let_def list_all_iff)

lemma distinct_delete_where: "distinct (map f xs) \<Longrightarrow> distinct (map f (delete_where p xs))"
  by (simp add: delete_where_def distinct_map_filter)

lemma filter_delete_where: "filter q (delete_where p xs) = delete_where p (filter q xs)"
  by (simp add: delete_where_def conj_commute)

lemma length_delete_where: "length (delete_where p xs) \<le> length xs"
  by (simp add: delete_where_def)

lemma unique_ok_sublists:
  assumes "unique_ok db"
  shows "unique_ok (delete_embedding_generations p db)"
  using assms length_delete_where [of p "filter (\<lambda>e. e_state e = ACTIVE) (embedding_generations db)"]
  by (simp add: unique_ok_def delete_embedding_generations_def Let_def distinct_delete_where filter_delete_where)

text \<open>
  An embedding generation that another one was built from cannot be removed: its cleanup
  always violates the foreign key of the newer generation, also when it is retained or abandoned.
\<close>

theorem superseded_generation_not_removable:
  assumes "consistent env db" "e \<in> set (embedding_generations db)" "e_source e = Some generation" "e_id e \<noteq> generation"
    "old \<in> set (embedding_generations db)" "e_id old = generation" "e_operation old \<noteq> None" "e_state old \<in> {RETAINED, ABANDONED}"
    "generation \<noteq> active_embedding db" "v4_require_admin c = Inr actor"
  shows "v10_admin_cleanup_generation env c ''embedding'' generation db = Inl ForeignKeyViolation"
proof -
  let ?hit = "\<lambda>e. e_id e = generation \<and> e_operation e \<noteq> None \<and> e_state e \<in> {RETAINED, ABANDONED} \<and> e_id e \<noteq> active_embedding db"
  let ?db = "delete_embedding_generations ?hit db"
  have inj: "x = old" if "x \<in> set (embedding_generations db)" "e_id x = generation" for x
    using assms(1,5,6) that distinct_map_inj [of e_id "embedding_generations db" x old] by (simp add: consistent_def unique_ok_def)
  have "e \<in> set (embedding_generations ?db)" using assms(2,4) by (simp add: delete_embedding_generations_def Let_def)
  moreover have "generation \<notin> set (map e_id (embedding_generations ?db))"
    using inj assms(6-9) by (auto simp: delete_embedding_generations_def Let_def)
  ultimately have "\<not> foreign_ok ?db" using assms(3) by (auto simp: foreign_ok_def Let_def list_all_iff)
  moreover have "check_ok env ?db" "unique_ok ?db"
    using assms(1) check_ok_sublists unique_ok_sublists by (simp_all add: consistent_def)
  ultimately have "checked env ?db = Inl ForeignKeyViolation" by (simp add: checked_def)
  then show ?thesis using assms(10) by (simp add: v10_admin_cleanup_generation_def rbind_def)
qed

text \<open>In the example a second reindex operation has replaced generation 12 by generation 60.\<close>

definition demo_twice :: "vector \<Rightarrow> db" where
  "demo_twice v = (demo_cut v v)\<lparr>
     previews := [demo_preview\<lparr>p_consumed_at := Some 5\<rparr>, demo_preview\<lparr>p_id := 62, p_consumed_at := Some 20\<rparr>],
     operations := operations (demo_cut v v) @ [demo_operation\<lparr>o_id := 61, o_preview := 62, o_generation := Some 60,
       o_state := OP_SUCCEEDED, o_stage := ''succeeded'', o_finished_at := Some 30\<rparr>],
     embedding_generations := [hd (embedding_generations (demo_cut v v)),
       demo_candidate\<lparr>e_state := RETAINED, e_qualified_at := Some 9, e_activated_at := Some 9, e_retired_at := Some 30\<rparr>,
       demo_candidate\<lparr>e_id := 60, e_operation := Some 61, e_source := Some 12, e_state := ACTIVE, e_activated_at := Some 30\<rparr>],
     active_embedding := 60\<rparr>"

theorem superseded_generation_not_removable_witness:
  "v10_admin_cleanup_generation demo_env demo_admin ''embedding'' 12 (demo_twice (replicate 1024 1)) = Inl ForeignKeyViolation"
proof -
  let ?v = "replicate 1024 (1 :: rat)"
  have con: "consistent demo_env (demo_twice ?v)"
    by (simp add: consistent_def demo_twice_def demo_cut_simps)
  show ?thesis
    by (rule superseded_generation_not_removable [OF con, where e = "last (embedding_generations (demo_twice ?v))"
        and old = "embedding_generations (demo_twice ?v) ! 1" and actor = 30])
       (simp_all add: demo_twice_def demo_candidate_def demo_admin_def v4_require_admin_def)
qed

end
