(* ===== verification/Accounts.thy ===== *)
theory Accounts
  imports Tables
begin

text \<open>
  Accounts and sessions of the database (migration 0001): users, sessions, activation challenges
  and login throttles, with the stored functions the API calls to authenticate. The tables of
  teams, library nodes and grants stand in the same record; their contracts are in the theory
  Access. The statement timestamp and random identifiers are arguments; the caller of a function is
  given by the hash of its session token, as \<open>rag.session_token_hash\<close> is in the database.
\<close>

section \<open>Rows\<close>

datatype account_role = ROLE_ADMIN | ROLE_MEMBER
datatype account_status = PENDING_ACTIVATION | ACTIVE_ACCOUNT | DISABLED | DELETED
datatype node_kind = FOLDER | FILE

record user_row =
  u_id :: uuid
  u_username :: string
  u_display_name :: string
  u_role :: account_role
  u_status :: account_status
  u_password_hash :: "string option"
  u_authentication_version :: int
  u_deleted_at :: "time option"

record session_row =
  ss_id :: uuid
  ss_user :: uuid
  ss_token_hash :: string
  ss_csrf_token_hash :: string
  ss_issued_version :: int
  ss_issued_epoch :: int
  ss_issued_session_epoch :: uuid
  ss_issued_at :: time
  ss_last_seen_at :: time
  ss_idle_expires_at :: time
  ss_absolute_expires_at :: time
  ss_reauthenticated_at :: "time option"
  ss_revoked_at :: "time option"

record challenge_row =
  ch_id :: uuid
  ch_user :: uuid
  ch_purpose :: string
  ch_token_hash :: string
  ch_expires_at :: time
  ch_consumed_at :: "time option"
  ch_revoked_at :: "time option"
  ch_created_at :: time

record throttle_row =
  th_key_hash :: string
  th_failure_count :: int
  th_first_failure_at :: time
  th_blocked_until :: "time option"
  th_updated_at :: time

record security_epoch =
  ep_authentication :: int
  ep_authorization :: int
  ep_session :: uuid

record team_row =
  tm_id :: uuid
  tm_name :: string
  tm_name_key :: string
  tm_is_active :: bool

record library_node =
  n_id :: uuid
  n_parent :: "uuid option"
  n_kind :: node_kind
  n_name :: string
  n_name_key :: string
  n_document :: "uuid option"
  n_uploader :: "uuid option"
  n_boundary :: bool

text \<open>A row of \<open>access_grants\<close> or of \<open>folder_create_grants\<close>: its node and its one principal.\<close>

record grant_row =
  ag_node :: uuid
  ag_user :: "uuid option"
  ag_team :: "uuid option"

record access_row =
  ea_user :: uuid
  ea_document :: uuid
  ea_version :: int

text \<open>
  The operations on access rights, decoded from JSON; \<open>UnsupportedOperation\<close> stands for every JSON
  value that is no operation.
\<close>

datatype acl_operation =
  SetGrant uuid "uuid option" "uuid option" bool
| SetMembership uuid uuid bool
| SetBoundary uuid bool
| SetTeamActive uuid bool
| MoveNode uuid "uuid option"
| SetCreateChildrenGrant uuid "uuid option" "uuid option" bool
| UnsupportedOperation

record acl_preview =
  ap_id :: uuid
  ap_actor :: uuid
  ap_operation :: acl_operation
  ap_impact_digest :: string
  ap_version :: int
  ap_expires_at :: time
  ap_consumed_at :: "time option"

record security_db =
  users :: "user_row list"
  sessions :: "session_row list"
  challenges :: "challenge_row list"
  throttles :: "throttle_row list"
  epoch :: security_epoch
  teams :: "team_row list"
  team_members :: "(uuid \<times> uuid) list"
  library_nodes :: "library_node list"
  access_grants :: "grant_row list"
  create_grants :: "grant_row list"
  effective_access :: "access_row list"
  acl_previews :: "acl_preview list"
  audit_events :: "(string \<times> uuid) list"

text \<open>The database after the migrations.\<close>

definition initial_security :: "uuid \<Rightarrow> security_db" where
  "initial_security session_epoch =
     \<lparr>users = [], sessions = [], challenges = [], throttles = [],
      epoch = \<lparr>ep_authentication = 1, ep_authorization = 1, ep_session = session_epoch\<rparr>,
      teams = [], team_members = [], library_nodes = [], access_grants = [], create_grants = [],
      effective_access = [], acl_previews = [], audit_events = []\<rparr>"

section \<open>Constraints\<close>

definition username_char :: "char \<Rightarrow> bool" where
  "username_char c \<longleftrightarrow> 97 \<le> code c \<and> code c \<le> 122 \<or> 48 \<le> code c \<and> code c \<le> 57"

definition valid_username :: "string \<Rightarrow> bool" where
  "valid_username s \<longleftrightarrow> 3 \<le> length s \<and> length s \<le> 32 \<and> username_char (hd s) \<and> username_char (last s) \<and>
     (\<forall>c \<in> set s. username_char c \<or> c \<in> {CHR ''.'', CHR ''_'', CHR ''-''})"

definition control_char :: "char \<Rightarrow> bool" where
  "control_char c \<longleftrightarrow> code c < 32 \<or> 127 \<le> code c \<and> code c \<le> 159"

definition user_ok :: "user_row \<Rightarrow> bool" where
  "user_ok u \<longleftrightarrow> valid_username (u_username u) \<and> between (int (length (u_display_name u))) 1 80 \<and>
     \<not> (\<exists>c \<in> set (u_display_name u). control_char c) \<and>
     (u_status u = ACTIVE_ACCOUNT \<longrightarrow> u_password_hash u \<noteq> None) \<and>
     (u_status u = DELETED \<and> u_password_hash u = None \<and> u_deleted_at u \<noteq> None \<or>
      u_status u \<noteq> DELETED \<and> u_deleted_at u = None) \<and>
     1 \<le> u_authentication_version u"

definition session_ok :: "session_row \<Rightarrow> bool" where
  "session_ok s \<longleftrightarrow> length (ss_token_hash s) = 64 \<and> length (ss_csrf_token_hash s) = 64 \<and>
     ss_issued_at s \<le> ss_last_seen_at s \<and> ss_last_seen_at s \<le> ss_idle_expires_at s \<and>
     ss_idle_expires_at s = ss_absolute_expires_at s \<and>
     (\<forall>t \<in> set_option (ss_reauthenticated_at s). ss_issued_at s \<le> t \<and> t \<le> ss_last_seen_at s) \<and>
     1 \<le> ss_issued_version s \<and> 1 \<le> ss_issued_epoch s"

definition challenge_ok :: "challenge_row \<Rightarrow> bool" where
  "challenge_ok c \<longleftrightarrow> ch_purpose c \<in> {''activation'', ''password_reset''} \<and> length (ch_token_hash c) = 64 \<and>
     ch_created_at c < ch_expires_at c \<and> ch_expires_at c \<le> ch_created_at c + 1800 \<and>
     (ch_consumed_at c = None \<or> ch_revoked_at c = None) \<and>
     (\<forall>t \<in> set_option (ch_consumed_at c). ch_created_at c \<le> t) \<and> (\<forall>t \<in> set_option (ch_revoked_at c). ch_created_at c \<le> t)"

definition account_checks :: "security_db \<Rightarrow> bool" where
  "account_checks s \<longleftrightarrow> list_all user_ok (users s) \<and> list_all session_ok (sessions s) \<and> list_all challenge_ok (challenges s) \<and>
     list_all (\<lambda>t. 0 \<le> th_failure_count t) (throttles s)"

definition account_uniques :: "security_db \<Rightarrow> bool" where
  "account_uniques s \<longleftrightarrow> distinct (map u_id (users s)) \<and> distinct (map u_username (users s)) \<and>
     distinct (map ss_id (sessions s)) \<and> distinct (map ss_token_hash (sessions s)) \<and>
     distinct (map ch_id (challenges s)) \<and> distinct (map ch_token_hash (challenges s)) \<and>
     distinct (map ch_user (filter (\<lambda>c. ch_consumed_at c = None \<and> ch_revoked_at c = None) (challenges s))) \<and>
     distinct (map th_key_hash (throttles s)) \<and> distinct (map tm_id (teams s)) \<and> distinct (map tm_name_key (teams s))"

definition account_references :: "security_db \<Rightarrow> bool" where
  "account_references s \<longleftrightarrow> list_all (\<lambda>x. ss_user x \<in> u_id ` set (users s)) (sessions s) \<and>
     list_all (\<lambda>x. ch_user x \<in> u_id ` set (users s)) (challenges s)"

definition accounts_ok :: "security_db \<Rightarrow> bool" where
  "accounts_ok s \<longleftrightarrow> account_checks s \<and> account_uniques s \<and> account_references s"

definition accounts_checked :: "security_db \<Rightarrow> (sql_error, security_db) result" where
  "accounts_checked s =
     (if \<not> account_checks s then Inl CheckViolation
      else if \<not> account_uniques s then Inl UniqueViolation
      else if \<not> account_references s then Inl ForeignKeyViolation
      else Inr s)"

lemma accounts_checked_Inr_iff [simp]: "accounts_checked s = Inr s' \<longleftrightarrow> s' = s \<and> accounts_ok s"
  by (auto simp: accounts_checked_def accounts_ok_def)

section \<open>The caller\<close>

definition account_live :: "user_row \<Rightarrow> bool" where
  "account_live u \<longleftrightarrow> u_status u = ACTIVE_ACCOUNT \<and> u_deleted_at u = None"

definition session_valid :: "time \<Rightarrow> string \<Rightarrow> security_db \<Rightarrow> session_row \<Rightarrow> bool" where
  "session_valid now token s x \<longleftrightarrow>
     ss_token_hash x = token \<and> ss_revoked_at x = None \<and> now < ss_idle_expires_at x \<and> now < ss_absolute_expires_at x \<and>
     (\<exists>u \<in> set (users s). u_id u = ss_user x \<and> account_live u \<and> ss_issued_version x = u_authentication_version u) \<and>
     ss_issued_epoch x = ep_authentication (epoch s) \<and> ss_issued_session_epoch x = ep_session (epoch s)"

definition v4_current_actor_id :: "time \<Rightarrow> string \<Rightarrow> security_db \<Rightarrow> uuid option" where
  "v4_current_actor_id now token s =
     (if token = [] then None else map_option ss_user (List.find (session_valid now token s) (sessions s)))"

definition is_active_admin :: "user_row \<Rightarrow> bool" where
  "is_active_admin u \<longleftrightarrow> u_role u = ROLE_ADMIN \<and> account_live u"

definition v4_current_actor_is_admin :: "time \<Rightarrow> string \<Rightarrow> security_db \<Rightarrow> bool" where
  "v4_current_actor_is_admin now token s \<longleftrightarrow>
     (\<exists>u \<in> set (users s). v4_current_actor_id now token s = Some (u_id u) \<and> is_active_admin u)"

definition require_security_admin :: "time \<Rightarrow> string \<Rightarrow> security_db \<Rightarrow> (sql_error, uuid) result" where
  "require_security_admin now token s =
     (case v4_current_actor_id now token s of
        None \<Rightarrow> Inl (Raised ''administrator capability required'')
      | Some a \<Rightarrow> if v4_current_actor_is_admin now token s then Inr a
                  else Inl (Raised ''administrator capability required''))"

text \<open>The rows \<open>v4_activate_actor\<close> and \<open>v4_session_view\<close> return for a valid session.\<close>

definition v4_activate_actor ::
  "time \<Rightarrow> string \<Rightarrow> security_db \<Rightarrow> (sql_error, uuid \<times> account_role \<times> int \<times> int \<times> uuid) result" where
  "v4_activate_actor now token s =
     (case List.find (session_valid now token s) (sessions s) of
        None \<Rightarrow> Inl (Raised ''invalid or expired session'')
      | Some x \<Rightarrow>
          (case List.find (\<lambda>u. u_id u = ss_user x) (users s) of
             None \<Rightarrow> Inl (Raised ''invalid or expired session'')
           | Some u \<Rightarrow> Inr (u_id u, u_role u, u_authentication_version u, ep_authorization (epoch s), ss_id x)))"

definition v4_append_audit :: "string \<Rightarrow> uuid \<Rightarrow> security_db \<Rightarrow> security_db" where
  "v4_append_audit event target s = s\<lparr>audit_events := audit_events s @ [(event, target)]\<rparr>"

section \<open>Login\<close>

definition like_argon2id :: "string \<Rightarrow> bool" where
  "like_argon2id h = starts_with h ''$argon2id$''"

definition v4_bootstrap_admin ::
  "uuid \<Rightarrow> string \<Rightarrow> string \<Rightarrow> string option \<Rightarrow> security_db \<Rightarrow> (sql_error, uuid \<times> security_db) result" where
  "v4_bootstrap_admin i username display password s =
     (if users s \<noteq> [] then Inl (Raised ''bootstrap is unavailable after the first user'')
      else if \<not> valid_username username then Inl (Raised ''invalid canonical username'')
      else if \<not> between (int (length display)) 1 80 then Inl (Raised ''invalid display name'')
      else case password of
        None \<Rightarrow> Inl (Raised ''invalid Argon2id password verifier'')
      | Some h \<Rightarrow>
          if \<not> like_argon2id h then Inl (Raised ''invalid Argon2id password verifier'')
          else rbind (accounts_checked (s\<lparr>users := users s @ [\<lparr>u_id = i, u_username = username, u_display_name = display,
                  u_role = ROLE_ADMIN, u_status = ACTIVE_ACCOUNT, u_password_hash = Some h,
                  u_authentication_version = 1, u_deleted_at = None\<rparr>]\<rparr>))
                 (\<lambda>s1. Inr (i, v4_append_audit ''bootstrap_admin_created'' i s1)))"

definition DAY :: time where "DAY = 86400"

definition drop_stale_throttles :: "time \<Rightarrow> throttle_row list \<Rightarrow> throttle_row list" where
  "drop_stale_throttles now = delete_where (\<lambda>t. th_updated_at t < now - DAY)"

definition v4_login_blocked_until ::
  "time \<Rightarrow> string \<Rightarrow> security_db \<Rightarrow> (sql_error, time option \<times> security_db) result" where
  "v4_login_blocked_until now key s =
     (if \<not> hex64 key then Inl (Raised ''invalid throttle key'')
      else let rows = drop_stale_throttles now (throttles s)
           in Inr (case List.find (\<lambda>t. th_key_hash t = key \<and> sql_gt (th_blocked_until t) now) rows of
                     None \<Rightarrow> None | Some t \<Rightarrow> th_blocked_until t,
                   s\<lparr>throttles := rows\<rparr>))"

text \<open>The update of \<open>ON CONFLICT (key_hash) DO UPDATE\<close>; its expressions read the row before.\<close>

definition throttle_again :: "time \<Rightarrow> throttle_row \<Rightarrow> throttle_row" where
  "throttle_again now t =
     (let stale = th_updated_at t < now - DAY;
          next_count = min (th_failure_count t + 1) 100;
          failures = (if stale then 1 else next_count)
      in t\<lparr>th_failure_count := failures,
           th_first_failure_at := (if stale then now else th_first_failure_at t),
           th_blocked_until := (if 5 \<le> failures then Some (now + min 900 (60 * of_int (next_count - 4))) else None),
           th_updated_at := now\<rparr>)"

definition v4_record_login_failure ::
  "time \<Rightarrow> string \<Rightarrow> security_db \<Rightarrow> (sql_error, time option \<times> security_db) result" where
  "v4_record_login_failure now key s =
     (if \<not> hex64 key then Inl (Raised ''invalid throttle key'')
      else let rows = drop_stale_throttles now (throttles s);
               rows' = (if \<exists>t \<in> set rows. th_key_hash t = key
                        then update_where (\<lambda>t. th_key_hash t = key) (throttle_again now) rows
                        else rows @ [\<lparr>th_key_hash = key, th_failure_count = 1, th_first_failure_at = now,
                               th_blocked_until = None, th_updated_at = now\<rparr>])
           in rbind (accounts_checked (s\<lparr>throttles := rows'\<rparr>)) (\<lambda>s1.
              Inr (case List.find (\<lambda>t. th_key_hash t = key) rows' of None \<Rightarrow> None | Some t \<Rightarrow> th_blocked_until t, s1)))"

definition v4_clear_login_failures :: "string \<Rightarrow> security_db \<Rightarrow> security_db" where
  "v4_clear_login_failures key s =
     s\<lparr>throttles := delete_where (\<lambda>t. th_key_hash t = key \<and> hex64 key) (throttles s)\<rparr>"

text \<open>The account of a username, when it is spelled canonically, and the throttle of the client.\<close>

definition v4_auth_lookup ::
  "time \<Rightarrow> string \<Rightarrow> string \<Rightarrow> security_db \<Rightarrow> user_row option \<times> time option" where
  "v4_auth_lookup now username key s =
     (List.find (\<lambda>u. u_username u = username \<and> username = lower (btrim username) \<and>
         between (int (length username)) 3 32) (users s),
      case List.find (\<lambda>t. th_key_hash t = key \<and> hex64 key \<and> sql_gt (th_blocked_until t) now) (throttles s) of
        None \<Rightarrow> None | Some t \<Rightarrow> th_blocked_until t)"

section \<open>Sessions\<close>

definition v4_issue_login_session ::
  "time \<Rightarrow> uuid \<Rightarrow> uuid \<Rightarrow> int \<Rightarrow> string \<Rightarrow> string \<Rightarrow> time \<Rightarrow> time \<Rightarrow> security_db \<Rightarrow> (sql_error, user_row \<times> security_db) result" where
  "v4_issue_login_session now i user version token csrf idle absolute s =
     rbind (select_strict (\<lambda>u. u_id u = user \<and> account_live u \<and> u_authentication_version u = version) (users s)) (\<lambda>u.
       if \<not> hex64 token \<or> \<not> hex64 csrf \<or> idle \<le> now \<or> now + 1800 < idle \<or> idle \<noteq> absolute
       then Inl (Raised ''invalid session issue request'')
       else rbind (accounts_checked (s\<lparr>sessions := sessions s @ [\<lparr>ss_id = i, ss_user = user, ss_token_hash = token,
              ss_csrf_token_hash = csrf, ss_issued_version = u_authentication_version u,
              ss_issued_epoch = ep_authentication (epoch s), ss_issued_session_epoch = ep_session (epoch s),
              ss_issued_at = now, ss_last_seen_at = now, ss_idle_expires_at = idle, ss_absolute_expires_at = absolute,
              ss_reauthenticated_at = Some now, ss_revoked_at = None\<rparr>]\<rparr>)) (\<lambda>s1. Inr (u, s1)))"

definition v4_refresh_session ::
  "time \<Rightarrow> string \<Rightarrow> string \<Rightarrow> time \<Rightarrow> security_db \<Rightarrow> (sql_error, (session_row \<times> bool) option \<times> security_db) result" where
  "v4_refresh_session now token csrf expires s =
     (if \<not> hex64 token \<or> \<not> hex64 csrf \<or> expires \<le> now \<or> now + 1800 < expires
      then Inl (Raised ''invalid session refresh'')
      else case List.find (\<lambda>x. session_valid now token s x \<and> ss_csrf_token_hash x = csrf) (sessions s) of
        None \<Rightarrow> Inr (None, s)
      | Some x \<Rightarrow>
          if ss_last_seen_at x \<le> now - 300
          then rbind (accounts_checked (s\<lparr>sessions := update_where (\<lambda>y. ss_id y = ss_id x)
                 (\<lambda>y. y\<lparr>ss_last_seen_at := now, ss_idle_expires_at := expires, ss_absolute_expires_at := expires\<rparr>)
                 (sessions s)\<rparr>)) (\<lambda>s1. Inr (Some (x, True), s1))
          else Inr (Some (x, False), s))"

definition revoke_sessions :: "time \<Rightarrow> (session_row \<Rightarrow> bool) \<Rightarrow> security_db \<Rightarrow> security_db" where
  "revoke_sessions now p s =
     s\<lparr>sessions := update_where (\<lambda>x. p x \<and> ss_revoked_at x = None) (\<lambda>x. x\<lparr>ss_revoked_at := Some now\<rparr>) (sessions s)\<rparr>"

definition v4_logout :: "time \<Rightarrow> string \<Rightarrow> security_db \<Rightarrow> security_db" where
  "v4_logout now token s = revoke_sessions now (\<lambda>x. ss_token_hash x = token) s"

text \<open>The update of the session in the contracts that issue a reauthentication grant.\<close>

definition mark_reauthenticated :: "time \<Rightarrow> uuid \<Rightarrow> security_db \<Rightarrow> (sql_error, security_db) result" where
  "mark_reauthenticated now i s =
     accounts_checked (s\<lparr>sessions := update_where (\<lambda>x. ss_id x = i)
       (\<lambda>x. x\<lparr>ss_reauthenticated_at := Some now, ss_last_seen_at := now\<rparr>) (sessions s)\<rparr>)"

definition set_password :: "string \<Rightarrow> user_row \<Rightarrow> user_row" where
  "set_password h u = u\<lparr>u_password_hash := Some h, u_authentication_version := u_authentication_version u + 1\<rparr>"

definition v4_consume_activation ::
  "time \<Rightarrow> uuid \<Rightarrow> string \<Rightarrow> string \<Rightarrow> string \<Rightarrow> string \<Rightarrow> time \<Rightarrow> time \<Rightarrow> security_db \<Rightarrow> (sql_error, uuid \<times> security_db) result" where
  "v4_consume_activation now i activation password token csrf idle absolute s =
     rbind (select_strict (\<lambda>c. ch_token_hash c = activation \<and> ch_consumed_at c = None \<and> ch_revoked_at c = None \<and>
              now < ch_expires_at c \<and>
              (\<exists>u \<in> set (users s). u_id u = ch_user c \<and> u_status u = PENDING_ACTIVATION \<and> u_password_hash u = None))
            (challenges s)) (\<lambda>c.
       if \<not> like_argon2id password then Inl (Raised ''invalid password verifier'')
       else rbind (accounts_checked (s\<lparr>challenges := update_where (\<lambda>x. ch_token_hash x = activation)
                     (\<lambda>x. x\<lparr>ch_consumed_at := Some now\<rparr>) (challenges s)\<rparr>)) (\<lambda>s1.
            rbind (accounts_checked (s1\<lparr>users := update_where (\<lambda>u. u_id u = ch_user c)
                     (\<lambda>u. (set_password password u)\<lparr>u_status := ACTIVE_ACCOUNT\<rparr>) (users s1)\<rparr>)) (\<lambda>s2.
            rbind (select_strict (\<lambda>u. u_id u = ch_user c) (users s2)) (\<lambda>u.
            rbind (v4_issue_login_session now i (ch_user c) (u_authentication_version u) token csrf idle absolute s2)
              (\<lambda>(_, s3). Inr (ch_user c, s3))))))"

definition v4_password_change_lookup :: "time \<Rightarrow> string \<Rightarrow> security_db \<Rightarrow> user_row option" where
  "v4_password_change_lookup now token s =
     (case List.find (session_valid now token s) (sessions s) of
        None \<Rightarrow> None | Some x \<Rightarrow> List.find (\<lambda>u. u_id u = ss_user x) (users s))"

definition v4_change_password ::
  "time \<Rightarrow> uuid \<Rightarrow> string \<Rightarrow> int \<Rightarrow> string \<Rightarrow> string \<Rightarrow> string \<Rightarrow> time \<Rightarrow> time \<Rightarrow> security_db \<Rightarrow>
   (sql_error, uuid \<times> security_db) result" where
  "v4_change_password now i current version password token csrf idle absolute s =
     rbind (select_strict (\<lambda>x. session_valid now current s x \<and> ss_issued_version x = version) (sessions s)) (\<lambda>x.
       if \<not> like_argon2id password then Inl (Raised ''invalid password verifier'')
       else rbind (accounts_checked (s\<lparr>users := update_where (\<lambda>u. u_id u = ss_user x) (set_password password) (users s)\<rparr>)) (\<lambda>s1.
            rbind (accounts_checked (revoke_sessions now (\<lambda>y. ss_user y = ss_user x) s1)) (\<lambda>s2.
            rbind (v4_issue_login_session now i (ss_user x) (version + 1) token csrf idle absolute s2)
              (\<lambda>(_, s3). Inr (ss_user x, s3)))))"

section \<open>Administration of accounts\<close>

definition challenge_request_ok :: "time \<Rightarrow> string \<Rightarrow> time \<Rightarrow> bool" where
  "challenge_request_ok now token expires \<longleftrightarrow> hex64 token \<and> expires \<le> now + 1800 \<and> now < expires"

definition new_challenge :: "time \<Rightarrow> uuid \<Rightarrow> uuid \<Rightarrow> string \<Rightarrow> string \<Rightarrow> time \<Rightarrow> challenge_row" where
  "new_challenge now i user purpose token expires =
     \<lparr>ch_id = i, ch_user = user, ch_purpose = purpose, ch_token_hash = token, ch_expires_at = expires,
      ch_consumed_at = None, ch_revoked_at = None, ch_created_at = now\<rparr>"

definition account_role_of :: "string \<Rightarrow> account_role option" where
  "account_role_of r = (if r = ''admin'' then Some ROLE_ADMIN else if r = ''member'' then Some ROLE_MEMBER else None)"

definition v4_admin_create_user ::
  "time \<Rightarrow> string \<Rightarrow> uuid \<Rightarrow> uuid \<Rightarrow> string \<Rightarrow> string \<Rightarrow> string \<Rightarrow> string \<Rightarrow> time \<Rightarrow> security_db \<Rightarrow>
   (sql_error, uuid \<times> security_db) result" where
  "v4_admin_create_user now caller i challenge username display role token expires s =
     rbind (require_security_admin now caller s) (\<lambda>_.
       case account_role_of role of
         None \<Rightarrow> Inl (Raised ''invalid pending user request'')
       | Some r \<Rightarrow>
           if \<not> challenge_request_ok now token expires then Inl (Raised ''invalid pending user request'')
           else rbind (accounts_checked (s\<lparr>users := users s @ [\<lparr>u_id = i, u_username = username, u_display_name = display,
                    u_role = r, u_status = PENDING_ACTIVATION, u_password_hash = None, u_authentication_version = 1,
                    u_deleted_at = None\<rparr>]\<rparr>)) (\<lambda>s1.
                rbind (accounts_checked (s1\<lparr>challenges := challenges s1 @ [new_challenge now challenge i ''activation'' token expires]\<rparr>)) (\<lambda>s2.
                Inr (i, v4_append_audit ''user_created'' i s2))))"

definition active_admins :: "security_db \<Rightarrow> nat" where
  "active_admins s = length (filter is_active_admin (users s))"

definition v4_admin_reset_user ::
  "time \<Rightarrow> string \<Rightarrow> uuid \<Rightarrow> uuid \<Rightarrow> string \<Rightarrow> time \<Rightarrow> security_db \<Rightarrow> (sql_error, security_db) result" where
  "v4_admin_reset_user now caller challenge user token expires s =
     rbind (require_security_admin now caller s) (\<lambda>_.
       case List.find (\<lambda>u. u_id u = user) (users s) of
         None \<Rightarrow> Inl (Raised ''user state changed or no longer exists'')
       | Some u \<Rightarrow>
           if \<not> challenge_request_ok now token expires then Inl (Raised ''invalid reset request'')
           else if u_status u = DELETED \<or> u_deleted_at u \<noteq> None then Inl (Raised ''deleted users are irreversible'')
           else if u_role u = ROLE_ADMIN \<and> u_status u = ACTIVE_ACCOUNT \<and> active_admins s \<le> 1
           then Inl (Raised ''cannot reset the final active administrator'')
           else
             rbind (accounts_checked (s\<lparr>users := update_where (\<lambda>x. u_id x = user \<and> u_deleted_at x = None)
                (\<lambda>x. x\<lparr>u_status := PENDING_ACTIVATION, u_password_hash := None,
                       u_authentication_version := u_authentication_version x + 1\<rparr>) (users s)\<rparr>)) (\<lambda>s1.
             rbind (accounts_checked (revoke_sessions now (\<lambda>x. ss_user x = user) s1)) (\<lambda>s2.
             rbind (accounts_checked (s2\<lparr>challenges := update_where
                (\<lambda>c. ch_user c = user \<and> ch_consumed_at c = None \<and> ch_revoked_at c = None)
                (\<lambda>c. c\<lparr>ch_revoked_at := Some now\<rparr>) (challenges s2)\<rparr>)) (\<lambda>s3.
             rbind (accounts_checked (s3\<lparr>challenges := challenges s3 @ [new_challenge now challenge user ''password_reset'' token expires]\<rparr>)) (\<lambda>s4.
             Inr (v4_append_audit ''password_reset_issued'' user s4))))))"

definition v4_admin_create_team ::
  "time \<Rightarrow> string \<Rightarrow> uuid \<Rightarrow> string \<Rightarrow> string \<Rightarrow> security_db \<Rightarrow> (sql_error, uuid \<times> security_db) result" where
  "v4_admin_create_team now caller i name name_key s =
     rbind (require_security_admin now caller s) (\<lambda>_.
       if \<not> between (int (length name)) 1 80 then Inl CheckViolation
       else rbind (accounts_checked (s\<lparr>teams := teams s @ [\<lparr>tm_id = i, tm_name = name, tm_name_key = name_key, tm_is_active = True\<rparr>]\<rparr>))
              (\<lambda>s1. Inr (i, v4_append_audit ''team_created'' i s1)))"

end
