(* ===== verification/Access.thy ===== *)
theory Access
  imports Accounts
begin

text \<open>
  Access rights of the database (migrations 0001 and 0004): reading of documents and folders, the
  materialised table \<open>effective_document_access\<close>, previews of changes with their impact, their
  application, and the contracts on library nodes and accounts that change what a member may
  read. A recursive query is evaluated by rounds as in the database; it ends on a tree, where the
  number of nodes bounds the rounds.
\<close>

section \<open>Recursive queries\<close>

text \<open>\<open>WITH RECURSIVE ... UNION ALL\<close>: the rows of a round are joined to give those of the next.\<close>

fun with_recursive :: "nat \<Rightarrow> ('r \<Rightarrow> 'r list) \<Rightarrow> 'r list \<Rightarrow> 'r list" where
  "with_recursive 0 step rows = rows"
| "with_recursive (Suc fuel) step rows =
     (if rows = [] then [] else rows @ with_recursive fuel step (concat (map step rows)))"

text \<open>A row of \<open>paths\<close>: the node it starts at, the ancestor it has reached, whether a boundary was seen.\<close>

type_synonym path_row = "library_node \<times> library_node \<times> bool"

definition path_step :: "library_node list \<Rightarrow> path_row \<Rightarrow> path_row list" where
  "path_step nodes = (\<lambda>(n, a, seen).
     if seen then [] else [(n, m, seen \<or> n_boundary m). m \<leftarrow> nodes, n_parent a = Some (n_id m)])"

definition paths :: "node_kind \<Rightarrow> library_node list \<Rightarrow> path_row list" where
  "paths k nodes = with_recursive (length nodes) (path_step nodes) [(n, n, n_boundary n). n \<leftarrow> nodes, n_kind n = k]"

definition child_step :: "library_node list \<Rightarrow> library_node \<times> nat \<Rightarrow> (library_node \<times> nat) list" where
  "child_step nodes = (\<lambda>(n, depth). [(c, depth + 1). c \<leftarrow> nodes, n_parent c = Some (n_id n)])"

definition subtree :: "uuid \<Rightarrow> library_node list \<Rightarrow> (library_node \<times> nat) list" where
  "subtree i nodes = with_recursive (length nodes) (child_step nodes) [(n, 0). n \<leftarrow> nodes, n_id n = i]"

definition ancestors :: "uuid \<Rightarrow> library_node list \<Rightarrow> (library_node \<times> nat) list" where
  "ancestors i nodes = with_recursive (length nodes)
     (\<lambda>(n, depth). [(p, depth + 1). p \<leftarrow> nodes, n_parent n = Some (n_id p)]) [(n, 1). n \<leftarrow> nodes, n_id n = i]"

definition max_depth :: "(library_node \<times> nat) list \<Rightarrow> nat" where
  "max_depth rows = foldr max (map snd rows) 0"

section \<open>Reading\<close>

definition team_active :: "team_row list \<Rightarrow> uuid \<Rightarrow> bool" where
  "team_active ts t \<longleftrightarrow> (\<exists>x \<in> set ts. tm_id x = t \<and> tm_is_active x)"

definition option_list :: "'a option \<Rightarrow> 'a list" where
  "option_list x = (case x of None \<Rightarrow> [] | Some y \<Rightarrow> [y])"

lemma set_option_list [simp]: "set (option_list x) = set_option x"
  by (cases x) (simp_all add: option_list_def)

definition grant_users :: "(uuid \<times> uuid) list \<Rightarrow> team_row list \<Rightarrow> grant_row \<Rightarrow> uuid list" where
  "grant_users members ts g =
     option_list (ag_user g) @ [u. t \<leftarrow> option_list (ag_team g), (t', u) \<leftarrow> members, t' = t \<and> team_active ts t]"

text \<open>The nodes of a kind with the users a grant on one of their ancestors up to a boundary names.\<close>

definition grantees ::
  "node_kind \<Rightarrow> library_node list \<Rightarrow> grant_row list \<Rightarrow> (uuid \<times> uuid) list \<Rightarrow> team_row list \<Rightarrow> (library_node \<times> uuid) list" where
  "grantees k nodes gs members ts =
     [(n, u). (n, a, seen) \<leftarrow> paths k nodes, g \<leftarrow> gs, ag_node g = n_id a, u \<leftarrow> grant_users members ts g]"

definition principals ::
  "library_node list \<Rightarrow> grant_row list \<Rightarrow> (uuid \<times> uuid) list \<Rightarrow> team_row list \<Rightarrow> (uuid \<times> uuid) list" where
  "principals nodes gs members ts =
     [(u, d). n \<leftarrow> nodes, n_kind n = FILE, d \<leftarrow> option_list (n_document n), u \<leftarrow> option_list (n_uploader n)] @
     [(u, d). (n, u) \<leftarrow> grantees FILE nodes gs members ts, d \<leftarrow> option_list (n_document n)]"

definition active_member :: "user_row list \<Rightarrow> uuid \<Rightarrow> bool" where
  "active_member us u \<longleftrightarrow> (\<exists>x \<in> set us. u_id x = u \<and> account_live x \<and> u_role x = ROLE_MEMBER)"

definition document_access ::
  "user_row list \<Rightarrow> library_node list \<Rightarrow> grant_row list \<Rightarrow> (uuid \<times> uuid) list \<Rightarrow> team_row list \<Rightarrow> (uuid \<times> uuid) list" where
  "document_access us nodes gs members ts =
     remdups (filter (\<lambda>(u, d). active_member us u) (principals nodes gs members ts))"

definition v4_rebuild_effective_document_access :: "security_db \<Rightarrow> security_db" where
  "v4_rebuild_effective_document_access s =
     (let version = ep_authorization (epoch s) + 1
      in s\<lparr>effective_access := map (\<lambda>(u, d). \<lparr>ea_user = u, ea_document = d, ea_version = version\<rparr>)
             (document_access (users s) (library_nodes s) (access_grants s) (team_members s) (teams s)),
           epoch := (epoch s)\<lparr>ep_authorization := version\<rparr>\<rparr>)"

definition current_row :: "security_db \<Rightarrow> uuid \<Rightarrow> uuid \<Rightarrow> bool" where
  "current_row s u d \<longleftrightarrow>
     (\<exists>r \<in> set (effective_access s). ea_user r = u \<and> ea_document r = d \<and> ea_version r = ep_authorization (epoch s))"

definition v4_can_read_document :: "time \<Rightarrow> string \<Rightarrow> uuid \<Rightarrow> security_db \<Rightarrow> bool" where
  "v4_can_read_document now token d s \<longleftrightarrow>
     v4_current_actor_is_admin now token s \<or>
     (case v4_current_actor_id now token s of None \<Rightarrow> False
      | Some u \<Rightarrow> (\<exists>n \<in> set (library_nodes s). n_document n = Some d \<and> n_uploader n = Some u) \<or> current_row s u d)"

text \<open>A grant on an ancestor of a folder, up to the nearest boundary, names the caller.\<close>

definition folder_granted :: "grant_row list \<Rightarrow> uuid \<Rightarrow> uuid \<Rightarrow> security_db \<Rightarrow> bool" where
  "folder_granted gs u i s \<longleftrightarrow>
     (\<exists>(n, x) \<in> set (grantees FOLDER (library_nodes s) gs (team_members s) (teams s)). n_id n = i \<and> x = u)"

definition v4_can_read_folder :: "time \<Rightarrow> string \<Rightarrow> uuid \<Rightarrow> security_db \<Rightarrow> bool" where
  "v4_can_read_folder now token i s \<longleftrightarrow>
     v4_current_actor_is_admin now token s \<or>
     (case v4_current_actor_id now token s of None \<Rightarrow> False | Some u \<Rightarrow> folder_granted (access_grants s) u i s)"

definition is_folder :: "library_node list \<Rightarrow> uuid \<Rightarrow> bool" where
  "is_folder nodes i \<longleftrightarrow> (\<exists>n \<in> set nodes. n_id n = i \<and> n_kind n = FOLDER)"

definition v4_can_create_children :: "time \<Rightarrow> string \<Rightarrow> uuid \<Rightarrow> security_db \<Rightarrow> bool" where
  "v4_can_create_children now token i s \<longleftrightarrow>
     is_folder (library_nodes s) i \<and>
     (v4_current_actor_is_admin now token s \<or>
      v4_can_read_folder now token i s \<and>
      (case v4_current_actor_id now token s of None \<Rightarrow> False | Some u \<Rightarrow> folder_granted (create_grants s) u i s))"

definition v4_can_view_library_node :: "time \<Rightarrow> string \<Rightarrow> uuid \<Rightarrow> security_db \<Rightarrow> bool" where
  "v4_can_view_library_node now token i s \<longleftrightarrow>
     v4_current_actor_is_admin now token s \<or>
     is_folder (library_nodes s) i \<and> v4_can_read_folder now token i s \<or>
     (case v4_current_actor_id now token s of None \<Rightarrow> False
      | Some u \<Rightarrow> (\<exists>(n, depth) \<in> set (subtree i (library_nodes s)).
           (\<exists>d \<in> set_option (n_document n). current_row s u d) \<or>
           (\<exists>g \<in> set (access_grants s). ag_node g = n_id n \<and> u \<in> set (grant_users (team_members s) (teams s) g))))"

section \<open>Impact\<close>

definition nodes_after :: "acl_operation \<Rightarrow> library_node list \<Rightarrow> library_node list" where
  "nodes_after op nodes = map (\<lambda>n. case op of
       MoveNode i p \<Rightarrow> if n_id n = i then n\<lparr>n_parent := p\<rparr> else n
     | SetBoundary i b \<Rightarrow> if n_id n = i then n\<lparr>n_boundary := b\<rparr> else n
     | _ \<Rightarrow> n) nodes"

definition same_grant :: "uuid \<Rightarrow> uuid option \<Rightarrow> uuid option \<Rightarrow> grant_row \<Rightarrow> bool" where
  "same_grant i u t g \<longleftrightarrow> ag_node g = i \<and> ag_user g = u \<and> ag_team g = t"

definition grants_set :: "uuid \<Rightarrow> uuid option \<Rightarrow> uuid option \<Rightarrow> bool \<Rightarrow> grant_row list \<Rightarrow> grant_row list" where
  "grants_set i u t present gs =
     delete_where (same_grant i u t) gs @ (if present then [\<lparr>ag_node = i, ag_user = u, ag_team = t\<rparr>] else [])"

definition grants_after :: "acl_operation \<Rightarrow> grant_row list \<Rightarrow> grant_row list" where
  "grants_after op gs = (case op of SetGrant i u t present \<Rightarrow> grants_set i u t present gs | _ \<Rightarrow> gs)"

definition create_grants_after :: "acl_operation \<Rightarrow> grant_row list \<Rightarrow> grant_row list" where
  "create_grants_after op gs = (case op of SetCreateChildrenGrant i u t present \<Rightarrow> grants_set i u t present gs | _ \<Rightarrow> gs)"

definition members_after :: "acl_operation \<Rightarrow> (uuid \<times> uuid) list \<Rightarrow> (uuid \<times> uuid) list" where
  "members_after op members = (case op of
       SetMembership t u present \<Rightarrow> delete_where (\<lambda>m. m = (t, u)) members @ (if present then [(t, u)] else [])
     | _ \<Rightarrow> members)"

definition teams_after :: "acl_operation \<Rightarrow> team_row list \<Rightarrow> team_row list" where
  "teams_after op ts = (case op of
       SetTeamActive t active \<Rightarrow> map (\<lambda>x. if tm_id x = t then x\<lparr>tm_is_active := active\<rparr> else x) ts
     | _ \<Rightarrow> ts)"

record acl_impact =
  ai_operation :: acl_operation
  ai_users :: "uuid list"
  ai_nodes :: "uuid list"
  ai_documents :: "uuid list"

definition sorted_distinct :: "uuid list \<Rightarrow> uuid list" where
  "sorted_distinct xs = sort (remdups xs)"

definition changed :: "('a \<times> 'b) list \<Rightarrow> ('a \<times> 'b) list \<Rightarrow> ('a \<times> 'b) list" where
  "changed old new = filter (\<lambda>x. x \<notin> set new) old @ filter (\<lambda>x. x \<notin> set old) new"

text \<open>\<open>v4_acl_impact\<close> of migration 0001, which migration 0004 renames.\<close>

definition v4_acl_impact_without_create_children :: "acl_operation \<Rightarrow> security_db \<Rightarrow> (sql_error, acl_impact) result" where
  "v4_acl_impact_without_create_children op s =
     (let moved_below = (case op of
            MoveNode i (Some p) \<Rightarrow> (\<exists>(n, depth) \<in> set (subtree i (library_nodes s)). n_id n = p) | _ \<Rightarrow> False);
          unsupported = (case op of SetCreateChildrenGrant _ _ _ _ \<Rightarrow> True | UnsupportedOperation \<Rightarrow> True | _ \<Rightarrow> False)
      in if unsupported then Inl (Raised ''unsupported ACL operation'')
         else if moved_below then Inl (Raised ''move target creates a cycle'')
         else let old = document_access (users s) (library_nodes s) (access_grants s) (team_members s) (teams s);
                  new = document_access (users s) (nodes_after op (library_nodes s)) (grants_after op (access_grants s))
                            (members_after op (team_members s)) (teams_after op (teams s));
                  pairs = changed old new
              in Inr \<lparr>ai_operation = op, ai_users = sorted_distinct (map fst pairs),
                      ai_nodes = sorted_distinct [n_id n. n \<leftarrow> library_nodes s, \<exists>d \<in> set (map snd pairs). n_document n = Some d],
                      ai_documents = sorted_distinct (map snd pairs)\<rparr>)"

text \<open>The folders whose subfolders a member may create: readable, and granted for it.\<close>

definition create_access ::
  "user_row list \<Rightarrow> library_node list \<Rightarrow> grant_row list \<Rightarrow> grant_row list \<Rightarrow> (uuid \<times> uuid) list \<Rightarrow> team_row list \<Rightarrow>
   (uuid \<times> uuid) list" where
  "create_access us nodes reads creates members ts =
     remdups [(u, n_id n). (n, u) \<leftarrow> grantees FOLDER nodes reads members ts,
                (n, u) \<in> set (grantees FOLDER nodes creates members ts) \<and> active_member us u]"

definition v4_acl_impact :: "acl_operation \<Rightarrow> security_db \<Rightarrow> (sql_error, acl_impact) result" where
  "v4_acl_impact op s =
     rbind (case op of
              SetCreateChildrenGrant i u t present \<Rightarrow>
                if (u = None) = (t = None) \<or> \<not> is_folder (library_nodes s) i
                then Inl (Raised ''invalid create-children grant operation'')
                else Inr \<lparr>ai_operation = op, ai_users = [], ai_nodes = [], ai_documents = []\<rparr>
            | _ \<Rightarrow> v4_acl_impact_without_create_children op s) (\<lambda>reads.
       let pairs = changed
             (create_access (users s) (library_nodes s) (access_grants s) (create_grants s) (team_members s) (teams s))
             (create_access (users s) (nodes_after op (library_nodes s)) (grants_after op (access_grants s))
               (create_grants_after op (create_grants s)) (members_after op (team_members s)) (teams_after op (teams s)))
       in Inr \<lparr>ai_operation = op, ai_users = sorted_distinct (ai_users reads @ map fst pairs),
               ai_nodes = sorted_distinct (ai_nodes reads @ map snd pairs), ai_documents = ai_documents reads\<rparr>)"

section \<open>Preview and application\<close>

text \<open>A member may move its own file into a folder it can read; everything else needs an administrator.\<close>

definition member_move_allowed :: "time \<Rightarrow> string \<Rightarrow> uuid \<Rightarrow> acl_operation \<Rightarrow> security_db \<Rightarrow> bool" where
  "member_move_allowed now token actor op s = (case op of
     MoveNode i (Some p) \<Rightarrow>
       (\<exists>n \<in> set (library_nodes s). n_id n = i \<and> n_kind n = FILE \<and> n_uploader n = Some actor) \<and>
       is_folder (library_nodes s) p \<and> v4_can_read_folder now token p s
   | _ \<Rightarrow> False)"

text \<open>\<open>digest\<close> is SHA-256 of the text of the impact.\<close>

definition v4_admin_preview_acl ::
  "(acl_impact \<Rightarrow> string) \<Rightarrow> time \<Rightarrow> string \<Rightarrow> uuid \<Rightarrow> acl_operation \<Rightarrow> security_db \<Rightarrow>
   (sql_error, (string \<times> acl_impact) \<times> security_db) result" where
  "v4_admin_preview_acl digest now token i op s =
     rbind (v4_acl_impact op s) (\<lambda>impact.
       case v4_current_actor_id now token s of
         None \<Rightarrow> Inl (Raised ''authentication required'')
       | Some actor \<Rightarrow>
           if \<not> v4_current_actor_is_admin now token s \<and> \<not> member_move_allowed now token actor op s
           then Inl (Raised ''capability denied'')
           else Inr ((digest impact, impact), s\<lparr>acl_previews := acl_previews s @
                  [\<lparr>ap_id = i, ap_actor = actor, ap_operation = op, ap_impact_digest = digest impact,
                    ap_version = ep_authorization (epoch s), ap_expires_at = now + 300, ap_consumed_at = None\<rparr>]\<rparr>))"

definition preview_stale :: "(acl_impact \<Rightarrow> string) \<Rightarrow> time \<Rightarrow> uuid \<Rightarrow> string \<Rightarrow> acl_preview \<Rightarrow> security_db \<Rightarrow> (sql_error, bool) result" where
  "preview_stale digest now actor wanted p s =
     (if ap_actor p \<noteq> actor \<or> ap_impact_digest p \<noteq> wanted \<or> ap_version p \<noteq> ep_authorization (epoch s) \<or>
         ap_expires_at p \<le> now \<or> ap_consumed_at p \<noteq> None
      then Inr True
      else rbind (v4_acl_impact (ap_operation p) s) (\<lambda>impact. Inr (digest impact \<noteq> wanted)))"

text \<open>The foreign keys and the principal of an inserted grant.\<close>

definition grant_insertable :: "uuid \<Rightarrow> uuid option \<Rightarrow> uuid option \<Rightarrow> security_db \<Rightarrow> (sql_error, unit) result" where
  "grant_insertable i u t s =
     (if (u = None) = (t = None) then Inl CheckViolation
      else if i \<notin> n_id ` set (library_nodes s) \<or> \<not> set_option u \<subseteq> u_id ` set (users s) \<or>
              \<not> set_option t \<subseteq> tm_id ` set (teams s)
      then Inl ForeignKeyViolation else Inr ())"

text \<open>\<open>INSERT ... ON CONFLICT DO NOTHING\<close>.\<close>

definition insert_new :: "'r \<Rightarrow> 'r list \<Rightarrow> 'r list" where
  "insert_new x rows = (if x \<in> set rows then rows else rows @ [x])"

definition MAX_DEPTH :: nat where "MAX_DEPTH = 256"

definition move_library_node :: "uuid \<Rightarrow> uuid option \<Rightarrow> security_db \<Rightarrow> (sql_error, security_db) result" where
  "move_library_node i target s =
     (case List.find (\<lambda>n. n_id n = i) (library_nodes s) of
        None \<Rightarrow> Inl (Raised ''move node does not exist'')
      | Some n \<Rightarrow>
          if target = Some i then Inl (Raised ''move target cannot be the moved node'')
          else if (\<exists>p \<in> set_option target. \<not> is_folder (library_nodes s) p) then Inl (Raised ''move target is not a folder'')
          else let below = subtree i (library_nodes s);
                   above = (case target of None \<Rightarrow> [] | Some p \<Rightarrow> ancestors p (library_nodes s))
               in if (\<exists>p \<in> set_option target. \<exists>(m, depth) \<in> set below. n_id m = p) then Inl (Raised ''move target creates a cycle'')
                  else if MAX_DEPTH < max_depth above + 1 + max_depth below then Inl (Raised ''move exceeds maximum library depth'')
                  else if (\<exists>m \<in> set (library_nodes s). n_parent m = target \<and> n_name_key m = n_name_key n \<and> n_id m \<noteq> i)
                  then Inl UniqueViolation
                  else Inr (s\<lparr>library_nodes := update_where (\<lambda>m. n_id m = i) (\<lambda>m. m\<lparr>n_parent := target\<rparr>) (library_nodes s)\<rparr>))"

definition apply_operation :: "acl_operation \<Rightarrow> security_db \<Rightarrow> (sql_error, security_db) result" where
  "apply_operation op s = (case op of
     SetGrant i u t present \<Rightarrow>
       if present then rbind (grant_insertable i u t s)
            (\<lambda>_. Inr (s\<lparr>access_grants := insert_new \<lparr>ag_node = i, ag_user = u, ag_team = t\<rparr> (access_grants s)\<rparr>))
       else Inr (s\<lparr>access_grants := delete_where (same_grant i u t) (access_grants s)\<rparr>)
   | SetMembership t u present \<Rightarrow>
       if present then
         (if t \<notin> tm_id ` set (teams s) \<or> u \<notin> u_id ` set (users s) then Inl ForeignKeyViolation
          else Inr (s\<lparr>team_members := insert_new (t, u) (team_members s)\<rparr>))
       else Inr (s\<lparr>team_members := delete_where (\<lambda>m. m = (t, u)) (team_members s)\<rparr>)
   | SetBoundary i enabled \<Rightarrow>
       if \<not> is_folder (library_nodes s) i then Inl (Raised ''boundary node is not a folder'')
       else Inr (s\<lparr>library_nodes := update_where (\<lambda>n. n_id n = i \<and> n_kind n = FOLDER)
              (\<lambda>n. n\<lparr>n_boundary := enabled\<rparr>) (library_nodes s)\<rparr>)
   | MoveNode i target \<Rightarrow> move_library_node i target s
   | SetTeamActive t active \<Rightarrow>
       Inr (s\<lparr>teams := update_where (\<lambda>x. tm_id x = t) (\<lambda>x. x\<lparr>tm_is_active := active\<rparr>) (teams s)\<rparr>)
   | _ \<Rightarrow> Inr s)"

definition consume_preview :: "time \<Rightarrow> uuid \<Rightarrow> security_db \<Rightarrow> security_db" where
  "consume_preview now i s =
     s\<lparr>acl_previews := update_where (\<lambda>p. ap_id p = i) (\<lambda>p. p\<lparr>ap_consumed_at := Some now\<rparr>) (acl_previews s)\<rparr>"

definition v4_admin_apply_acl_without_create_children ::
  "(acl_impact \<Rightarrow> string) \<Rightarrow> time \<Rightarrow> string \<Rightarrow> uuid \<Rightarrow> string \<Rightarrow> security_db \<Rightarrow> (sql_error, int \<times> security_db) result" where
  "v4_admin_apply_acl_without_create_children digest now token i wanted s =
     (case v4_current_actor_id now token s of
        None \<Rightarrow> Inl (Raised ''authentication required'')
      | Some actor \<Rightarrow>
          rbind (select_strict (\<lambda>p. ap_id p = i) (acl_previews s)) (\<lambda>p.
          rbind (preview_stale digest now actor wanted p s) (\<lambda>stale.
          if stale then Inl (Raised ''stale or invalid ACL preview'')
          else if \<not> v4_current_actor_is_admin now token s \<and> \<not> member_move_allowed now token actor (ap_operation p) s
          then Inl (Raised ''capability denied'')
          else rbind (apply_operation (ap_operation p) s) (\<lambda>s1.
               let s2 = v4_rebuild_effective_document_access (consume_preview now i s1)
               in Inr (ep_authorization (epoch s2), v4_append_audit ''acl_operation_applied'' i s2)))))"

text \<open>\<open>v4_admin_apply_acl\<close> of migration 0004.\<close>

definition apply_create_grant :: "uuid \<Rightarrow> uuid option \<Rightarrow> uuid option \<Rightarrow> bool \<Rightarrow> security_db \<Rightarrow> (sql_error, security_db) result" where
  "apply_create_grant i u t present s =
     (if present then
        if \<not> is_folder (library_nodes s) i then Inl (Raised ''create-children grant target is not a folder'')
        else rbind (grant_insertable i u t s)
          (\<lambda>_. Inr (s\<lparr>create_grants := insert_new \<lparr>ag_node = i, ag_user = u, ag_team = t\<rparr> (create_grants s)\<rparr>))
      else Inr (s\<lparr>create_grants := delete_where (same_grant i u t) (create_grants s)\<rparr>))"

definition v4_admin_apply_acl ::
  "(acl_impact \<Rightarrow> string) \<Rightarrow> time \<Rightarrow> string \<Rightarrow> uuid \<Rightarrow> string \<Rightarrow> security_db \<Rightarrow> (sql_error, int \<times> security_db) result" where
  "v4_admin_apply_acl digest now token i wanted s =
     (case v4_current_actor_id now token s of
        None \<Rightarrow> Inl (Raised ''authentication required'')
      | Some actor \<Rightarrow>
          rbind (require_security_admin now token s) (\<lambda>_.
          rbind (select_strict (\<lambda>p. ap_id p = i) (acl_previews s)) (\<lambda>p.
          case ap_operation p of
            SetCreateChildrenGrant node u t present \<Rightarrow>
              rbind (preview_stale digest now actor wanted p s) (\<lambda>stale.
              if stale then Inl (Raised ''stale or invalid ACL preview'')
              else rbind (apply_create_grant node u t present s) (\<lambda>s1.
                   let version = ep_authorization (epoch s1) + 1;
                       s2 = consume_preview now i (s1\<lparr>epoch := (epoch s1)\<lparr>ep_authorization := version\<rparr>\<rparr>)
                   in Inr (version, v4_append_audit ''acl_operation_applied'' i s2)))
          | _ \<Rightarrow> v4_admin_apply_acl_without_create_children digest now token i wanted s)))"

section \<open>Accounts and nodes\<close>

definition account_status_of :: "string \<Rightarrow> account_status option" where
  "account_status_of x =
     (if x = ''active'' then Some ACTIVE_ACCOUNT else if x = ''disabled'' then Some DISABLED
      else if x = ''deleted'' then Some DELETED else None)"

definition set_account_state :: "time \<Rightarrow> account_role \<Rightarrow> account_status \<Rightarrow> user_row \<Rightarrow> user_row" where
  "set_account_state now r st x = x\<lparr>u_role := r, u_status := st,
     u_password_hash := (if st = DELETED then None else u_password_hash x),
     u_deleted_at := (if st = DELETED then Some now else None),
     u_authentication_version := u_authentication_version x + 1\<rparr>"

definition v4_admin_set_user ::
  "time \<Rightarrow> string \<Rightarrow> uuid \<Rightarrow> string \<Rightarrow> string \<Rightarrow> security_db \<Rightarrow> (sql_error, security_db) result" where
  "v4_admin_set_user now caller user role status s =
     rbind (require_security_admin now caller s) (\<lambda>_.
       case List.find (\<lambda>u. u_id u = user) (users s) of
         None \<Rightarrow> Inl (Raised ''user state changed or no longer exists'')
       | Some u \<Rightarrow>
           (case (account_role_of role, account_status_of status) of
              (Some r, Some st) \<Rightarrow>
                if u_status u = DELETED then Inl (Raised ''deleted users are irreversible'')
                else if u_role u = ROLE_ADMIN \<and> u_status u = ACTIVE_ACCOUNT \<and> (r \<noteq> ROLE_ADMIN \<or> st \<noteq> ACTIVE_ACCOUNT) \<and>
                        active_admins s \<le> 1
                then Inl (Raised ''cannot remove the final enabled administrator'')
                else
                  rbind (accounts_checked (s\<lparr>users := update_where (\<lambda>x. u_id x = user)
                     (set_account_state now r st) (users s)\<rparr>)) (\<lambda>s1.
                  rbind (accounts_checked (revoke_sessions now (\<lambda>x. ss_user x = user) s1)) (\<lambda>s2.
                  let s3 = (if st = ACTIVE_ACCOUNT then s2
                            else s2\<lparr>team_members := delete_where (\<lambda>m. snd m = user) (team_members s2),
                                    access_grants := delete_where (\<lambda>g. ag_user g = Some user) (access_grants s2),
                                    create_grants := delete_where (\<lambda>g. ag_user g = Some user) (create_grants s2)\<rparr>)
                  in Inr (v4_append_audit ''user_state_changed'' user (v4_rebuild_effective_document_access s3))))
            | _ \<Rightarrow> Inl (Raised ''invalid user state'')))"

definition octet_length :: "string \<Rightarrow> nat" where
  "octet_length s = sum_list (map (\<lambda>c. if code c < 128 then 1 else 2) s)"

definition valid_node_name :: "string \<Rightarrow> string \<Rightarrow> bool" where
  "valid_node_name name name_key \<longleftrightarrow> name = btrim name \<and> between (int (length name)) 1 255 \<and> name_key \<noteq> [] \<and>
     octet_length name_key \<le> 1024"

text \<open>The primary key, the names among siblings and the documents of the nodes are unique.\<close>

definition node_insertable :: "library_node \<Rightarrow> security_db \<Rightarrow> bool" where
  "node_insertable n s \<longleftrightarrow> n_id n \<notin> n_id ` set (library_nodes s) \<and>
     \<not> (\<exists>m \<in> set (library_nodes s). n_parent m = n_parent n \<and> n_name_key m = n_name_key n) \<and>
     \<not> (\<exists>m \<in> set (library_nodes s). n_document n \<noteq> None \<and> n_document m = n_document n)"

definition v4_create_folder ::
  "time \<Rightarrow> string \<Rightarrow> uuid \<Rightarrow> uuid option \<Rightarrow> string \<Rightarrow> string \<Rightarrow> security_db \<Rightarrow> (sql_error, uuid \<times> security_db) result" where
  "v4_create_folder now token i parent name name_key s =
     (case v4_current_actor_id now token s of
        None \<Rightarrow> Inl (Raised ''authentication required'')
      | Some actor \<Rightarrow>
          if \<not> valid_node_name name name_key then Inl (Raised ''invalid library folder'')
          else if \<not> v4_current_actor_is_admin now token s \<and>
                  (case parent of None \<Rightarrow> True | Some p \<Rightarrow> \<not> v4_can_create_children now token p s)
          then Inl (Raised ''library node not found'')
          else if (\<exists>p \<in> set_option parent. \<not> is_folder (library_nodes s) p)
          then Inl (Raised (if v4_current_actor_is_admin now token s then ''invalid library folder'' else ''library node not found''))
          else if (\<exists>p \<in> set_option parent. MAX_DEPTH \<le> max_depth (ancestors p (library_nodes s)))
          then Inl (Raised ''library exceeds maximum depth'')
          else if 10000 \<le> length (library_nodes s) then Inl (Raised ''library exceeds maximum node count'')
          else let n = \<lparr>n_id = i, n_parent = parent, n_kind = FOLDER, n_name = name, n_name_key = name_key,
                        n_document = None, n_uploader = None, n_boundary = False\<rparr>
               in if \<not> node_insertable n s then Inl UniqueViolation
                  else Inr (i, v4_append_audit ''folder_created'' i (s\<lparr>library_nodes := library_nodes s @ [n]\<rparr>)))"

definition v4_admin_rename_library_node ::
  "time \<Rightarrow> string \<Rightarrow> uuid \<Rightarrow> string \<Rightarrow> string \<Rightarrow> security_db \<Rightarrow> (sql_error, bool \<times> security_db) result" where
  "v4_admin_rename_library_node now token i name name_key s =
     (case v4_current_actor_id now token s of
        None \<Rightarrow> Inl (Raised ''authentication required'')
      | Some actor \<Rightarrow>
          if \<not> valid_node_name name name_key then Inl (Raised ''invalid library node name'')
          else if \<not> v4_current_actor_is_admin now token s \<and>
                  \<not> (\<exists>n \<in> set (library_nodes s). n_id n = i \<and> n_kind n = FILE \<and> n_uploader n = Some actor)
          then Inr (False, s)
          else (case List.find (\<lambda>n. n_id n = i) (library_nodes s) of
             None \<Rightarrow> Inr (False, s)
           | Some n \<Rightarrow>
               if \<exists>m \<in> set (library_nodes s). n_id m \<noteq> i \<and> n_parent m = n_parent n \<and> n_name_key m = name_key
               then Inl UniqueViolation
               else Inr (True, s\<lparr>library_nodes := update_where (\<lambda>m. n_id m = i)
                      (\<lambda>m. m\<lparr>n_name := name, n_name_key := name_key\<rparr>) (library_nodes s)\<rparr>)))"

text \<open>
  Deleting a node deletes the grants on it. The table of upload reservations is not modelled: in the
  database a reservation whose parent is the node makes the deletion fail, here it succeeds.
\<close>

definition delete_nodes :: "(library_node \<Rightarrow> bool) \<Rightarrow> security_db \<Rightarrow> security_db" where
  "delete_nodes p s =
     (let gone = n_id ` set (filter p (library_nodes s))
      in s\<lparr>library_nodes := delete_where p (library_nodes s),
           access_grants := delete_where (\<lambda>g. ag_node g \<in> gone) (access_grants s),
           create_grants := delete_where (\<lambda>g. ag_node g \<in> gone) (create_grants s)\<rparr>)"

definition v4_admin_delete_folder ::
  "time \<Rightarrow> string \<Rightarrow> uuid \<Rightarrow> security_db \<Rightarrow> (sql_error, string \<times> security_db) result" where
  "v4_admin_delete_folder now token i s =
     rbind (require_security_admin now token s) (\<lambda>_.
       case List.find (\<lambda>n. n_id n = i) (library_nodes s) of
         None \<Rightarrow> Inr (''not_found'', s)
       | Some n \<Rightarrow>
           if n_kind n \<noteq> FOLDER then Inr (''not_folder'', s)
           else if \<exists>c \<in> set (library_nodes s). n_parent c = Some i then Inr (''not_empty'', s)
           else Inr (''deleted'', delete_nodes (\<lambda>m. n_id m = i) s))"

text \<open>
  The rows an accepted upload adds to the library (\<open>v4_admin_commit_upload\<close>): a file node of the
  caller, its grant and those of the selected teams; then the access table is rebuilt. Only these
  writes and the constraints they are checked against are modelled. The conditions on the caller, on
  the folder it may read and on the teams it selects are left out, so a run may contain uploads that
  the contract refuses, and what holds in every run holds in particular without them.
\<close>

definition insert_file_node ::
  "uuid \<Rightarrow> uuid option \<Rightarrow> string \<Rightarrow> string \<Rightarrow> uuid \<Rightarrow> uuid \<Rightarrow> uuid list \<Rightarrow> security_db \<Rightarrow> (sql_error, security_db) result" where
  "insert_file_node i parent name name_key doc actor selected s =
     (let n = \<lparr>n_id = i, n_parent = parent, n_kind = FILE, n_name = name, n_name_key = name_key,
               n_document = Some doc, n_uploader = Some actor, n_boundary = False\<rparr>
      in if (\<exists>p \<in> set_option parent. \<not> is_folder (library_nodes s) p) then Inl (Raised ''parent_not_found'')
         else if \<not> node_insertable n s then Inl UniqueViolation
         else if \<not> set selected \<subseteq> tm_id ` set (teams s) then Inl ForeignKeyViolation
         else Inr (v4_rebuild_effective_document_access (s\<lparr>library_nodes := library_nodes s @ [n],
                access_grants := access_grants s @ \<lparr>ag_node = i, ag_user = Some actor, ag_team = None\<rparr> #
                  map (\<lambda>t. \<lparr>ag_node = i, ag_user = None, ag_team = Some t\<rparr>) selected\<rparr>)))"

text \<open>The part of \<open>v4_admin_delete_document\<close> on the library: the node of the document and its access rows.\<close>

definition delete_document_node :: "uuid \<Rightarrow> security_db \<Rightarrow> security_db" where
  "delete_document_node doc s =
     (let s1 = delete_nodes (\<lambda>n. n_document n = Some doc) s
      in v4_rebuild_effective_document_access (s1\<lparr>effective_access := delete_where (\<lambda>r. ea_document r = doc) (effective_access s1)\<rparr>))"

end
