(* ===== verification/Chats.thy ===== *)
theory Chats
  imports Access Reprocessing
begin

text \<open>
  Chats of the database (migrations 0001 and 0002): chats with their scope, turns with their
  generation, the snapshots of the sources a turn was answered from, citations, and the views that
  show a chat to its owner. The tables of accounts and access rights and those of documents and
  chunks stand in the same record, since the contracts read them.
\<close>

section \<open>Rows\<close>

datatype turn_status =
  GENERATING | TURN_COMPLETE | TURN_FAILED | TURN_INTERRUPTED | LENGTH_LIMITED | CITATION_FAILED | ACCESS_REVOKED

datatype scope_mode = ALL_READY | SELECTED

record chat_row =
  ct_id :: uuid
  ct_title :: string
  ct_title_is_manual :: bool
  ct_scope_mode :: scope_mode
  ct_scope_version :: int
  ct_next_turn_ordinal :: int
  ct_owner :: uuid
  ct_updated_at :: time

record turn_row =
  tn_id :: uuid
  tn_chat :: uuid
  tn_ordinal :: int
  tn_question :: string
  tn_status :: turn_status
  tn_attempt :: int
  tn_scope_version :: int
  tn_generation_token :: "uuid option"
  tn_final_answer :: "string option"
  tn_partial_answer :: "string option"
  tn_insufficient_context :: bool
  tn_error :: "string option"
  tn_completed_at :: "time option"

text \<open>The columns of a source that never change, and its references to the live rows.\<close>

record snapshot =
  sn_label :: string
  sn_document :: uuid
  sn_chunk :: uuid
  sn_original_filename :: string
  sn_display_name :: string
  sn_logical_path :: string
  sn_page_start :: int
  sn_page_end :: int
  sn_section :: "string option"
  sn_source_sha256 :: string
  sn_text_sha256 :: string
  sn_retrieval_distance :: rat
  sn_rerank_score :: rat
  sn_text :: string
  sn_highlight_anchor :: json
  sn_token_count :: int

record source_row =
  sr_turn :: uuid
  sr_rank :: int
  sr_snapshot :: snapshot
  sr_document :: "uuid option"
  sr_chunk :: "uuid option"
  sr_owner_authorized :: "bool option"

record citation_row =
  ci_turn :: uuid
  ci_ordinal :: int
  ci_source_rank :: int

record chat_db =
  secured :: security_db
  content :: db
  chats :: "chat_row list"
  chat_scopes :: "(uuid \<times> uuid) list"
  turns :: "turn_row list"
  turn_sources :: "source_row list"
  turn_citations :: "citation_row list"
  object_deletions :: "(uuid \<times> string) list"

section \<open>Constraints\<close>

definition chat_ok :: "chat_row \<Rightarrow> bool" where
  "chat_ok c \<longleftrightarrow> 1 \<le> ct_scope_version c \<and> 1 \<le> ct_next_turn_ordinal c \<and> between (int (length (ct_title c))) 1 255"

definition nonempty :: "string option \<Rightarrow> bool" where
  "nonempty x = (case x of None \<Rightarrow> False | Some s \<Rightarrow> s \<noteq> [])"

definition turn_consistent :: "turn_row \<Rightarrow> bool" where
  "turn_consistent t = (case tn_status t of
     GENERATING \<Rightarrow> tn_generation_token t \<noteq> None \<and> tn_final_answer t = None \<and> tn_error t = None \<and>
       (tn_partial_answer t = None \<or> nonempty (tn_partial_answer t)) \<and> tn_completed_at t = None \<and> \<not> tn_insufficient_context t
   | TURN_COMPLETE \<Rightarrow> tn_generation_token t = None \<and> nonempty (tn_final_answer t) \<and> tn_partial_answer t = None \<and>
       tn_error t = None \<and> tn_completed_at t \<noteq> None
   | LENGTH_LIMITED \<Rightarrow> tn_generation_token t = None \<and> tn_final_answer t = None \<and> nonempty (tn_partial_answer t) \<and>
       tn_completed_at t = None \<and> tn_error t = Some ''response reached generation limit'' \<and> \<not> tn_insufficient_context t
   | CITATION_FAILED \<Rightarrow> tn_generation_token t = None \<and> tn_final_answer t = None \<and> nonempty (tn_partial_answer t) \<and>
       tn_completed_at t = None \<and> tn_error t = Some ''citation validation failed'' \<and> \<not> tn_insufficient_context t
   | _ \<Rightarrow> tn_generation_token t = None \<and> tn_final_answer t = None \<and> tn_partial_answer t = None \<and> tn_completed_at t = None \<and>
       (\<exists>e \<in> set_option (tn_error t). between (int (length e)) 1 500) \<and> \<not> tn_insufficient_context t)"

definition turn_ok :: "turn_row \<Rightarrow> bool" where
  "turn_ok t \<longleftrightarrow> 1 \<le> tn_ordinal t \<and> 1 \<le> tn_attempt t \<and> 1 \<le> tn_scope_version t \<and>
     between (int (length (tn_question t))) 1 2000 \<and> turn_consistent t"

definition source_ok :: "env \<Rightarrow> source_row \<Rightarrow> bool" where
  "source_ok env r \<longleftrightarrow> (let s = sr_snapshot r in
     between (sr_rank r) 1 8 \<and> sn_label s = ''S'' @ show_int (sr_rank r) \<and> 1 \<le> sn_page_start s \<and> sn_page_start s \<le> sn_page_end s \<and>
     hex64 (sn_source_sha256 s) \<and> hex64 (sn_text_sha256 s) \<and> 0 < sn_token_count s \<and>
     (sr_document r \<noteq> None \<or> sr_owner_authorized r \<noteq> None) \<and>
     v5_is_valid_highlight_anchor (sha256_hex env) (float_add env) (float_text env)
       (sn_highlight_anchor s) (sn_page_start s) (sn_page_end s))"

definition citation_ok :: "citation_row \<Rightarrow> bool" where
  "citation_ok c \<longleftrightarrow> 1 \<le> ci_ordinal c \<and> between (ci_source_rank c) 1 8"

definition chat_checks :: "env \<Rightarrow> chat_db \<Rightarrow> bool" where
  "chat_checks env c \<longleftrightarrow> list_all chat_ok (chats c) \<and> list_all turn_ok (turns c) \<and> list_all (source_ok env) (turn_sources c) \<and>
     list_all citation_ok (turn_citations c)"

definition chat_uniques :: "chat_db \<Rightarrow> bool" where
  "chat_uniques c \<longleftrightarrow> distinct (map ct_id (chats c)) \<and> distinct (chat_scopes c) \<and> distinct (map tn_id (turns c)) \<and>
     distinct (map (\<lambda>t. (tn_chat t, tn_ordinal t)) (turns c)) \<and>
     distinct (map tn_chat (filter (\<lambda>t. tn_status t = GENERATING) (turns c))) \<and>
     distinct (map (\<lambda>r. (sr_turn r, sr_rank r)) (turn_sources c)) \<and>
     distinct (map (\<lambda>x. (ci_turn x, ci_ordinal x)) (turn_citations c)) \<and>
     distinct (map (\<lambda>x. (ci_turn x, ci_source_rank x)) (turn_citations c)) \<and>
     distinct (map fst (object_deletions c)) \<and> distinct (map snd (object_deletions c))"

definition chat_references :: "chat_db \<Rightarrow> bool" where
  "chat_references c \<longleftrightarrow>
     list_all (\<lambda>x. ct_owner x \<in> u_id ` set (users (secured c))) (chats c) \<and>
     list_all (\<lambda>(chat, node). chat \<in> ct_id ` set (chats c) \<and> node \<in> n_id ` set (library_nodes (secured c))) (chat_scopes c) \<and>
     list_all (\<lambda>t. tn_chat t \<in> ct_id ` set (chats c)) (turns c) \<and>
     list_all (\<lambda>r. sr_turn r \<in> tn_id ` set (turns c) \<and> set_option (sr_document r) \<subseteq> d_id ` set (documents (content c)) \<and>
       set_option (sr_chunk r) \<subseteq> c_id ` set (chunks (content c))) (turn_sources c) \<and>
     list_all (\<lambda>x. \<exists>r \<in> set (turn_sources c). sr_turn r = ci_turn x \<and> sr_rank r = ci_source_rank x) (turn_citations c)"

definition chats_checked :: "env \<Rightarrow> chat_db \<Rightarrow> (sql_error, chat_db) result" where
  "chats_checked env c =
     (if \<not> chat_checks env c then Inl CheckViolation
      else if \<not> chat_uniques c then Inl UniqueViolation
      else if \<not> chat_references c then Inl ForeignKeyViolation
      else Inr c)"

definition chats_ok :: "env \<Rightarrow> chat_db \<Rightarrow> bool" where
  "chats_ok env c \<longleftrightarrow> chat_checks env c \<and> chat_uniques c \<and> chat_references c"

lemma chats_checked_Inr_iff [simp]: "chats_checked env c = Inr c' \<longleftrightarrow> c' = c \<and> chats_ok env c"
  by (auto simp: chats_checked_def chats_ok_def)

section \<open>Chats\<close>

definition actor_of :: "time \<Rightarrow> string \<Rightarrow> chat_db \<Rightarrow> uuid option" where
  "actor_of now token c = v4_current_actor_id now token (secured c)"

definition own_chat :: "time \<Rightarrow> string \<Rightarrow> uuid \<Rightarrow> chat_db \<Rightarrow> chat_row option" where
  "own_chat now token i c = List.find (\<lambda>x. ct_id x = i \<and> actor_of now token c = Some (ct_owner x)) (chats c)"

definition v4_list_chats :: "time \<Rightarrow> string \<Rightarrow> chat_db \<Rightarrow> chat_row list" where
  "v4_list_chats now token c =
     rev (sort_key ct_updated_at (sort_key ct_id (filter (\<lambda>x. actor_of now token c = Some (ct_owner x)) (chats c))))"

definition v4_create_chat :: "env \<Rightarrow> time \<Rightarrow> string \<Rightarrow> uuid \<Rightarrow> string \<Rightarrow> scope_mode option \<Rightarrow> chat_db \<Rightarrow> (sql_error, uuid \<times> chat_db) result" where
  "v4_create_chat env now token i title mode c =
     (case (actor_of now token c, mode) of
        (Some actor, Some scope) \<Rightarrow>
          if \<not> between (int (length (btrim title))) 1 255 then Inl (Raised ''invalid chat creation'')
          else rbind (chats_checked env (c\<lparr>chats := chats c @ [\<lparr>ct_id = i, ct_title = btrim title, ct_title_is_manual = False,
                 ct_scope_mode = scope, ct_scope_version = 1, ct_next_turn_ordinal = 1, ct_owner = actor, ct_updated_at = now\<rparr>]\<rparr>))
                 (\<lambda>c1. Inr (i, c1))
      | _ \<Rightarrow> Inl (Raised ''invalid chat creation''))"

definition v4_rename_chat :: "time \<Rightarrow> string \<Rightarrow> uuid \<Rightarrow> string \<Rightarrow> chat_db \<Rightarrow> bool \<times> chat_db" where
  "v4_rename_chat now token i title c =
     (let hit = (\<lambda>x. ct_id x = i \<and> actor_of now token c = Some (ct_owner x) \<and> between (int (length (btrim title))) 1 255)
      in (\<exists>x \<in> set (chats c). hit x,
          c\<lparr>chats := update_where hit (\<lambda>x. x\<lparr>ct_title := btrim title, ct_title_is_manual := True, ct_updated_at := now\<rparr>) (chats c)\<rparr>))"

text \<open>Deleting chats deletes their scopes, turns, sources and citations.\<close>

definition delete_chats :: "(chat_row \<Rightarrow> bool) \<Rightarrow> chat_db \<Rightarrow> chat_db" where
  "delete_chats p c =
     (let gone = ct_id ` set (filter p (chats c));
          gone_turns = tn_id ` set (filter (\<lambda>t. tn_chat t \<in> gone) (turns c))
      in c\<lparr>chats := delete_where p (chats c),
           chat_scopes := delete_where (\<lambda>x. fst x \<in> gone) (chat_scopes c),
           turns := delete_where (\<lambda>t. tn_chat t \<in> gone) (turns c),
           turn_sources := delete_where (\<lambda>r. sr_turn r \<in> gone_turns) (turn_sources c),
           turn_citations := delete_where (\<lambda>x. ci_turn x \<in> gone_turns) (turn_citations c),
           content := (content c)\<lparr>turn_generations := delete_where (\<lambda>x. fst x \<in> gone_turns) (turn_generations (content c))\<rparr>\<rparr>)"

definition v4_delete_chat :: "time \<Rightarrow> string \<Rightarrow> uuid \<Rightarrow> chat_db \<Rightarrow> bool \<times> chat_db" where
  "v4_delete_chat now token i c =
     (let hit = (\<lambda>x. ct_id x = i \<and> actor_of now token c = Some (ct_owner x))
      in (\<exists>x \<in> set (chats c). hit x, delete_chats hit c))"

definition v4_replace_chat_scope ::
  "env \<Rightarrow> time \<Rightarrow> string \<Rightarrow> uuid \<Rightarrow> uuid list option \<Rightarrow> chat_db \<Rightarrow> (sql_error, int \<times> chat_db) result" where
  "v4_replace_chat_scope env now token i nodes c =
     (case (own_chat now token i c, nodes) of
        (Some chat, Some ns) \<Rightarrow>
          if \<exists>n \<in> set ns. \<not> v4_can_view_library_node now token n (secured c) then Inl (Raised ''chat scope is inaccessible'')
          else rbind (chats_checked env (c\<lparr>
                 chat_scopes := delete_where (\<lambda>x. fst x = i) (chat_scopes c) @ map (\<lambda>n. (i, n)) (remdups ns),
                 chats := update_where (\<lambda>x. ct_id x = i) (\<lambda>x. x\<lparr>ct_scope_mode := (if ns = [] then ALL_READY else SELECTED),
                   ct_scope_version := ct_scope_version x + 1, ct_updated_at := now\<rparr>) (chats c)\<rparr>))
                 (\<lambda>c1. Inr (ct_scope_version chat + 1, c1))
      | _ \<Rightarrow> Inl (Raised ''chat scope is inaccessible''))"

section \<open>Turns\<close>

definition v4_begin_turn ::
  "env \<Rightarrow> time \<Rightarrow> string \<Rightarrow> uuid \<Rightarrow> uuid \<Rightarrow> string \<Rightarrow> uuid option \<Rightarrow> string option \<Rightarrow> chat_db \<Rightarrow>
   (sql_error, (uuid \<times> int \<times> int) \<times> chat_db) result" where
  "v4_begin_turn env now token turn i question generation auto_title c =
     (case own_chat now token i c of
        None \<Rightarrow> Inl NoDataFound
      | Some chat \<Rightarrow>
          (case (generation, auto_title) of
             (Some g, Some title) \<Rightarrow>
               if \<not> between (int (length (btrim question))) 1 2000 \<or> \<not> between (int (length (btrim title))) 1 255
               then Inl (Raised ''invalid turn'')
               else rbind (chats_checked env (c\<lparr>
                      turns := turns c @ [\<lparr>tn_id = turn, tn_chat = i, tn_ordinal = ct_next_turn_ordinal chat,
                        tn_question = btrim question, tn_status = GENERATING, tn_attempt = 1,
                        tn_scope_version = ct_scope_version chat, tn_generation_token = Some g, tn_final_answer = None,
                        tn_partial_answer = None, tn_insufficient_context = False, tn_error = None, tn_completed_at = None\<rparr>],
                      content := v10_bind_turn_embedding_generation turn (content c),
                      chats := update_where (\<lambda>x. ct_id x = i) (\<lambda>x. x\<lparr>
                        ct_title := (if ct_next_turn_ordinal chat = 1 \<and> \<not> ct_title_is_manual chat then btrim title else ct_title x),
                        ct_next_turn_ordinal := ct_next_turn_ordinal x + 1, ct_updated_at := now\<rparr>) (chats c)\<rparr>))
                      (\<lambda>c1. Inr ((turn, ct_next_turn_ordinal chat, ct_scope_version chat), c1))
           | _ \<Rightarrow> Inl (Raised ''invalid turn'')))"

text \<open>The turn is generating under the token, in a chat of the caller.\<close>

definition generating_under :: "time \<Rightarrow> string \<Rightarrow> uuid option \<Rightarrow> chat_db \<Rightarrow> turn_row \<Rightarrow> bool" where
  "generating_under now token generation c t \<longleftrightarrow>
     (\<exists>x \<in> set (chats c). ct_id x = tn_chat t \<and> actor_of now token c = Some (ct_owner x)) \<and>
     tn_status t = GENERATING \<and> generation \<noteq> None \<and> tn_generation_token t = generation"

record requested_source =
  rq_rank :: "int option"
  rq_chunk :: "uuid option"
  rq_retrieval_distance :: "rat option"
  rq_rerank_score :: "rat option"

definition requested_ok :: "requested_source list \<Rightarrow> bool" where
  "requested_ok rs \<longleftrightarrow> length rs \<le> 8 \<and>
     \<not> (\<exists>r \<in> set rs. (\<exists>k \<in> set_option (rq_rank r). \<not> between k 1 8) \<or> rq_chunk r = None) \<and>
     length rs = length (remdups [k. r \<leftarrow> rs, k \<leftarrow> option_list (rq_rank r)]) \<and>
     length rs = length (remdups [k. r \<leftarrow> rs, k \<leftarrow> option_list (rq_chunk r)])"

definition logical_path :: "library_node list \<Rightarrow> uuid \<Rightarrow> string" where
  "logical_path nodes i = ''/'' @ join ''/'' (map (n_name \<circ> fst) (rev (sort_key snd (ancestors i nodes))))"

definition source_of :: "library_node list \<Rightarrow> uuid \<Rightarrow> int \<Rightarrow> rat \<Rightarrow> rat \<Rightarrow> chunk_row \<Rightarrow> document \<Rightarrow> library_node \<Rightarrow> source_row" where
  "source_of nodes turn k distance score ck d n =
     (let s = c_source ck in
      \<lparr>sr_turn = turn, sr_rank = k,
       sr_snapshot = \<lparr>sn_label = ''S'' @ show_int k, sn_document = d_id d, sn_chunk = c_id ck,
         sn_original_filename = d_filename d, sn_display_name = n_name n, sn_logical_path = logical_path nodes (n_id n),
         sn_page_start = s_page_start s, sn_page_end = s_page_end s, sn_section = s_section s,
         sn_source_sha256 = s_source_sha256 s, sn_text_sha256 = s_text_sha256 s,
         sn_retrieval_distance = distance, sn_rerank_score = score, sn_text = s_text s,
         sn_highlight_anchor = s_highlight_anchor s, sn_token_count = s_token_count s\<rparr>,
       sr_document = Some (d_id d), sr_chunk = Some (c_id ck), sr_owner_authorized = None\<rparr>)"

text \<open>The rows of the join: a null rank, distance or score violates the column constraint.\<close>

definition requested_row ::
  "library_node list \<Rightarrow> uuid \<Rightarrow> requested_source \<Rightarrow> chunk_row \<Rightarrow> document \<Rightarrow> library_node \<Rightarrow> (sql_error, source_row) result" where
  "requested_row nodes turn r ck d n =
     (case (rq_rank r, rq_retrieval_distance r, rq_rerank_score r) of
        (Some k, Some distance, Some score) \<Rightarrow> Inr (source_of nodes turn k distance score ck d n)
      | _ \<Rightarrow> Inl NotNullViolation)"

definition joined_sources ::
  "time \<Rightarrow> string \<Rightarrow> uuid \<Rightarrow> requested_source list \<Rightarrow> chat_db \<Rightarrow> (sql_error, source_row) result list" where
  "joined_sources now token turn rs c =
     [requested_row (library_nodes (secured c)) turn r ck d n.
        r \<leftarrow> rs, ck \<leftarrow> chunks (content c), rq_chunk r = Some (c_id ck),
        d \<leftarrow> documents (content c), d_id d = c_document ck, n \<leftarrow> library_nodes (secured c), n_document n = Some (d_id d),
        d_state d = READY \<and> v4_can_read_document now token (d_id d) (secured c)]"

definition v4_store_turn_sources ::
  "env \<Rightarrow> time \<Rightarrow> string \<Rightarrow> uuid \<Rightarrow> uuid option \<Rightarrow> requested_source list option \<Rightarrow> chat_db \<Rightarrow> (sql_error, nat \<times> chat_db) result" where
  "v4_store_turn_sources env now token turn generation requested c =
     (case requested of
        None \<Rightarrow> Inl (Raised ''invalid turn sources'')
      | Some rs \<Rightarrow>
          if \<not> (\<exists>t \<in> set (turns c). tn_id t = turn \<and> generating_under now token generation c t) \<or> \<not> requested_ok rs
          then Inl (Raised ''invalid turn sources'')
          else rbind (rmap id (joined_sources now token turn rs c)) (\<lambda>rows.
               rbind (chats_checked env (c\<lparr>turn_sources := turn_sources c @ rows\<rparr>)) (\<lambda>c1.
               if length rows \<noteq> length rs then Inl (Raised ''turn source access changed'') else Inr (length rows, c1))))"

text \<open>A turn that ends without an answer.\<close>

definition end_turn :: "turn_status \<Rightarrow> string option \<Rightarrow> string \<Rightarrow> turn_row \<Rightarrow> turn_row" where
  "end_turn status partial message t = t\<lparr>tn_status := status, tn_generation_token := None, tn_final_answer := None,
     tn_partial_answer := partial, tn_insufficient_context := False, tn_error := Some message, tn_completed_at := None\<rparr>"

definition end_turns :: "env \<Rightarrow> (turn_row \<Rightarrow> bool) \<Rightarrow> (turn_row \<Rightarrow> turn_row) \<Rightarrow> chat_db \<Rightarrow> (sql_error, chat_db) result" where
  "end_turns env p f c = chats_checked env (c\<lparr>turns := update_where p f (turns c)\<rparr>)"

definition v4_fail_turn ::
  "env \<Rightarrow> time \<Rightarrow> string \<Rightarrow> uuid \<Rightarrow> uuid option \<Rightarrow> string \<Rightarrow> chat_db \<Rightarrow> (sql_error, bool \<times> chat_db) result" where
  "v4_fail_turn env now token turn generation message c =
     (let hit = (\<lambda>t. tn_id t = turn \<and> generating_under now token generation c t \<and> between (int (length (btrim message))) 1 500)
      in rbind (end_turns env hit (end_turn TURN_FAILED None (take 500 (btrim message))) c)
           (\<lambda>c1. Inr (\<exists>t \<in> set (turns c). hit t, c1)))"

definition v4_mark_turn_access_revoked ::
  "env \<Rightarrow> time \<Rightarrow> string \<Rightarrow> uuid \<Rightarrow> uuid option \<Rightarrow> chat_db \<Rightarrow> (sql_error, bool \<times> chat_db) result" where
  "v4_mark_turn_access_revoked env now token turn generation c =
     (let hit = (\<lambda>t. tn_id t = turn \<and> generating_under now token generation c t)
      in rbind (end_turns env hit (end_turn ACCESS_REVOKED None ''access_revoked'') c)
           (\<lambda>c1. Inr (\<exists>t \<in> set (turns c). hit t, c1)))"

text \<open>The outcomes of the contracts that report a status.\<close>

definition v4_mark_turn_access_revoked_trusted ::
  "env \<Rightarrow> uuid \<Rightarrow> uuid option \<Rightarrow> chat_db \<Rightarrow> (sql_error, string \<times> chat_db) result" where
  "v4_mark_turn_access_revoked_trusted env turn generation c =
     (case List.find (\<lambda>t. tn_id t = turn) (turns c) of
        None \<Rightarrow> Inr (''not_found'', c)
      | Some t \<Rightarrow>
          if tn_status t \<noteq> GENERATING then Inr (''already_terminal'', c)
          else if generation = None \<or> tn_generation_token t \<noteq> generation then Inr (''stale'', c)
          else rbind (end_turns env (\<lambda>x. tn_id x = turn) (end_turn ACCESS_REVOKED None ''access_revoked'') c)
                 (\<lambda>c1. Inr (''updated'', c1)))"

text \<open>The common part of the contracts that end a turn of a chat of the caller.\<close>

definition end_own_turn ::
  "env \<Rightarrow> time \<Rightarrow> string \<Rightarrow> uuid \<Rightarrow> uuid \<Rightarrow> uuid option \<Rightarrow> turn_status \<Rightarrow> string \<Rightarrow> string \<Rightarrow> string option \<Rightarrow> string \<Rightarrow> chat_db \<Rightarrow>
   (sql_error, string \<times> chat_db) result" where
  "end_own_turn env now token i turn generation status already done partial message c =
     (case own_chat now token i c of
        None \<Rightarrow> Inr (''not_found'', c)
      | Some _ \<Rightarrow>
          (case List.find (\<lambda>t. tn_id t = turn \<and> tn_chat t = i) (turns c) of
             None \<Rightarrow> Inr (''not_found'', c)
           | Some t \<Rightarrow>
               if tn_status t = status then Inr (already, c)
               else if tn_status t \<noteq> GENERATING \<or> generation = None \<or> tn_generation_token t \<noteq> generation then Inr (''stale'', c)
               else rbind (end_turns env (\<lambda>x. tn_id x = turn) (end_turn status partial message) c) (\<lambda>c1. Inr (done, c1))))"

definition v4_interrupt_turn ::
  "env \<Rightarrow> time \<Rightarrow> string \<Rightarrow> uuid \<Rightarrow> uuid \<Rightarrow> uuid option \<Rightarrow> chat_db \<Rightarrow> (sql_error, string \<times> chat_db) result" where
  "v4_interrupt_turn env now token i turn generation c =
     end_own_turn env now token i turn generation TURN_INTERRUPTED ''already_interrupted'' ''interrupted'' None ''generation cancelled'' c"

definition v4_mark_turn_length_limited ::
  "env \<Rightarrow> time \<Rightarrow> string \<Rightarrow> uuid \<Rightarrow> uuid \<Rightarrow> uuid option \<Rightarrow> string option \<Rightarrow> chat_db \<Rightarrow> (sql_error, string \<times> chat_db) result" where
  "v4_mark_turn_length_limited env now token i turn generation partial c =
     (if \<not> nonempty (map_option btrim partial) then Inl (Raised ''partial answer is required'')
      else end_own_turn env now token i turn generation LENGTH_LIMITED ''already_limited'' ''length_limited''
             (map_option btrim partial) ''response reached generation limit'' c)"

definition v4_mark_turn_citation_failed ::
  "env \<Rightarrow> time \<Rightarrow> string \<Rightarrow> uuid \<Rightarrow> uuid \<Rightarrow> uuid option \<Rightarrow> string option \<Rightarrow> chat_db \<Rightarrow> (sql_error, string \<times> chat_db) result" where
  "v4_mark_turn_citation_failed env now token i turn generation partial c =
     (if \<not> nonempty (map_option btrim partial) then Inl (Raised ''partial answer is required'')
      else end_own_turn env now token i turn generation CITATION_FAILED ''already_failed'' ''citation_failed''
             (map_option btrim partial) ''citation validation failed'' c)"

definition v4_repair_interrupted_turns :: "env \<Rightarrow> chat_db \<Rightarrow> (sql_error, nat \<times> chat_db) result" where
  "v4_repair_interrupted_turns env c =
     rbind (end_turns env (\<lambda>t. tn_status t = GENERATING)
              (end_turn TURN_INTERRUPTED None ''generation interrupted by stopped service'') c)
       (\<lambda>c1. Inr (length (filter (\<lambda>t. tn_status t = GENERATING) (turns c)), c1))"

definition retryable :: "turn_status \<Rightarrow> bool" where
  "retryable st \<longleftrightarrow> st \<in> {TURN_FAILED, TURN_INTERRUPTED, LENGTH_LIMITED, CITATION_FAILED}"

record retry_result =
  rr_status :: string
  rr_turn :: "turn_row option"

definition retried_turn :: "chat_row \<Rightarrow> uuid \<Rightarrow> turn_row \<Rightarrow> turn_row" where
  "retried_turn chat g t =
     (let continued = (tn_status t = LENGTH_LIMITED)
      in t\<lparr>tn_status := GENERATING, tn_generation_token := Some g, tn_attempt := tn_attempt t + 1, tn_final_answer := None,
           tn_partial_answer := (if continued then tn_partial_answer t else None),
           tn_scope_version := (if continued then tn_scope_version t else ct_scope_version chat),
           tn_insufficient_context := False, tn_error := None, tn_completed_at := None\<rparr>)"

definition v4_retry_turn ::
  "env \<Rightarrow> time \<Rightarrow> string \<Rightarrow> uuid \<Rightarrow> uuid \<Rightarrow> uuid option \<Rightarrow> chat_db \<Rightarrow> (sql_error, retry_result \<times> chat_db) result" where
  "v4_retry_turn env now token i turn generation c =
     (case own_chat now token i c of
        None \<Rightarrow> Inr (\<lparr>rr_status = ''not_found'', rr_turn = None\<rparr>, c)
      | Some chat \<Rightarrow>
          (case List.find (\<lambda>t. tn_id t = turn \<and> tn_chat t = i) (turns c) of
             None \<Rightarrow> Inr (\<lparr>rr_status = ''not_found'', rr_turn = None\<rparr>, c)
           | Some t \<Rightarrow>
               if \<exists>x \<in> set (turns c). tn_chat x = i \<and> tn_ordinal t < tn_ordinal x
               then Inr (\<lparr>rr_status = ''not_latest'', rr_turn = Some t\<rparr>, c)
               else case generation of
                 None \<Rightarrow> Inr (\<lparr>rr_status = ''not_retryable'', rr_turn = Some t\<rparr>, c)
               | Some g \<Rightarrow>
                   if \<not> retryable (tn_status t) \<or> (\<exists>x \<in> set (turns c). tn_chat x = i \<and> tn_status x = GENERATING)
                   then Inr (\<lparr>rr_status = ''not_retryable'', rr_turn = Some t\<rparr>, c)
                   else
                     let keep = (tn_status t = LENGTH_LIMITED);
                         c1 = (if keep then c
                               else c\<lparr>turn_citations := delete_where (\<lambda>x. ci_turn x = turn) (turn_citations c),
                                      turn_sources := delete_where (\<lambda>r. sr_turn r = turn) (turn_sources c)\<rparr>)
                     in rbind (end_turns env (\<lambda>x. tn_id x = turn) (retried_turn chat g) c1)
                          (\<lambda>c2. Inr (\<lparr>rr_status = ''retried'', rr_turn = Some (retried_turn chat g t)\<rparr>, c2))))"

text \<open>The caller may see the source: the document is readable, or it was when it was deleted.\<close>

definition source_authorized :: "time \<Rightarrow> string \<Rightarrow> chat_db \<Rightarrow> source_row \<Rightarrow> bool" where
  "source_authorized now token c r =
     (case sr_document r of
        None \<Rightarrow> sr_owner_authorized r = Some True
      | Some d \<Rightarrow> v4_can_read_document now token d (secured c))"

definition all_authorized :: "time \<Rightarrow> string \<Rightarrow> chat_db \<Rightarrow> uuid \<Rightarrow> bool" where
  "all_authorized now token c turn \<longleftrightarrow>
     (\<forall>r \<in> set (turn_sources c). sr_turn r = turn \<longrightarrow> source_authorized now token c r)"

definition v4_finalize_turn ::
  "env \<Rightarrow> time \<Rightarrow> string \<Rightarrow> uuid \<Rightarrow> uuid option \<Rightarrow> string option \<Rightarrow> bool \<Rightarrow> int list option \<Rightarrow> chat_db \<Rightarrow>
   (sql_error, bool \<times> chat_db) result" where
  "v4_finalize_turn env now token turn generation answer insufficient cited c =
     (case (answer, cited) of
        (Some text_, Some ranks) \<Rightarrow>
          if btrim text_ = [] \<or> 8 < length ranks \<or> (\<exists>k \<in> set ranks. \<not> between k 1 8) \<or> \<not> distinct ranks
          then Inl (Raised ''invalid turn finalization'')
          else if \<not> (\<exists>t \<in> set (turns c). tn_id t = turn \<and> generating_under now token generation c t) then Inr (False, c)
          else if \<not> all_authorized now token c turn
          then rbind (end_turns env (\<lambda>x. tn_id x = turn) (end_turn ACCESS_REVOKED None ''access_revoked'') c) (\<lambda>c1. Inr (False, c1))
          else rbind (chats_checked env (c\<lparr>turn_citations := turn_citations c @
                   map (\<lambda>(k, position). \<lparr>ci_turn = turn, ci_ordinal = position, ci_source_rank = k\<rparr>) (zip ranks [1..int (length ranks)])\<rparr>)) (\<lambda>c1.
               rbind (end_turns env (\<lambda>x. tn_id x = turn) (\<lambda>t. t\<lparr>tn_status := TURN_COMPLETE, tn_generation_token := None,
                   tn_final_answer := Some text_, tn_partial_answer := None, tn_insufficient_context := insufficient,
                   tn_error := None, tn_completed_at := Some now\<rparr>) c1) (\<lambda>c2. Inr (True, c2)))
      | _ \<Rightarrow> Inl (Raised ''invalid turn finalization''))"

section \<open>Deletion of documents\<close>

text \<open>The trigger on updates of sources.\<close>

definition v4_enforce_turn_source_immutability :: "source_row \<Rightarrow> source_row \<Rightarrow> bool" where
  "v4_enforce_turn_source_immutability old new \<longleftrightarrow>
     sr_turn new = sr_turn old \<and> sr_rank new = sr_rank old \<and> sr_snapshot new = sr_snapshot old \<and>
     (sr_document new \<noteq> sr_document old \<longrightarrow>
        sr_document old \<noteq> None \<and> sr_document new = None \<and> sr_owner_authorized new \<noteq> None \<and>
        (sr_owner_authorized old = None \<or> sr_owner_authorized new = sr_owner_authorized old)) \<and>
     (sr_chunk new \<noteq> sr_chunk old \<longrightarrow> sr_chunk old \<noteq> None \<and> sr_chunk new = None) \<and>
     (sr_owner_authorized old \<noteq> None \<longrightarrow> sr_owner_authorized new = sr_owner_authorized old)"

definition update_sources :: "(source_row \<Rightarrow> bool) \<Rightarrow> (source_row \<Rightarrow> source_row) \<Rightarrow> chat_db \<Rightarrow> (sql_error, chat_db) result" where
  "update_sources p f c =
     (if \<exists>r \<in> set (turn_sources c). p r \<and> \<not> v4_enforce_turn_source_immutability r (f r) then Inl CheckViolation
      else Inr (c\<lparr>turn_sources := update_where p f (turn_sources c)\<rparr>))"

text \<open>Whether the owner of the chat of a source could read the document, as recorded at its deletion.\<close>

definition owner_authorized :: "uuid \<Rightarrow> chat_db \<Rightarrow> source_row \<Rightarrow> bool option" where
  "owner_authorized doc c r =
     (case List.find (\<lambda>t. tn_id t = sr_turn r) (turns c) of None \<Rightarrow> None
      | Some t \<Rightarrow>
          (case List.find (\<lambda>x. ct_id x = tn_chat t) (chats c) of None \<Rightarrow> None
           | Some x \<Rightarrow>
               (case List.find (\<lambda>u. u_id u = ct_owner x) (users (secured c)) of None \<Rightarrow> None
                | Some u \<Rightarrow> Some (is_active_admin u \<or> current_row (secured c) (ct_owner x) doc))))"

text \<open>Deleting chunks clears the references to them; deleting a document those to it.\<close>

definition with_content :: "env \<Rightarrow> db \<Rightarrow> chat_db \<Rightarrow> (sql_error, chat_db) result" where
  "with_content env db c =
     rbind (update_sources (\<lambda>r. \<exists>d \<in> set_option (sr_document r). d \<notin> d_id ` set (documents db))
              (\<lambda>r. r\<lparr>sr_document := None\<rparr>) c) (\<lambda>c1.
     rbind (update_sources (\<lambda>r. \<exists>k \<in> set_option (sr_chunk r). k \<notin> c_id ` set (chunks db)) (\<lambda>r. r\<lparr>sr_chunk := None\<rparr>) c1) (\<lambda>c2.
     chats_checked env (c2\<lparr>content := db\<rparr>)))"

text \<open>A change of the library deletes the scopes of its deleted nodes.\<close>

definition with_security :: "security_db \<Rightarrow> chat_db \<Rightarrow> chat_db" where
  "with_security s c =
     c\<lparr>secured := s, chat_scopes := filter (\<lambda>x. snd x \<in> n_id ` set (library_nodes s)) (chat_scopes c)\<rparr>"

definition v4_admin_delete_document ::
  "env \<Rightarrow> time \<Rightarrow> string \<Rightarrow> uuid \<Rightarrow> uuid \<Rightarrow> chat_db \<Rightarrow> (sql_error, chat_db) result" where
  "v4_admin_delete_document env now token doc deletion c =
     (case actor_of now token c of
        None \<Rightarrow> Inl (Raised ''authentication required'')
      | Some actor \<Rightarrow>
          rbind (select_strict (\<lambda>d. d_id d = doc \<and> (\<exists>n \<in> set (library_nodes (secured c)). n_document n = Some doc \<and>
                   (v4_current_actor_is_admin now token (secured c) \<or> n_kind n = FILE \<and> n_uploader n = Some actor)))
                 (documents (content c))) (\<lambda>d.
          rbind (update_sources (\<lambda>r. sr_document r = Some doc \<and> sr_owner_authorized r = None)
                   (\<lambda>r. r\<lparr>sr_owner_authorized := owner_authorized doc c r\<rparr>) c) (\<lambda>c1.
          rbind (chats_checked env (c1\<lparr>object_deletions := object_deletions c1 @ [(deletion, d_object_key d)]\<rparr>)) (\<lambda>c2.
          rbind (checked env (delete_document doc (content c2))) (\<lambda>db.
          rbind (with_content env db c2) (\<lambda>c3.
          Inr (with_security (v4_append_audit ''document_deleted'' doc (delete_document_node doc (secured c3))) c3)))))))"

section \<open>Views\<close>

definition v4_chat_history :: "time \<Rightarrow> string \<Rightarrow> chat_db \<Rightarrow> (turn_row \<times> bool) list" where
  "v4_chat_history now token c =
     [(let redacted = \<not> all_authorized now token c (tn_id t)
       in (if redacted then t\<lparr>tn_final_answer := None, tn_partial_answer := None\<rparr> else t, redacted)).
        t \<leftarrow> turns c, x \<leftarrow> chats c, ct_id x = tn_chat t \<and> actor_of now token c = Some (ct_owner x)]"

definition owned_turn :: "time \<Rightarrow> string \<Rightarrow> chat_db \<Rightarrow> uuid \<Rightarrow> bool" where
  "owned_turn now token c turn \<longleftrightarrow>
     (\<exists>t \<in> set (turns c). tn_id t = turn \<and> (\<exists>x \<in> set (chats c). ct_id x = tn_chat t \<and> actor_of now token c = Some (ct_owner x)))"

definition v4_authorized_turn_sources :: "time \<Rightarrow> string \<Rightarrow> chat_db \<Rightarrow> source_row list" where
  "v4_authorized_turn_sources now token c =
     filter (\<lambda>r. owned_turn now token c (sr_turn r) \<and> all_authorized now token c (sr_turn r)) (turn_sources c)"

definition v4_authorized_turn_citations :: "time \<Rightarrow> string \<Rightarrow> chat_db \<Rightarrow> citation_row list" where
  "v4_authorized_turn_citations now token c =
     filter (\<lambda>x. owned_turn now token c (ci_turn x) \<and> all_authorized now token c (ci_turn x)) (turn_citations c)"

definition v5_citation_evidence :: "time \<Rightarrow> string \<Rightarrow> uuid \<Rightarrow> uuid \<Rightarrow> int \<Rightarrow> chat_db \<Rightarrow> (source_row \<times> string) option" where
  "v5_citation_evidence now token i turn k c =
     (case [(r, s_parse_method (c_source ck)). r \<leftarrow> turn_sources c,
              sr_turn r = turn \<and> sr_rank r = k \<and> (\<exists>x \<in> set (turn_citations c). ci_turn x = turn \<and> ci_source_rank x = k) \<and>
              (\<exists>t \<in> set (turns c). tn_id t = turn \<and> tn_chat t = i \<and> tn_status t = TURN_COMPLETE) \<and>
              (\<exists>x \<in> set (chats c). ct_id x = i \<and> actor_of now token c = Some (ct_owner x)),
            d \<leftarrow> documents (content c), sr_document r = Some (d_id d) \<and> d_id d = sn_document (sr_snapshot r) \<and> d_state d = READY \<and>
              v4_can_read_document now token (d_id d) (secured c),
            ck \<leftarrow> chunks (content c), sr_chunk r = Some (c_id ck) \<and> c_id ck = sn_chunk (sr_snapshot r) \<and> c_document ck = d_id d \<and>
              s_source_sha256 (c_source ck) = sn_source_sha256 (sr_snapshot r) \<and>
              s_text_sha256 (c_source ck) = sn_text_sha256 (sr_snapshot r)] of
        [] \<Rightarrow> None | x # _ \<Rightarrow> Some x)"

end
