(* ===== verification/Answers.thy ===== *)
theory Answers
  imports Chunking Chats
begin

text \<open>
  Prompts and answers of a chat turn (services/chats.py, services/answer\_protocol.py): the selection
  of history and sources within the token budgets, the prompts for a continuation and for a repair of
  the citations, and the validation of the citations of an answer. Characters have eight bits, on
  which NFC normalisation is the identity.
\<close>

section \<open>Data\<close>

record HistoryPair =
  hp_question :: string
  hp_answer :: string

record ChatSourceSnapshot =
  cs_rank :: int
  cs_label :: string
  cs_document_id :: "uuid option"
  cs_chunk_id :: "uuid option"
  cs_document_id_snapshot :: uuid
  cs_chunk_id_snapshot :: uuid
  cs_original_filename :: string
  cs_display_name :: string
  cs_logical_path :: string
  cs_page_start :: int
  cs_page_end :: int
  cs_section :: "string option"
  cs_source_sha256 :: string
  cs_text_sha256 :: string
  cs_retrieval_distance :: rat
  cs_rerank_score :: rat
  cs_text :: string
  cs_token_count :: int

definition MAX_HISTORY_TOKENS :: int where "MAX_HISTORY_TOKENS = 1536"
definition MAX_COMBINED_TOKENS :: int where "MAX_COMBINED_TOKENS = 6144"
definition MODEL_CONTEXT_TOKENS :: int where "MODEL_CONTEXT_TOKENS = 16384"
definition OUTPUT_TOKENS :: int where "OUTPUT_TOKENS = 3072"
definition PROMPT_FORMATTING_RESERVE_TOKENS :: int where "PROMPT_FORMATTING_RESERVE_TOKENS = 256"

definition INSUFFICIENT_CONTEXT_ANSWER :: string where
  "INSUFFICIENT_CONTEXT_ANSWER = ''I don'' @ [CHR 0x27] @ ''t have sufficient context in the selected documents to answer that question.''"

definition INSUFFICIENT_CONTEXT_SENTINEL :: string where "INSUFFICIENT_CONTEXT_SENTINEL = ''INSUFFICIENT_CONTEXT''"

definition is_explicit_insufficient_context :: "string \<Rightarrow> bool" where
  "is_explicit_insufficient_context answer =
     (let lines = map strip (filter (\<lambda>line. strip line \<noteq> []) (splitlines (strip answer)))
      in lines \<noteq> [] \<and> last lines = INSUFFICIENT_CONTEXT_SENTINEL)"

section \<open>Titles and questions\<close>

text \<open>The Unicode categories Cc and Cf among the characters of eight bits; none is in Cs.\<close>

definition category_Cc :: "char \<Rightarrow> bool" where
  "category_Cc c \<longleftrightarrow> code c < 32 \<or> 127 \<le> code c \<and> code c < 160"

definition category_Cf :: "char \<Rightarrow> bool" where
  "category_Cf c \<longleftrightarrow> code c = 173"

definition normalize_chat_title :: "string \<Rightarrow> (string, string) result" where
  "normalize_chat_title value =
     (let title = strip value in
      if \<not> (1 \<le> length title \<and> length title \<le> 255) then Inl ''title must contain 1-255 characters''
      else if \<exists>c \<in> set title. category_Cc c \<or> category_Cf c then Inl ''title contains a forbidden Unicode character''
      else Inr title)"

definition normalize_question :: "string \<Rightarrow> (string, string) result" where
  "normalize_question value =
     (let question = strip value in
      if \<not> (1 \<le> length question \<and> length question \<le> 2000) then Inl ''question must contain 1-2000 characters''
      else if \<exists>c \<in> set question. category_Cf c \<or> category_Cc c \<and> code c \<notin> {9, 10, 13}
      then Inl ''question contains a forbidden Unicode character''
      else Inr question)"

section \<open>Prompts\<close>

abbreviation nl :: string where "nl \<equiv> [newline]"

definition retrieval_query :: "string \<Rightarrow> string option \<Rightarrow> string" where
  "retrieval_query question previous =
     (case previous of None \<Rightarrow> question
      | Some p \<Rightarrow> ''Current question:'' @ nl @ question @ blank_line @ ''Previous completed question:'' @ nl @ p)"

definition history_block :: "HistoryPair \<Rightarrow> string" where
  "history_block pair = ''User: '' @ hp_question pair @ nl @ ''Assistant: '' @ hp_answer pair"

fun select_blocks :: "int \<Rightarrow> string list \<Rightarrow> HistoryPair list \<Rightarrow> string list" where
  "select_blocks budget selected [] = selected"
| "select_blocks budget selected (pair # pairs) =
     select_blocks budget
       (if int (count_tokens (join blank_line (history_block pair # selected))) \<le> budget
        then selected @ [history_block pair] else selected) pairs"

definition select_history :: "HistoryPair list \<Rightarrow> int \<Rightarrow> string" where
  "select_history history budget = join blank_line (rev (select_blocks budget [] (rev history)))"

definition source_block :: "ChatSourceSnapshot \<Rightarrow> string" where
  "source_block s =
     (let page = (if cs_page_start s = cs_page_end s then show_int (cs_page_start s)
                  else show_int (cs_page_start s) @ ''-'' @ show_int (cs_page_end s))
      in ''['' @ cs_label s @ '']'' @ nl @ ''Filename: '' @ cs_original_filename s @ nl @
         ''Current display name: '' @ cs_display_name s @ nl @ ''Logical path: '' @ cs_logical_path s @ nl @ ''Page: '' @ page @ nl @
         ''Section: '' @ (if cs_section s = None \<or> cs_section s = Some [] then ''Not specified'' else the (cs_section s)) @ nl @
         ''Content:'' @ nl @ cs_text s)"

definition render_prompt :: "string \<Rightarrow> string \<Rightarrow> string \<Rightarrow> string" where
  "render_prompt question history sources =
     ''Answer the current question using only the labeled source blocks.'' @ nl @
     ''Conversation history is reference context only and is not factual evidence.'' @ nl @
     ''Every factual claim must cite [S1], [S2], etc.'' @ nl @
     ''If sources are insufficient, reply exactly: INSUFFICIENT_CONTEXT'' @ blank_line @
     ''Conversation history:'' @ nl @ (if history = [] then ''No completed conversation history.'' else history) @ blank_line @
     ''Current question:'' @ nl @ question @ blank_line @ ''Sources:'' @ nl @ sources"

definition over_context :: "string \<Rightarrow> bool" where
  "over_context prompt \<longleftrightarrow>
     MODEL_CONTEXT_TOKENS < int (count_tokens prompt) + OUTPUT_TOKENS + PROMPT_FORMATTING_RESERVE_TOKENS"

definition continuation_prompt :: "string \<Rightarrow> string \<Rightarrow> (string, string) result" where
  "continuation_prompt base_prompt partial_answer =
     (let prompt = base_prompt @ blank_line @
        ''The answer below stopped only because the generation limit was reached. '' @
        ''Continue exactly where it stopped. Return only the missing continuation. '' @
        ''Do not repeat, restart, summarize, or revise existing text. Preserve its '' @
        ''Markdown structure and finish every citation and table row.'' @ blank_line @
        ''<partial_answer>'' @ nl @ partial_answer @ nl @ ''</partial_answer>''
      in if over_context prompt then Inl ''continuation prompt exceeds the model context budget'' else Inr prompt)"

definition citation_repair_prompt :: "string \<Rightarrow> string \<Rightarrow> (string, string) result" where
  "citation_repair_prompt base_prompt draft_answer =
     (let prompt = base_prompt @ blank_line @
        ''The draft answer below contains useful content but failed citation '' @
        ''validation. Rewrite it without adding facts. Preserve its meaning and '' @
        ''Markdown structure, including exactly the requested table columns. '' @
        ''Remove any unsupported claim. Add a valid source citation such as [S1] '' @
        ''to every factual table row and factual sentence. Use only source labels '' @
        ''that appear in the labeled source blocks above. Return only the repaired '' @
        ''answer, with no commentary about the repair.'' @ blank_line @
        ''<draft_answer>'' @ nl @ draft_answer @ nl @ ''</draft_answer>''
      in if over_context prompt then Inl ''citation repair prompt exceeds the model context budget'' else Inr prompt)"

definition relabeled :: "nat \<Rightarrow> ChatSourceSnapshot \<Rightarrow> ChatSourceSnapshot" where
  "relabeled n source = source\<lparr>cs_rank := int n + 1, cs_label := ''S'' @ show_int (int n + 1)\<rparr>"

fun select_sources ::
  "string \<Rightarrow> string \<Rightarrow> int \<Rightarrow> ChatSourceSnapshot list \<Rightarrow> ChatSourceSnapshot list \<Rightarrow> ChatSourceSnapshot list" where
  "select_sources question history_text source_budget selected [] = selected"
| "select_sources question history_text source_budget selected (source # sources) =
     (let candidate = selected @ [relabeled (length selected) source];
          source_text = join blank_line (map source_block candidate)
      in if source_budget < int (count_tokens source_text) then selected
         else if over_context (render_prompt question history_text source_text) then selected
         else select_sources question history_text source_budget candidate sources)"

definition combined_budget :: "string \<Rightarrow> int" where
  "combined_budget question =
     min MAX_COMBINED_TOKENS
       (max 0 (MODEL_CONTEXT_TOKENS - OUTPUT_TOKENS - PROMPT_FORMATTING_RESERVE_TOKENS -
               int (count_tokens (render_prompt question [] []))))"

definition budget_prompt ::
  "string \<Rightarrow> HistoryPair list \<Rightarrow> ChatSourceSnapshot list \<Rightarrow> (string, ChatSourceSnapshot list \<times> string option) result" where
  "budget_prompt question history sources =
     (let combined = combined_budget question;
          history_text = select_history history (min MAX_HISTORY_TOKENS combined);
          history_tokens = (if history_text \<noteq> [] then int (count_tokens history_text) else 0);
          selected = select_sources question history_text (combined - history_tokens) [] sources
      in if selected = [] then Inr ([], None)
         else
           let blocks = join blank_line (map source_block selected);
               prompt = render_prompt question history_text blocks
           in if over_context prompt then Inl ''chat prompt exceeds the model context budget''
              else if MAX_HISTORY_TOKENS < history_tokens then Inl ''chat history exceeds its token budget''
              else if MAX_COMBINED_TOKENS < history_tokens + int (count_tokens blocks)
              then Inl ''chat context exceeds its combined token budget''
              else Inr (selected, Some prompt))"

section \<open>Citations\<close>

text \<open>The matches of the pattern of a source token, from left to right, and those of a source label.\<close>

definition in_token :: "char \<Rightarrow> bool" where
  "in_token c \<longleftrightarrow> c \<noteq> CHR '']'' \<and> code c \<noteq> 13 \<and> code c \<noteq> 10"

function SOURCE_LIKE :: "string \<Rightarrow> string list" where
  "SOURCE_LIKE [] = []"
| "SOURCE_LIKE (c # s) =
     (if c = CHR ''['' \<and> starts_with s ''S'' \<and> starts_with (dropWhile in_token (tl s)) '']''
      then (''[S'' @ takeWhile in_token (tl s) @ '']'') # SOURCE_LIKE (tl (dropWhile in_token (tl s)))
      else SOURCE_LIKE s)"
  by pat_completeness auto
termination
proof (relation "measure length")
  fix c :: char and s :: string
  have "length (tl (dropWhile in_token (tl s))) \<le> length s"
    using length_dropWhile_le [of in_token "tl s"] by simp
  then show "(tl (dropWhile in_token (tl s)), c # s) \<in> measure length" by simp
qed simp_all

function SOURCE_LABEL :: "string \<Rightarrow> string list" where
  "SOURCE_LABEL [] = []"
| "SOURCE_LABEL (c # s) =
     (if c = CHR ''['' \<and> starts_with s ''S'' \<and> takeWhile is_digit (tl s) \<noteq> [] \<and> starts_with (dropWhile is_digit (tl s)) '']''
      then takeWhile is_digit (tl s) # SOURCE_LABEL (tl (dropWhile is_digit (tl s)))
      else SOURCE_LABEL s)"
  by pat_completeness auto
termination
proof (relation "measure length")
  fix c :: char and s :: string
  have "length (tl (dropWhile is_digit (tl s))) \<le> length s"
    using length_dropWhile_le [of is_digit "tl s"] by simp
  then show "(tl (dropWhile is_digit (tl s)), c # s) \<in> measure length" by simp
qed simp_all

text \<open>The dictionary of the sources by label: a later source replaces an earlier one.\<close>

definition supplied_sources :: "ChatSourceSnapshot list \<Rightarrow> string \<Rightarrow> ChatSourceSnapshot option" where
  "supplied_sources sources label = List.find (\<lambda>s. cs_label s = label) (rev sources)"

definition validated_source_ranks :: "string \<Rightarrow> ChatSourceSnapshot list \<Rightarrow> ChatSourceSnapshot list option" where
  "validated_source_ranks answer sources =
     (if answer = [] \<or> is_explicit_insufficient_context answer then None
      else
        let supplied = supplied_sources sources;
            labels = map (\<lambda>number. ''S'' @ number) (SOURCE_LABEL answer)
        in if \<exists>token \<in> set (SOURCE_LIKE answer). \<forall>s \<in> set sources. token \<noteq> ''['' @ cs_label s @ '']'' then None
           else if labels = [] \<or> (\<exists>label \<in> set labels. supplied label = None) then None
           else Some (map (\<lambda>label. the (supplied label)) (fromkeys labels)))"

section \<open>Budgets\<close>

lemma tokens_blocks: "count_tokens (join blank_line xs) = sum_list (map count_tokens xs)"
  by (rule count_tokens_join) (auto simp: blank_line_def is_space_newline)

lemma select_blocks_tokens:
  "int (count_tokens (join blank_line selected)) \<le> budget \<Longrightarrow> int (count_tokens (join blank_line (select_blocks budget selected pairs))) \<le> budget"
  by (induction pairs arbitrary: selected) (simp_all add: tokens_blocks ac_simps)

lemma select_history_tokens: "0 \<le> budget \<Longrightarrow> int (count_tokens (select_history history budget)) \<le> budget"
  using select_blocks_tokens [of "[]" budget "rev history"] by (simp add: select_history_def tokens_blocks rev_map [symmetric] sum_list_rev)

lemma select_blocks_subseq: "\<exists>bs. subseq bs (map history_block pairs) \<and> select_blocks budget selected pairs = selected @ bs"
proof (induction pairs arbitrary: selected)
  case (Cons p ps)
  let ?fits = "int (count_tokens (join blank_line (history_block p # selected))) \<le> budget"
  from Cons.IH [of "if ?fits then selected @ [history_block p] else selected"] obtain bs
    where "subseq bs (map history_block ps)"
      "select_blocks budget selected (p # ps) = (if ?fits then selected @ [history_block p] else selected) @ bs" by auto
  then show ?case by (cases ?fits) (auto intro: exI [of _ "history_block p # bs"] exI [of _ bs] subseq_Cons2)
qed simp

text \<open>The sources fit into the budget and the prompt they give into the context of the model.\<close>

definition sources_fit :: "string \<Rightarrow> string \<Rightarrow> int \<Rightarrow> ChatSourceSnapshot list \<Rightarrow> bool" where
  "sources_fit question history_text budget sources \<longleftrightarrow>
     (let text = join blank_line (map source_block sources)
      in int (count_tokens text) \<le> budget \<and> \<not> over_context (render_prompt question history_text text))"

fun relabel_from :: "nat \<Rightarrow> ChatSourceSnapshot list \<Rightarrow> ChatSourceSnapshot list" where
  "relabel_from n [] = []"
| "relabel_from n (s # ss) = relabeled n s # relabel_from (Suc n) ss"

lemma select_sources_Cons:
  "select_sources q h b selected (s # ss) =
     (if sources_fit q h b (selected @ [relabeled (length selected) s])
      then select_sources q h b (selected @ [relabeled (length selected) s]) ss else selected)"
  by (simp add: sources_fit_def Let_def not_less)

declare select_sources.simps(2) [simp del]

lemma select_sources_prefix:
  "\<exists>n \<le> length ss. select_sources q h b selected ss = selected @ relabel_from (length selected) (take n ss) \<and>
     (\<forall>k. 0 < k \<and> k \<le> n \<longrightarrow> sources_fit q h b (selected @ relabel_from (length selected) (take k ss))) \<and>
     (n < length ss \<longrightarrow> \<not> sources_fit q h b (selected @ relabel_from (length selected) (take (Suc n) ss)))"
proof (induction ss arbitrary: selected)
  case (Cons s ss)
  let ?c = "selected @ [relabeled (length selected) s]"
  show ?case
  proof (cases "sources_fit q h b ?c")
    case True
    from Cons.IH [of ?c] obtain n where n: "n \<le> length ss" "select_sources q h b ?c ss = ?c @ relabel_from (length ?c) (take n ss)"
      "\<forall>k. 0 < k \<and> k \<le> n \<longrightarrow> sources_fit q h b (?c @ relabel_from (length ?c) (take k ss))"
      "n < length ss \<longrightarrow> \<not> sources_fit q h b (?c @ relabel_from (length ?c) (take (Suc n) ss))" by blast
    have "sources_fit q h b (selected @ relabel_from (length selected) (take k (s # ss)))" if "0 < k" "k \<le> Suc n" for k
      using True n(3) that by (cases k; cases "k = 1") auto
    then show ?thesis using True n by (intro exI [of _ "Suc n"]) (simp add: select_sources_Cons)
  next
    case False
    then show ?thesis by (intro exI [of _ 0]) (simp add: select_sources_Cons)
  qed
qed simp

lemma length_relabel [simp]: "length (relabel_from n ss) = length ss"
  by (induction ss arbitrary: n) auto

lemma relabeled_again [simp]: "relabeled n (relabeled n s) = relabeled n s"
  by (simp add: relabeled_def)

lemma relabel_again [simp]: "relabel_from n (relabel_from n ss) = relabel_from n ss"
  by (induction ss arbitrary: n) auto

lemma take_relabel: "take k (relabel_from n ss) = relabel_from n (take k ss)"
  by (induction ss arbitrary: n k) (auto simp: take_Cons')

lemma select_sources_all:
  "(\<And>k. 0 < k \<Longrightarrow> k \<le> length ss \<Longrightarrow> sources_fit q h b (selected @ relabel_from (length selected) (take k ss))) \<Longrightarrow>
   select_sources q h b selected ss = selected @ relabel_from (length selected) ss"
  using select_sources_prefix [of ss q h b selected] by (metis Suc_leI le_neq_implies_less take_all zero_less_Suc order_refl)

lemma subseq_map_conv: "subseq xs (map f ys) \<Longrightarrow> \<exists>zs. subseq zs ys \<and> xs = map f zs"
proof (induction ys arbitrary: xs)
  case (Cons y ys)
  show ?case
  proof (cases "subseq xs (map f ys)")
    case True
    then show ?thesis using Cons.IH by blast
  next
    case False
    then obtain xs' where xs': "xs = f y # xs'" "subseq xs' (map f ys)"
      using Cons.prems by (cases xs) (auto split: if_splits)
    then obtain zs where "subseq zs ys" "xs' = map f zs" using Cons.IH by blast
    then show ?thesis using xs'(1) by (intro exI [of _ "y # zs"]) simp
  qed
qed (auto dest: list_emb_Nil2)

lemma subseq_rev: "subseq xs ys \<Longrightarrow> subseq (rev xs) (rev ys)"
  by (induction rule: list_emb.induct) (auto intro: subseq_rev_drop_many list_emb_append_mono)

lemma select_history_pairs:
  obtains pairs where "subseq pairs history" "select_history history budget = join blank_line (map history_block pairs)"
proof -
  from select_blocks_subseq [of "rev history" budget "[]"] obtain bs
    where bs: "subseq bs (map history_block (rev history))" "select_blocks budget [] (rev history) = bs" by auto
  from subseq_map_conv [OF bs(1)] obtain zs where "subseq zs (rev history)" "bs = map history_block zs" by blast
  then have "subseq (rev zs) history" "rev bs = map history_block (rev zs)" using subseq_rev [of zs "rev history"] by (simp_all add: rev_map)
  then show ?thesis using that [of "rev zs"] bs(2) by (simp add: select_history_def)
qed

definition history_part :: "string \<Rightarrow> HistoryPair list \<Rightarrow> string" where
  "history_part question history = select_history history (min MAX_HISTORY_TOKENS (combined_budget question))"

definition source_part :: "string \<Rightarrow> HistoryPair list \<Rightarrow> int" where
  "source_part question history = combined_budget question - int (count_tokens (history_part question history))"

lemma combined_budget_bounds: "0 \<le> combined_budget q" "combined_budget q \<le> MAX_COMBINED_TOKENS"
  by (simp_all add: combined_budget_def MAX_COMBINED_TOKENS_def)

lemma history_part_tokens: "int (count_tokens (history_part q h)) \<le> min MAX_HISTORY_TOKENS (combined_budget q)"
  unfolding history_part_def by (rule select_history_tokens) (simp add: combined_budget_bounds MAX_HISTORY_TOKENS_def)

lemma budget_prompt_select:
  defines "fits \<equiv> \<lambda>q h. sources_fit q (history_part q h) (source_part q h)"
  shows "budget_prompt q h sources =
    (let selected = select_sources q (history_part q h) (source_part q h) [] sources
     in if selected = [] then Inr ([], None)
        else if fits q h selected then Inr (selected, Some (render_prompt q (history_part q h) (join blank_line (map source_block selected))))
        else budget_prompt q h sources)"
proof -
  have "(if history_part q h \<noteq> [] then int (count_tokens (history_part q h)) else 0) = int (count_tokens (history_part q h))" by simp
  then show ?thesis
    using history_part_tokens [of q h] combined_budget_bounds(2) [of q]
    by (auto simp: budget_prompt_def fits_def sources_fit_def Let_def source_part_def simp flip: history_part_def)
qed

lemma budget_prompt_result:
  "\<exists>n \<le> length sources. budget_prompt q h sources =
      Inr (relabel_from 0 (take n sources), if n = 0 then None
        else Some (render_prompt q (history_part q h) (join blank_line (map source_block (relabel_from 0 (take n sources)))))) \<and>
    (\<forall>k. 0 < k \<and> k \<le> n \<longrightarrow> sources_fit q (history_part q h) (source_part q h) (relabel_from 0 (take k sources))) \<and>
    (n < length sources \<longrightarrow> \<not> sources_fit q (history_part q h) (source_part q h) (relabel_from 0 (take (Suc n) sources)))"
proof -
  from select_sources_prefix [of sources q "history_part q h" "source_part q h" "[]"] obtain n where n: "n \<le> length sources"
    "select_sources q (history_part q h) (source_part q h) [] sources = relabel_from 0 (take n sources)"
    "\<forall>k. 0 < k \<and> k \<le> n \<longrightarrow> sources_fit q (history_part q h) (source_part q h) (relabel_from 0 (take k sources))"
    "n < length sources \<longrightarrow> \<not> sources_fit q (history_part q h) (source_part q h) (relabel_from 0 (take (Suc n) sources))" by auto
  have "relabel_from 0 (take n sources) = [] \<longleftrightarrow> n = 0" using n(1) by (metis length_0_conv length_relabel length_take min.absorb2)
  then show ?thesis using n budget_prompt_select [of q h sources] by (intro exI [of _ n]) (auto simp: Let_def)
qed

text \<open>The prompt is made of completed turns of the history, in their order, and of the blocks, within the limits.\<close>

definition prompt_within_limits :: "string \<Rightarrow> HistoryPair list \<Rightarrow> string \<Rightarrow> string \<Rightarrow> bool" where
  "prompt_within_limits question history blocks p \<longleftrightarrow>
     (\<exists>pairs. let turns = join blank_line (map history_block pairs)
       in subseq pairs history \<and> p = render_prompt question turns blocks \<and> int (count_tokens p) + 3072 + 256 \<le> 16384 \<and>
          count_tokens turns \<le> 1536 \<and> count_tokens turns + count_tokens blocks \<le> 6144)"

text \<open>
  C28: the preparation of a prompt never raises an error, and keeps its budgets. The sources are a
  beginning of the ranked ones, labelled S1, S2 and so on, and there is a prompt exactly when there
  is a source; it leaves room for the answer in the context of the model, has at most 1536 tokens of
  completed turns, in their order, and at most 6144 tokens of turns and sources together. It stops
  before the first source that does not fit.
\<close>

theorem budget_prompt_within_limits:
  "\<exists>n prompt. n \<le> length sources \<and> budget_prompt question history sources = Inr (relabel_from 0 (take n sources), prompt) \<and>
     (case prompt of None \<Rightarrow> n = 0
      | Some p \<Rightarrow> 0 < n \<and> prompt_within_limits question history (join blank_line (map source_block (relabel_from 0 (take n sources)))) p) \<and>
     (n = length sources \<or> \<not> sources_fit question (history_part question history) (source_part question history)
        (relabel_from 0 (take (Suc n) sources)))"
proof -
  from budget_prompt_result [of sources question history] obtain n where n: "n \<le> length sources" "budget_prompt question history sources =
      Inr (relabel_from 0 (take n sources), if n = 0 then None
        else Some (render_prompt question (history_part question history) (join blank_line (map source_block (relabel_from 0 (take n sources))))))"
    "\<forall>k. 0 < k \<and> k \<le> n \<longrightarrow> sources_fit question (history_part question history) (source_part question history) (relabel_from 0 (take k sources))"
    "n < length sources \<longrightarrow> \<not> sources_fit question (history_part question history) (source_part question history) (relabel_from 0 (take (Suc n) sources))"
    by blast
  obtain pairs where pairs: "subseq pairs history" "history_part question history = join blank_line (map history_block pairs)"
    unfolding history_part_def by (rule select_history_pairs)
  show ?thesis
  proof (cases "n = 0")
    case False
    let ?turns = "join blank_line (map history_block pairs)"
    let ?blocks = "join blank_line (map source_block (relabel_from 0 (take n sources)))"
    let ?p = "render_prompt question ?turns ?blocks"
    have "sources_fit question ?turns (source_part question history) (relabel_from 0 (take n sources))" using n(3) False by (simp add: pairs(2))
    then have "int (count_tokens ?p) + 3072 + 256 \<le> 16384" "count_tokens ?turns \<le> 1536" "count_tokens ?turns + count_tokens ?blocks \<le> 6144"
      using history_part_tokens [of question history] combined_budget_bounds(2) [of question]
      by (simp_all add: sources_fit_def source_part_def over_context_def Let_def MODEL_CONTEXT_TOKENS_def OUTPUT_TOKENS_def
          PROMPT_FORMATTING_RESERVE_TOKENS_def MAX_HISTORY_TOKENS_def MAX_COMBINED_TOKENS_def pairs(2))
    then have "prompt_within_limits question history ?blocks ?p"
      using pairs(1) unfolding prompt_within_limits_def by (intro exI [of _ pairs]) (simp add: Let_def)
    then show ?thesis using n(1,2,4) False by (intro exI [of _ n] exI [of _ "Some ?p"]) (auto simp: pairs(2))
  qed (use n in \<open>auto intro!: exI [of _ 0]\<close>)
qed

section \<open>Validation of citations\<close>

lemma takeWhile_until: "\<forall>c \<in> set body. P c \<Longrightarrow> \<not> P d \<Longrightarrow> takeWhile P (body @ d # s) = body \<and> dropWhile P (body @ d # s) = d # s"
  by (induction body) auto

lemma bracket_not_in: "\<not> in_token CHR '']''" "\<not> is_digit CHR '']''" "\<not> is_digit CHR ''[''"
  by (simp_all add: in_token_def is_digit_def code_def)

lemma digit_in_token: "is_digit c \<Longrightarrow> in_token c"
  by (auto simp: is_digit_def in_token_def code_def)

text \<open>A match at the beginning, or none, for a class of characters that excludes the closing bracket.\<close>

definition bracketed :: "(char \<Rightarrow> bool) \<Rightarrow> string \<Rightarrow> string \<Rightarrow> bool" where
  "bracketed P body s \<longleftrightarrow> (\<forall>c \<in> set body. P c) \<and> sublist (''[S'' @ body @ '']'') s"

lemma match_at:
  assumes "starts_with s ''S''" "starts_with (dropWhile P (tl s)) '']''"
  shows "s = ''S'' @ takeWhile P (tl s) @ '']'' @ tl (dropWhile P (tl s))"
proof -
  obtain s' where s: "s = CHR ''S'' # s'" using assms(1) by (cases s) auto
  then have "starts_with (dropWhile P s') '']''" using assms(2) by simp
  then obtain r where "dropWhile P s' = CHR '']'' # r" by (cases "dropWhile P s'") (simp_all del: dropWhile_eq_Nil_conv)
  then show ?thesis using takeWhile_dropWhile_id [of P s'] s by simp
qed

lemma no_match_at:
  assumes "\<not> (c = CHR ''['' \<and> starts_with s ''S'' \<and> starts_with (dropWhile P (tl s)) '']'')" "\<not> P CHR '']''"
    "c # s = a @ ''[S'' @ body @ '']'' @ b" "\<forall>c \<in> set body. P c"
  shows "\<exists>a'. a = c # a' \<and> s = a' @ ''[S'' @ body @ '']'' @ b"
proof (cases a)
  case Nil
  then have "c = CHR ''[''" "s = CHR ''S'' # body @ CHR '']'' # b" using assms(3) by simp_all
  moreover have "dropWhile P (body @ CHR '']'' # b) = CHR '']'' # b" using takeWhile_until [OF assms(4,2), of b] by simp
  ultimately show ?thesis using assms(1) by simp
next
  case (Cons d a')
  then show ?thesis using assms(3) by (intro exI [of _ a']) simp
qed

text \<open>After a match without a second opening bracket the next one lies behind it.\<close>

lemma after_match:
  assumes "token @ r = a @ ''[S'' @ rest" "CHR ''['' \<notin> set (tl token)" "a \<noteq> []" "token \<noteq> []"
  shows "\<exists>a'. r = a' @ ''[S'' @ rest"
proof -
  from assms(1) consider us where "token @ us = a" "r = us @ ''[S'' @ rest" | us where "token = a @ us" "us @ r = ''[S'' @ rest"
    unfolding append_eq_append_conv2 by fastforce
  then show ?thesis
  proof cases
    case (2 us)
    then show ?thesis using assms(2,3) by (cases us; cases a) auto
  qed blast
qed

lemma SOURCE_LIKE_bracketed: "token \<in> set (SOURCE_LIKE s) \<Longrightarrow> \<exists>body. token = ''[S'' @ body @ '']'' \<and> bracketed in_token body s"
proof (induction s rule: SOURCE_LIKE.induct)
  case (2 c s)
  show ?case
  proof (cases "c = CHR ''['' \<and> starts_with s ''S'' \<and> starts_with (dropWhile in_token (tl s)) '']''")
    case True
    let ?body = "takeWhile in_token (tl s)" and ?r = "tl (dropWhile in_token (tl s))"
    have s: "c # s = ''[S'' @ ?body @ '']'' @ ?r" using match_at [of s in_token] True by simp
    have "bracketed in_token ?body (c # s)" by (subst s) (auto simp: bracketed_def dest: set_takeWhileD intro: sublist_appendI [of _ "[]", simplified])
    moreover have "sublist ?r (c # s)" using s by (metis append_assoc suffixI suffix_imp_sublist)
    then have "bracketed in_token body (c # s)" if "bracketed in_token body ?r" for body
      using that by (auto simp: bracketed_def intro: sublist_order.order_trans)
    ultimately show ?thesis using 2 True by auto
  next
    case False
    then have "token \<in> set (SOURCE_LIKE s)" using 2(3) by auto
    then obtain body where "token = ''[S'' @ body @ '']''" "bracketed in_token body s" using 2(2) False by blast
    then show ?thesis by (auto simp: bracketed_def sublist_Cons_right)
  qed
qed simp

lemma SOURCE_LIKE_complete:
  "s = a @ ''[S'' @ body @ '']'' @ b \<Longrightarrow> \<forall>c \<in> set body. in_token c \<Longrightarrow> \<forall>token \<in> set (SOURCE_LIKE s). CHR ''['' \<notin> set (tl token) \<Longrightarrow>
   ''[S'' @ body @ '']'' \<in> set (SOURCE_LIKE s)"
proof (induction s arbitrary: a rule: SOURCE_LIKE.induct)
  case (2 c s)
  show ?case
  proof (cases "c = CHR ''['' \<and> starts_with s ''S'' \<and> starts_with (dropWhile in_token (tl s)) '']''")
    case True
    let ?body = "takeWhile in_token (tl s)" and ?r = "tl (dropWhile in_token (tl s))"
    have s: "(''[S'' @ ?body @ '']'') @ ?r = a @ ''[S'' @ body @ '']'' @ b" using match_at [of s in_token] True 2(3) by simp
    have rec: "SOURCE_LIKE (c # s) = (''[S'' @ ?body @ '']'') # SOURCE_LIKE ?r" using True by simp
    show ?thesis
    proof (cases "a = []")
      case True
      then have "tl s = body @ CHR '']'' # b" using 2(3) by auto
      then have "?body = body" using takeWhile_until 2(4) bracket_not_in(1) by metis
      then show ?thesis using rec by simp
    next
      case False
      then obtain a' where "?r = a' @ ''[S'' @ body @ '']'' @ b"
        using after_match [OF s] 2(5) rec by auto
      then show ?thesis using 2(1) [OF True _ 2(4)] 2(5) rec by simp
    qed
  next
    case False
    from no_match_at [OF this bracket_not_in(1) 2(3,4)] obtain a' where "s = a' @ ''[S'' @ body @ '']'' @ b" by blast
    moreover have eq: "SOURCE_LIKE (c # s) = SOURCE_LIKE s" using False by auto
    ultimately show ?thesis using 2(2) [OF False _ 2(4)] 2(5) unfolding eq by blast
  qed
qed simp

lemma SOURCE_LABEL_bracketed: "number \<in> set (SOURCE_LABEL s) \<Longrightarrow> bracketed is_digit number s"
proof (induction s rule: SOURCE_LABEL.induct)
  case (2 c s)
  let ?m = "c = CHR ''['' \<and> starts_with s ''S'' \<and> takeWhile is_digit (tl s) \<noteq> [] \<and> starts_with (dropWhile is_digit (tl s)) '']''"
  let ?body = "takeWhile is_digit (tl s)" and ?r = "tl (dropWhile is_digit (tl s))"
  show ?case
  proof (cases ?m)
    case True
    have s: "c # s = ''[S'' @ ?body @ '']'' @ ?r" using match_at [of s is_digit] True by simp
    have "bracketed is_digit ?body (c # s)" by (subst s) (auto simp: bracketed_def dest: set_takeWhileD intro: sublist_appendI [of _ "[]", simplified])
    moreover have "sublist ?r (c # s)" using s by (metis append_assoc suffixI suffix_imp_sublist)
    then have "bracketed is_digit number (c # s)" if "bracketed is_digit number ?r"
      using that by (auto simp: bracketed_def intro: sublist_order.order_trans)
    moreover have "number = ?body \<or> number \<in> set (SOURCE_LABEL ?r)" using 2(3) True by simp
    ultimately show ?thesis using 2(1) [OF True] by blast
  next
    case False
    then have "SOURCE_LABEL (c # s) = SOURCE_LABEL s" by auto
    then have "bracketed is_digit number s" using 2(2) [OF False] 2(3) by simp
    then show ?thesis by (auto simp: bracketed_def sublist_Cons_right)
  qed
qed simp

lemma SOURCE_LABEL_complete:
  "s = a @ ''[S'' @ number @ '']'' @ b \<Longrightarrow> \<forall>c \<in> set number. is_digit c \<Longrightarrow> number \<noteq> [] \<Longrightarrow> number \<in> set (SOURCE_LABEL s)"
proof (induction s arbitrary: a rule: SOURCE_LABEL.induct)
  case (2 c s)
  let ?m = "c = CHR ''['' \<and> starts_with s ''S'' \<and> takeWhile is_digit (tl s) \<noteq> [] \<and> starts_with (dropWhile is_digit (tl s)) '']''"
  let ?body = "takeWhile is_digit (tl s)" and ?r = "tl (dropWhile is_digit (tl s))"
  have here: "tl s = number @ CHR '']'' # b \<and> ?body = number \<and> dropWhile is_digit (tl s) = CHR '']'' # b" if "a = []"
    using that 2(3) takeWhile_until [OF 2(4) bracket_not_in(2), of b] by auto
  show ?case
  proof (cases ?m)
    case True
    have s: "(''[S'' @ ?body @ '']'') @ ?r = a @ ''[S'' @ number @ '']'' @ b" using match_at [of s is_digit] True 2(3) by simp
    have rec: "SOURCE_LABEL (c # s) = ?body # SOURCE_LABEL ?r" using True by simp
    have "CHR ''['' \<notin> set ?body" using bracket_not_in(3) set_takeWhileD [of "CHR ''[''" is_digit "tl s"] by blast
    then obtain a' where "a = [] \<or> ?r = a' @ ''[S'' @ number @ '']'' @ b" using after_match [OF s] by auto
    then show ?thesis using 2(1) [OF True _ 2(4,5)] here rec by auto
  next
    case False
    have "a \<noteq> []"
    proof
      assume "a = []"
      then show False using here 2(3,5) False by auto
    qed
    then obtain a' where "s = a' @ ''[S'' @ number @ '']'' @ b" using 2(3) by (cases a) auto
    moreover have eq: "SOURCE_LABEL (c # s) = SOURCE_LABEL s" using False by auto
    ultimately show ?thesis using 2(2) [OF False _ 2(4,5)] unfolding eq by blast
  qed
qed simp

text \<open>The labels of prepared sources: an S and digits, each once.\<close>

lemma relabel_nth: "i < length ss \<Longrightarrow> relabel_from n ss ! i = relabeled (n + i) (ss ! i)"
  by (induction ss arbitrary: n i) (auto simp: nth_Cons split: nat.splits)

lemma relabel_label:
  assumes "x \<in> set (relabel_from n ss)"
  obtains i where "n \<le> i" "cs_label x = ''S'' @ show_nat (Suc i)" "cs_rank x = int (Suc i)"
proof -
  from assms obtain i where "i < length ss" "x = relabel_from n ss ! i" by (metis in_set_conv_nth length_relabel)
  then have "x = relabeled (n + i) (ss ! i)" by (simp add: relabel_nth)
  then show ?thesis using that [of "n + i"] by (simp add: relabeled_def show_int_def nat_add_distrib)
qed

lemma relabel_distinct: "distinct (map cs_label (relabel_from n ss))"
proof (induction ss arbitrary: n)
  case (Cons s ss)
  have "cs_label (relabeled n s) \<noteq> cs_label x" if "x \<in> set (relabel_from (Suc n) ss)" for x
    using that by (rule relabel_label) (auto simp: relabeled_def show_int_def nat_add_distrib dest: show_nat_inj)
  then show ?case using Cons by auto
qed simp

lemma supplied_iff:
  assumes "distinct (map cs_label sources)"
  shows "supplied_sources sources label = Some s \<longleftrightarrow> s \<in> set sources \<and> cs_label s = label"
proof
  assume "s \<in> set sources \<and> cs_label s = label"
  then have s: "s \<in> set sources" "cs_label s = label" by simp_all
  then obtain x where x: "supplied_sources sources label = Some x"
    by (cases "supplied_sources sources label") (auto simp: supplied_sources_def find_None_iff)
  then have "x \<in> set sources" "cs_label x = label" by (auto simp: supplied_sources_def dest: find_SomeD)
  then show "supplied_sources sources label = Some s" using x s assms by (auto simp: distinct_map dest: inj_onD)
qed (auto simp: supplied_sources_def dest: find_SomeD)

lemma supplied_None: "supplied_sources sources label = None \<longleftrightarrow> label \<notin> cs_label ` set sources"
  by (auto simp: supplied_sources_def find_None_iff)

lemma prepared_label_token:
  assumes "sources = relabel_from 0 raw" "x \<in> set sources"
  shows "\<exists>number. cs_label x = ''S'' @ number \<and> number \<noteq> [] \<and> (\<forall>c \<in> set number. is_digit c)"
  using relabel_label [of x 0 raw] assms show_nat_digits by (metis show_nat_nonempty)

text \<open>What the text of an answer says: the tokens like citations in it, and the sources it cites.\<close>

definition only_supplied :: "string \<Rightarrow> ChatSourceSnapshot list \<Rightarrow> bool" where
  "only_supplied answer sources \<longleftrightarrow> (\<forall>body. bracketed in_token body answer \<longrightarrow> ''S'' @ body \<in> cs_label ` set sources)"

definition cited_sources :: "string \<Rightarrow> ChatSourceSnapshot list \<Rightarrow> ChatSourceSnapshot set" where
  "cited_sources answer sources = {s \<in> set sources. sublist (''['' @ cs_label s @ '']'') answer}"

lemma tokens_supplied_iff:
  assumes "sources = relabel_from 0 raw"
  shows "(\<forall>token \<in> set (SOURCE_LIKE answer). \<exists>s \<in> set sources. token = ''['' @ cs_label s @ '']'') \<longleftrightarrow> only_supplied answer sources"
proof
  assume valid: "\<forall>token \<in> set (SOURCE_LIKE answer). \<exists>s \<in> set sources. token = ''['' @ cs_label s @ '']''"
  have "CHR ''['' \<notin> set (tl token)" if "token \<in> set (SOURCE_LIKE answer)" for token
  proof -
    from valid that obtain x where x: "x \<in> set sources" "token = ''['' @ cs_label x @ '']''" by blast
    from prepared_label_token [OF assms x(1)] obtain number where "cs_label x = ''S'' @ number" "\<forall>c \<in> set number. is_digit c" by blast
    then show ?thesis using x(2) bracket_not_in(3) by auto
  qed
  then have "''[S'' @ body @ '']'' \<in> set (SOURCE_LIKE answer)" if "bracketed in_token body answer" for body
    using that SOURCE_LIKE_complete [of answer] by (auto simp: bracketed_def sublist_def)
  then show "only_supplied answer sources" using valid unfolding only_supplied_def by fastforce
next
  assume "only_supplied answer sources"
  then show "\<forall>token \<in> set (SOURCE_LIKE answer). \<exists>s \<in> set sources. token = ''['' @ cs_label s @ '']''"
    using SOURCE_LIKE_bracketed unfolding only_supplied_def by fastforce
qed

lemma labels_cited:
  assumes "sources = relabel_from 0 raw" "only_supplied answer sources"
  shows "(\<lambda>number. ''S'' @ number) ` set (SOURCE_LABEL answer) = cs_label ` cited_sources answer sources"
proof (intro equalityI subsetI)
  fix label assume "label \<in> (\<lambda>number. ''S'' @ number) ` set (SOURCE_LABEL answer)"
  then obtain number where number: "label = ''S'' @ number" "bracketed is_digit number answer" using SOURCE_LABEL_bracketed by blast
  then have "bracketed in_token number answer" by (auto simp: bracketed_def digit_in_token)
  then obtain x where "x \<in> set sources" "cs_label x = label" using assms(2) number(1) by (auto simp: only_supplied_def)
  then show "label \<in> cs_label ` cited_sources answer sources"
    using number by (intro rev_image_eqI [of x]) (auto simp: cited_sources_def bracketed_def)
next
  fix label assume "label \<in> cs_label ` cited_sources answer sources"
  then obtain x where x: "x \<in> set sources" "label = cs_label x" "sublist (''['' @ cs_label x @ '']'') answer" by (auto simp: cited_sources_def)
  from prepared_label_token [OF assms(1) x(1)] obtain number where number: "cs_label x = ''S'' @ number" "number \<noteq> []" "\<forall>c \<in> set number. is_digit c" by blast
  then obtain a b where "answer = a @ ''[S'' @ number @ '']'' @ b" using x(3) by (auto simp: sublist_def)
  then have "number \<in> set (SOURCE_LABEL answer)" using SOURCE_LABEL_complete number(2,3) by blast
  then show "label \<in> (\<lambda>number. ''S'' @ number) ` set (SOURCE_LABEL answer)" using x(2) number(1) by auto
qed

text \<open>
  C27: the validation accepts an answer exactly when it is not empty, does not end in the sentinel of
  an insufficient context, cites at least one source, and every token that looks like a citation,
  anywhere in it, is the label of a source the model was given; it then returns exactly the cited
  sources, each once.
\<close>

theorem validation_accepts_cited_answers:
  assumes "sources = relabel_from 0 raw"
  shows "(validated_source_ranks answer sources \<noteq> None \<longleftrightarrow> answer \<noteq> [] \<and> \<not> is_explicit_insufficient_context answer \<and>
      only_supplied answer sources \<and> cited_sources answer sources \<noteq> {}) \<and>
    (\<forall>cited. validated_source_ranks answer sources = Some cited \<longrightarrow> distinct cited \<and> set cited = cited_sources answer sources)"
proof (cases "answer \<noteq> [] \<and> \<not> is_explicit_insufficient_context answer \<and> only_supplied answer sources")
  case True
  define labels where "labels = map (\<lambda>number. ''S'' @ number) (SOURCE_LABEL answer)"
  let ?cited = "map (\<lambda>label. the (supplied_sources sources label)) (fromkeys labels)"
  have set_labels: "set labels = cs_label ` cited_sources answer sources" using labels_cited [OF assms] True by (simp add: labels_def)
  have distinct: "distinct (map cs_label sources)" using relabel_distinct [of 0 raw] assms by simp
  have source: "the (supplied_sources sources (cs_label x)) = x" if "x \<in> cited_sources answer sources" for x
    using that supplied_iff [OF distinct, of "cs_label x" x] by (simp add: cited_sources_def)
  have "supplied_sources sources label \<noteq> None" if "label \<in> set labels" for label
    using that set_labels by (auto simp: supplied_None cited_sources_def)
  then have result: "validated_source_ranks answer sources = (if cited_sources answer sources = {} then None else Some ?cited)"
    using True tokens_supplied_iff [OF assms, of answer] set_labels unfolding validated_source_ranks_def Let_def labels_def [symmetric] by auto
  have "set ?cited = cited_sources answer sources" using set_labels source by (force simp: image_iff)
  moreover have "inj_on (\<lambda>label. the (supplied_sources sources label)) (set labels)"
    using source set_labels by (auto intro!: inj_onI)
  then have "distinct ?cited" by (simp add: distinct_map)
  ultimately show ?thesis using True result by simp
next
  case False
  then have "validated_source_ranks answer sources = None"
    using tokens_supplied_iff [OF assms, of answer] by (auto simp: validated_source_ranks_def Let_def)
  then show ?thesis using False by auto
qed

definition ex_cited :: ChatSourceSnapshot where
  "ex_cited = \<lparr>cs_rank = 1, cs_label = ''S1'', cs_document_id = Some 2, cs_chunk_id = Some 3, cs_document_id_snapshot = 2,
     cs_chunk_id_snapshot = 3, cs_original_filename = ''a.pdf'', cs_display_name = ''a.pdf'', cs_logical_path = ''/a.pdf'',
     cs_page_start = 1, cs_page_end = 1, cs_section = None, cs_source_sha256 = ''a'', cs_text_sha256 = ''b'',
     cs_retrieval_distance = 0, cs_rerank_score = 1, cs_text = ''t'', cs_token_count = 1\<rparr>"

lemma ex_cited_validated: "validated_source_ranks ''Yes [S1], [S1]'' [ex_cited] = Some [ex_cited]"
  by code_simp

theorem validation_accepts_cited_answers_witness:
  "only_supplied ''Yes [S1], [S1]'' [ex_cited] \<and> cited_sources ''Yes [S1], [S1]'' [ex_cited] = {ex_cited}"
proof -
  have "[ex_cited] = relabel_from 0 [ex_cited]" by code_simp
  from validation_accepts_cited_answers [OF this, of "''Yes [S1], [S1]''"] show ?thesis by (simp add: ex_cited_validated)
qed

end
