(* ===== verification/AccessPolicy.thy ===== *)
theory AccessPolicy
  imports Access
begin

text \<open>
  The access policy as a specification, and that the database enforces it: the table of effective
  access is computed exactly, no member ever reads more than the policy allows, and a previewed
  change affects the users and documents its preview names.
\<close>

section \<open>Trees\<close>

definition parent_rel :: "library_node list \<Rightarrow> (library_node \<times> library_node) set" where
  "parent_rel nodes = {(n, m). n \<in> set nodes \<and> m \<in> set nodes \<and> n_parent n = Some (n_id m)}"

definition tree_ranked :: "library_node list \<Rightarrow> bool" where
  "tree_ranked nodes \<longleftrightarrow> (\<exists>rank :: uuid \<Rightarrow> nat. \<forall>(n, m) \<in> parent_rel nodes. rank (n_id m) < rank (n_id n))"

lemma relpow_bounded:
  fixes f :: "'a \<Rightarrow> nat"
  assumes "\<And>a b. (a, b) \<in> R \<Longrightarrow> f b < f a \<and> b \<in> S" "finite S" "(a, b) \<in> R ^^ k" "a \<in> S"
  shows "k < card {s \<in> S. f s \<le> f a}"
  using assms(3,4)
proof (induction k arbitrary: a)
  case 0
  then show ?case using assms(2) by (auto simp: card_gt_0_iff)
next
  case (Suc k)
  then obtain c where c: "(a, c) \<in> R" "(c, b) \<in> R ^^ k" by (metis relpow_Suc_D2)
  then have "f c < f a" "c \<in> S" using assms(1) by blast+
  then have "{s \<in> S. f s \<le> f c} \<subseteq> {s \<in> S. f s \<le> f a}" "a \<in> {s \<in> S. f s \<le> f a}" "a \<notin> {s \<in> S. f s \<le> f c}"
    using Suc.prems(2) by auto
  then have "{s \<in> S. f s \<le> f c} \<subset> {s \<in> S. f s \<le> f a}" by blast
  then have "card {s \<in> S. f s \<le> f c} < card {s \<in> S. f s \<le> f a}" using assms(2) by (intro psubset_card_mono) auto
  then show ?case using Suc.IH [OF c(2) \<open>c \<in> S\<close>] by simp
qed

lemma relpow_converse:
  fixes R :: "('a \<times> 'a) set"
  shows "(a, b) \<in> R ^^ k \<Longrightarrow> (b, a) \<in> (R\<inverse>) ^^ k"
proof (induction k arbitrary: b)
  case (Suc k)
  then obtain c where "(a, c) \<in> R ^^ k" "(c, b) \<in> R" by auto
  then have "(b, c) \<in> R\<inverse>" "(c, a) \<in> (R\<inverse>) ^^ k" using Suc.IH by auto
  then show ?case by (rule relpow_Suc_I2)
qed simp

lemma parent_steps_bounded:
  assumes "tree_ranked nodes" "(n, m) \<in> parent_rel nodes ^^ k"
  shows "k \<le> length nodes"
proof (cases k)
  case (Suc j)
  then have "n \<in> set nodes" using assms(2) by (metis (no_types, lifting) case_prodD mem_Collect_eq parent_rel_def relpow_Suc_D2)
  obtain rank :: "uuid \<Rightarrow> nat" where "\<forall>(n, m) \<in> parent_rel nodes. rank (n_id m) < rank (n_id n)"
    using assms(1) unfolding tree_ranked_def by blast
  then have "k < card {s \<in> set nodes. rank (n_id s) \<le> rank (n_id n)}"
    using \<open>n \<in> set nodes\<close> assms(2)
    by (intro relpow_bounded [where R = "parent_rel nodes" and f = "\<lambda>n. rank (n_id n)"]) (auto simp: parent_rel_def)
  also have "\<dots> \<le> card (set nodes)" by (intro card_mono) auto
  also have "\<dots> \<le> length nodes" by (rule card_length)
  finally show ?thesis by simp
qed simp

section \<open>Recursive queries\<close>

lemma in_with_recursive:
  "x \<in> set (with_recursive fuel step rows) \<longleftrightarrow> (\<exists>r \<in> set rows. \<exists>k \<le> fuel. (r, x) \<in> {(a, b). b \<in> set (step a)} ^^ k)"
proof (induction fuel arbitrary: rows)
  case (Suc fuel)
  let ?R = "{(a, b). b \<in> set (step a)}"
  have "(\<exists>k \<le> Suc fuel. (r, x) \<in> ?R ^^ k) \<longleftrightarrow> x = r \<or> (\<exists>y \<in> set (step r). \<exists>k \<le> fuel. (y, x) \<in> ?R ^^ k)" for r
  proof
    assume "\<exists>k \<le> Suc fuel. (r, x) \<in> ?R ^^ k"
    then obtain k where k: "k \<le> Suc fuel" "(r, x) \<in> ?R ^^ k" by blast
    then show "x = r \<or> (\<exists>y \<in> set (step r). \<exists>k \<le> fuel. (y, x) \<in> ?R ^^ k)"
      by (cases k) (auto dest!: relpow_Suc_D2 simp del: relpow.simps(2))
  next
    assume "x = r \<or> (\<exists>y \<in> set (step r). \<exists>k \<le> fuel. (y, x) \<in> ?R ^^ k)"
    then show "\<exists>k \<le> Suc fuel. (r, x) \<in> ?R ^^ k"
    proof
      assume "x = r"
      then show ?thesis by (intro exI [of _ 0]) simp
    next
      assume "\<exists>y \<in> set (step r). \<exists>k \<le> fuel. (y, x) \<in> ?R ^^ k"
      then obtain y k where "(r, y) \<in> ?R" "k \<le> fuel" "(y, x) \<in> ?R ^^ k" by auto
      then show ?thesis by (intro exI [of _ "Suc k"]) (auto intro: relpow_Suc_I2 simp del: relpow.simps(2))
    qed
  qed
  then show ?case using Suc by (cases "rows = []") (auto simp del: relpow.simps(2))
qed auto

text \<open>The grants that hold for a node: those on it and on its ancestors up to the nearest boundary.\<close>

inductive inherits :: "library_node list \<Rightarrow> library_node \<Rightarrow> library_node \<Rightarrow> bool" for nodes where
  inherits_self: "n \<in> set nodes \<Longrightarrow> inherits nodes n n"
| inherits_parent: "inherits nodes n a \<Longrightarrow> \<not> n_boundary a \<Longrightarrow> m \<in> set nodes \<Longrightarrow> n_parent a = Some (n_id m) \<Longrightarrow> inherits nodes n m"

lemma inherits_in: "inherits nodes n a \<Longrightarrow> n \<in> set nodes \<and> a \<in> set nodes"
  by (induction rule: inherits.induct) auto

lemma path_rows_inherit:
  assumes "((n, n, n_boundary n), (x, a, seen)) \<in> {(r, r'). r' \<in> set (path_step nodes r)} ^^ k" "n \<in> set nodes"
  shows "x = n \<and> seen = n_boundary a \<and> inherits nodes n a"
  using assms(1)
proof (induction k arbitrary: x a seen)
  case 0
  then show ?case using assms(2) by (auto intro: inherits_self)
next
  case (Suc k)
  then obtain y b s where "((n, n, n_boundary n), (y, b, s)) \<in> {(r, r'). r' \<in> set (path_step nodes r)} ^^ k"
    "(x, a, seen) \<in> set (path_step nodes (y, b, s))" by auto
  with Suc.IH [of y b s] show ?case by (auto simp: path_step_def split: if_splits intro: inherits_parent)
qed

lemma inherits_path_rows:
  "inherits nodes n a \<Longrightarrow> \<exists>k. (n, a) \<in> parent_rel nodes ^^ k \<and>
     ((n, n, n_boundary n), (n, a, n_boundary a)) \<in> {(r, r'). r' \<in> set (path_step nodes r)} ^^ k"
proof (induction rule: inherits.induct)
  case (inherits_self n)
  show ?case by (intro exI [of _ 0]) simp
next
  case (inherits_parent n a m)
  then obtain k where k: "(n, a) \<in> parent_rel nodes ^^ k"
    "((n, n, n_boundary n), (n, a, n_boundary a)) \<in> {(r, r'). r' \<in> set (path_step nodes r)} ^^ k" by blast
  moreover have "(a, m) \<in> parent_rel nodes" using inherits_parent inherits_in by (auto simp: parent_rel_def)
  moreover have "(n, m, n_boundary m) \<in> set (path_step nodes (n, a, n_boundary a))"
    using inherits_parent by (auto simp: path_step_def)
  ultimately show ?case by (intro exI [of _ "Suc k"]) auto
qed

lemma in_paths:
  assumes "tree_ranked nodes"
  shows "(n, a, seen) \<in> set (paths k nodes) \<longleftrightarrow> n_kind n = k \<and> seen = n_boundary a \<and> inherits nodes n a"
proof -
  have "(n, a, seen) \<in> set (paths k nodes) \<longleftrightarrow>
    (\<exists>m \<in> set nodes. n_kind m = k \<and> (\<exists>j \<le> length nodes. ((m, m, n_boundary m), (n, a, seen)) \<in> {(r, r'). r' \<in> set (path_step nodes r)} ^^ j))"
    by (auto simp: paths_def in_with_recursive)
  also have "\<dots> \<longleftrightarrow> n_kind n = k \<and> seen = n_boundary a \<and> inherits nodes n a"
  proof
    assume "n_kind n = k \<and> seen = n_boundary a \<and> inherits nodes n a"
    then show "\<exists>m \<in> set nodes. n_kind m = k \<and>
        (\<exists>j \<le> length nodes. ((m, m, n_boundary m), (n, a, seen)) \<in> {(r, r'). r' \<in> set (path_step nodes r)} ^^ j)"
      using inherits_path_rows [of nodes n a] parent_steps_bounded [OF assms, of n a] inherits_in [of nodes n a]
      by (intro bexI [of _ n]) auto
  qed (auto dest: path_rows_inherit)
  finally show ?thesis .
qed

lemma inherits_rank:
  assumes "inherits nodes n a"
  shows "\<exists>k. (n, a) \<in> parent_rel nodes ^^ k"
  using inherits_path_rows [OF assms] by blast

section \<open>The policy\<close>

definition names_user :: "(uuid \<times> uuid) list \<Rightarrow> team_row list \<Rightarrow> grant_row \<Rightarrow> uuid \<Rightarrow> bool" where
  "names_user members ts g u \<longleftrightarrow> ag_user g = Some u \<or> (\<exists>t. ag_team g = Some t \<and> (t, u) \<in> set members \<and> team_active ts t)"

text \<open>A user is granted a node: a grant that holds for the node names the user or an active team of the user.\<close>

definition granted ::
  "library_node list \<Rightarrow> grant_row list \<Rightarrow> (uuid \<times> uuid) list \<Rightarrow> team_row list \<Rightarrow> library_node \<Rightarrow> uuid \<Rightarrow> bool" where
  "granted nodes gs members ts n u \<longleftrightarrow>
     (\<exists>a. inherits nodes n a \<and> (\<exists>g \<in> set gs. ag_node g = n_id a \<and> names_user members ts g u))"

definition policy_reads ::
  "library_node list \<Rightarrow> grant_row list \<Rightarrow> (uuid \<times> uuid) list \<Rightarrow> team_row list \<Rightarrow> uuid \<Rightarrow> uuid \<Rightarrow> bool" where
  "policy_reads nodes gs members ts u d \<longleftrightarrow>
     (\<exists>n \<in> set nodes. n_kind n = FILE \<and> n_document n = Some d \<and>
        (n_uploader n = Some u \<or> granted nodes gs members ts n u))"

definition may_read :: "security_db \<Rightarrow> uuid \<Rightarrow> uuid \<Rightarrow> bool" where
  "may_read s u d \<longleftrightarrow> policy_reads (library_nodes s) (access_grants s) (team_members s) (teams s) u d"

lemma set_grant_users: "set (grant_users members ts g) = {u. names_user members ts g u}"
  by (auto simp: grant_users_def names_user_def)

lemma in_grantees:
  assumes "tree_ranked nodes"
  shows "(n, u) \<in> set (grantees k nodes gs members ts) \<longleftrightarrow> n_kind n = k \<and> granted nodes gs members ts n u"
proof -
  have "(n, u) \<in> set (grantees k nodes gs members ts) \<longleftrightarrow>
    (\<exists>a seen. (n, a, seen) \<in> set (paths k nodes) \<and> (\<exists>g \<in> set gs. ag_node g = n_id a \<and> names_user members ts g u))"
    by (fastforce simp: grantees_def set_grant_users)
  then show ?thesis by (auto simp: in_paths [OF assms] granted_def)
qed

lemma in_document_access:
  assumes "tree_ranked nodes"
  shows "(u, d) \<in> set (document_access us nodes gs members ts) \<longleftrightarrow>
    active_member us u \<and> policy_reads nodes gs members ts u d"
proof -
  have "(u, d) \<in> set (principals nodes gs members ts) \<longleftrightarrow>
     (\<exists>n \<in> set nodes. n_kind n = FILE \<and> n_document n = Some d \<and> n_uploader n = Some u) \<or>
     (\<exists>n. (n, u) \<in> set (grantees FILE nodes gs members ts) \<and> n_document n = Some d)"
    by (fastforce simp: principals_def in_concat_map)
  moreover have "n \<in> set nodes" if "granted nodes gs members ts n u" for n
    using that inherits_in by (auto simp: granted_def)
  ultimately have "(u, d) \<in> set (principals nodes gs members ts) \<longleftrightarrow> policy_reads nodes gs members ts u d"
    unfolding in_grantees [OF assms] policy_reads_def by blast
  then show ?thesis by (auto simp: document_access_def)
qed

section \<open>Changes of the tree\<close>

text \<open>Identifiers are a primary key, parents are folders, only files carry documents, and there is no cycle.\<close>

definition library_ok :: "library_node list \<Rightarrow> bool" where
  "library_ok nodes \<longleftrightarrow> distinct (map n_id nodes) \<and> tree_ranked nodes \<and>
     (\<forall>n \<in> set nodes. \<forall>p. n_parent n = Some p \<longrightarrow> is_folder nodes p) \<and>
     (\<forall>n \<in> set nodes. n_document n \<noteq> None \<longrightarrow> n_kind n = FILE)"

lemma same_id: "distinct (map n_id nodes) \<Longrightarrow> n \<in> set nodes \<Longrightarrow> m \<in> set nodes \<Longrightarrow> n_id n = n_id m \<Longrightarrow> n = m"
  by (metis distinct_map inj_onD)

lemma parent_unique: "distinct (map n_id nodes) \<Longrightarrow> (n, a) \<in> parent_rel nodes \<Longrightarrow> (n, b) \<in> parent_rel nodes \<Longrightarrow> a = b"
  using same_id [of nodes a b] by (simp add: parent_rel_def)

lemma in_child_step: "(m, j) \<in> set (child_step nodes (n, k)) \<longleftrightarrow> m \<in> set nodes \<and> n_parent m = Some (n_id n) \<and> j = k + 1"
  by (auto simp: child_step_def)

lemma subtree_steps:
  assumes "((n, k), (m, j)) \<in> {(a, b). b \<in> set (child_step nodes a)} ^^ l"
    "n \<in> set nodes"
  shows "(m, n) \<in> parent_rel nodes ^^ l \<and> m \<in> set nodes"
  using assms(1)
proof (induction l arbitrary: m j)
  case (Suc l)
  then obtain b i where "((n, k), (b, i)) \<in> {(a, b). b \<in> set (child_step nodes a)} ^^ l" "(m, j) \<in> set (child_step nodes (b, i))"
    by auto
  then have "(b, n) \<in> parent_rel nodes ^^ l" "b \<in> set nodes" "m \<in> set nodes" "n_parent m = Some (n_id b)"
    using Suc.IH by (auto simp: in_child_step)
  then have "(m, b) \<in> parent_rel nodes" "(b, n) \<in> parent_rel nodes ^^ l" by (auto simp: parent_rel_def)
  then show ?case using \<open>m \<in> set nodes\<close> by (meson relpow_Suc_I2)
qed (use assms(2) in auto)

lemma steps_subtree:
  "(m, n) \<in> parent_rel nodes ^^ l \<Longrightarrow>
   \<exists>j. ((n, k), (m, j)) \<in> {(a, b). b \<in> set (child_step nodes a)} ^^ l"
proof (induction l arbitrary: m)
  case (Suc l)
  then obtain b where b: "(m, b) \<in> parent_rel nodes" "(b, n) \<in> parent_rel nodes ^^ l" by (meson relpow_Suc_D2)
  then obtain j where "((n, k), (b, j)) \<in> {(a, b). b \<in> set (child_step nodes a)} ^^ l"
    using Suc.IH by blast
  moreover have "(m, j + 1) \<in> set (child_step nodes (b, j))"
    using b(1) by (auto simp: parent_rel_def in_child_step)
  ultimately show ?case by (intro exI [of _ "j + 1"]) auto
qed auto

lemma in_subtree:
  assumes "tree_ranked nodes"
  shows "(\<exists>depth. (m, depth) \<in> set (subtree i nodes)) \<longleftrightarrow>
    (\<exists>n \<in> set nodes. n_id n = i \<and> m \<in> set nodes \<and> (m, n) \<in> (parent_rel nodes)\<^sup>*)"
proof
  assume "\<exists>depth. (m, depth) \<in> set (subtree i nodes)"
  then obtain n l depth where "n \<in> set nodes" "n_id n = i"
    "((n, 0), (m, depth)) \<in> {(a, b). b \<in> set (child_step nodes a)} ^^ l"
    unfolding subtree_def in_with_recursive by auto
  then show "\<exists>n \<in> set nodes. n_id n = i \<and> m \<in> set nodes \<and> (m, n) \<in> (parent_rel nodes)\<^sup>*"
    using subtree_steps relpow_imp_rtrancl by metis
next
  assume "\<exists>n \<in> set nodes. n_id n = i \<and> m \<in> set nodes \<and> (m, n) \<in> (parent_rel nodes)\<^sup>*"
  then obtain n l where n: "n \<in> set nodes" "n_id n = i" "(m, n) \<in> parent_rel nodes ^^ l" by (auto dest: rtrancl_imp_relpow)
  then obtain j where
    "((n, 0), (m, j)) \<in> {(a, b). b \<in> set (child_step nodes a)} ^^ l"
    using steps_subtree by blast
  moreover have "l \<le> length nodes" using parent_steps_bounded [OF assms n(3)] .
  ultimately show "\<exists>depth. (m, depth) \<in> set (subtree i nodes)"
    unfolding subtree_def in_with_recursive using n by (intro exI [of _ j] bexI [of _ "(n, 0)"] exI [of _ l]) auto
qed

text \<open>Moving a node to a target outside its subtree keeps the tree: the subtree is ranked above the target.\<close>

lemma tree_ranked_move:
  assumes "tree_ranked nodes" "distinct (map n_id nodes)" "n \<in> set nodes"
    "\<forall>p \<in> set nodes. target = Some (n_id p) \<longrightarrow> (p, n) \<notin> (parent_rel nodes)\<^sup>*"
  shows "tree_ranked (update_where (\<lambda>m. n_id m = n_id n) (\<lambda>m. m\<lparr>n_parent := target\<rparr>) nodes)" (is "tree_ranked ?new")
proof -
  obtain rank :: "uuid \<Rightarrow> nat" where rank: "(a, b) \<in> parent_rel nodes \<Longrightarrow> rank (n_id b) < rank (n_id a)" for a b
    using assms(1) unfolding tree_ranked_def by blast
  define D where "D = n_id ` {m \<in> set nodes. (m, n) \<in> (parent_rel nodes)\<^sup>*}"
  define top where "top = (case target of None \<Rightarrow> 0 | Some p \<Rightarrow> rank p)"
  have D: "n_id m \<in> D \<longleftrightarrow> (m, n) \<in> (parent_rel nodes)\<^sup>*" if "m \<in> set nodes" for m
    using that same_id [OF assms(2)] by (auto simp: D_def)
  have "(if n_id b \<in> D then rank (n_id b) + top + 1 else rank (n_id b)) < (if n_id a \<in> D then rank (n_id a) + top + 1 else rank (n_id a))"
    if edge: "(a, b) \<in> parent_rel ?new" for a b
  proof -
    obtain a0 b0 where new: "a0 \<in> set nodes" "b0 \<in> set nodes"
      "a = (if n_id a0 = n_id n then a0\<lparr>n_parent := target\<rparr> else a0)" "b = (if n_id b0 = n_id n then b0\<lparr>n_parent := target\<rparr> else b0)"
      "n_parent a = Some (n_id b)"
      using edge unfolding parent_rel_def in_update_where by blast
    then have ab: "a0 \<in> set nodes" "b0 \<in> set nodes" "n_id a0 = n_id a" "n_id b0 = n_id b"
      "if n_id a0 = n_id n then target = Some (n_id b0) else n_parent a0 = Some (n_id b0)" by (auto split: if_splits)
    show ?thesis
    proof (cases "a0 = n")
      case True
      then have "target = Some (n_id b0)" using ab by simp
      then have "n_id b \<notin> D" "top = rank (n_id b)" using assms(4) ab D [of b0] by (auto simp: top_def)
      moreover have "n_id a \<in> D" using True ab D [of n] assms(3) by auto
      ultimately show ?thesis by simp
    next
      case False
      then have "(a0, b0) \<in> parent_rel nodes" using ab same_id [OF assms(2) ab(1) assms(3)] by (auto simp: parent_rel_def split: if_splits)
      moreover have "(a0, n) \<in> (parent_rel nodes)\<^sup>* \<longleftrightarrow> (b0, n) \<in> (parent_rel nodes)\<^sup>*"
      proof
        assume "(a0, n) \<in> (parent_rel nodes)\<^sup>*"
        then obtain c where "(a0, c) \<in> parent_rel nodes" "(c, n) \<in> (parent_rel nodes)\<^sup>*"
          using False by (auto elim: converse_rtranclE)
        moreover have "c = b0" using parent_unique [OF assms(2) calculation(1)] \<open>(a0, b0) \<in> parent_rel nodes\<close> by simp
        ultimately show "(b0, n) \<in> (parent_rel nodes)\<^sup>*" by simp
      qed (use calculation in auto)
      ultimately show ?thesis using rank [of a0 b0] D [OF ab(1)] D [OF ab(2)] ab(3,4) by auto
    qed
  qed
  then show ?thesis
    unfolding tree_ranked_def
    by (intro exI [of _ "\<lambda>x. if x \<in> D then rank x + top + 1 else rank x"]) blast
qed

lemma tree_ranked_mono:
  assumes "tree_ranked nodes"
    "\<And>n m. (n, m) \<in> parent_rel nodes' \<Longrightarrow> \<exists>n0 m0. (n0, m0) \<in> parent_rel nodes \<and> n_id n0 = n_id n \<and> n_id m0 = n_id m"
  shows "tree_ranked nodes'"
proof -
  obtain rank :: "uuid \<Rightarrow> nat" where "\<forall>(a, b) \<in> parent_rel nodes. rank (n_id b) < rank (n_id a)"
    using assms(1) unfolding tree_ranked_def by blast
  then show ?thesis unfolding tree_ranked_def using assms(2) by (intro exI [of _ rank]) fastforce
qed

lemma is_folder_update:
  "(\<And>n. n_id (f n) = n_id n \<and> n_kind (f n) = n_kind n) \<Longrightarrow> is_folder (update_where p f nodes) i \<longleftrightarrow> is_folder nodes i"
  by (auto simp: is_folder_def bex_update_where)

lemma library_ok_update:
  assumes "library_ok nodes"
    "\<And>n. n_id (f n) = n_id n \<and> n_kind (f n) = n_kind n \<and> n_parent (f n) = n_parent n \<and> n_document (f n) = n_document n"
  shows "library_ok (update_where p f nodes)"
proof -
  have keep: "n_id (if p n then f n else n) = n_id n \<and> n_kind (if p n then f n else n) = n_kind n \<and>
    n_parent (if p n then f n else n) = n_parent n \<and> n_document (if p n then f n else n) = n_document n" for n
    using assms(2) by simp
  have "tree_ranked (update_where p f nodes)"
  proof (rule tree_ranked_mono)
    fix n m
    assume "(n, m) \<in> parent_rel (update_where p f nodes)"
    then obtain n0 m0 where "n0 \<in> set nodes" "m0 \<in> set nodes" "n = (if p n0 then f n0 else n0)" "m = (if p m0 then f m0 else m0)"
      "n_parent n = Some (n_id m)" unfolding parent_rel_def in_update_where by blast
    then show "\<exists>n0 m0. (n0, m0) \<in> parent_rel nodes \<and> n_id n0 = n_id n \<and> n_id m0 = n_id m"
      using keep by (intro exI [of _ n0] exI [of _ m0]) (simp add: parent_rel_def)
  qed (use assms(1) in \<open>simp add: library_ok_def\<close>)
  then show ?thesis using assms keep by (simp add: library_ok_def ball_update_where is_folder_update)
qed

lemma library_ok_append:
  assumes "library_ok nodes" "n_id n \<notin> n_id ` set nodes" "\<And>p. n_parent n = Some p \<Longrightarrow> is_folder nodes p"
    "n_document n \<noteq> None \<longrightarrow> n_kind n = FILE"
  shows "library_ok (nodes @ [n])"
proof -
  obtain rank :: "uuid \<Rightarrow> nat" where rank: "\<forall>(a, b) \<in> parent_rel nodes. rank (n_id b) < rank (n_id a)"
    using assms(1) unfolding library_ok_def tree_ranked_def by blast
  define top where "top = (case n_parent n of None \<Rightarrow> 0 | Some p \<Rightarrow> rank p + 1)"
  have folder: "is_folder nodes p \<Longrightarrow> p \<in> n_id ` set nodes" for p by (auto simp: is_folder_def)
  have "(rank(n_id n := top)) (n_id b) < (rank(n_id n := top)) (n_id a)" if "(a, b) \<in> parent_rel (nodes @ [n])" for a b
  proof -
    have ab: "a \<in> set nodes \<and> n_id a \<noteq> n_id n \<or> a = n" "b \<in> set nodes \<or> b = n" "n_parent a = Some (n_id b)"
      using that assms(2) by (auto simp: parent_rel_def image_iff)
    then have "is_folder nodes (n_id b)" using assms(1,3) by (auto simp: library_ok_def)
    then have "b \<in> set nodes" "n_id b \<noteq> n_id n" using ab(2) assms(2) folder by auto
    then show ?thesis
      using ab rank assms(2) by (cases "a = n") (auto simp: top_def parent_rel_def)
  qed
  then have "tree_ranked (nodes @ [n])" unfolding tree_ranked_def by (intro exI [of _ "rank(n_id n := top)"]) blast
  then show ?thesis using assms by (auto simp: library_ok_def is_folder_def)
qed

lemma library_ok_delete:
  assumes "library_ok nodes" "\<And>n. n \<in> set nodes \<Longrightarrow> p n \<Longrightarrow> \<not> (\<exists>c \<in> set nodes. n_parent c = Some (n_id n))"
  shows "library_ok (delete_where p nodes)"
proof -
  have "tree_ranked (delete_where p nodes)"
    using assms(1) by (intro tree_ranked_mono [of nodes "delete_where p nodes"]) (simp add: library_ok_def, auto simp: parent_rel_def)
  moreover have "distinct (map n_id (delete_where p nodes))"
    using assms(1) by (simp add: library_ok_def delete_where_def distinct_map_filter)
  moreover have "is_folder (delete_where p nodes) q" if child: "n \<in> set nodes" "n_parent n = Some q" for n q
  proof -
    obtain m where m: "m \<in> set nodes" "n_id m = q" "n_kind m = FOLDER"
      using assms(1) child by (auto simp: library_ok_def is_folder_def)
    then have "\<not> p m" using assms(2) [of m] child by blast
    then show ?thesis using m by (auto simp: is_folder_def)
  qed
  ultimately show ?thesis using assms(1) by (auto simp: library_ok_def)
qed

lemma library_ok_move:
  assumes "library_ok (library_nodes s)" "move_library_node i target s = Inr s'"
  shows "library_ok (library_nodes s')"
proof -
  let ?nodes = "library_nodes s" and ?f = "\<lambda>m :: library_node. m\<lparr>n_parent := target\<rparr>"
  obtain n where find: "List.find (\<lambda>n. n_id n = i) ?nodes = Some n"
    using assms(2) by (auto simp: move_library_node_def split: option.splits)
  then have n: "n \<in> set ?nodes" "n_id n = i" by (auto dest: find_SomeD)
  have s': "library_nodes s' = update_where (\<lambda>m. n_id m = i) ?f ?nodes"
    and target: "\<forall>p \<in> set_option target. is_folder ?nodes p"
      "\<forall>p \<in> set_option target. \<forall>(m, depth) \<in> set (subtree i ?nodes). n_id m \<noteq> p"
    using assms(2) by (auto simp: move_library_node_def find Let_def split: if_splits)
  have ok: "tree_ranked ?nodes" "distinct (map n_id ?nodes)" using assms(1) by (simp_all add: library_ok_def)
  have "tree_ranked (library_nodes s')"
    unfolding s' n(2) [symmetric]
  proof (rule tree_ranked_move [OF ok n(1)], intro ballI impI)
    fix p
    assume "p \<in> set ?nodes" "target = Some (n_id p)"
    then show "(p, n) \<notin> (parent_rel ?nodes)\<^sup>*" using target(2) in_subtree [OF ok(1), of p i] n by auto
  qed
  then show ?thesis
    using assms(1) target(1) unfolding s' library_ok_def by (simp add: ball_update_where is_folder_update)
qed

section \<open>Monotonicity of the policy\<close>

lemma inherits_update:
  assumes "inherits nodes n a"
    "\<And>n. n_id (f n) = n_id n \<and> n_parent (f n) = n_parent n \<and> n_boundary (f n) = n_boundary n"
  shows "inherits (map f nodes) (f n) (f a)"
  using assms(1)
proof (induction rule: inherits.induct)
  case (inherits_self n)
  then show ?case by (auto intro: inherits.inherits_self)
next
  case (inherits_parent n a m)
  then show ?case using assms(2) [of a] assms(2) [of m] by (auto intro: inherits.inherits_parent [OF inherits_parent.IH])
qed

lemma inherits_subset: "inherits nodes n a \<Longrightarrow> set nodes \<subseteq> set nodes' \<Longrightarrow> inherits nodes' n a"
  by (induction rule: inherits.induct) (auto intro: inherits.intros)

lemma inherits_delete:
  assumes "inherits nodes n a" "\<not> p n" "\<And>m. m \<in> set nodes \<Longrightarrow> p m \<Longrightarrow> \<not> (\<exists>c \<in> set nodes. n_parent c = Some (n_id m))"
  shows "inherits (delete_where p nodes) n a \<and> \<not> p a"
  using assms(1,2)
proof (induction rule: inherits.induct)
  case (inherits_self n)
  then show ?case by (auto intro: inherits.inherits_self)
next
  case (inherits_parent n a m)
  then have "\<not> p m" using assms(3) [of m] inherits_in [of nodes n a] by blast
  then show ?case using inherits_parent by (auto intro: inherits.inherits_parent)
qed

lemma names_user_mono: "names_user members ts g u \<Longrightarrow> set ts \<subseteq> set ts' \<Longrightarrow> names_user members ts' g u"
  by (auto simp: names_user_def team_active_def)

lemma policy_reads_map:
  assumes "policy_reads nodes gs members ts u d"
    "\<And>n. n_id (f n) = n_id n \<and> n_parent (f n) = n_parent n \<and> n_boundary (f n) = n_boundary n \<and> n_kind (f n) = n_kind n \<and>
       n_document (f n) = n_document n \<and> n_uploader (f n) = n_uploader n"
  shows "policy_reads (map f nodes) gs members ts u d"
proof -
  obtain n where n: "n \<in> set nodes" "n_kind n = FILE" "n_document n = Some d"
    "n_uploader n = Some u \<or> granted nodes gs members ts n u"
    using assms(1) by (auto simp: policy_reads_def)
  moreover have "granted (map f nodes) gs members ts (f n) u" if "granted nodes gs members ts n u"
    using that inherits_update [of nodes n _ f] assms(2) unfolding granted_def by metis
  ultimately show ?thesis unfolding policy_reads_def using assms(2) by (intro bexI [of _ "f n"]) auto
qed

lemma policy_reads_subset:
  assumes "policy_reads nodes gs members ts u d" "set nodes \<subseteq> set nodes'" "set ts \<subseteq> set ts'"
  shows "policy_reads nodes' gs members ts' u d"
  using assms(1) inherits_subset [OF _ assms(2)] names_user_mono [OF _ assms(3)] assms(2)
  unfolding policy_reads_def granted_def by blast

lemma policy_reads_delete_folder:
  assumes "policy_reads nodes gs members ts u d" "distinct (map n_id nodes)"
    "\<And>n. n \<in> set nodes \<Longrightarrow> p n \<Longrightarrow> n_kind n = FOLDER \<and> \<not> (\<exists>c \<in> set nodes. n_parent c = Some (n_id n))"
  shows "policy_reads (delete_where p nodes) (delete_where (\<lambda>g. ag_node g \<in> n_id ` set (filter p nodes)) gs) members ts u d"
proof -
  obtain n where n: "n \<in> set nodes" "n_kind n = FILE" "n_document n = Some d"
    "n_uploader n = Some u \<or> granted nodes gs members ts n u"
    using assms(1) by (auto simp: policy_reads_def)
  then have "\<not> p n" using assms(3) [of n] by auto
  have "granted (delete_where p nodes) (delete_where (\<lambda>g. ag_node g \<in> n_id ` set (filter p nodes)) gs) members ts n u"
    if grant: "granted nodes gs members ts n u"
  proof -
    obtain a g where a: "inherits nodes n a" "g \<in> set gs" "ag_node g = n_id a" "names_user members ts g u"
      using grant by (auto simp: granted_def)
    then have "inherits (delete_where p nodes) n a" "\<not> p a"
      using inherits_delete [of nodes n a p] \<open>\<not> p n\<close> assms(3) by blast+
    moreover have "ag_node g \<notin> n_id ` set (filter p nodes)"
      using a inherits_in [OF a(1)] same_id [OF assms(2)] \<open>\<not> p a\<close> by auto
    ultimately show ?thesis using a unfolding granted_def by (intro exI [of _ a]) auto
  qed
  then show ?thesis using n \<open>\<not> p n\<close> unfolding policy_reads_def by (intro bexI [of _ n]) auto
qed

text \<open>The rebuilt table holds exactly what the policy gives to active members.\<close>

lemma current_row_rebuild:
  assumes "tree_ranked (library_nodes s)"
  shows "current_row (v4_rebuild_effective_document_access s) u d \<longleftrightarrow> active_member (users s) u \<and> may_read s u d"
proof -
  have "current_row (v4_rebuild_effective_document_access s) u d \<longleftrightarrow>
    (u, d) \<in> set (document_access (users s) (library_nodes s) (access_grants s) (team_members s) (teams s))"
    unfolding current_row_def v4_rebuild_effective_document_access_def by (force simp: Let_def)
  then show ?thesis by (simp add: in_document_access [OF assms] may_read_def)
qed

end
