(* ===== verification/AccessRuns.thy ===== *)
theory AccessRuns
  imports AccessPolicy
begin

text \<open>
  Runs of the contracts on accounts and on access rights, in any order and with any arguments, and
  what holds in every state they reach: no member reads more than the policy gives, an active
  administrator remains, and a revoked session never authenticates again.
\<close>

section \<open>Steps\<close>

text \<open>A contract that raises rolls its transaction back and is no step.\<close>

inductive account_step :: "security_db \<Rightarrow> security_db \<Rightarrow> bool" where
  bootstrap: "v4_bootstrap_admin i username display password s = Inr (v, s') \<Longrightarrow> account_step s s'"
| login_blocked: "v4_login_blocked_until now key s = Inr (r, s') \<Longrightarrow> account_step s s'"
| login_failure: "v4_record_login_failure now key s = Inr (r, s') \<Longrightarrow> account_step s s'"
| clear_failures: "account_step s (v4_clear_login_failures key s)"
| login: "v4_issue_login_session now i user version token csrf idle absolute s = Inr (u, s') \<Longrightarrow> account_step s s'"
| refresh: "v4_refresh_session now token csrf expires s = Inr (r, s') \<Longrightarrow> account_step s s'"
| logout: "account_step s (v4_logout now token s)"
| reauthenticate: "mark_reauthenticated now i s = Inr s' \<Longrightarrow> account_step s s'"
| activate: "v4_consume_activation now i activation password token csrf idle absolute s = Inr (v, s') \<Longrightarrow> account_step s s'"
| change_password: "v4_change_password now i current version password token csrf idle absolute s = Inr (v, s') \<Longrightarrow> account_step s s'"
| create_user: "v4_admin_create_user now caller i challenge username display role token expires s = Inr (v, s') \<Longrightarrow> account_step s s'"
| reset_user: "v4_admin_reset_user now caller challenge user token expires s = Inr s' \<Longrightarrow> account_step s s'"
| create_team: "v4_admin_create_team now caller i name name_key s = Inr (v, s') \<Longrightarrow> account_step s s'"

inductive library_step :: "(acl_impact \<Rightarrow> string) \<Rightarrow> security_db \<Rightarrow> security_db \<Rightarrow> bool" for digest where
  preview: "v4_admin_preview_acl digest now token i op s = Inr (r, s') \<Longrightarrow> library_step digest s s'"
| apply_acl: "v4_admin_apply_acl digest now token i wanted s = Inr (version, s') \<Longrightarrow> library_step digest s s'"
| create_folder: "v4_create_folder now token i parent name name_key s = Inr (v, s') \<Longrightarrow> library_step digest s s'"
| rename_node: "v4_admin_rename_library_node now token i name name_key s = Inr (r, s') \<Longrightarrow> library_step digest s s'"
| delete_folder: "v4_admin_delete_folder now token i s = Inr (r, s') \<Longrightarrow> library_step digest s s'"
| upload: "insert_file_node i parent name name_key doc actor selected s = Inr s' \<Longrightarrow> library_step digest s s'"
| delete_document: "library_step digest s (delete_document_node doc s)"

inductive security_step :: "(acl_impact \<Rightarrow> string) \<Rightarrow> security_db \<Rightarrow> security_db \<Rightarrow> bool" for digest where
  on_accounts: "account_step s s' \<Longrightarrow> security_step digest s s'"
| on_library: "library_step digest s s' \<Longrightarrow> security_step digest s s'"
| set_user: "v4_admin_set_user now caller user role status s = Inr s' \<Longrightarrow> security_step digest s s'"

section \<open>Frames\<close>

lemmas contract_simps = rbind_Inr_iff Let_def v4_append_audit_def

definition access_frame :: "security_db \<Rightarrow> security_db \<Rightarrow> bool" where
  "access_frame s s' \<longleftrightarrow> library_nodes s' = library_nodes s \<and> access_grants s' = access_grants s \<and>
     team_members s' = team_members s \<and> effective_access s' = effective_access s \<and> epoch s' = epoch s \<and>
     set (teams s) \<subseteq> set (teams s')"

definition revoked :: "time \<Rightarrow> uuid \<Rightarrow> session_row list \<Rightarrow> session_row list" where
  "revoked now user = update_where (\<lambda>x. ss_user x = user \<and> ss_revoked_at x = None) (\<lambda>x. x\<lparr>ss_revoked_at := Some now\<rparr>)"

definition deactivated :: "user_row \<Rightarrow> user_row" where
  "deactivated = (\<lambda>x. x\<lparr>u_status := PENDING_ACTIVATION, u_password_hash := None,
     u_authentication_version := u_authentication_version x + 1\<rparr>)"

lemma issue_login_session_frame:
  assumes "v4_issue_login_session now i user version token csrf idle absolute s = Inr (u, s')"
  shows "\<exists>x. sessions s' = sessions s @ [x] \<and> users s' = users s \<and> access_frame s s' \<and> accounts_ok s' \<and>
    ss_user x = user \<and> ss_token_hash x = token"
  using assms unfolding v4_issue_login_session_def by (fastforce simp: contract_simps access_frame_def split: if_splits)

lemma change_password_frame:
  assumes "v4_change_password now i current version password token csrf idle absolute s = Inr (user, s')"
  shows "\<exists>y. sessions s' = revoked now user (sessions s) @ [y] \<and>
    users s' = update_where (\<lambda>u. u_id u = user) (set_password password) (users s) \<and> access_frame s s' \<and> accounts_ok s'"
proof -
  let ?mid = "\<lambda>user. revoke_sessions now (\<lambda>y. ss_user y = user)
    (s\<lparr>users := update_where (\<lambda>u. u_id u = user) (set_password password) (users s)\<rparr>)"
  have "\<exists>u. v4_issue_login_session now i user (version + 1) token csrf idle absolute (?mid user) = Inr (u, s')"
    using assms unfolding v4_change_password_def by (auto simp: contract_simps split: if_splits)
  then obtain u where "v4_issue_login_session now i user (version + 1) token csrf idle absolute (?mid user) = Inr (u, s')"
    by blast
  from issue_login_session_frame [OF this] show ?thesis by (auto simp: access_frame_def revoke_sessions_def revoked_def)
qed

lemma consume_activation_frame:
  assumes "v4_consume_activation now i activation password token csrf idle absolute s = Inr (user, s')"
  shows "\<exists>y. sessions s' = sessions s @ [y] \<and>
    users s' = update_where (\<lambda>u. u_id u = user) (\<lambda>u. (set_password password u)\<lparr>u_status := ACTIVE_ACCOUNT\<rparr>) (users s) \<and>
    access_frame s s' \<and> accounts_ok s' \<and> ss_user y = user \<and> ss_token_hash y = token"
proof -
  let ?mid = "\<lambda>cs. s\<lparr>challenges := cs, users := update_where (\<lambda>u. u_id u = user)
    (\<lambda>u. (set_password password u)\<lparr>u_status := ACTIVE_ACCOUNT\<rparr>) (users s)\<rparr>"
  have "\<exists>cs version u. v4_issue_login_session now i user version token csrf idle absolute (?mid cs) = Inr (u, s')"
    using assms unfolding v4_consume_activation_def by (auto simp: contract_simps split: if_splits)
  then obtain cs version u where "v4_issue_login_session now i user version token csrf idle absolute (?mid cs) = Inr (u, s')"
    by blast
  from issue_login_session_frame [OF this] show ?thesis by (simp add: access_frame_def)
qed

lemma reset_user_frame:
  assumes "v4_admin_reset_user now caller challenge user token expires s = Inr s'"
  shows "sessions s' = revoked now user (sessions s)"
    "users s' = update_where (\<lambda>x. u_id x = user \<and> u_deleted_at x = None) deactivated (users s)"
    "access_frame s s'"
    "\<exists>u. List.find (\<lambda>u. u_id u = user) (users s) = Some u \<and> (is_active_admin u \<longrightarrow> 1 < active_admins s)"
  using assms unfolding v4_admin_reset_user_def
  by (auto simp: contract_simps access_frame_def revoke_sessions_def revoked_def deactivated_def is_active_admin_def account_live_def
      split: if_splits option.splits)

lemma account_step_frame: "account_step s s' \<Longrightarrow> access_frame s s'"
proof (induction rule: account_step.induct)
  case (login now i user version token csrf idle absolute s u s')
  then show ?case by (auto simp: access_frame_def dest!: issue_login_session_frame)
next
  case (activate now i activation password token csrf idle absolute s v s')
  then show ?case by (auto simp: access_frame_def dest!: consume_activation_frame)
next
  case (change_password now i current version password token csrf idle absolute s v s')
  then show ?case by (auto simp: access_frame_def dest!: change_password_frame)
next
  case (reset_user now caller challenge user token expires s s')
  then show ?case by (rule reset_user_frame(3))
next
  case (bootstrap i username display password s v s')
  then show ?case by (auto simp: access_frame_def v4_bootstrap_admin_def contract_simps split: if_splits option.splits)
next
  case (login_blocked now key s r s')
  then show ?case by (auto simp: access_frame_def v4_login_blocked_until_def contract_simps split: if_splits)
next
  case (login_failure now key s r s')
  then show ?case by (auto simp: access_frame_def v4_record_login_failure_def contract_simps split: if_splits)
next
  case (clear_failures s key)
  then show ?case by (simp add: access_frame_def v4_clear_login_failures_def)
next
  case (refresh now token csrf expires s r s')
  then show ?case by (auto simp: access_frame_def v4_refresh_session_def contract_simps split: if_splits option.splits)
next
  case (logout s now token)
  then show ?case by (simp add: access_frame_def v4_logout_def revoke_sessions_def)
next
  case (reauthenticate now i s s')
  then show ?case by (simp add: access_frame_def mark_reauthenticated_def)
next
  case (create_user now caller i challenge username display role token expires s v s')
  then show ?case by (auto simp: access_frame_def v4_admin_create_user_def contract_simps split: if_splits option.splits)
next
  case (create_team now caller i name name_key s v s')
  then show ?case by (auto simp: access_frame_def v4_admin_create_team_def contract_simps split: if_splits)
qed

section \<open>Access follows the policy\<close>

definition access_inv :: "security_db \<Rightarrow> bool" where
  "access_inv s \<longleftrightarrow> library_ok (library_nodes s) \<and>
     (\<forall>r \<in> set (effective_access s). ea_version r \<le> ep_authorization (epoch s)) \<and>
     (\<forall>u d. current_row s u d \<longrightarrow> may_read s u d)"

lemma access_inv_library: "access_inv s \<Longrightarrow> library_ok (library_nodes s)"
  by (simp add: access_inv_def)

lemma access_inv_frame: "access_inv s \<Longrightarrow> access_frame s s' \<Longrightarrow> access_inv s'"
  using policy_reads_subset [of "library_nodes s" "access_grants s" "team_members s" "teams s" _ _ "library_nodes s" "teams s'"]
  by (auto simp: access_inv_def access_frame_def current_row_def may_read_def)

lemma access_inv_nodes:
  assumes "access_inv s" "library_ok nodes" "\<And>u d. may_read s u d \<Longrightarrow> policy_reads nodes gs (team_members s) (teams s) u d"
    "library_nodes s' = nodes" "access_grants s' = gs" "team_members s' = team_members s" "teams s' = teams s"
    "effective_access s' = effective_access s" "epoch s' = epoch s"
  shows "access_inv s'"
  using assms by (auto simp: access_inv_def current_row_def may_read_def)

lemma access_inv_rebuild: "library_ok (library_nodes s) \<Longrightarrow> access_inv (v4_rebuild_effective_document_access s)"
  using current_row_rebuild [of s]
  by (auto simp: access_inv_def library_ok_def v4_rebuild_effective_document_access_def Let_def may_read_def)

lemma access_inv_audit [simp]: "access_inv (v4_append_audit event target s) \<longleftrightarrow> access_inv s"
  by (auto simp: access_inv_def v4_append_audit_def current_row_def may_read_def)

lemma apply_operation_library_ok:
  assumes "library_ok (library_nodes s)" "apply_operation op s = Inr s1"
  shows "library_ok (library_nodes s1)"
proof (cases op)
  case (MoveNode i target)
  then show ?thesis using assms library_ok_move by (simp add: apply_operation_def)
next
  case (SetBoundary i enabled)
  then show ?thesis using assms library_ok_update [of "library_nodes s" "\<lambda>n. n\<lparr>n_boundary := enabled\<rparr>"]
    by (auto simp: apply_operation_def split: if_splits)
qed (use assms in \<open>auto simp: apply_operation_def contract_simps split: if_splits\<close>)

definition is_create_grant :: "acl_operation \<Rightarrow> bool" where
  "is_create_grant op = (case op of SetCreateChildrenGrant n u t b \<Rightarrow> True | _ \<Rightarrow> False)"

lemma apply_acl_cases:
  assumes "v4_admin_apply_acl digest now token i wanted s = Inr (version, s')"
  obtains (rebuilt) p s1 where "select_strict (\<lambda>p. ap_id p = i) (acl_previews s) = Inr p"
      "\<not> is_create_grant (ap_operation p)"
      "\<exists>impact. v4_acl_impact (ap_operation p) s = Inr impact \<and> digest impact = wanted"
      "apply_operation (ap_operation p) s = Inr s1"
      "s' = v4_append_audit ''acl_operation_applied'' i (v4_rebuild_effective_document_access (consume_preview now i s1))"
  | (create) p n u t b s1 where "select_strict (\<lambda>p. ap_id p = i) (acl_previews s) = Inr p" "ap_operation p = SetCreateChildrenGrant n u t b"
      "apply_create_grant n u t b s = Inr s1" "s' = v4_append_audit ''acl_operation_applied'' i
        (consume_preview now i (s1\<lparr>epoch := (epoch s1)\<lparr>ep_authorization := ep_authorization (epoch s1) + 1\<rparr>\<rparr>))"
proof -
  obtain p where p: "select_strict (\<lambda>p. ap_id p = i) (acl_previews s) = Inr p"
    using assms by (auto simp: v4_admin_apply_acl_def contract_simps split: option.splits)
  show thesis
  proof (cases "\<exists>n u t b. ap_operation p = SetCreateChildrenGrant n u t b")
    case True
    then obtain n u t b where op: "ap_operation p = SetCreateChildrenGrant n u t b" by blast
    then show thesis using create [OF p op] assms p
      by (auto simp: v4_admin_apply_acl_def rbind_Inr_iff Let_def split: option.splits if_splits)
  next
    case False
    then have "v4_admin_apply_acl_without_create_children digest now token i wanted s = Inr (version, s')"
      using assms p by (auto simp: v4_admin_apply_acl_def rbind_Inr_iff split: option.splits acl_operation.splits)
    then have "\<exists>s1. apply_operation (ap_operation p) s = Inr s1 \<and>
        (\<exists>impact. v4_acl_impact (ap_operation p) s = Inr impact \<and> digest impact = wanted) \<and>
        s' = v4_append_audit ''acl_operation_applied'' i (v4_rebuild_effective_document_access (consume_preview now i s1))"
      using p by (auto simp: v4_admin_apply_acl_without_create_children_def preview_stale_def rbind_Inr_iff Let_def
          split: option.splits if_splits)
    moreover have "\<not> is_create_grant (ap_operation p)" using False by (simp add: is_create_grant_def split: acl_operation.splits)
    ultimately show thesis using rebuilt [OF p] by blast
  qed
qed

lemma access_inv_create:
  assumes "access_inv s" "apply_create_grant n u t b s = Inr s1"
  shows "access_inv (consume_preview now i (s1\<lparr>epoch := (epoch s1)\<lparr>ep_authorization := ep_authorization (epoch s1) + 1\<rparr>\<rparr>))"
proof -
  have "library_nodes s1 = library_nodes s \<and> effective_access s1 = effective_access s \<and> epoch s1 = epoch s"
    using assms(2) by (auto simp: apply_create_grant_def contract_simps split: if_splits)
  then show ?thesis using assms(1) by (force simp: access_inv_def consume_preview_def current_row_def)
qed

lemma access_inv_apply:
  assumes "access_inv s" "v4_admin_apply_acl digest now token i wanted s = Inr (version, s')"
  shows "access_inv s'"
  using assms(2)
proof (cases rule: apply_acl_cases)
  case (rebuilt p s1)
  have "library_ok (library_nodes (consume_preview now i s1))"
    using apply_operation_library_ok [OF access_inv_library [OF assms(1)] rebuilt(4)] by (simp add: consume_preview_def)
  then show ?thesis unfolding rebuilt(5) by (simp add: access_inv_rebuild)
next
  case (create p n u t b s1)
  show ?thesis unfolding create(4) using access_inv_create [OF assms(1) create(3)] by simp
qed

lemma access_inv_create_folder:
  assumes "access_inv s" "v4_create_folder now token i parent name name_key s = Inr (v, s')"
  shows "access_inv s'"
proof -
  let ?n = "\<lparr>n_id = i, n_parent = parent, n_kind = FOLDER, n_name = name, n_name_key = name_key,
    n_document = None, n_uploader = None, n_boundary = False\<rparr>"
  have s': "s' = v4_append_audit ''folder_created'' i (s\<lparr>library_nodes := library_nodes s @ [?n]\<rparr>)"
    and n: "node_insertable ?n s" "\<forall>p \<in> set_option parent. is_folder (library_nodes s) p"
    using assms(2) unfolding v4_create_folder_def Let_def by (auto split: option.splits if_splits)
  have ok: "library_ok (library_nodes s @ [?n])"
    using access_inv_library [OF assms(1)] n by (intro library_ok_append) (auto simp: node_insertable_def)
  have "access_inv (s\<lparr>library_nodes := library_nodes s @ [?n]\<rparr>)"
    using assms(1) ok by (rule access_inv_nodes) (auto simp: may_read_def elim: policy_reads_subset)
  then show ?thesis unfolding s' by simp
qed

lemma access_inv_rename:
  assumes "access_inv s" "v4_admin_rename_library_node now token i name name_key s = Inr (r, s')"
  shows "access_inv s'"
proof -
  let ?nodes = "update_where (\<lambda>m. n_id m = i) (\<lambda>m. m\<lparr>n_name := name, n_name_key := name_key\<rparr>) (library_nodes s)"
  have "s' = s \<or> s' = s\<lparr>library_nodes := ?nodes\<rparr>"
    using assms(2) unfolding v4_admin_rename_library_node_def by (auto split: option.splits if_splits)
  moreover have "access_inv (s\<lparr>library_nodes := ?nodes\<rparr>)"
    using assms(1)
  proof (rule access_inv_nodes)
    show "library_ok ?nodes" using access_inv_library [OF assms(1)] by (intro library_ok_update) auto
    show "policy_reads ?nodes (access_grants s) (team_members s) (teams s) u d" if "may_read s u d" for u d
      unfolding update_where_def using that [unfolded may_read_def] by (rule policy_reads_map) simp
  qed simp_all
  ultimately show ?thesis using assms(1) by auto
qed

lemma access_inv_delete_folder:
  assumes "access_inv s" "v4_admin_delete_folder now token i s = Inr (r, s')"
  shows "access_inv s'"
proof -
  let ?p = "\<lambda>m. n_id m = i"
  have ok: "library_ok (library_nodes s)" "distinct (map n_id (library_nodes s))"
    using assms(1) by (simp_all add: access_inv_def library_ok_def)
  have "s' = s \<or> s' = delete_nodes ?p s \<and> (\<forall>n \<in> set (library_nodes s). n_id n = i \<longrightarrow> n_kind n = FOLDER) \<and>
      \<not> (\<exists>c \<in> set (library_nodes s). n_parent c = Some i)"
    using assms(2) same_id [OF ok(2)] unfolding v4_admin_delete_folder_def
    by (auto simp: rbind_Inr_iff dest!: find_SomeD split: option.splits if_splits)
  moreover have "access_inv (delete_nodes ?p s)"
    if "\<forall>n \<in> set (library_nodes s). n_id n = i \<longrightarrow> n_kind n = FOLDER" "\<not> (\<exists>c \<in> set (library_nodes s). n_parent c = Some i)"
    using assms(1)
  proof (rule access_inv_nodes)
    show "library_ok (delete_where ?p (library_nodes s))" using ok(1) that by (intro library_ok_delete) auto
    show "policy_reads (delete_where ?p (library_nodes s))
        (delete_where (\<lambda>g. ag_node g \<in> n_id ` set (filter ?p (library_nodes s))) (access_grants s)) (team_members s) (teams s) u d"
      if "may_read s u d" for u d
      using that [unfolded may_read_def] ok(2) by (rule policy_reads_delete_folder) (use \<open>\<not> (\<exists>c \<in> _. _)\<close> \<open>\<forall>n \<in> _. _\<close> in blast)
  qed (simp_all add: delete_nodes_def Let_def)
  ultimately show ?thesis using assms(1) by blast
qed

lemma access_inv_upload:
  assumes "access_inv s" "insert_file_node i parent name name_key doc actor selected s = Inr s'"
  shows "access_inv s'"
proof -
  let ?n = "\<lparr>n_id = i, n_parent = parent, n_kind = FILE, n_name = name, n_name_key = name_key,
    n_document = Some doc, n_uploader = Some actor, n_boundary = False\<rparr>"
  have "\<exists>gs. s' = v4_rebuild_effective_document_access (s\<lparr>library_nodes := library_nodes s @ [?n], access_grants := gs\<rparr>)"
    and n: "node_insertable ?n s" "\<forall>p \<in> set_option parent. is_folder (library_nodes s) p"
    using assms(2) unfolding insert_file_node_def Let_def by (auto split: option.splits if_splits)
  moreover have "library_ok (library_nodes s @ [?n])"
    using access_inv_library [OF assms(1)] n by (intro library_ok_append) (auto simp: node_insertable_def)
  ultimately show ?thesis by (auto intro: access_inv_rebuild)
qed

lemma access_inv_delete_document: "access_inv s \<Longrightarrow> access_inv (delete_document_node doc s)"
proof -
  assume inv: "access_inv s"
  then have ok: "library_ok (library_nodes s)" by (rule access_inv_library)
  have "\<not> (\<exists>c \<in> set (library_nodes s). n_parent c = Some (n_id n))"
    if "n \<in> set (library_nodes s)" "n_document n = Some doc" for n
  proof
    assume "\<exists>c \<in> set (library_nodes s). n_parent c = Some (n_id n)"
    then obtain m where "m \<in> set (library_nodes s)" "n_id m = n_id n" "n_kind m = FOLDER"
      using ok unfolding library_ok_def is_folder_def by metis
    then show False using ok that same_id [of "library_nodes s" m n] by (simp add: library_ok_def)
  qed
  then have "library_ok (delete_where (\<lambda>n. n_document n = Some doc) (library_nodes s))"
    using ok by (intro library_ok_delete) auto
  then show ?thesis by (auto simp: delete_document_node_def delete_nodes_def Let_def intro!: access_inv_rebuild)
qed

lemma access_inv_set_user:
  assumes "access_inv s" "v4_admin_set_user now caller user role status s = Inr s'"
  shows "access_inv s'"
proof -
  have "\<exists>s1 event. s' = v4_append_audit event user (v4_rebuild_effective_document_access s1) \<and> library_nodes s1 = library_nodes s"
    using assms(2) unfolding v4_admin_set_user_def revoke_sessions_def
    by (fastforce simp: rbind_Inr_iff Let_def split: option.splits if_splits)
  then obtain s1 event where "s' = v4_append_audit event user (v4_rebuild_effective_document_access s1)"
    "library_ok (library_nodes s1)" using access_inv_library [OF assms(1)] by force
  then show ?thesis by (simp add: access_inv_rebuild)
qed

lemma security_step_access:
  assumes "security_step digest s s'" "access_inv s"
  shows "access_inv s'"
  using assms
proof (induction rule: security_step.induct)
  case (on_library s s')
  then show ?case
  proof (induction rule: library_step.induct)
    case (preview now token i op s r s')
    then have "access_frame s s'" by (auto simp: v4_admin_preview_acl_def rbind_Inr_iff access_frame_def split: option.splits if_splits)
    then show ?case by (rule access_inv_frame [OF preview(2)])
  qed (blast intro: access_inv_apply access_inv_create_folder access_inv_rename access_inv_delete_folder
      access_inv_upload access_inv_delete_document)+
qed (blast intro: access_inv_frame account_step_frame access_inv_set_user)+

lemma access_inv_initial: "access_inv (initial_security e)"
  by (simp add: access_inv_def initial_security_def library_ok_def tree_ranked_def parent_rel_def current_row_def)

lemma security_runs_access: "(security_step digest)\<^sup>*\<^sup>* s s' \<Longrightarrow> access_inv s \<Longrightarrow> access_inv s'"
  by (induction rule: rtranclp_induct) (auto intro: security_step_access)

section \<open>Accounts and sessions\<close>

text \<open>Every session of a state stands in the next one, and stays revoked once it is.\<close>

definition sessions_kept :: "security_db \<Rightarrow> security_db \<Rightarrow> bool" where
  "sessions_kept s s' \<longleftrightarrow> (\<forall>x \<in> set (sessions s). \<exists>y \<in> set (sessions s'). ss_token_hash y = ss_token_hash x \<and> ss_user y = ss_user x \<and>
     (ss_revoked_at x \<noteq> None \<longrightarrow> ss_revoked_at y \<noteq> None))"

definition users_inv :: "security_db \<Rightarrow> bool" where
  "users_inv s \<longleftrightarrow> distinct (map u_id (users s)) \<and> distinct (map ss_token_hash (sessions s)) \<and>
     (users s \<noteq> [] \<longrightarrow> 0 < active_admins s)"

lemma sessions_kept_eq: "sessions s' = sessions s \<Longrightarrow> sessions_kept s s'"
  by (auto simp: sessions_kept_def)

lemma sessions_kept_append: "sessions_kept s (s1 :: security_db) \<Longrightarrow> sessions s' = sessions s1 @ xs \<Longrightarrow> sessions_kept s s'"
  by (fastforce simp: sessions_kept_def)

lemma sessions_kept_update:
  assumes "sessions s' = update_where p f (sessions s)"
    "\<And>x. ss_token_hash (f x) = ss_token_hash x \<and> ss_user (f x) = ss_user x \<and> (ss_revoked_at x \<noteq> None \<longrightarrow> ss_revoked_at (f x) \<noteq> None)"
  shows "sessions_kept s s'"
  unfolding sessions_kept_def assms(1) bex_update_where
proof
  fix x
  assume "x \<in> set (sessions s)"
  then show "\<exists>r \<in> set (sessions s). ss_token_hash (if p r then f r else r) = ss_token_hash x \<and>
      ss_user (if p r then f r else r) = ss_user x \<and> (ss_revoked_at x \<noteq> None \<longrightarrow> ss_revoked_at (if p r then f r else r) \<noteq> None)"
    using assms(2) [of x] by (intro bexI [of _ x]) auto
qed

lemma some_admin: "0 < active_admins s \<longleftrightarrow> (\<exists>u \<in> set (users s). is_active_admin u)"
proof -
  have "0 < active_admins s \<longleftrightarrow> filter is_active_admin (users s) \<noteq> []" by (simp add: active_admins_def Suc_le_eq)
  then show ?thesis by (simp add: filter_empty_conv)
qed

lemma other_admin:
  assumes "distinct (map u_id (users s))" "x \<in> set (users s)" "1 < active_admins s"
  shows "\<exists>y \<in> set (users s). is_active_admin y \<and> u_id y \<noteq> u_id x"
proof (rule ccontr)
  assume "\<not> ?thesis"
  then have "set (filter is_active_admin (users s)) \<subseteq> {x}" using assms(1,2) by (auto dest: inj_onD simp: distinct_map)
  then have "card (set (filter is_active_admin (users s))) \<le> card {x}" by (intro card_mono) auto
  moreover have "distinct (filter is_active_admin (users s))" using assms(1) by (simp add: distinct_map)
  ultimately show False using assms(3) distinct_card by (fastforce simp: active_admins_def)
qed

lemma active_admins_update:
  assumes "distinct (map u_id (users s))" "users s' = update_where p f (users s)" "\<And>x. p x \<Longrightarrow> u_id x = user"
    "\<And>x. x \<in> set (users s) \<Longrightarrow> p x \<Longrightarrow> is_active_admin x \<Longrightarrow> is_active_admin (f x) \<or> 1 < active_admins s"
    "0 < active_admins s"
  shows "0 < active_admins s'"
proof -
  obtain x where x: "x \<in> set (users s)" "is_active_admin x" using assms(5) by (auto simp: some_admin)
  have stays: ?thesis if "y \<in> set (users s)" "is_active_admin (if p y then f y else y)" for y
    using that unfolding some_admin assms(2) bex_update_where by blast
  show ?thesis
  proof (cases "p x \<and> \<not> is_active_admin (f x)")
    case True
    then obtain y where "y \<in> set (users s)" "is_active_admin y" "u_id y \<noteq> u_id x" using other_admin assms(1,4) x by blast
    moreover have "\<not> p y" using calculation(3) assms(3) [of y] assms(3) [of x] True by auto
    ultimately show ?thesis using stays [of y] by simp
  qed (use stays [of x] x in auto)
qed

lemma users_inv_update:
  assumes "users_inv s" "users s' = update_where p f (users s)" "\<And>x. p x \<Longrightarrow> u_id x = user" "\<And>x. u_id (f x) = u_id x"
    "\<And>x. x \<in> set (users s) \<Longrightarrow> p x \<Longrightarrow> is_active_admin x \<Longrightarrow> is_active_admin (f x) \<or> 1 < active_admins s"
    "distinct (map ss_token_hash (sessions s'))"
  shows "users_inv s'"
proof -
  have "distinct (map u_id (users s'))" using assms(1,4) unfolding assms(2) by (simp add: users_inv_def)
  moreover have "0 < active_admins s'" if "users s' \<noteq> []"
  proof -
    have "users s \<noteq> []" using that unfolding assms(2) by (auto simp: update_where_def)
    then show ?thesis using assms(1) by (intro active_admins_update [OF _ assms(2,3,5)]) (auto simp: users_inv_def)
  qed
  ultimately show ?thesis using assms(6) by (simp add: users_inv_def)
qed

lemma require_admin_some: "require_security_admin now token s = Inr a \<Longrightarrow> 0 < active_admins s"
  by (auto simp: require_security_admin_def v4_current_actor_is_admin_def some_admin split: option.splits if_splits)

lemma tokens_revoked [simp]: "map ss_token_hash (revoked now user xs) = map ss_token_hash xs"
  by (simp add: revoked_def)

lemma sessions_kept_revoked: "sessions s' = revoked now user (sessions s) @ xs \<Longrightarrow> sessions_kept s s'"
  by (rule sessions_kept_append [of s "s\<lparr>sessions := revoked now user (sessions s)\<rparr>"])
     (auto simp: revoked_def intro!: sessions_kept_update)

lemma account_step_users:
  assumes "account_step s s'" "users_inv s"
  shows "users_inv s' \<and> sessions_kept s s'"
  using assms
proof (induction rule: account_step.induct)
  case (bootstrap i username display password s v s')
  then show ?case
    by (auto simp: v4_bootstrap_admin_def contract_simps users_inv_def active_admins_def is_active_admin_def account_live_def
        sessions_kept_eq split: if_splits option.splits)
next
  case (login_blocked now key s r s')
  then show ?case by (auto simp: v4_login_blocked_until_def Let_def users_inv_def active_admins_def sessions_kept_eq split: if_splits)
next
  case (login_failure now key s r s')
  then show ?case
    by (auto simp: v4_record_login_failure_def contract_simps users_inv_def active_admins_def sessions_kept_eq split: if_splits)
next
  case (clear_failures s key)
  then show ?case by (simp add: v4_clear_login_failures_def users_inv_def active_admins_def sessions_kept_eq)
next
  case (login now i user version token csrf idle absolute s u s')
  from issue_login_session_frame [OF login(1)] login(2) show ?case
    by (auto simp: users_inv_def active_admins_def accounts_ok_def account_uniques_def intro: sessions_kept_append [OF sessions_kept_eq])
next
  case (refresh now token csrf expires s r s')
  have "s' = s \<or> (\<exists>p f. s' = s\<lparr>sessions := update_where p f (sessions s)\<rparr> \<and>
      (\<forall>x. ss_token_hash (f x) = ss_token_hash x \<and> ss_user (f x) = ss_user x \<and> ss_revoked_at (f x) = ss_revoked_at x))"
    using refresh(1) unfolding v4_refresh_session_def by (fastforce simp: contract_simps split: if_splits option.splits)
  then show ?case using refresh(2)
    by (auto simp: users_inv_def active_admins_def intro: sessions_kept_eq sessions_kept_update)
next
  case (logout s now token)
  then show ?case
    by (auto simp: v4_logout_def revoke_sessions_def users_inv_def active_admins_def intro!: sessions_kept_update)
next
  case (reauthenticate now i s s')
  then show ?case
    by (auto simp: mark_reauthenticated_def users_inv_def active_admins_def intro!: sessions_kept_update)
next
  case (activate now i activation password token csrf idle absolute s v s')
  from consume_activation_frame [OF activate(1)] obtain y where
    y: "sessions s' = sessions s @ [y]" "accounts_ok s'"
    "users s' = update_where (\<lambda>u. u_id u = v) (\<lambda>u. (set_password password u)\<lparr>u_status := ACTIVE_ACCOUNT\<rparr>) (users s)" by blast
  then have "users_inv s'"
    by (intro users_inv_update [OF activate(2) y(3)])
       (auto simp: set_password_def is_active_admin_def account_live_def accounts_ok_def account_uniques_def)
  then show ?case using sessions_kept_append [OF sessions_kept_eq y(1)] by simp
next
  case (change_password now i current version password token csrf idle absolute s v s')
  from change_password_frame [OF change_password(1)] obtain y where
    y: "sessions s' = revoked now v (sessions s) @ [y]" "accounts_ok s'"
    "users s' = update_where (\<lambda>u. u_id u = v) (set_password password) (users s)" by blast
  then have "users_inv s'"
    by (intro users_inv_update [OF change_password(2) y(3)])
       (auto simp: set_password_def is_active_admin_def account_live_def accounts_ok_def account_uniques_def)
  then show ?case using sessions_kept_revoked [OF y(1)] by simp
next
  case (create_user now caller i challenge username display role token expires s v s')
  then show ?case
    by (auto simp: v4_admin_create_user_def contract_simps users_inv_def active_admins_def accounts_ok_def account_uniques_def
        sessions_kept_eq dest!: require_admin_some split: if_splits option.splits)
next
  case (reset_user now caller challenge user token expires s s')
  note frame = reset_user_frame [OF reset_user(1)]
  have "u = x" if "List.find (\<lambda>u. u_id u = user) (users s) = Some u" "x \<in> set (users s)" "u_id x = user" for u x
    using that reset_user(2) find_SomeD [OF that(1)] by (auto simp: users_inv_def distinct_map dest: inj_onD)
  then have "users_inv s'"
    using frame(4) reset_user(2)
    by (intro users_inv_update [OF reset_user(2) frame(2), of user]) (auto simp: deactivated_def frame(1) users_inv_def)
  then show ?case using sessions_kept_revoked [of s' now user s "[]"] frame(1) by simp
next
  case (create_team now caller i name name_key s v s')
  then show ?case
    by (auto simp: v4_admin_create_team_def contract_simps users_inv_def active_admins_def sessions_kept_eq split: if_splits)
qed

lemma set_user_frame:
  assumes "v4_admin_set_user now caller user role status s = Inr s'"
  shows "sessions s' = revoked now user (sessions s)"
    "\<exists>f u. users s' = update_where (\<lambda>x. u_id x = user) f (users s) \<and> List.find (\<lambda>u. u_id u = user) (users s) = Some u \<and>
       (is_active_admin u \<longrightarrow> is_active_admin (f u) \<or> 1 < active_admins s) \<and> (\<forall>x. u_id (f x) = u_id x)"
proof -
  show "sessions s' = revoked now user (sessions s)"
    using assms unfolding v4_admin_set_user_def
    by (auto simp: contract_simps revoke_sessions_def revoked_def v4_rebuild_effective_document_access_def
        split: option.splits if_splits)
  obtain u r st where found: "List.find (\<lambda>u. u_id u = user) (users s) = Some u"
    "account_role_of role = Some r" "account_status_of status = Some st"
    using assms unfolding v4_admin_set_user_def by (auto simp: rbind_Inr_iff split: option.splits)
  have "\<not> (u_role u = ROLE_ADMIN \<and> u_status u = ACTIVE_ACCOUNT \<and> (r \<noteq> ROLE_ADMIN \<or> st \<noteq> ACTIVE_ACCOUNT) \<and> active_admins s \<le> 1)"
    and "users s' = update_where (\<lambda>x. u_id x = user) (set_account_state now r st) (users s)"
    using assms unfolding v4_admin_set_user_def found
    by (auto simp: found contract_simps revoke_sessions_def v4_rebuild_effective_document_access_def split: option.splits if_splits)
  then show "\<exists>f u. users s' = update_where (\<lambda>x. u_id x = user) f (users s) \<and> List.find (\<lambda>u. u_id u = user) (users s) = Some u \<and>
       (is_active_admin u \<longrightarrow> is_active_admin (f u) \<or> 1 < active_admins s) \<and> (\<forall>x. u_id (f x) = u_id x)"
    by (intro exI [of _ "set_account_state now r st"] exI [of _ u])
       (auto simp: found set_account_state_def is_active_admin_def account_live_def)
qed

lemma find_unique_id:
  "users_inv s \<Longrightarrow> List.find (\<lambda>u. u_id u = user) (users s) = Some u \<Longrightarrow> x \<in> set (users s) \<Longrightarrow> u_id x = user \<Longrightarrow> u = x"
  using find_SomeD [of "\<lambda>u. u_id u = user" "users s" u] by (auto simp: users_inv_def distinct_map dest: inj_onD)

lemma set_user_users:
  assumes "v4_admin_set_user now caller user role status s = Inr s'" "users_inv s"
  shows "users_inv s' \<and> sessions_kept s s'"
proof -
  note frame = set_user_frame [OF assms(1)]
  then obtain f u where f: "users s' = update_where (\<lambda>x. u_id x = user) f (users s)"
    "List.find (\<lambda>u. u_id u = user) (users s) = Some u" "is_active_admin u \<longrightarrow> is_active_admin (f u) \<or> 1 < active_admins s"
    "\<forall>x. u_id (f x) = u_id x" by blast
  have "users_inv s'"
    using f(3,4) find_unique_id [OF assms(2) f(2)] assms(2) frame(1)
    by (intro users_inv_update [OF assms(2) f(1), of user]) (auto simp: users_inv_def)
  then show ?thesis using sessions_kept_revoked [of s' now user s "[]"] frame(1) by simp
qed

lemma apply_operation_users: "apply_operation op s = Inr s1 \<Longrightarrow> users s1 = users s \<and> sessions s1 = sessions s"
  by (auto simp: apply_operation_def move_library_node_def contract_simps split: acl_operation.splits option.splits if_splits)

lemma library_step_users:
  assumes "library_step digest s s'"
  shows "users s' = users s \<and> sessions s' = sessions s"
  using assms
proof (induction rule: library_step.induct)
  case (preview now token i op s r s')
  then show ?case by (auto simp: v4_admin_preview_acl_def rbind_Inr_iff split: option.splits if_splits)
next
  case (apply_acl now token i wanted s version s')
  then show ?case
  proof (cases rule: apply_acl_cases)
    case (rebuilt p s1)
    then show ?thesis
      by (auto simp: consume_preview_def v4_append_audit_def v4_rebuild_effective_document_access_def Let_def dest: apply_operation_users)
  next
    case (create p n u t b s1)
    then show ?thesis by (auto simp: consume_preview_def v4_append_audit_def apply_create_grant_def rbind_Inr_iff split: if_splits)
  qed
next
  case (create_folder now token i parent name name_key s v s')
  then show ?case by (auto simp: v4_create_folder_def contract_simps split: option.splits if_splits)
next
  case (rename_node now token i name name_key s r s')
  then show ?case by (auto simp: v4_admin_rename_library_node_def split: option.splits if_splits)
next
  case (delete_folder now token i s r s')
  then show ?case by (auto simp: v4_admin_delete_folder_def contract_simps delete_nodes_def split: option.splits if_splits)
next
  case (upload i parent name name_key doc actor selected s s')
  then show ?case by (auto simp: insert_file_node_def v4_rebuild_effective_document_access_def Let_def split: if_splits)
next
  case (delete_document s doc)
  then show ?case by (simp add: delete_document_node_def delete_nodes_def v4_rebuild_effective_document_access_def Let_def)
qed

lemma security_step_users:
  assumes "security_step digest s s'" "users_inv s"
  shows "users_inv s' \<and> sessions_kept s s'"
  using assms
proof (induction rule: security_step.induct)
  case (on_library s s')
  then show ?case using library_step_users [OF on_library(1)] by (simp add: users_inv_def active_admins_def sessions_kept_eq)
qed (blast dest: account_step_users set_user_users)+

lemma users_inv_initial: "users_inv (initial_security e)"
  by (simp add: users_inv_def initial_security_def)

lemma security_runs_users: "(security_step digest)\<^sup>*\<^sup>* s s' \<Longrightarrow> users_inv s \<Longrightarrow> users_inv s'"
  by (induction rule: rtranclp_induct) (auto dest: security_step_users)

text \<open>A session that is revoked in a state, found by its token.\<close>

definition token_dead :: "string \<Rightarrow> security_db \<Rightarrow> bool" where
  "token_dead token s \<longleftrightarrow> (\<exists>x \<in> set (sessions s). ss_token_hash x = token \<and> ss_revoked_at x \<noteq> None)"

lemma token_dead_kept: "token_dead token s \<Longrightarrow> sessions_kept s s' \<Longrightarrow> token_dead token s'"
  by (fastforce simp: token_dead_def sessions_kept_def)

lemma security_runs_dead:
  "(security_step digest)\<^sup>*\<^sup>* s s' \<Longrightarrow> users_inv s \<Longrightarrow> token_dead token s \<Longrightarrow> token_dead token s'"
proof (induction rule: rtranclp_induct)
  case (step s1 s2)
  then show ?case using security_runs_users [of digest s s1] security_step_users [of digest s1 s2] token_dead_kept by blast
qed

lemma token_dead_no_actor:
  assumes "users_inv s" "token_dead token s"
  shows "v4_current_actor_id now token s = None"
proof -
  have "\<not> session_valid now token s x" if "x \<in> set (sessions s)" for x
    using assms that by (auto simp: users_inv_def token_dead_def session_valid_def distinct_map dest: inj_onD)
  then show ?thesis by (auto simp: v4_current_actor_id_def find_None_iff)
qed

lemma revoked_token_dead:
  assumes "x \<in> set (sessions s)" "ss_user x = user" "sessions s' = revoked now user (sessions s) @ ys"
  shows "token_dead (ss_token_hash x) s'"
proof (cases "ss_revoked_at x")
  case None
  then have "x\<lparr>ss_revoked_at := Some now\<rparr> \<in> set (sessions s')"
    using assms by (auto simp: revoked_def in_update_where intro!: bexI [of _ x])
  then show ?thesis unfolding token_dead_def by (rule bexI [rotated]) simp
next
  case (Some t)
  then have "x \<in> set (sessions s')" using assms by (auto simp: revoked_def in_update_where intro!: bexI [of _ x])
  then show ?thesis unfolding token_dead_def using Some by (intro bexI [of _ x]) auto
qed

end
