(* ===== verification/AccessExample.thy ===== *)
theory AccessExample
  imports AccessRuns
begin

text \<open>
  One run of the contracts on accounts and access rights: an administrator is created and logs in,
  creates a member, a folder and two files, grants the folder to the member while its account is
  pending, and the account is activated; then a file is granted to the member, and afterwards the
  right to create folders.
\<close>

section \<open>The states\<close>

definition key_of :: "char \<Rightarrow> string" where
  "key_of c = replicate 64 c"

definition ex_digest :: "acl_impact \<Rightarrow> string" where
  "ex_digest impact = key_of CHR ''d''"

definition ex_root :: user_row where
  "ex_root = \<lparr>u_id = 1, u_username = ''root'', u_display_name = ''Root'', u_role = ROLE_ADMIN, u_status = ACTIVE_ACCOUNT,
     u_password_hash = Some ''$argon2id$x'', u_authentication_version = 1, u_deleted_at = None\<rparr>"

definition ex_bob :: user_row where
  "ex_bob = \<lparr>u_id = 2, u_username = ''bob'', u_display_name = ''Bob'', u_role = ROLE_MEMBER, u_status = PENDING_ACTIVATION,
     u_password_hash = None, u_authentication_version = 1, u_deleted_at = None\<rparr>"

definition ex_session :: "uuid \<Rightarrow> uuid \<Rightarrow> int \<Rightarrow> char \<Rightarrow> time \<Rightarrow> session_row" where
  "ex_session i user version c now = \<lparr>ss_id = i, ss_user = user, ss_token_hash = key_of c, ss_csrf_token_hash = key_of CHR ''c'',
     ss_issued_version = version, ss_issued_epoch = 1, ss_issued_session_epoch = 9, ss_issued_at = now, ss_last_seen_at = now,
     ss_idle_expires_at = 1000, ss_absolute_expires_at = 1000, ss_reauthenticated_at = Some now, ss_revoked_at = None\<rparr>"

definition ex_challenge :: challenge_row where
  "ex_challenge = new_challenge 0 60 2 ''activation'' (key_of CHR ''e'') 1000"

definition ex_file :: "uuid \<Rightarrow> uuid option \<Rightarrow> string \<Rightarrow> uuid \<Rightarrow> uuid \<Rightarrow> library_node" where
  "ex_file i parent name doc user = \<lparr>n_id = i, n_parent = parent, n_kind = FILE, n_name = name, n_name_key = name,
     n_document = Some doc, n_uploader = Some user, n_boundary = False\<rparr>"

definition ex_folder :: library_node where
  "ex_folder = \<lparr>n_id = 10, n_parent = None, n_kind = FOLDER, n_name = ''F'', n_name_key = ''f'',
     n_document = None, n_uploader = None, n_boundary = False\<rparr>"

definition ex_grant :: "uuid \<Rightarrow> uuid \<Rightarrow> grant_row" where
  "ex_grant n u = \<lparr>ag_node = n, ag_user = Some u, ag_team = None\<rparr>"

definition ex_preview :: "uuid \<Rightarrow> acl_operation \<Rightarrow> int \<Rightarrow> time \<Rightarrow> acl_preview" where
  "ex_preview i op version expires = \<lparr>ap_id = i, ap_actor = 1, ap_operation = op, ap_impact_digest = key_of CHR ''d'',
     ap_version = version, ap_expires_at = expires, ap_consumed_at = None\<rparr>"

definition ex_version :: "int \<Rightarrow> security_db \<Rightarrow> security_db" where
  "ex_version v s = s\<lparr>epoch := (epoch s)\<lparr>ep_authorization := v\<rparr>\<rparr>"

definition ex_row :: "uuid \<Rightarrow> int \<Rightarrow> access_row" where
  "ex_row d v = \<lparr>ea_user = 2, ea_document = d, ea_version = v\<rparr>"

definition ex1 :: security_db where
  "ex1 = v4_append_audit ''bootstrap_admin_created'' 1 ((initial_security 9)\<lparr>users := [ex_root]\<rparr>)"

definition ex2 :: security_db where
  "ex2 = ex1\<lparr>sessions := [ex_session 50 1 1 CHR ''a'' 0]\<rparr>"

definition ex3 :: security_db where
  "ex3 = v4_append_audit ''user_created'' 2 (ex2\<lparr>users := [ex_root, ex_bob], challenges := [ex_challenge]\<rparr>)"

definition ex4 :: security_db where
  "ex4 = v4_append_audit ''folder_created'' 10 (ex3\<lparr>library_nodes := [ex_folder]\<rparr>)"

definition ex5 :: security_db where
  "ex5 = ex_version 2 (ex4\<lparr>library_nodes := [ex_folder, ex_file 11 (Some 10) ''a.pdf'' 100 1], access_grants := [ex_grant 11 1]\<rparr>)"

definition ex6 :: security_db where
  "ex6 = ex_version 3 (ex5\<lparr>library_nodes := [ex_folder, ex_file 11 (Some 10) ''a.pdf'' 100 1, ex_file 12 None ''b.pdf'' 101 1],
     access_grants := [ex_grant 11 1, ex_grant 12 1]\<rparr>)"

definition ex7 :: security_db where
  "ex7 = ex6\<lparr>acl_previews := [ex_preview 70 (SetGrant 10 (Some 2) None True) 3 300]\<rparr>"

definition ex8 :: security_db where
  "ex8 = v4_append_audit ''acl_operation_applied'' 70 (ex_version 4 (consume_preview 1 70 (ex7\<lparr>
     access_grants := [ex_grant 11 1, ex_grant 12 1, ex_grant 10 2]\<rparr>)))"

definition ex9 :: security_db where
  "ex9 = ex8\<lparr>users := [ex_root, ex_bob\<lparr>u_status := ACTIVE_ACCOUNT, u_password_hash := Some ''$argon2id$y'', u_authentication_version := 2\<rparr>],
     sessions := [ex_session 50 1 1 CHR ''a'' 0, ex_session 51 2 2 CHR ''b'' 1],
     challenges := [ex_challenge\<lparr>ch_consumed_at := Some 1\<rparr>]\<rparr>"

definition ex10 :: security_db where
  "ex10 = ex9\<lparr>acl_previews := acl_previews ex9 @ [ex_preview 71 (SetGrant 12 (Some 2) None True) 4 301]\<rparr>"

definition ex11 :: security_db where
  "ex11 = v4_append_audit ''acl_operation_applied'' 71 (ex_version 5 (consume_preview 2 71 (ex10\<lparr>
     access_grants := [ex_grant 11 1, ex_grant 12 1, ex_grant 10 2, ex_grant 12 2],
     effective_access := [ex_row 101 5, ex_row 100 5]\<rparr>)))"

definition ex12 :: security_db where
  "ex12 = ex11\<lparr>acl_previews := acl_previews ex11 @ [ex_preview 72 (SetCreateChildrenGrant 10 (Some 2) None True) 5 302]\<rparr>"

definition ex13 :: security_db where
  "ex13 = v4_append_audit ''acl_operation_applied'' 72 (ex_version 6 (consume_preview 3 72 (ex12\<lparr>create_grants := [ex_grant 10 2]\<rparr>)))"

definition ex14 :: security_db where
  "ex14 = ex_version 7 (ex13\<lparr>library_nodes := library_nodes ex13 @ [ex_file 13 None ''c.pdf'' 102 2],
     access_grants := access_grants ex13 @ [ex_grant 13 2], effective_access := [ex_row 101 7, ex_row 102 7, ex_row 100 7]\<rparr>)"

section \<open>The steps\<close>

definition yields :: "('e, 'a \<times> security_db) result \<Rightarrow> security_db \<Rightarrow> bool" where
  "yields r s = (case r of Inl e \<Rightarrow> False | Inr (x, s') \<Rightarrow> s' = s)"

lemma yields_Inr: "yields r s \<Longrightarrow> \<exists>x. r = Inr (x, s)"
  by (auto simp: yields_def split: sum.splits)

lemma account_run: "(security_step digest)\<^sup>*\<^sup>* s s1 \<Longrightarrow> account_step s1 s2 \<Longrightarrow> (security_step digest)\<^sup>*\<^sup>* s s2"
  by (meson on_accounts rtranclp.rtrancl_into_rtrancl)

lemma library_run: "(security_step digest)\<^sup>*\<^sup>* s s1 \<Longrightarrow> library_step digest s1 s2 \<Longrightarrow> (security_step digest)\<^sup>*\<^sup>* s s2"
  by (meson on_library rtranclp.rtrancl_into_rtrancl)

lemma ex1_ok: "v4_bootstrap_admin 1 ''root'' ''Root'' (Some ''$argon2id$x'') (initial_security 9) = Inr (1, ex1)"
  by code_simp

lemma ex1_run: "(security_step ex_digest)\<^sup>*\<^sup>* (initial_security 9) ex1"
proof (rule account_run)
  show "account_step (initial_security 9) ex1" by (rule bootstrap) (rule ex1_ok)
qed (rule rtranclp.rtrancl_refl)

lemma ex2_ok: "v4_issue_login_session 0 50 1 1 (key_of CHR ''a'') (key_of CHR ''c'') 1000 1000 ex1 = Inr (ex_root, ex2)"
  by code_simp

lemma ex2_run: "(security_step ex_digest)\<^sup>*\<^sup>* (initial_security 9) ex2"
proof (rule account_run)
  show "account_step ex1 ex2" by (rule login) (rule ex2_ok)
qed (rule ex1_run)

lemma ex3_ok: "v4_admin_create_user 0 (key_of CHR ''a'') 2 60 ''bob'' ''Bob'' ''member'' (key_of CHR ''e'') 1000 ex2 = Inr (2, ex3)"
  by code_simp

lemma ex3_run: "(security_step ex_digest)\<^sup>*\<^sup>* (initial_security 9) ex3"
proof (rule account_run)
  show "account_step ex2 ex3" by (rule create_user) (rule ex3_ok)
qed (rule ex2_run)

lemma ex4_ok: "v4_create_folder 0 (key_of CHR ''a'') 10 None ''F'' ''f'' ex3 = Inr (10, ex4)"
  by code_simp

lemma ex4_run: "(security_step ex_digest)\<^sup>*\<^sup>* (initial_security 9) ex4"
proof (rule library_run)
  show "library_step ex_digest ex3 ex4" by (rule create_folder) (rule ex4_ok)
qed (rule ex3_run)

lemma ex5_ok: "insert_file_node 11 (Some 10) ''a.pdf'' ''a.pdf'' 100 1 [] ex4 = Inr ex5"
  by code_simp

lemma ex5_run: "(security_step ex_digest)\<^sup>*\<^sup>* (initial_security 9) ex5"
proof (rule library_run)
  show "library_step ex_digest ex4 ex5" by (rule upload) (rule ex5_ok)
qed (rule ex4_run)

lemma ex6_ok: "insert_file_node 12 None ''b.pdf'' ''b.pdf'' 101 1 [] ex5 = Inr ex6"
  by code_simp

lemma ex6_run: "(security_step ex_digest)\<^sup>*\<^sup>* (initial_security 9) ex6"
proof (rule library_run)
  show "library_step ex_digest ex5 ex6" by (rule upload) (rule ex6_ok)
qed (rule ex5_run)

lemma ex7_ok: "yields (v4_admin_preview_acl ex_digest 0 (key_of CHR ''a'') 70 (SetGrant 10 (Some 2) None True) ex6) ex7"
  by code_simp

lemma ex7_run: "(security_step ex_digest)\<^sup>*\<^sup>* (initial_security 9) ex7"
proof (rule library_run)
  show "library_step ex_digest ex6 ex7" using yields_Inr [OF ex7_ok] by (auto intro: preview)
qed (rule ex6_run)

lemma ex8_ok: "v4_admin_apply_acl ex_digest 1 (key_of CHR ''a'') 70 (key_of CHR ''d'') ex7 = Inr (4, ex8)"
  by code_simp

lemma ex8_run: "(security_step ex_digest)\<^sup>*\<^sup>* (initial_security 9) ex8"
proof (rule library_run)
  show "library_step ex_digest ex7 ex8" by (rule apply_acl) (rule ex8_ok)
qed (rule ex7_run)

lemma ex9_ok: "v4_consume_activation 1 51 (key_of CHR ''e'') ''$argon2id$y'' (key_of CHR ''b'') (key_of CHR ''c'') 1000 1000 ex8 = Inr (2, ex9)"
  by code_simp

lemma ex9_run: "(security_step ex_digest)\<^sup>*\<^sup>* (initial_security 9) ex9"
proof (rule account_run)
  show "account_step ex8 ex9" by (rule activate) (rule ex9_ok)
qed (rule ex8_run)

lemma ex10_ok: "yields (v4_admin_preview_acl ex_digest 1 (key_of CHR ''a'') 71 (SetGrant 12 (Some 2) None True) ex9) ex10"
  by code_simp

lemma ex10_run: "(security_step ex_digest)\<^sup>*\<^sup>* (initial_security 9) ex10"
proof (rule library_run)
  show "library_step ex_digest ex9 ex10" using yields_Inr [OF ex10_ok] by (auto intro: preview)
qed (rule ex9_run)

lemma ex11_ok: "v4_admin_apply_acl ex_digest 2 (key_of CHR ''a'') 71 (key_of CHR ''d'') ex10 = Inr (5, ex11)"
  by code_simp

lemma ex11_run: "(security_step ex_digest)\<^sup>*\<^sup>* (initial_security 9) ex11"
proof (rule library_run)
  show "library_step ex_digest ex10 ex11" by (rule apply_acl) (rule ex11_ok)
qed (rule ex10_run)

lemma ex12_ok: "yields (v4_admin_preview_acl ex_digest 2 (key_of CHR ''a'') 72 (SetCreateChildrenGrant 10 (Some 2) None True) ex11) ex12"
  by code_simp

lemma ex12_run: "(security_step ex_digest)\<^sup>*\<^sup>* (initial_security 9) ex12"
proof (rule library_run)
  show "library_step ex_digest ex11 ex12" using yields_Inr [OF ex12_ok] by (auto intro: preview)
qed (rule ex11_run)

lemma ex13_ok: "v4_admin_apply_acl ex_digest 3 (key_of CHR ''a'') 72 (key_of CHR ''d'') ex12 = Inr (6, ex13)"
  by code_simp

lemma ex13_run: "(security_step ex_digest)\<^sup>*\<^sup>* (initial_security 9) ex13"
proof (rule library_run)
  show "library_step ex_digest ex12 ex13" by (rule apply_acl) (rule ex13_ok)
qed (rule ex12_run)

end
