(* ===== verification/AccessGuarantees.thy ===== *)
theory AccessGuarantees
  imports AccessExample
begin

text \<open>
  What the contracts on accounts and access rights guarantee in every run, and where they deviate
  from the access policy.
\<close>

section \<open>Reading\<close>

definition member_reads :: "security_db \<Rightarrow> uuid \<Rightarrow> uuid \<Rightarrow> bool" where
  "member_reads s u d \<longleftrightarrow> active_member (users s) u \<and> may_read s u d"

lemma run_access: "(security_step digest)\<^sup>*\<^sup>* (initial_security e) s \<Longrightarrow> access_inv s"
  by (rule security_runs_access [OF _ access_inv_initial])

lemma run_users: "(security_step digest)\<^sup>*\<^sup>* (initial_security e) s \<Longrightarrow> users_inv s"
  by (rule security_runs_users [OF _ users_inv_initial])

lemma actor_live:
  "v4_current_actor_id now token s = Some u \<Longrightarrow> \<exists>x \<in> set (users s). u_id x = u \<and> account_live x"
  by (auto simp: v4_current_actor_id_def session_valid_def dest!: find_SomeD split: if_splits)

lemma actor_member:
  "v4_current_actor_id now token s = Some u \<Longrightarrow> \<not> v4_current_actor_is_admin now token s \<Longrightarrow> active_member (users s) u"
proof -
  assume actor: "v4_current_actor_id now token s = Some u" "\<not> v4_current_actor_is_admin now token s"
  then obtain x where x: "x \<in> set (users s)" "u_id x = u" "account_live x" using actor_live by blast
  then have "u_role x \<noteq> ROLE_ADMIN" using actor by (auto simp: v4_current_actor_is_admin_def is_active_admin_def)
  then have "u_role x = ROLE_MEMBER" by (cases "u_role x") simp_all
  then show ?thesis using x by (auto simp: active_member_def)
qed

lemma uploader_may_read:
  "library_ok (library_nodes s) \<Longrightarrow> n \<in> set (library_nodes s) \<Longrightarrow> n_document n = Some d \<Longrightarrow> n_uploader n = Some u \<Longrightarrow> may_read s u d"
  by (auto simp: may_read_def policy_reads_def library_ok_def)

text \<open>
  C1: whatever contracts ran before, a caller that the database lets read a document is an active
  administrator or is allowed to by the access policy: it uploaded the document, or a grant on the
  file or on a folder above it, below the nearest access boundary, names it or an active team of it.
\<close>

theorem reading_needs_policy:
  assumes "(security_step digest)\<^sup>*\<^sup>* (initial_security e) s" "v4_can_read_document now token d s"
  shows "v4_current_actor_is_admin now token s \<or> (\<exists>u. v4_current_actor_id now token s = Some u \<and> may_read s u d)"
  using assms(2) run_access [OF assms(1)] uploader_may_read [of s]
  by (auto simp: v4_can_read_document_def access_inv_def split: option.splits)

theorem reading_needs_policy_witness:
  "v4_current_actor_is_admin 3 (key_of CHR ''b'') ex11 \<or>
   (\<exists>u. v4_current_actor_id 3 (key_of CHR ''b'') ex11 = Some u \<and> may_read ex11 u 100)"
proof -
  have "v4_can_read_document 3 (key_of CHR ''b'') 100 ex11" by code_simp
  then show ?thesis by (rule reading_needs_policy [OF ex11_run])
qed

lemma apply_acl_current:
  assumes "access_inv s" "v4_admin_apply_acl digest now token i wanted s = Inr (version, s')"
    "select_strict (\<lambda>p. ap_id p = i) (acl_previews s) = Inr p" "\<not> is_create_grant (ap_operation p)"
  shows "\<exists>s1. apply_operation (ap_operation p) s = Inr s1 \<and> users s' = users s1 \<and> (\<forall>u d. may_read s' u d \<longleftrightarrow> may_read s1 u d) \<and>
    (\<forall>u d. current_row s' u d \<longleftrightarrow> member_reads s1 u d) \<and>
    (\<exists>impact. v4_acl_impact (ap_operation p) s = Inr impact \<and> digest impact = wanted)"
  using assms(2)
proof (cases rule: apply_acl_cases)
  case (rebuilt q s1)
  then have q: "q = p" using assms(3) by simp
  let ?t = "consume_preview now i s1"
  have "tree_ranked (library_nodes ?t)"
    using apply_operation_library_ok [OF access_inv_library [OF assms(1)] rebuilt(4)] by (simp add: library_ok_def consume_preview_def)
  note row = current_row_rebuild [OF this]
  have "current_row s' u d \<longleftrightarrow> member_reads s1 u d" for u d
    using row [of u d] by (simp add: rebuilt(5) v4_append_audit_def current_row_def member_reads_def may_read_def consume_preview_def)
  moreover have "users s' = users s1" "may_read s' u d \<longleftrightarrow> may_read s1 u d" for u d
    by (simp_all add: rebuilt(5) v4_append_audit_def v4_rebuild_effective_document_access_def consume_preview_def may_read_def Let_def)
  ultimately show ?thesis using rebuilt(3,4) q by blast
next
  case (create q n u t b s1)
  then have "q = p" using assms(3) by simp
  then show ?thesis using create(2) assms(4) by (simp add: is_create_grant_def)
qed

text \<open>
  C2: after an administrator has applied a previewed change of grants, team members, teams,
  boundaries or places, the database lets a caller read exactly what the access policy allows in
  the new state: the table of effective access implements the policy.
\<close>

theorem applied_change_takes_effect:
  assumes "(security_step digest)\<^sup>*\<^sup>* (initial_security e) s" "v4_admin_apply_acl digest now token i wanted s = Inr (version, s')"
    "select_strict (\<lambda>p. ap_id p = i) (acl_previews s) = Inr p" "\<not> is_create_grant (ap_operation p)"
    "v4_current_actor_id later caller s' = Some u"
  shows "v4_can_read_document later caller d s' \<longleftrightarrow> v4_current_actor_is_admin later caller s' \<or> may_read s' u d"
proof -
  have inv: "access_inv s" using run_access [OF assms(1)] .
  then have "access_inv s'" using access_inv_apply [OF _ assms(2)] by blast
  moreover have "current_row s' u d \<longleftrightarrow> member_reads s' u d"
    using apply_acl_current [OF inv assms(2,3,4)] by (auto simp: member_reads_def)
  ultimately show ?thesis
    using assms(5) actor_member [OF assms(5)] uploader_may_read [of s' _ d u]
    by (auto simp: v4_can_read_document_def member_reads_def access_inv_def)
qed

theorem applied_change_takes_effect_witness:
  "v4_can_read_document 3 (key_of CHR ''b'') 101 ex11 \<and> may_read ex11 2 101"
proof -
  have preview: "select_strict (\<lambda>p. ap_id p = 71) (acl_previews ex10) = Inr (ex_preview 71 (SetGrant 12 (Some 2) None True) 4 301)" by code_simp
  have "v4_current_actor_id 3 (key_of CHR ''b'') ex11 = Some 2" "\<not> is_create_grant (ap_operation (ex_preview 71 (SetGrant 12 (Some 2) None True) 4 301))"
    "v4_can_read_document 3 (key_of CHR ''b'') 101 ex11" "\<not> v4_current_actor_is_admin 3 (key_of CHR ''b'') ex11"
    by code_simp+
  then show ?thesis using applied_change_takes_effect [OF ex10_run ex11_ok preview, of 3 "key_of CHR ''b''" 2 101] by simp
qed

section \<open>Previews\<close>





lemma set_sorted_distinct [simp]: "set (sorted_distinct xs) = set xs"
  by (simp add: sorted_distinct_def)








section \<open>The tree and its table\<close>

text \<open>
  C7: in every run the library is a forest of folders and files: identifiers are unique, every
  parent is a folder, only files carry documents, and no node lies below itself.
\<close>

theorem library_stays_a_forest:
  assumes "(security_step digest)\<^sup>*\<^sup>* (initial_security e) s"
  shows "distinct (map n_id (library_nodes s)) \<and>
    (\<forall>n \<in> set (library_nodes s). \<forall>p. n_parent n = Some p \<longrightarrow> is_folder (library_nodes s) p) \<and>
    (\<forall>n \<in> set (library_nodes s). n_document n \<noteq> None \<longrightarrow> n_kind n = FILE) \<and>
    acyclic (parent_rel (library_nodes s))"
proof -
  have ok: "library_ok (library_nodes s)" using access_inv_library [OF run_access [OF assms]] .
  then obtain rank :: "uuid \<Rightarrow> nat" where "\<forall>(n, m) \<in> parent_rel (library_nodes s). rank (n_id m) < rank (n_id n)"
    unfolding library_ok_def tree_ranked_def by blast
  then have "(parent_rel (library_nodes s))\<inverse> \<subseteq> measure (\<lambda>n. rank (n_id n))" by auto
  then have "acyclic ((parent_rel (library_nodes s))\<inverse>)" by (rule wf_acyclic [OF wf_subset [OF wf_measure]])
  then show ?thesis using ok by (simp add: library_ok_def acyclic_converse)
qed

theorem library_stays_a_forest_witness:
  "library_nodes ex13 \<noteq> [] \<and> acyclic (parent_rel (library_nodes ex13))"
proof -
  have "library_nodes ex13 \<noteq> []" by code_simp
  then show ?thesis using library_stays_a_forest [OF ex13_run] by simp
qed

text \<open>
  C6: the recursive query that rebuilds the table of effective access computes the access policy
  of the active members, whatever contracts ran before.
\<close>

theorem rebuild_computes_policy:
  assumes "(security_step digest)\<^sup>*\<^sup>* (initial_security e) s"
  shows "current_row (v4_rebuild_effective_document_access s) u d \<longleftrightarrow> active_member (users s) u \<and> may_read s u d"
  using access_inv_library [OF run_access [OF assms]] by (simp add: current_row_rebuild library_ok_def)

theorem rebuild_computes_policy_witness:
  "current_row (v4_rebuild_effective_document_access ex13) 2 100 \<and> may_read ex13 2 100"
proof -
  have "current_row (v4_rebuild_effective_document_access ex13) 2 100" by code_simp
  then show ?thesis using rebuild_computes_policy [OF ex13_run] by simp
qed

section \<open>Where access is not rebuilt\<close>

lemma current_may_read: "(security_step digest)\<^sup>*\<^sup>* (initial_security e) s \<Longrightarrow>
    current_row (v4_rebuild_effective_document_access s) u d \<Longrightarrow> may_read s u d"
  using access_inv_library [OF run_access] by (simp add: current_row_rebuild library_ok_def)

lemma ex9_may_read: "may_read ex9 2 100"
  by (rule current_may_read [OF ex9_run]) code_simp

lemma ex13_may_read: "may_read ex13 2 100"
  by (rule current_may_read [OF ex13_run]) code_simp

definition uploaded_by :: "security_db \<Rightarrow> uuid \<Rightarrow> uuid \<Rightarrow> bool" where
  "uploaded_by s u d \<longleftrightarrow> (\<exists>n \<in> set (library_nodes s). n_document n = Some d \<and> n_uploader n = Some u)"

text \<open>
  C31: applying a create-children grant advances the authorization version but does not rebuild the
  table of effective access, so that no row of it is current: until another contract rebuilds it,
  members read nothing but their own uploads, whatever the access policy gives them.
\<close>

theorem create_grant_suspends_access:
  assumes "(security_step digest)\<^sup>*\<^sup>* (initial_security e) s" "v4_admin_apply_acl digest now token i wanted s = Inr (version, s')"
    "select_strict (\<lambda>p. ap_id p = i) (acl_previews s) = Inr p" "is_create_grant (ap_operation p)"
    "v4_current_actor_id later caller s' = Some u"
  shows "v4_can_read_document later caller d s' \<longleftrightarrow> v4_current_actor_is_admin later caller s' \<or> uploaded_by s' u d"
  using assms(2)
proof (cases rule: apply_acl_cases)
  case (rebuilt q s1)
  then show ?thesis using assms(3,4) by simp
next
  case (create q n v t b s1)
  have "effective_access s1 = effective_access s \<and> epoch s1 = epoch s"
    using create(3) by (auto simp: apply_create_grant_def rbind_Inr_iff split: if_splits)
  then have "\<not> current_row s' u d"
    using run_access [OF assms(1)] unfolding create(4)
    by (force simp: access_inv_def current_row_def consume_preview_def v4_append_audit_def)
  then show ?thesis using assms(5) by (simp add: v4_can_read_document_def uploaded_by_def)
qed

theorem create_grant_suspends_access_witness:
  "\<not> v4_can_read_document 4 (key_of CHR ''b'') 100 ex13 \<and> may_read ex13 2 100"
proof -
  have preview: "select_strict (\<lambda>p. ap_id p = 72) (acl_previews ex12) = Inr (ex_preview 72 (SetCreateChildrenGrant 10 (Some 2) None True) 5 302)" by code_simp
  have "v4_current_actor_id 4 (key_of CHR ''b'') ex13 = Some 2" "is_create_grant (ap_operation (ex_preview 72 (SetCreateChildrenGrant 10 (Some 2) None True) 5 302))"
    "\<not> v4_current_actor_is_admin 4 (key_of CHR ''b'') ex13" "\<not> uploaded_by ex13 2 100"
    by code_simp+
  then show ?thesis
    using create_grant_suspends_access [OF ex12_run ex13_ok preview, of 4 "key_of CHR ''b''" 2 100] ex13_may_read by simp
qed

lemma token_actor:
  assumes "users_inv s" "x \<in> set (sessions s)" "v4_current_actor_id now (ss_token_hash x) s = Some u"
  shows "u = ss_user x"
proof -
  obtain y where "y \<in> set (sessions s)" "ss_token_hash y = ss_token_hash x" "u = ss_user y"
    using assms(3) by (auto simp: v4_current_actor_id_def session_valid_def dest!: find_SomeD split: if_splits)
  then show ?thesis using assms(1,2) by (auto simp: users_inv_def distinct_map dest: inj_onD)
qed

text \<open>
  The activation of an account does not rebuild the table of effective access: a member without
  a current row for a document cannot read it with the session the activation issues, also when a
  grant given while the account was pending allows it.
\<close>

theorem activation_gives_no_access:
  assumes "(security_step digest)\<^sup>*\<^sup>* (initial_security e) s"
    "v4_consume_activation now i activation password token csrf idle absolute s = Inr (user, s')"
    "\<forall>x \<in> set (users s). u_id x = user \<longrightarrow> u_role x = ROLE_MEMBER" "\<not> current_row s user d" "\<not> uploaded_by s user d"
  shows "\<not> v4_can_read_document later token d s'"
proof
  assume reads: "v4_can_read_document later token d s'"
  have inv: "users_inv s'" using account_step_users [OF activate [OF assms(2)] run_users [OF assms(1)]] by blast
  obtain y where y: "sessions s' = sessions s @ [y]" "ss_user y = user" "ss_token_hash y = token" "access_frame s s'"
    and s': "users s' = update_where (\<lambda>u. u_id u = user) (\<lambda>u. (set_password password u)\<lparr>u_status := ACTIVE_ACCOUNT\<rparr>) (users s)"
    using consume_activation_frame [OF assms(2)] by blast
  have actor: "u = user" if "v4_current_actor_id later token s' = Some u" for u
    using token_actor [OF inv, of y] y that by simp
  have "u_role x = ROLE_MEMBER" if x: "x \<in> set (users s')" "u_id x = user" for x
  proof -
    obtain r where "r \<in> set (users s)" "u_role x = u_role r" "u_id x = u_id r"
      using x(1) unfolding s' by (auto simp: in_update_where set_password_def)
    then show ?thesis using assms(3) x(2) by simp
  qed
  then have "\<not> v4_current_actor_is_admin later token s'"
    using actor by (force simp: v4_current_actor_is_admin_def is_active_admin_def)
  then show False using reads actor assms(4,5) y(4)
    by (auto simp: v4_can_read_document_def uploaded_by_def current_row_def access_frame_def split: option.splits)
qed

theorem activation_gives_no_access_witness:
  "\<not> v4_can_read_document 2 (key_of CHR ''b'') 100 ex9 \<and> may_read ex9 2 100"
proof -
  have "\<forall>x \<in> set (users ex8). u_id x = 2 \<longrightarrow> u_role x = ROLE_MEMBER" "\<not> current_row ex8 2 100" "\<not> uploaded_by ex8 2 100"
    by code_simp+
  then show ?thesis using activation_gives_no_access [OF ex8_run ex9_ok] ex9_may_read by simp
qed

text \<open>
  C32: a member may preview the move of its own file into a folder it can read, but applying the
  preview always fails: the function asks for an administrator before it looks at the operation.
\<close>

theorem member_move_never_applied:
  assumes "\<not> v4_current_actor_is_admin now token s" "v4_current_actor_id now token s = Some actor"
    "member_move_allowed now token actor op s" "v4_acl_impact op s = Inr impact"
  shows "(\<exists>s'. v4_admin_preview_acl digest now token i op s = Inr ((digest impact, impact), s')) \<and>
    (\<forall>later caller j wanted s'. \<not> v4_current_actor_is_admin later caller s' \<longrightarrow> isl (v4_admin_apply_acl digest later caller j wanted s'))"
  using assms
  by (auto simp: v4_admin_preview_acl_def v4_admin_apply_acl_def require_security_admin_def split: option.splits)

theorem member_move_never_applied_witness:
  "(\<exists>impact s'. v4_admin_preview_acl ex_digest 4 (key_of CHR ''b'') 73 (MoveNode 13 (Some 10)) ex14 = Inr ((key_of CHR ''d'', impact), s')) \<and>
   isl (v4_admin_apply_acl ex_digest 4 (key_of CHR ''b'') 73 (key_of CHR ''d'') ex14)"
proof -
  have facts: "\<not> v4_current_actor_is_admin 4 (key_of CHR ''b'') ex14" "v4_current_actor_id 4 (key_of CHR ''b'') ex14 = Some 2"
    "member_move_allowed 4 (key_of CHR ''b'') 2 (MoveNode 13 (Some 10)) ex14" "\<not> isl (v4_acl_impact (MoveNode 13 (Some 10)) ex14)"
    by code_simp+
  obtain impact where "v4_acl_impact (MoveNode 13 (Some 10)) ex14 = Inr impact" using not_isl_Inr [OF facts(4)] by blast
  from member_move_never_applied [OF facts(1-3) this, of ex_digest 73] show ?thesis
    using facts(1) by (auto simp: ex_digest_def)
qed

section \<open>Accounts\<close>

text \<open>
  C4: once the first administrator is created, every state of every run has an active administrator:
  changes of role and status, deletions and password resets never remove the last one.
\<close>

theorem administrator_remains:
  assumes "(security_step digest)\<^sup>*\<^sup>* (initial_security e) s" "users s \<noteq> []"
  shows "\<exists>u \<in> set (users s). is_active_admin u"
  using run_users [OF assms(1)] assms(2) by (simp add: users_inv_def some_admin)

theorem administrator_remains_witness: "\<exists>u \<in> set (users ex13). is_active_admin u"
proof -
  have "users ex13 \<noteq> []" by code_simp
  then show ?thesis by (rule administrator_remains [OF ex13_run])
qed

text \<open>
  C5: a password change, a reset or a change of role or status ends the sessions of the account: in
  no later state of any run does a token issued before it authenticate.
\<close>

theorem changed_credentials_end_sessions:
  assumes "(security_step digest)\<^sup>*\<^sup>* (initial_security e) s"
    "(\<exists>i current version password token csrf idle absolute.
        v4_change_password now i current version password token csrf idle absolute s = Inr (user, s')) \<or>
     (\<exists>caller challenge token expires. v4_admin_reset_user now caller challenge user token expires s = Inr s') \<or>
     (\<exists>caller role status. v4_admin_set_user now caller user role status s = Inr s')"
    "x \<in> set (sessions s)" "ss_user x = user" "(security_step digest)\<^sup>*\<^sup>* s' s''"
  shows "v4_current_actor_id later (ss_token_hash x) s'' = None"
proof -
  have "\<exists>ys. sessions s' = revoked now user (sessions s) @ ys"
    using assms(2) by (auto dest!: change_password_frame reset_user_frame(1) set_user_frame(1))
  then have dead: "token_dead (ss_token_hash x) s'" using revoked_token_dead [OF assms(3,4)] by blast
  have "security_step digest s s'"
    using assms(2) by (auto intro: security_step.intros account_step.intros)
  then have inv: "users_inv s'" using security_step_users run_users [OF assms(1)] by blast
  show ?thesis
    by (rule token_dead_no_actor [OF security_runs_users [OF assms(5) inv] security_runs_dead [OF assms(5) inv dead]])
qed

theorem changed_credentials_end_sessions_witness:
  "\<exists>s'. v4_change_password 1 52 (key_of CHR ''a'') 1 ''$argon2id$z'' (key_of CHR ''f'') (key_of CHR ''c'') 1000 1000 ex2 = Inr (1, s') \<and>
    v4_current_actor_id 2 (key_of CHR ''a'') ex2 = Some 1 \<and> v4_current_actor_id 2 (key_of CHR ''a'') s' = None"
proof -
  let ?r = "v4_change_password 1 52 (key_of CHR ''a'') 1 ''$argon2id$z'' (key_of CHR ''f'') (key_of CHR ''c'') 1000 1000 ex2"
  have facts: "v4_current_actor_id 2 (key_of CHR ''a'') ex2 = Some 1" "map_sum id fst ?r = Inr 1"
    "ex_session 50 1 1 CHR ''a'' 0 \<in> set (sessions ex2)" by code_simp+
  then obtain s' where s': "?r = Inr (1, s')" by (cases ?r) auto
  then have "v4_current_actor_id 2 (ss_token_hash (ex_session 50 1 1 CHR ''a'' 0)) s' = None"
    using facts(3) by (intro changed_credentials_end_sessions [OF ex2_run, of 1 1 s']) (auto simp: ex_session_def)
  then show ?thesis using facts(1) s' by (simp add: ex_session_def)
qed

end
