(* ===== verification/ChatRuns.thy ===== *)
theory ChatRuns
  imports Chats AccessGuarantees
begin

text \<open>
  Runs of the contracts on chats, together with those on accounts, access rights and documents, and
  what holds in every state they reach: the constraints of the chat tables, and the access policy in
  what a chat shows.
\<close>

section \<open>Steps\<close>

inductive chat_step :: "env \<Rightarrow> (acl_impact \<Rightarrow> string) \<Rightarrow> chat_db \<Rightarrow> chat_db \<Rightarrow> bool" for env digest where
  create_chat: "v4_create_chat env now token i title mode c = Inr (v, c') \<Longrightarrow> chat_step env digest c c'"
| rename_chat: "v4_rename_chat now token i title c = (b, c') \<Longrightarrow> chat_step env digest c c'"
| delete_chat: "v4_delete_chat now token i c = (b, c') \<Longrightarrow> chat_step env digest c c'"
| replace_scope: "v4_replace_chat_scope env now token i nodes c = Inr (v, c') \<Longrightarrow> chat_step env digest c c'"
| begin_turn: "v4_begin_turn env now token turn i question g title c = Inr (v, c') \<Longrightarrow> chat_step env digest c c'"
| store_sources: "v4_store_turn_sources env now token turn g rs c = Inr (v, c') \<Longrightarrow> chat_step env digest c c'"
| fail_turn: "v4_fail_turn env now token turn g msg c = Inr (b, c') \<Longrightarrow> chat_step env digest c c'"
| revoke_turn: "v4_mark_turn_access_revoked env now token turn g c = Inr (b, c') \<Longrightarrow> chat_step env digest c c'"
| revoke_trusted: "v4_mark_turn_access_revoked_trusted env turn g c = Inr (st, c') \<Longrightarrow> chat_step env digest c c'"
| interrupt_turn: "v4_interrupt_turn env now token i turn g c = Inr (st, c') \<Longrightarrow> chat_step env digest c c'"
| limit_turn: "v4_mark_turn_length_limited env now token i turn g part c = Inr (st, c') \<Longrightarrow> chat_step env digest c c'"
| citation_failed: "v4_mark_turn_citation_failed env now token i turn g part c = Inr (st, c') \<Longrightarrow> chat_step env digest c c'"
| repair_turns: "v4_repair_interrupted_turns env c = Inr (v, c') \<Longrightarrow> chat_step env digest c c'"
| retry_turn: "v4_retry_turn env now token i turn g c = Inr (r, c') \<Longrightarrow> chat_step env digest c c'"
| finalize_turn: "v4_finalize_turn env now token turn g answer insufficient cited c = Inr (b, c') \<Longrightarrow> chat_step env digest c c'"
| remove_document: "v4_admin_delete_document env now token doc deletion c = Inr c' \<Longrightarrow> chat_step env digest c c'"
| change_security: "security_step digest (secured c) s' \<Longrightarrow> chat_step env digest c (with_security s' c)"
| change_content: "with_content env db c = Inr c' \<Longrightarrow> chat_step env digest c c'"

definition initial_chats :: "uuid \<Rightarrow> db \<Rightarrow> chat_db" where
  "initial_chats e db = \<lparr>secured = initial_security e, content = db, chats = [], chat_scopes = [], turns = [], turn_sources = [],
     turn_citations = [], object_deletions = []\<rparr>"

section \<open>Frames\<close>

lemma ids_update: "(\<And>x. u_id (f x) = u_id x) \<Longrightarrow> u_id ` set (update_where p f us) = u_id ` set us"
  by (metis (no_types, lifting) list.set_map update_where_key)

lemma account_step_ids: "account_step s s' \<Longrightarrow> u_id ` set (users s) \<subseteq> u_id ` set (users s')"
proof (induction rule: account_step.induct)
  case (bootstrap i username display password s v s')
  then show ?case by (auto simp: v4_bootstrap_admin_def contract_simps split: if_splits option.splits)
next
  case (login_blocked now key s r s')
  then show ?case by (auto simp: v4_login_blocked_until_def Let_def split: if_splits)
next
  case (login_failure now key s r s')
  then show ?case by (auto simp: v4_record_login_failure_def contract_simps split: if_splits)
next
  case (refresh now token csrf expires s r s')
  then show ?case by (auto simp: v4_refresh_session_def contract_simps split: if_splits option.splits)
next
  case (activate now i activation password token csrf idle absolute s v s')
  then show ?case using consume_activation_frame [OF activate] by (auto simp: ids_update set_password_def)
next
  case (change_password now i current version password token csrf idle absolute s v s')
  then show ?case using change_password_frame [OF change_password] by (auto simp: ids_update set_password_def)
next
  case (reset_user now caller challenge user token expires s s')
  then show ?case using reset_user_frame(2) [OF reset_user] by (auto simp: ids_update deactivated_def)
next
  case (login now i user version token csrf idle absolute s u s')
  then show ?case using issue_login_session_frame [OF login] by auto
next
  case (create_user now caller i challenge username display role token expires s v s')
  then show ?case by (auto simp: v4_admin_create_user_def contract_simps split: if_splits option.splits)
next
  case (create_team now caller i name name_key s v s')
  then show ?case by (auto simp: v4_admin_create_team_def contract_simps split: if_splits)
qed (auto simp: v4_clear_login_failures_def v4_logout_def revoke_sessions_def mark_reauthenticated_def)

lemma security_step_ids: "security_step digest s s' \<Longrightarrow> u_id ` set (users s) \<subseteq> u_id ` set (users s')"
proof (induction rule: security_step.induct)
  case (set_user now caller user role status s s')
  then obtain f where "users s' = update_where (\<lambda>x. u_id x = user) f (users s)" "\<forall>x. u_id (f x) = u_id x"
    using set_user_frame(2) by blast
  then show ?case by (simp add: ids_update)
qed (auto dest: account_step_ids library_step_users)

lemma chats_ok_security:
  assumes "chats_ok env c" "u_id ` set (users (secured c)) \<subseteq> u_id ` set (users s)"
  shows "chats_ok env (with_security s c)"
  using assms
  by (auto simp: chats_ok_def chat_checks_def chat_uniques_def chat_references_def with_security_def list_all_iff)

lemma chats_ok_rename:
  assumes "chats_ok env c" "v4_rename_chat now token i title c = (b, c')"
  shows "chats_ok env c'"
proof -
  let ?hit = "\<lambda>x. ct_id x = i \<and> actor_of now token c = Some (ct_owner x) \<and> between (int (length (btrim title))) 1 255"
  let ?f = "\<lambda>x :: chat_row. x\<lparr>ct_title := btrim title, ct_title_is_manual := True, ct_updated_at := now\<rparr>"
  have c': "c' = c\<lparr>chats := update_where ?hit ?f (chats c)\<rparr>" using assms(2) by (simp add: v4_rename_chat_def Let_def)
  have ids: "map ct_id (update_where ?hit ?f (chats c)) = map ct_id (chats c)" by simp
  then have "ct_id ` set (update_where ?hit ?f (chats c)) = ct_id ` set (chats c)" by (metis list.set_map)
  then show ?thesis using assms(1)
    by (auto simp: c' ids chats_ok_def chat_checks_def chat_uniques_def chat_references_def list_all_iff ball_update_where chat_ok_def)
qed

lemma distinct_filter_conj: "distinct (map f (filter P xs)) \<Longrightarrow> distinct (map f (filter (\<lambda>x. Q x \<and> P x) xs))"
  using distinct_map_filter [of f "filter P xs" Q] by (simp add: conj_commute)

lemma key_kept: "k \<in> f ` set xs \<Longrightarrow> k \<notin> f ` set (filter p xs) \<Longrightarrow> k \<in> f ` set (delete_where p xs)"
  by (force simp: delete_where_def)

lemma chat_references_delete:
  assumes "chat_references c"
  shows "chat_references (delete_chats p c)"
proof -
  define gone where "gone = ct_id ` set (filter p (chats c))"
  define gone_turns where "gone_turns = tn_id ` set (filter (\<lambda>t. tn_chat t \<in> gone) (turns c))"
  note chat = key_kept [of _ ct_id "chats c" p, folded gone_def]
  note turn = key_kept [of _ tn_id "turns c" "\<lambda>t. tn_chat t \<in> gone", folded gone_turns_def]
  note refs = assms [unfolded chat_references_def list_all_iff case_prod_beta]
  have "\<forall>x \<in> set (delete_where (\<lambda>x. fst x \<in> gone) (chat_scopes c)).
      fst x \<in> ct_id ` set (delete_where p (chats c)) \<and> snd x \<in> n_id ` set (library_nodes (secured c))"
    using refs chat by simp
  moreover have "\<forall>t \<in> set (delete_where (\<lambda>t. tn_chat t \<in> gone) (turns c)). tn_chat t \<in> ct_id ` set (delete_where p (chats c))"
    using refs chat by simp
  moreover have "\<forall>r \<in> set (delete_where (\<lambda>r. sr_turn r \<in> gone_turns) (turn_sources c)).
      sr_turn r \<in> tn_id ` set (delete_where (\<lambda>t. tn_chat t \<in> gone) (turns c))"
    using refs turn by simp
  moreover have "\<forall>x \<in> set (delete_where (\<lambda>x. ci_turn x \<in> gone_turns) (turn_citations c)).
      \<exists>r \<in> set (delete_where (\<lambda>r. sr_turn r \<in> gone_turns) (turn_sources c)). sr_turn r = ci_turn x \<and> sr_rank r = ci_source_rank x"
    using refs by (metis in_delete_where)
  ultimately show ?thesis using refs
    unfolding chat_references_def delete_chats_def Let_def list_all_iff gone_def [symmetric] gone_turns_def [symmetric] case_prod_beta
    by simp
qed

lemma chats_ok_delete: "chats_ok env c \<Longrightarrow> chats_ok env (delete_chats p c)"
proof -
  assume ok: "chats_ok env c"
  have "chat_checks env (delete_chats p c)"
    using ok by (simp add: chats_ok_def chat_checks_def delete_chats_def Let_def list_all_iff)
  moreover have "chat_uniques (delete_chats p c)"
    using ok by (simp add: chats_ok_def chat_uniques_def delete_chats_def Let_def delete_where_def distinct_map_filter distinct_filter_conj)
  ultimately show ?thesis using ok by (simp add: chats_ok_def chat_references_delete)
qed

section \<open>The constraints hold\<close>

lemma end_turns_Inr: "end_turns env p f c = Inr c' \<longleftrightarrow> c' = c\<lparr>turns := update_where p f (turns c)\<rparr> \<and> chats_ok env c'"
  by (auto simp: end_turns_def)

lemma end_own_turn_ok: "end_own_turn env now token i turn g st already res part msg c = Inr (v, c') \<Longrightarrow> chats_ok env c \<Longrightarrow> chats_ok env c'"
  by (auto simp: end_own_turn_def rbind_Inr_iff end_turns_Inr split: option.splits if_splits)

lemma with_content_ok: "with_content env db c = Inr c' \<Longrightarrow> chats_ok env c'"
  by (auto simp: with_content_def rbind_Inr_iff)

lemma delete_document_node_ids: "u_id ` set (users (delete_document_node doc s)) = u_id ` set (users s)"
  by (simp add: delete_document_node_def delete_nodes_def v4_rebuild_effective_document_access_def Let_def)

lemma chat_step_ok: "chat_step env digest c c' \<Longrightarrow> chats_ok env c \<Longrightarrow> chats_ok env c'"
proof (induction rule: chat_step.induct)
  case (create_chat now token i title mode c v c')
  then show ?case by (auto simp: v4_create_chat_def rbind_Inr_iff split: option.splits if_splits)
next
  case (rename_chat now token i title c b c')
  then show ?case by (blast intro: chats_ok_rename)
next
  case (delete_chat now token i c b c')
  then show ?case by (auto simp: v4_delete_chat_def Let_def intro: chats_ok_delete)
next
  case (replace_scope now token i nodes c v c')
  then show ?case by (auto simp: v4_replace_chat_scope_def rbind_Inr_iff split: option.splits if_splits)
next
  case (begin_turn now token turn i question g title c v c')
  then show ?case by (auto simp: v4_begin_turn_def rbind_Inr_iff split: option.splits if_splits)
next
  case (store_sources now token turn g rs c v c')
  then show ?case by (auto simp: v4_store_turn_sources_def rbind_Inr_iff split: option.splits if_splits)
next
  case (fail_turn now token turn g msg c b c')
  then show ?case by (auto simp: v4_fail_turn_def Let_def rbind_Inr_iff end_turns_Inr)
next
  case (revoke_turn now token turn g c b c')
  then show ?case by (auto simp: v4_mark_turn_access_revoked_def Let_def rbind_Inr_iff end_turns_Inr)
next
  case (revoke_trusted turn g c st c')
  then show ?case by (auto simp: v4_mark_turn_access_revoked_trusted_def rbind_Inr_iff end_turns_Inr split: option.splits if_splits)
next
  case (interrupt_turn now token i turn g c st c')
  then show ?case unfolding v4_interrupt_turn_def by (rule end_own_turn_ok)
next
  case (limit_turn now token i turn g part c st c')
  then show ?case by (auto simp: v4_mark_turn_length_limited_def split: if_splits intro: end_own_turn_ok)
next
  case (citation_failed now token i turn g part c st c')
  then show ?case by (auto simp: v4_mark_turn_citation_failed_def split: if_splits intro: end_own_turn_ok)
next
  case (repair_turns c v c')
  then show ?case by (auto simp: v4_repair_interrupted_turns_def rbind_Inr_iff end_turns_Inr)
next
  case (retry_turn now token i turn g c r c')
  then show ?case by (auto simp: v4_retry_turn_def Let_def rbind_Inr_iff end_turns_Inr split: option.splits if_splits)
next
  case (finalize_turn now token turn g answer insufficient cited c b c')
  then show ?case by (auto simp: v4_finalize_turn_def rbind_Inr_iff end_turns_Inr split: option.splits if_splits)
next
  case (remove_document now token doc deletion c c')
  then obtain c3 where "chats_ok env c3" "c' = with_security (v4_append_audit ''document_deleted'' doc (delete_document_node doc (secured c3))) c3"
    by (auto simp: v4_admin_delete_document_def rbind_Inr_iff split: option.splits dest: with_content_ok)
  then show ?case by (auto intro!: chats_ok_security simp: v4_append_audit_def delete_document_node_ids)
next
  case (change_security c s')
  then show ?case by (auto intro!: chats_ok_security dest: security_step_ids)
next
  case (change_content db c c')
  then show ?case by (blast intro: with_content_ok)
qed

end
