(* ===== verification/ChatExample.thy ===== *)
theory ChatExample
  imports ChatRuns ExampleRun
begin

text \<open>
  One execution of the contracts on chats, after the one on accounts and access rights: a member
  opens a chat, asks a question and gets an answer from a document it may read; then its access is
  suspended by a create-children grant and an administrator deletes the document.
\<close>

section \<open>The states\<close>

definition ex_content :: db where
  "ex_content = (initial_db 0 1)\<lparr>documents := [demo_document\<lparr>d_id := 100, d_state := READY, d_stage := READY\<rparr>],
     chunks := [\<lparr>c_document = 100, c_generation = 3, c_source = demo_source [], c_embedding = None\<rparr>]\<rparr>"

definition ex_chat :: "string \<Rightarrow> int \<Rightarrow> time \<Rightarrow> chat_row" where
  "ex_chat title ordinal now = \<lparr>ct_id = 40, ct_title = title, ct_title_is_manual = False, ct_scope_mode = ALL_READY,
     ct_scope_version = 1, ct_next_turn_ordinal = ordinal, ct_owner = 2, ct_updated_at = now\<rparr>"

definition ex_turn :: turn_row where
  "ex_turn = \<lparr>tn_id = 41, tn_chat = 40, tn_ordinal = 1, tn_question = ''why'', tn_status = GENERATING, tn_attempt = 1,
     tn_scope_version = 1, tn_generation_token = Some 42, tn_final_answer = None, tn_partial_answer = None,
     tn_insufficient_context = False, tn_error = None, tn_completed_at = None\<rparr>"

definition ex_answered :: turn_row where
  "ex_answered = ex_turn\<lparr>tn_status := TURN_COMPLETE, tn_generation_token := None, tn_final_answer := Some ''yes'', tn_completed_at := Some 6\<rparr>"

definition ex_source :: source_row where
  "ex_source = \<lparr>sr_turn = 41, sr_rank = 1, sr_snapshot = \<lparr>sn_label = ''S1'', sn_document = 100, sn_chunk = 7,
     sn_original_filename = ''a.pdf'', sn_display_name = ''a.pdf'', sn_logical_path = ''/F/a.pdf'', sn_page_start = 1, sn_page_end = 1,
     sn_section = None, sn_source_sha256 = demo_hash, sn_text_sha256 = demo_hash, sn_retrieval_distance = 0, sn_rerank_score = 1,
     sn_text = ''text'', sn_highlight_anchor = JObj [], sn_token_count = 1\<rparr>,
     sr_document = Some 100, sr_chunk = Some 7, sr_owner_authorized = None\<rparr>"

definition cx0 :: chat_db where "cx0 = initial_chats 9 ex_content"
definition cx1 :: chat_db where "cx1 = cx0\<lparr>secured := ex11\<rparr>"
definition cx2 :: chat_db where "cx2 = cx1\<lparr>chats := [ex_chat ''new'' 1 3]\<rparr>"
definition cx3 :: chat_db where
  "cx3 = cx2\<lparr>chats := [ex_chat ''title'' 2 4], turns := [ex_turn], content := v10_bind_turn_embedding_generation 41 ex_content\<rparr>"
definition cx4 :: chat_db where "cx4 = cx3\<lparr>turn_sources := [ex_source]\<rparr>"
definition cx5 :: chat_db where
  "cx5 = cx4\<lparr>turns := [ex_answered], turn_citations := [\<lparr>ci_turn = 41, ci_ordinal = 1, ci_source_rank = 1\<rparr>]\<rparr>"
definition cx6 :: chat_db where "cx6 = cx5\<lparr>secured := ex13\<rparr>"

section \<open>The steps\<close>

lemma lift_security:
  assumes "(security_step digest)\<^sup>*\<^sup>* s s'" "secured c = s" "chat_scopes c = []"
  shows "(chat_step env digest)\<^sup>*\<^sup>* c (c\<lparr>secured := s'\<rparr>)"
  using assms(1)
proof (induction rule: rtranclp_induct)
  case base
  have "c\<lparr>secured := s\<rparr> = c" using assms(2) by (cases c) simp
  then show ?case by simp
next
  case (step s1 s2)
  have "chat_step env digest (c\<lparr>secured := s1\<rparr>) (with_security s2 (c\<lparr>secured := s1\<rparr>))"
    using step(2) by (intro chat_step.change_security) simp
  moreover have "with_security s2 (c\<lparr>secured := s1\<rparr>) = c\<lparr>secured := s2\<rparr>" using assms(3) by (cases c) (simp add: with_security_def)
  ultimately show ?case using step(3) by (simp add: rtranclp.rtrancl_into_rtrancl)
qed

lemmas cx_defs = cx5_def cx4_def cx3_def cx2_def cx1_def cx0_def initial_chats_def ex_content_def v10_bind_turn_embedding_generation_def

lemma ex_source_ok: "source_ok demo_env (ex_source\<lparr>sr_document := d, sr_chunk := k, sr_owner_authorized := a\<rparr>) \<longleftrightarrow> d \<noteq> None \<or> a \<noteq> None"
proof -
  have "show_int 1 = ''1''" by code_simp
  then show ?thesis by (simp add: source_ok_def ex_source_def between_def demo_anchor)
qed

lemma ex_source_same: "ex_source\<lparr>sr_document := Some 100, sr_chunk := Some 7, sr_owner_authorized := None\<rparr> = ex_source"
  by (simp add: ex_source_def)

lemma ex_source_valid: "source_ok demo_env ex_source"
  using ex_source_ok [where d = "Some 100" and k = "Some 7" and a = None] by (simp add: ex_source_same)

lemma cx2_ok: "v4_create_chat demo_env 3 (key_of CHR ''b'') 40 ''new'' (Some ALL_READY) cx1 = Inr (40, cx2)"
proof -
  have "actor_of 3 (key_of CHR ''b'') cx1 = Some 2" "btrim ''new'' = ''new''" "chats_ok demo_env cx2" by code_simp+
  then show ?thesis by (simp add: v4_create_chat_def cx_defs ex_chat_def between_def rbind_Inr_iff)
qed

lemma cx3_ok: "v4_begin_turn demo_env 4 (key_of CHR ''b'') 41 40 ''why'' (Some 42) (Some ''title'') cx2 = Inr ((41, 1, 1), cx3)"
  by code_simp

lemma cx4_valid: "chats_ok demo_env cx4"
proof -
  have "chat_uniques cx4" "chat_references cx4" "list_all chat_ok (chats cx4)" "list_all turn_ok (turns cx4)" by code_simp+
  moreover have "turn_sources cx4 = [ex_source]" "turn_citations cx4 = []" by (simp_all add: cx_defs)
  ultimately show ?thesis by (simp add: chats_ok_def chat_checks_def ex_source_valid)
qed

lemma cx4_ok: "v4_store_turn_sources demo_env 5 (key_of CHR ''b'') 41 (Some 42)
    (Some [\<lparr>rq_rank = Some 1, rq_chunk = Some 7, rq_retrieval_distance = Some 0, rq_rerank_score = Some 1\<rparr>]) cx3 = Inr (1, cx4)"
proof -
  let ?rs = "[\<lparr>rq_rank = Some 1, rq_chunk = Some 7, rq_retrieval_distance = Some 0, rq_rerank_score = Some 1\<rparr>]"
  have "requested_ok ?rs" "rmap id (joined_sources 5 (key_of CHR ''b'') 41 ?rs cx3) = Inr [ex_source]"
    "\<exists>t \<in> set (turns cx3). tn_id t = 41 \<and> generating_under 5 (key_of CHR ''b'') (Some 42) cx3 t" by code_simp+
  moreover have "cx3\<lparr>turn_sources := turn_sources cx3 @ [ex_source]\<rparr> = cx4" by (simp add: cx_defs)
  ultimately show ?thesis using cx4_valid by (simp add: v4_store_turn_sources_def rbind_Inr_iff)
qed

lemma cx5_valid: "chats_ok demo_env cx5" "chats_ok demo_env (cx4\<lparr>turn_citations := turn_citations cx5\<rparr>)"
proof -
  have "chat_uniques cx5" "chat_references cx5" "list_all chat_ok (chats cx5)" "list_all turn_ok (turns cx5)" "list_all citation_ok (turn_citations cx5)"
    by code_simp+
  moreover have "turn_sources cx5 = [ex_source]" by (simp add: cx_defs)
  ultimately show "chats_ok demo_env cx5" by (simp add: chats_ok_def chat_checks_def ex_source_valid)
  let ?c = "cx4\<lparr>turn_citations := turn_citations cx5\<rparr>"
  have "chat_uniques ?c" "chat_references ?c" by code_simp+
  moreover have "list_all citation_ok (turn_citations cx5)" by code_simp
  ultimately show "chats_ok demo_env ?c" using cx4_valid by (simp add: chats_ok_def chat_checks_def)
qed

lemma cx5_ok: "v4_finalize_turn demo_env 6 (key_of CHR ''b'') 41 (Some 42) (Some ''yes'') False (Some [1]) cx4 = Inr (True, cx5)"
proof -
  have "all_authorized 6 (key_of CHR ''b'') cx4 41" "btrim ''yes'' \<noteq> []"
    "\<exists>t \<in> set (turns cx4). tn_id t = 41 \<and> generating_under 6 (key_of CHR ''b'') (Some 42) cx4 t" by code_simp+
  moreover have "turn_citations cx4 @ map (\<lambda>(k, n). \<lparr>ci_turn = 41, ci_ordinal = n, ci_source_rank = k\<rparr>) (zip [1] [1..int (length [1 :: int])]) =
      turn_citations cx5" by (simp add: cx_defs)
  moreover have "end_turns demo_env (\<lambda>x. tn_id x = 41) (\<lambda>t. t\<lparr>tn_status := TURN_COMPLETE, tn_generation_token := None,
      tn_final_answer := Some ''yes'', tn_partial_answer := None, tn_insufficient_context := False, tn_error := None, tn_completed_at := Some 6\<rparr>)
      (cx4\<lparr>turn_citations := turn_citations cx5\<rparr>) = Inr cx5"
    using cx5_valid(1) by (simp add: end_turns_Inr cx_defs update_where_def ex_turn_def ex_answered_def)
  ultimately show ?thesis using cx5_valid(2) by (simp add: v4_finalize_turn_def rbind_Inr_iff between_def)
qed

lemma chat_run: "(chat_step env digest)\<^sup>*\<^sup>* c c1 \<Longrightarrow> chat_step env digest c1 c2 \<Longrightarrow> (chat_step env digest)\<^sup>*\<^sup>* c c2"
  by (rule rtranclp.rtrancl_into_rtrancl)

lemma cx1_run: "(chat_step demo_env ex_digest)\<^sup>*\<^sup>* (initial_chats 9 ex_content) cx1"
  unfolding cx1_def cx0_def by (rule lift_security [OF ex11_run]) (simp_all add: initial_chats_def)

lemma cx4_run: "(chat_step demo_env ex_digest)\<^sup>*\<^sup>* (initial_chats 9 ex_content) cx4"
  by (rule chat_run [OF chat_run [OF chat_run [OF cx1_run chat_step.create_chat [OF cx2_ok]] chat_step.begin_turn [OF cx3_ok]]
    chat_step.store_sources [OF cx4_ok]])

lemma cx5_run: "(chat_step demo_env ex_digest)\<^sup>*\<^sup>* (initial_chats 9 ex_content) cx5"
  by (rule chat_run [OF cx4_run chat_step.finalize_turn [OF cx5_ok]])

lemma ex13_suspends: "(security_step ex_digest)\<^sup>*\<^sup>* ex11 ex13"
proof -
  have "security_step ex_digest ex11 ex12"
    using yields_Inr [OF ex12_ok] by (auto intro: security_step.on_library library_step.preview)
  moreover have "security_step ex_digest ex12 ex13" by (rule security_step.on_library [OF library_step.apply_acl [OF ex13_ok]])
  ultimately show ?thesis by simp
qed

lemma cx6_run: "(chat_step demo_env ex_digest)\<^sup>*\<^sup>* (initial_chats 9 ex_content) cx6"
proof -
  have "secured cx5 = ex11" "chat_scopes cx5 = []" by (simp_all add: cx5_def cx4_def cx3_def cx2_def cx1_def cx0_def initial_chats_def)
  then have "(chat_step demo_env ex_digest)\<^sup>*\<^sup>* cx5 cx6" unfolding cx6_def by (rule lift_security [OF ex13_suspends])
  then show ?thesis using cx5_run by (rule rtranclp_trans [rotated])
qed

text \<open>The administrator deletes the document.\<close>

definition ex_redacted :: source_row where
  "ex_redacted = ex_source\<lparr>sr_document := None, sr_chunk := None, sr_owner_authorized := Some False\<rparr>"

definition cx_deleting :: chat_db where
  "cx_deleting = cx6\<lparr>turn_sources := [ex_source\<lparr>sr_owner_authorized := Some False\<rparr>], object_deletions := [(43, ''k'')]\<rparr>"

definition cx_deleted :: chat_db where
  "cx_deleted = cx_deleting\<lparr>turn_sources := [ex_redacted], content := delete_document 100 (content cx_deleting)\<rparr>"

definition cx7 :: chat_db where
  "cx7 = with_security (v4_append_audit ''document_deleted'' 100 (delete_document_node 100 ex13)) cx_deleted"

lemma cx_deleting_valid: "chats_ok demo_env cx_deleting"
proof -
  have "chat_uniques cx_deleting" "chat_references cx_deleting" by code_simp+
  moreover have "chat_checks demo_env cx_deleting"
    using cx5_valid(1) ex_source_ok [where d = "Some 100" and k = "Some 7" and a = "Some False"]
    by (simp add: chats_ok_def chat_checks_def cx_deleting_def cx6_def ex_source_def)
  ultimately show ?thesis by (simp add: chats_ok_def)
qed

lemma cx_deleted_ok: "with_content demo_env (delete_document 100 (content cx_deleting)) cx_deleting = Inr cx_deleted"
proof -
  have "chat_uniques cx_deleted" "chat_references cx_deleted" by code_simp+
  moreover have "chat_checks demo_env cx_deleted"
    using cx5_valid(1) ex_source_ok [where d = None and k = None and a = "Some False"]
    by (simp add: chats_ok_def chat_checks_def cx_deleted_def cx_deleting_def cx6_def ex_redacted_def)
  moreover have gone: "documents (delete_document 100 (content cx_deleting)) = []" "chunks (delete_document 100 (content cx_deleting)) = []" by code_simp+
  have "update_sources (\<lambda>r. \<exists>d \<in> set_option (sr_document r). d \<notin> d_id ` set (documents (delete_document 100 (content cx_deleting))))
      (\<lambda>r. r\<lparr>sr_document := None\<rparr>) cx_deleting = Inr (cx_deleting\<lparr>turn_sources := [ex_redacted\<lparr>sr_chunk := Some 7\<rparr>]\<rparr>)"
    unfolding gone by (simp add: update_sources_def update_where_def cx_deleting_def ex_redacted_def ex_source_def v4_enforce_turn_source_immutability_def)
  moreover have "update_sources (\<lambda>r. \<exists>k \<in> set_option (sr_chunk r). k \<notin> c_id ` set (chunks (delete_document 100 (content cx_deleting))))
      (\<lambda>r. r\<lparr>sr_chunk := None\<rparr>) (cx_deleting\<lparr>turn_sources := [ex_redacted\<lparr>sr_chunk := Some 7\<rparr>]\<rparr>) = Inr (cx_deleting\<lparr>turn_sources := [ex_redacted]\<rparr>)"
    unfolding gone by (simp add: update_sources_def update_where_def cx_deleting_def ex_redacted_def ex_source_def v4_enforce_turn_source_immutability_def)
  ultimately show ?thesis by (simp add: with_content_def rbind_Inr_iff chats_ok_def cx_deleted_def)
qed

lemma cx7_ok: "v4_admin_delete_document demo_env 7 (key_of CHR ''a'') 100 43 cx6 = Inr cx7"
proof -
  let ?d = "demo_document\<lparr>d_id := 100, d_state := READY, d_stage := READY\<rparr>"
  have "actor_of 7 (key_of CHR ''a'') cx6 = Some 1"
    "select_strict (\<lambda>d. d_id d = 100 \<and> (\<exists>n \<in> set (library_nodes (secured cx6)). n_document n = Some 100 \<and>
       (v4_current_actor_is_admin 7 (key_of CHR ''a'') (secured cx6) \<or> n_kind n = FILE \<and> n_uploader n = Some 1))) (documents (content cx6)) = Inr ?d"
    "consistent demo_env (delete_document 100 (content cx_deleting))" "owner_authorized 100 cx6 ex_source = Some False" by code_simp+
  moreover have "update_sources (\<lambda>r. sr_document r = Some 100 \<and> sr_owner_authorized r = None)
      (\<lambda>r. r\<lparr>sr_owner_authorized := owner_authorized 100 cx6 r\<rparr>) cx6 = Inr (cx6\<lparr>turn_sources := [ex_source\<lparr>sr_owner_authorized := Some False\<rparr>]\<rparr>)"
    using calculation(4)
    by (simp add: update_sources_def update_where_def cx6_def cx_defs ex_source_def v4_enforce_turn_source_immutability_def)
  moreover have "cx6\<lparr>turn_sources := [ex_source\<lparr>sr_owner_authorized := Some False\<rparr>],
      object_deletions := object_deletions cx6 @ [(43, d_object_key ?d)]\<rparr> = cx_deleting"
    by (simp add: cx_deleting_def cx6_def cx_defs demo_document_def)
  moreover have "secured cx_deleted = ex13" by (simp add: cx_deleted_def cx_deleting_def cx6_def)
  ultimately show ?thesis
    using cx_deleting_valid cx_deleted_ok by (simp add: v4_admin_delete_document_def rbind_Inr_iff cx7_def)
qed

text \<open>The service stops before the turn is finalized and is repaired after its restart.\<close>

definition cx_repaired :: chat_db where
  "cx_repaired = cx4\<lparr>turns := [end_turn TURN_INTERRUPTED None ''generation interrupted by stopped service'' ex_turn]\<rparr>"

lemma cx_repaired_ok: "v4_repair_interrupted_turns demo_env cx4 = Inr (n, c1) \<Longrightarrow> n = 1 \<and> c1 = cx_repaired"
  by (auto simp: v4_repair_interrupted_turns_def rbind_Inr_iff end_turns_Inr cx_repaired_def cx_defs update_where_def ex_turn_def)

end
