(* ===== verification/ChatGuarantees.thy ===== *)
theory ChatGuarantees
  imports ChatExample
begin

text \<open>
  What the contracts on chats guarantee in every run: whom a chat shows its answers, that a completed
  turn is final, that stopped turns can be retried, and what a deletion records about the sources.
\<close>

section \<open>The access tables in runs of chats\<close>

lemma with_content_secured: "with_content env db c = Inr c' \<Longrightarrow> secured c' = secured c"
  by (auto simp: with_content_def update_sources_def rbind_Inr_iff split: if_splits)

lemma end_own_turn_secured: "end_own_turn env now token i turn g st already res part msg c = Inr (v, c') \<Longrightarrow> secured c' = secured c"
  by (auto simp: end_own_turn_def rbind_Inr_iff end_turns_Inr split: option.splits if_splits)

lemma delete_document_secured:
  assumes "v4_admin_delete_document env now token doc deletion c = Inr c'"
  shows "secured c' = v4_append_audit ''document_deleted'' doc (delete_document_node doc (secured c))"
  using assms
  by (auto simp: v4_admin_delete_document_def update_sources_def with_security_def rbind_Inr_iff
    dest!: with_content_secured split: option.splits if_splits)

lemma chat_step_access: "chat_step env digest c c' \<Longrightarrow> access_inv (secured c) \<Longrightarrow> access_inv (secured c')"
proof (induction rule: chat_step.induct)
  case (remove_document now token doc deletion c c')
  then show ?case using delete_document_secured [OF remove_document(1)] by (simp add: access_inv_delete_document)
next
  case (change_security c s')
  then show ?case by (simp add: with_security_def security_step_access)
next
  case (limit_turn now token i turn g part c st c')
  then show ?case by (auto simp: v4_mark_turn_length_limited_def split: if_splits dest: end_own_turn_secured)
next
  case (citation_failed now token i turn g part c st c')
  then show ?case by (auto simp: v4_mark_turn_citation_failed_def split: if_splits dest: end_own_turn_secured)
next
  case (interrupt_turn now token i turn g c st c')
  then show ?case by (auto simp: v4_interrupt_turn_def dest: end_own_turn_secured)
next
  case (change_content db c c')
  then show ?case by (simp add: with_content_secured)
next
  case (create_chat now token i title mode c v c')
  then show ?case by (auto simp: v4_create_chat_def rbind_Inr_iff split: option.splits if_splits)
next
  case (replace_scope now token i nodes c v c')
  then show ?case by (auto simp: v4_replace_chat_scope_def rbind_Inr_iff split: option.splits if_splits)
next
  case (begin_turn now token turn i question g title c v c')
  then show ?case by (auto simp: v4_begin_turn_def rbind_Inr_iff split: option.splits if_splits)
next
  case (store_sources now token turn g rs c v c')
  then show ?case by (auto simp: v4_store_turn_sources_def rbind_Inr_iff split: option.splits if_splits)
next
  case (revoke_trusted turn g c st c')
  then show ?case by (auto simp: v4_mark_turn_access_revoked_trusted_def rbind_Inr_iff end_turns_Inr split: option.splits if_splits)
next
  case (retry_turn now token i turn g c r c')
  then show ?case by (auto simp: v4_retry_turn_def Let_def rbind_Inr_iff end_turns_Inr split: option.splits if_splits)
next
  case (finalize_turn now token turn g answer insufficient cited c b c')
  then show ?case by (auto simp: v4_finalize_turn_def rbind_Inr_iff end_turns_Inr split: option.splits if_splits)
qed (auto simp: v4_rename_chat_def v4_delete_chat_def delete_chats_def v4_fail_turn_def v4_mark_turn_access_revoked_def
  v4_repair_interrupted_turns_def Let_def rbind_Inr_iff end_turns_Inr)

definition chats_inv :: "env \<Rightarrow> chat_db \<Rightarrow> bool" where
  "chats_inv env c \<longleftrightarrow> chats_ok env c \<and> access_inv (secured c)"

lemma chats_inv_initial: "chats_inv env (initial_chats e db)"
  by (simp add: chats_inv_def initial_chats_def chats_ok_def chat_checks_def chat_uniques_def chat_references_def access_inv_initial)

lemma chat_step_inv: "chat_step env digest c c' \<Longrightarrow> chats_inv env c \<Longrightarrow> chats_inv env c'"
  by (simp add: chats_inv_def chat_step_ok chat_step_access)

lemma chat_runs_inv: "(chat_step env digest)\<^sup>*\<^sup>* c c' \<Longrightarrow> chats_inv env c \<Longrightarrow> chats_inv env c'"
  by (induction rule: rtranclp_induct) (auto intro: chat_step_inv)

lemma run_chats: "(chat_step env digest)\<^sup>*\<^sup>* (initial_chats e db) c \<Longrightarrow> chats_inv env c"
  by (rule chat_runs_inv [OF _ chats_inv_initial])

section \<open>What a chat shows\<close>

text \<open>The caller may read the document of a source by the policy, or its owner could when it was deleted.\<close>

definition source_allowed :: "security_db \<Rightarrow> uuid \<Rightarrow> source_row \<Rightarrow> bool" where
  "source_allowed s u r = (case sr_document r of None \<Rightarrow> sr_owner_authorized r = Some True | Some d \<Rightarrow> may_read s u d)"

lemma read_needs_policy:
  "access_inv s \<Longrightarrow> v4_can_read_document now token d s \<Longrightarrow> v4_current_actor_id now token s = Some u \<Longrightarrow>
   v4_current_actor_is_admin now token s \<or> may_read s u d"
  using uploader_may_read [of s] by (auto simp: v4_can_read_document_def access_inv_def)

lemma authorized_allowed:
  assumes "access_inv (secured c)" "v4_current_actor_id now token (secured c) = Some u" "source_authorized now token c r"
  shows "v4_current_actor_is_admin now token (secured c) \<and> sr_document r \<noteq> None \<or> source_allowed (secured c) u r"
  using assms(3) read_needs_policy [OF assms(1) _ assms(2)]
  by (auto simp: source_authorized_def source_allowed_def split: option.splits)

text \<open>The views disclose something of the answer to the turn, of its sources or of its citations.\<close>

definition discloses :: "time \<Rightarrow> string \<Rightarrow> chat_db \<Rightarrow> uuid \<Rightarrow> bool" where
  "discloses now token c turn \<longleftrightarrow>
     (\<exists>(t, hidden) \<in> set (v4_chat_history now token c). tn_id t = turn \<and> (tn_final_answer t \<noteq> None \<or> tn_partial_answer t \<noteq> None)) \<or>
     (\<exists>r \<in> set (v4_authorized_turn_sources now token c). sr_turn r = turn) \<or>
     (\<exists>x \<in> set (v4_authorized_turn_citations now token c). ci_turn x = turn)"

lemma history_row:
  assumes "(t, hidden) \<in> set (v4_chat_history now token c)"
  obtains t0 where "t0 \<in> set (turns c)" "owned_turn now token c (tn_id t0)" "hidden \<longleftrightarrow> \<not> all_authorized now token c (tn_id t0)"
    "t = (if hidden then t0\<lparr>tn_final_answer := None, tn_partial_answer := None\<rparr> else t0)"
proof -
  from assms obtain t0 x where "t0 \<in> set (turns c)" "x \<in> set (chats c)" "ct_id x = tn_chat t0" "actor_of now token c = Some (ct_owner x)"
    "hidden = (\<not> all_authorized now token c (tn_id t0))" "t = (if hidden then t0\<lparr>tn_final_answer := None, tn_partial_answer := None\<rparr> else t0)"
    by (auto simp: v4_chat_history_def Let_def split del: if_split)
  then show ?thesis by (intro that [of t0]) (auto simp: owned_turn_def split del: if_split)
qed

lemma history_authorized:
  assumes "(t, hidden) \<in> set (v4_chat_history now token c)" "\<not> all_authorized now token c (tn_id t)"
  shows "hidden \<and> tn_final_answer t = None \<and> tn_partial_answer t = None"
  using assms(2) by (rule_tac history_row [OF assms(1)]) (simp split: if_splits)

lemma history_shown:
  "(t, hidden) \<in> set (v4_chat_history now token c) \<Longrightarrow> tn_final_answer t \<noteq> None \<or> tn_partial_answer t \<noteq> None \<Longrightarrow>
   all_authorized now token c (tn_id t)"
  by (rule ccontr) (drule (1) history_authorized, simp)

lemma history_owned: "(t, hidden) \<in> set (v4_chat_history now token c) \<Longrightarrow> owned_turn now token c (tn_id t)"
  by (erule history_row) (simp split: if_splits)

lemma disclosed_authorized: "discloses now token c turn \<Longrightarrow> owned_turn now token c turn \<and> all_authorized now token c turn"
  unfolding discloses_def v4_authorized_turn_sources_def v4_authorized_turn_citations_def
  by (elim disjE bexE) (auto dest: history_owned history_shown)

text \<open>
  C9: whatever contracts ran before, the views of chats disclose the answer, the sources or the
  citations of a turn only to the owner of its chat, and only while the owner may read the document
  of every source of the turn: as an active administrator or by the access policy, or, for a deleted
  document, when the deletion recorded that it was authorized.
\<close>

theorem answers_need_policy:
  assumes "(chat_step env digest)\<^sup>*\<^sup>* (initial_chats e db) c" "discloses now token c turn"
  shows "\<exists>u. v4_current_actor_id now token (secured c) = Some u \<and>
    (\<exists>t \<in> set (turns c). tn_id t = turn \<and> (\<exists>x \<in> set (chats c). ct_id x = tn_chat t \<and> ct_owner x = u)) \<and>
    (\<forall>r \<in> set (turn_sources c). sr_turn r = turn \<longrightarrow>
       v4_current_actor_is_admin now token (secured c) \<and> sr_document r \<noteq> None \<or> source_allowed (secured c) u r)"
proof -
  have inv: "access_inv (secured c)" using run_chats [OF assms(1)] by (simp add: chats_inv_def)
  have shown: "owned_turn now token c turn" "all_authorized now token c turn" using disclosed_authorized [OF assms(2)] by simp_all
  from shown(1) obtain t x where x: "t \<in> set (turns c)" "tn_id t = turn" "x \<in> set (chats c)" "ct_id x = tn_chat t"
    "v4_current_actor_id now token (secured c) = Some (ct_owner x)" by (auto simp: owned_turn_def actor_of_def)
  have "v4_current_actor_is_admin now token (secured c) \<and> sr_document r \<noteq> None \<or> source_allowed (secured c) (ct_owner x) r"
    if "r \<in> set (turn_sources c)" "sr_turn r = turn" for r
    using shown(2) that by (intro authorized_allowed [OF inv x(5)]) (simp add: all_authorized_def)
  then show ?thesis using x by blast
qed

theorem answers_need_policy_witness:
  "\<exists>u. v4_current_actor_id 6 (key_of CHR ''b'') (secured cx5) = Some u \<and>
    (\<exists>t \<in> set (turns cx5). tn_id t = 41 \<and> (\<exists>x \<in> set (chats cx5). ct_id x = tn_chat t \<and> ct_owner x = u)) \<and>
    (\<forall>r \<in> set (turn_sources cx5). sr_turn r = 41 \<longrightarrow>
       v4_current_actor_is_admin 6 (key_of CHR ''b'') (secured cx5) \<and> sr_document r \<noteq> None \<or> source_allowed (secured cx5) u r)"
proof -
  have "discloses 6 (key_of CHR ''b'') cx5 41" by code_simp
  then show ?thesis by (rule answers_need_policy [OF cx5_run])
qed

section \<open>Completed turns\<close>

text \<open>A source keeps its rank and snapshot, stays without document and keeps what was recorded.\<close>

definition source_kept :: "source_row \<Rightarrow> source_row \<Rightarrow> bool" where
  "source_kept r r' \<longleftrightarrow> sr_turn r' = sr_turn r \<and> sr_rank r' = sr_rank r \<and> sr_snapshot r' = sr_snapshot r \<and>
     (sr_document r = None \<longrightarrow> sr_document r' = None) \<and>
     (sr_owner_authorized r \<noteq> None \<longrightarrow> sr_owner_authorized r' = sr_owner_authorized r)"

definition turn_kept :: "turn_row \<Rightarrow> chat_db \<Rightarrow> chat_db \<Rightarrow> bool" where
  "turn_kept t c c' \<longleftrightarrow> t \<in> set (turns c') \<and>
     filter (\<lambda>x. ci_turn x = tn_id t) (turn_citations c') = filter (\<lambda>x. ci_turn x = tn_id t) (turn_citations c) \<and>
     list_all2 source_kept (filter (\<lambda>r. sr_turn r = tn_id t) (turn_sources c)) (filter (\<lambda>r. sr_turn r = tn_id t) (turn_sources c'))"

lemma source_kept_refl [simp]: "source_kept r r"
  by (simp add: source_kept_def)

lemma sources_kept_refl [simp]: "list_all2 source_kept rs rs"
  by (simp add: list.rel_refl)

lemma source_kept_trans: "source_kept r s \<Longrightarrow> source_kept s t \<Longrightarrow> source_kept r t"
  by (auto simp: source_kept_def)

lemma turn_kept_trans: "turn_kept t c d \<Longrightarrow> turn_kept t d e \<Longrightarrow> turn_kept t c e"
  unfolding turn_kept_def by (elim conjE, intro conjI, assumption, simp, rule list_all2_trans [OF source_kept_trans], assumption+)

lemma turn_kept_same:
  "t \<in> set (turns c') \<Longrightarrow> turn_citations c' = turn_citations c \<Longrightarrow> turn_sources c' = turn_sources c \<Longrightarrow> turn_kept t c c'"
  by (simp add: turn_kept_def)

lemma list_all2_filter: "list_all2 P xs ys \<Longrightarrow> (\<And>x y. P x y \<Longrightarrow> Q x \<longleftrightarrow> Q y) \<Longrightarrow> list_all2 P (filter Q xs) (filter Q ys)"
  by (induction rule: list_all2_induct) auto

lemma enforced_kept: "v4_enforce_turn_source_immutability r r' \<Longrightarrow> source_kept r r'"
  by (auto simp: v4_enforce_turn_source_immutability_def source_kept_def)

lemma update_sources_kept:
  assumes "update_sources p f c = Inr c'" "t \<in> set (turns c)"
  shows "turn_kept t c c'"
proof -
  have "list_all2 source_kept (turn_sources c) (update_where p f (turn_sources c))"
    using assms(1) by (auto simp: update_sources_def update_where_def list.rel_map split: if_splits
      intro!: list.rel_refl_strong intro: enforced_kept)
  then show ?thesis
    using assms by (auto simp: update_sources_def turn_kept_def source_kept_def split: if_splits intro!: list_all2_filter)
qed

lemma same_turn: "chats_ok env c \<Longrightarrow> t \<in> set (turns c) \<Longrightarrow> t' \<in> set (turns c) \<Longrightarrow> tn_id t = tn_id t' \<Longrightarrow> t = t'"
  by (auto simp: chats_ok_def chat_uniques_def distinct_map dest: inj_onD)

lemma end_turns_kept: "end_turns env p f c = Inr c' \<Longrightarrow> t \<in> set (turns c) \<Longrightarrow> \<not> p t \<Longrightarrow> turn_kept t c c'"
  by (auto simp: end_turns_Inr in_update_where intro!: turn_kept_same)

lemma own_turn_kept:
  assumes "end_own_turn env now token i turn g st already res part msg c = Inr (v, c')"
    "chats_ok env c" "t \<in> set (turns c)" "tn_status t = TURN_COMPLETE"
  shows "turn_kept t c c'"
proof -
  have "tn_id t \<noteq> turn" if "List.find (\<lambda>t. tn_id t = turn \<and> tn_chat t = i) (turns c) = Some x" "tn_status x = GENERATING" for x
    using same_turn [OF assms(2,3)] find_SomeD [OF that(1)] that(2) assms(4) by auto
  then show ?thesis using assms(1,3)
    by (auto simp: end_own_turn_def rbind_Inr_iff split: option.splits if_splits intro: turn_kept_same dest: end_turns_kept [of _ _ _ _ _ t])
qed

lemma generating_other:
  assumes "chats_ok env c" "t \<in> set (turns c)" "tn_status t = TURN_COMPLETE"
    "\<exists>x \<in> set (turns c). tn_id x = turn \<and> generating_under now token g c x"
  shows "tn_id t \<noteq> turn"
proof -
  from assms(4) obtain x where "x \<in> set (turns c)" "tn_id x = turn" "tn_status x = GENERATING" by (auto simp: generating_under_def)
  then show ?thesis using same_turn [OF assms(1,2), of x] assms(3) by auto
qed

lemma citations_other:
  "i \<noteq> turn \<Longrightarrow> filter (\<lambda>x. ci_turn x = i) (map (\<lambda>(k, n). \<lparr>ci_turn = turn, ci_ordinal = n, ci_source_rank = k\<rparr>) kns) = []"
  by (induction kns) auto

lemma filter_deleted: "\<forall>x. q x \<longrightarrow> \<not> p x \<Longrightarrow> filter q (delete_where p xs) = filter q xs"
  by (simp add: delete_where_def) (metis (no_types, lifting) filter_cong)

lemma finalize_kept:
  assumes "v4_finalize_turn env now token turn g answer insufficient cited c = Inr (b, c')"
    "chats_ok env c" "t \<in> set (turns c)" "tn_status t = TURN_COMPLETE"
  shows "turn_kept t c c'"
proof (cases "\<exists>x \<in> set (turns c). tn_id x = turn \<and> generating_under now token g c x")
  case True
  note other = generating_other [OF assms(2,3,4) True]
  show ?thesis using assms(1,3) True other
    by (auto simp: v4_finalize_turn_def rbind_Inr_iff end_turns_Inr turn_kept_def in_update_where citations_other split: option.splits if_splits)
next
  case False
  then have "c' = c" using assms(1) by (auto simp: v4_finalize_turn_def split: option.splits if_splits)
  then show ?thesis using assms(3) by (simp add: turn_kept_same)
qed

lemma joined_sources_turn: "Inr r \<in> set (joined_sources now token turn rs c) \<Longrightarrow> sr_turn r = turn"
proof -
  have "sr_turn r = turn" if "requested_row nodes turn q ck d n = Inr r" for nodes q ck d n
    using that by (auto simp: requested_row_def source_of_def Let_def split: option.splits)
  moreover assume "Inr r \<in> set (joined_sources now token turn rs c)"
  ultimately show ?thesis unfolding joined_sources_def by (auto dest: sym)
qed

lemma rmap_id_set: "rmap id xs = Inr ys \<Longrightarrow> y \<in> set ys \<Longrightarrow> Inr y \<in> set xs"
  by (induction xs arbitrary: ys) (auto simp: rbind_Inr_iff)

lemma store_sources_kept:
  assumes "v4_store_turn_sources env now token turn g requested c = Inr (n, c')"
    "chats_ok env c" "t \<in> set (turns c)" "tn_status t = TURN_COMPLETE"
  shows "turn_kept t c c'"
proof -
  from assms(1) obtain rs rows where rows: "rmap id (joined_sources now token turn rs c) = Inr rows"
    "\<exists>x \<in> set (turns c). tn_id x = turn \<and> generating_under now token g c x" "c' = c\<lparr>turn_sources := turn_sources c @ rows\<rparr>"
    by (auto simp: v4_store_turn_sources_def rbind_Inr_iff split: option.splits if_splits)
  have "filter (\<lambda>r. sr_turn r = tn_id t) rows = []"
    using generating_other [OF assms(2,3,4) rows(2)] rmap_id_set [OF rows(1)] joined_sources_turn by (fastforce simp: filter_empty_conv)
  then show ?thesis using assms(3) rows(3) by (simp add: turn_kept_def)
qed

lemma retry_kept:
  assumes "v4_retry_turn env now token i turn g c = Inr (r, c')" "chats_ok env c" "t \<in> set (turns c)" "tn_status t = TURN_COMPLETE"
  shows "turn_kept t c c'"
proof (cases "c' = c")
  case False
  then obtain x chat g' c1 where x: "List.find (\<lambda>t. tn_id t = turn \<and> tn_chat t = i) (turns c) = Some x" "retryable (tn_status x)"
    "end_turns env (\<lambda>x. tn_id x = turn) (retried_turn chat g') c1 = Inr c'"
    "c1 = (if tn_status x = LENGTH_LIMITED then c
       else c\<lparr>turn_citations := delete_where (\<lambda>x. ci_turn x = turn) (turn_citations c),
              turn_sources := delete_where (\<lambda>r. sr_turn r = turn) (turn_sources c)\<rparr>)"
    using assms(1) unfolding v4_retry_turn_def Let_def by (auto simp: rbind_Inr_iff split: option.splits if_split_asm)
  then have other: "tn_id t \<noteq> turn" using same_turn [OF assms(2,3)] find_SomeD [OF x(1)] assms(4) by (auto simp: retryable_def)
  have "turn_kept t c c1" using assms(3) other by (simp add: x(4) turn_kept_def filter_deleted)
  moreover have "turn_kept t c1 c'" using assms(3) other by (intro end_turns_kept [OF x(3)]) (auto simp: x(4))
  ultimately show ?thesis by (rule turn_kept_trans)
qed (simp add: assms(3) turn_kept_same)

lemma delete_chats_kept:
  assumes "chats_ok env c" "t \<in> set (turns c)" "tn_id t \<in> tn_id ` set (turns (delete_chats p c))"
  shows "turn_kept t c (delete_chats p c)"
proof -
  define gone where "gone = ct_id ` set (filter p (chats c))"
  define gone_turns where "gone_turns = tn_id ` set (filter (\<lambda>t. tn_chat t \<in> gone) (turns c))"
  have deleted: "turns (delete_chats p c) = delete_where (\<lambda>t. tn_chat t \<in> gone) (turns c)"
    "turn_citations (delete_chats p c) = delete_where (\<lambda>x. ci_turn x \<in> gone_turns) (turn_citations c)"
    "turn_sources (delete_chats p c) = delete_where (\<lambda>r. sr_turn r \<in> gone_turns) (turn_sources c)"
    unfolding delete_chats_def Let_def gone_def [symmetric] gone_turns_def [symmetric] by simp_all
  have left: "tn_chat t \<notin> gone" using assms(3) same_turn [OF assms(1,2)] by (auto simp: deleted)
  then have "tn_id t \<notin> gone_turns" using same_turn [OF assms(1,2)] by (auto simp: gone_turns_def)
  then show ?thesis using assms(2) left by (simp add: turn_kept_def deleted filter_deleted)
qed

lemma with_content_kept:
  assumes "with_content env db c = Inr c'" "t \<in> set (turns c)"
  shows "turn_kept t c c'"
proof -
  from assms(1) obtain c1 c2 where steps:
    "update_sources (\<lambda>r. \<exists>d \<in> set_option (sr_document r). d \<notin> d_id ` set (documents db)) (\<lambda>r. r\<lparr>sr_document := None\<rparr>) c = Inr c1"
    "update_sources (\<lambda>r. \<exists>k \<in> set_option (sr_chunk r). k \<notin> c_id ` set (chunks db)) (\<lambda>r. r\<lparr>sr_chunk := None\<rparr>) c1 = Inr c2"
    "c' = c2\<lparr>content := db\<rparr>" by (auto simp: with_content_def rbind_Inr_iff)
  have 1: "turn_kept t c c1" by (rule update_sources_kept [OF steps(1) assms(2)])
  have "turn_kept t c1 c2" by (rule update_sources_kept [OF steps(2)]) (use 1 in \<open>simp add: turn_kept_def\<close>)
  then have "turn_kept t c c2" using 1 turn_kept_trans by blast
  then show ?thesis by (simp add: steps(3) turn_kept_def)
qed

lemma delete_document_kept:
  assumes "v4_admin_delete_document env now token doc deletion c = Inr c'" "t \<in> set (turns c)"
  shows "turn_kept t c c'"
proof -
  from assms(1) obtain k c1 db c3 s where steps:
    "update_sources (\<lambda>r. sr_document r = Some doc \<and> sr_owner_authorized r = None) (\<lambda>r. r\<lparr>sr_owner_authorized := owner_authorized doc c r\<rparr>) c = Inr c1"
    "with_content env db (c1\<lparr>object_deletions := object_deletions c1 @ [k]\<rparr>) = Inr c3" "c' = with_security s c3"
    by (auto simp: v4_admin_delete_document_def rbind_Inr_iff split: option.splits)
  have 1: "turn_kept t c c1" by (rule update_sources_kept [OF steps(1) assms(2)])
  have "turn_kept t (c1\<lparr>object_deletions := object_deletions c1 @ [k]\<rparr>) c3"
    by (rule with_content_kept [OF steps(2)]) (use 1 in \<open>simp add: turn_kept_def\<close>)
  then have "turn_kept t c1 c3" by (simp add: turn_kept_def)
  then have "turn_kept t c c3" using 1 turn_kept_trans by blast
  then show ?thesis by (simp add: steps(3) with_security_def turn_kept_def)
qed

lemma chat_step_kept:
  assumes "chat_step env digest c c'" "chats_ok env c" "t \<in> set (turns c)" "tn_status t = TURN_COMPLETE"
    "tn_id t \<in> tn_id ` set (turns c')"
  shows "turn_kept t c c'"
  using assms
proof (induction rule: chat_step.induct)
  case (create_chat now token i title mode c v c')
  then show ?case by (auto simp: v4_create_chat_def rbind_Inr_iff turn_kept_def split: option.splits if_splits)
next
  case (delete_chat now token i c b c')
  then show ?case by (auto simp: v4_delete_chat_def Let_def intro: delete_chats_kept)
next
  case (replace_scope now token i nodes c v c')
  then show ?case by (auto simp: v4_replace_chat_scope_def rbind_Inr_iff turn_kept_def split: option.splits if_splits)
next
  case (begin_turn now token turn i question g title c v c')
  then show ?case by (auto simp: v4_begin_turn_def rbind_Inr_iff turn_kept_def split: option.splits if_splits)
next
  case (fail_turn now token turn g msg c b c')
  then show ?case by (auto simp: v4_fail_turn_def Let_def rbind_Inr_iff generating_under_def dest: end_turns_kept [of _ _ _ _ _ t])
next
  case (revoke_turn now token turn g c b c')
  then show ?case by (auto simp: v4_mark_turn_access_revoked_def Let_def rbind_Inr_iff generating_under_def dest: end_turns_kept [of _ _ _ _ _ t])
next
  case (revoke_trusted turn g c st c')
  have "tn_id t \<noteq> turn" if "List.find (\<lambda>t. tn_id t = turn) (turns c) = Some x" "tn_status x = GENERATING" for x
    using same_turn [OF revoke_trusted(2,3)] find_SomeD [OF that(1)] that(2) revoke_trusted(4) by auto
  then show ?case using revoke_trusted(1,3)
    by (auto simp: v4_mark_turn_access_revoked_trusted_def rbind_Inr_iff split: option.splits if_splits
      intro: turn_kept_same dest: end_turns_kept [of _ _ _ _ _ t])
next
  case (repair_turns c v c')
  then show ?case by (auto simp: v4_repair_interrupted_turns_def rbind_Inr_iff dest: end_turns_kept [of _ _ _ _ _ t])
next
  case (limit_turn now token i turn g part c st c')
  then show ?case by (auto simp: v4_mark_turn_length_limited_def split: if_splits intro: own_turn_kept)
next
  case (citation_failed now token i turn g part c st c')
  then show ?case by (auto simp: v4_mark_turn_citation_failed_def split: if_splits intro: own_turn_kept)
qed (auto simp: v4_rename_chat_def v4_interrupt_turn_def Let_def with_security_def
  intro: turn_kept_same own_turn_kept store_sources_kept retry_kept finalize_kept delete_document_kept with_content_kept)

text \<open>A step after which the turn still exists.\<close>

definition step_keeping :: "uuid \<Rightarrow> env \<Rightarrow> (acl_impact \<Rightarrow> string) \<Rightarrow> chat_db \<Rightarrow> chat_db \<Rightarrow> bool" where
  "step_keeping turn env digest c c' \<longleftrightarrow> chat_step env digest c c' \<and> turn \<in> tn_id ` set (turns c')"

lemma steps_kept:
  assumes "(step_keeping (tn_id t) env digest)\<^sup>*\<^sup>* c c'" "chats_inv env c" "t \<in> set (turns c)" "tn_status t = TURN_COMPLETE"
  shows "turn_kept t c c' \<and> chats_inv env c'"
  using assms(1)
proof (induction rule: rtranclp_induct)
  case base
  then show ?case using assms(2,3) by (simp add: turn_kept_same)
next
  case (step c1 c2)
  then have inv: "chats_inv env c2" by (auto simp: step_keeping_def intro: chat_step_inv)
  have "turn_kept t c1 c2" using step assms(4)
    by (intro chat_step_kept [of env digest]) (auto simp: step_keeping_def chats_inv_def turn_kept_def)
  then show ?case using step inv turn_kept_trans by blast
qed

text \<open>
  C10: a completed turn is final. As long as it is not deleted with its chat, no contract changes its
  row, its citations, or the rank and snapshot of a source of it, and what a deletion recorded about
  a source is never changed again.
\<close>

theorem completed_turn_is_final:
  assumes "(chat_step env digest)\<^sup>*\<^sup>* (initial_chats e db) c" "t \<in> set (turns c)" "tn_status t = TURN_COMPLETE"
    "(step_keeping (tn_id t) env digest)\<^sup>*\<^sup>* c c'"
  shows "turn_kept t c c'"
  using steps_kept [OF assms(4) run_chats [OF assms(1)] assms(2,3)] by simp

theorem completed_turn_is_final_witness: "turn_kept ex_answered cx6 cx7"
proof -
  have "chat_step demo_env ex_digest cx6 cx7" by (rule chat_step.remove_document [OF cx7_ok])
  moreover have "ex_answered \<in> set (turns cx6)" "turns cx7 = turns cx6"
    by (simp_all add: cx7_def cx_deleted_def cx_deleting_def cx6_def cx_defs with_security_def)
  ultimately have "ex_answered \<in> set (turns cx6)" "(step_keeping (tn_id ex_answered) demo_env ex_digest)\<^sup>*\<^sup>* cx6 cx7"
    by (auto simp: step_keeping_def)
  moreover have "tn_status ex_answered = TURN_COMPLETE" by (simp add: ex_answered_def)
  ultimately show ?thesis using completed_turn_is_final [OF cx6_run] by blast
qed

section \<open>Repair and retry\<close>

lemma chats_ok_turns:
  assumes "chats_ok env c" "\<And>t. t \<in> set (turns c) \<Longrightarrow> p t \<Longrightarrow> turn_ok (f t)"
    "\<And>t. tn_id (f t) = tn_id t \<and> tn_chat (f t) = tn_chat t \<and> tn_ordinal (f t) = tn_ordinal t"
    "distinct (map tn_chat (filter (\<lambda>t. tn_status t = GENERATING) (update_where p f (turns c))))"
  shows "chats_ok env (c\<lparr>turns := update_where p f (turns c)\<rparr>)"
proof -
  have ids: "map tn_id (update_where p f (turns c)) = map tn_id (turns c)" using assms(3) by simp
  then have "tn_id ` set (update_where p f (turns c)) = tn_id ` set (turns c)" by (metis list.set_map)
  moreover have "map (\<lambda>t. (tn_chat t, tn_ordinal t)) (update_where p f (turns c)) = map (\<lambda>t. (tn_chat t, tn_ordinal t)) (turns c)"
    using assms(3) by simp
  ultimately show ?thesis using assms ids
    by (simp add: chats_ok_def chat_checks_def chat_uniques_def chat_references_def list_all_iff ball_update_where)
qed

lemma chats_ok_sources:
  assumes "chats_ok env c"
  shows "chats_ok env (c\<lparr>turn_citations := delete_where (\<lambda>x. ci_turn x = turn) (turn_citations c),
    turn_sources := delete_where (\<lambda>r. sr_turn r = turn) (turn_sources c)\<rparr>)"
proof -
  have "\<forall>x \<in> set (delete_where (\<lambda>x. ci_turn x = turn) (turn_citations c)).
      \<exists>r \<in> set (delete_where (\<lambda>r. sr_turn r = turn) (turn_sources c)). sr_turn r = ci_turn x \<and> sr_rank r = ci_source_rank x"
    using assms unfolding chats_ok_def chat_references_def list_all_iff by (metis in_delete_where)
  then show ?thesis using assms
    by (simp add: chats_ok_def chat_checks_def chat_uniques_def chat_references_def list_all_iff delete_where_def distinct_map_filter)
qed

lemma one_generating:
  assumes "distinct (map key xs)" "\<forall>x \<in> set xs. \<not> q x"
  shows "distinct (map g (filter q (update_where (\<lambda>x. key x = k) f xs)))"
  using assms
proof (induction xs)
  case (Cons x xs)
  have "filter q (update_where (\<lambda>x. key x = k) f xs) = []" if "key x = k"
  proof -
    have "key y \<noteq> k" if "y \<in> set xs" for y using Cons.prems(1) \<open>key x = k\<close> that by (auto simp: image_iff)
    then have "update_where (\<lambda>x. key x = k) f xs = xs" by (simp add: update_where_def map_idI)
    then show ?thesis using Cons.prems(2) by (simp add: filter_empty_conv)
  qed
  moreover have "update_where (\<lambda>x. key x = k) f (x # xs) = (if key x = k then f x else x) # update_where (\<lambda>x. key x = k) f xs"
    by (simp add: update_where_def)
  ultimately show ?case using Cons by (cases "key x = k") simp_all
qed (simp add: update_where_def)

lemma repair_succeeds:
  assumes "chats_ok env c"
  shows "\<exists>c1. v4_repair_interrupted_turns env c = Inr (length (filter (\<lambda>t. tn_status t = GENERATING) (turns c)), c1) \<and> chats_ok env c1 \<and>
    (\<forall>t \<in> set (turns c1). tn_status t \<noteq> GENERATING)"
proof -
  let ?f = "end_turn TURN_INTERRUPTED None ''generation interrupted by stopped service''"
  let ?c1 = "c\<lparr>turns := update_where (\<lambda>t. tn_status t = GENERATING) ?f (turns c)\<rparr>"
  have none: "\<forall>t \<in> set (turns ?c1). tn_status t \<noteq> GENERATING" by (simp add: ball_update_where end_turn_def)
  then have "filter (\<lambda>t. tn_status t = GENERATING) (turns ?c1) = []" by (simp add: filter_empty_conv)
  moreover have "turn_ok (?f t)" if "t \<in> set (turns c)" for t
    using assms that by (simp add: chats_ok_def chat_checks_def list_all_iff turn_ok_def end_turn_def turn_consistent_def between_def)
  ultimately have "chats_ok env ?c1" by (intro chats_ok_turns [OF assms]) (auto simp: end_turn_def)
  then show ?thesis using none by (auto simp: v4_repair_interrupted_turns_def end_turns_Inr rbind_Inr_iff)
qed

lemma retried_ok:
  assumes "turn_ok t" "retryable (tn_status t)" "chat_ok chat"
  shows "turn_ok (retried_turn chat g t)"
  using assms by (auto simp: turn_ok_def retried_turn_def chat_ok_def retryable_def turn_consistent_def Let_def)

lemma retry_succeeds:
  assumes "chats_ok env c" "\<forall>t \<in> set (turns c). tn_status t \<noteq> GENERATING" "own_chat now token i c = Some chat"
    "t \<in> set (turns c)" "tn_chat t = i" "\<forall>x \<in> set (turns c). tn_chat x = i \<longrightarrow> tn_ordinal x \<le> tn_ordinal t" "retryable (tn_status t)"
  shows "\<exists>c2. v4_retry_turn env now token i (tn_id t) (Some g) c =
    Inr (\<lparr>rr_status = ''retried'', rr_turn = Some (retried_turn chat g t)\<rparr>, c2) \<and> retried_turn chat g t \<in> set (turns c2)"
proof -
  let ?c1 = "if tn_status t = LENGTH_LIMITED then c
    else c\<lparr>turn_citations := delete_where (\<lambda>x. ci_turn x = tn_id t) (turn_citations c),
           turn_sources := delete_where (\<lambda>r. sr_turn r = tn_id t) (turn_sources c)\<rparr>"
  let ?c2 = "?c1\<lparr>turns := update_where (\<lambda>x. tn_id x = tn_id t) (retried_turn chat g) (turns ?c1)\<rparr>"
  have found: "List.find (\<lambda>x. tn_id x = tn_id t \<and> tn_chat x = i) (turns c) = Some t"
  proof (cases "List.find (\<lambda>x. tn_id x = tn_id t \<and> tn_chat x = i) (turns c)")
    case (Some x)
    then have "t = x" using find_SomeD [OF Some] by (intro same_turn [OF assms(1,4)]) auto
    then show ?thesis using Some by simp
  qed (use assms(4,5) in \<open>auto simp: find_None_iff\<close>)
  have chat: "chat_ok chat"
    using assms(1) find_SomeD [OF assms(3) [unfolded own_chat_def]] by (simp add: chats_ok_def chat_checks_def list_all_iff)
  have ok1: "chats_ok env ?c1" using assms(1) chats_ok_sources [OF assms(1)] by simp
  have "turn_ok (retried_turn chat g x)" if "x \<in> set (turns c)" "tn_id x = tn_id t" for x
    using same_turn [OF assms(1,4) that(1)] that assms(1,7) chat
    by (auto simp: chats_ok_def chat_checks_def list_all_iff intro!: retried_ok)
  moreover have "distinct (map tn_chat (filter (\<lambda>t. tn_status t = GENERATING) (update_where (\<lambda>x. tn_id x = tn_id t) (retried_turn chat g) (turns c))))"
    using assms(1,2) by (intro one_generating) (simp_all add: chats_ok_def chat_uniques_def)
  moreover have "tn_id (retried_turn chat g x) = tn_id x \<and> tn_chat (retried_turn chat g x) = tn_chat x \<and>
      tn_ordinal (retried_turn chat g x) = tn_ordinal x" for x by (simp add: retried_turn_def Let_def)
  ultimately have ok2: "chats_ok env ?c2" by (intro chats_ok_turns [OF ok1]) (simp_all split: if_split_asm)
  have "v4_retry_turn env now token i (tn_id t) (Some g) c = Inr (\<lparr>rr_status = ''retried'', rr_turn = Some (retried_turn chat g t)\<rparr>, ?c2)"
    using assms(2,3,6,7) found ok2 by (auto simp: v4_retry_turn_def Let_def rbind_Inr_iff end_turns_Inr not_less)
  moreover have "retried_turn chat g t \<in> set (turns ?c2)" using assms(4) by (auto simp: in_update_where)
  ultimately show ?thesis by blast
qed

text \<open>
  C11: no generation is lost for good when the service stops. In every state of every run the repair
  of the restarted service succeeds and leaves no turn generating, and the owner of a chat can then
  retry its latest turn whenever it failed, was interrupted, reached the length limit or failed the
  validation of its citations: the retry always succeeds and the turn is generating again under the
  new token.
\<close>

theorem stopped_turns_can_be_retried:
  assumes "(chat_step env digest)\<^sup>*\<^sup>* (initial_chats e db) c"
  shows "\<exists>n c1. v4_repair_interrupted_turns env c = Inr (n, c1) \<and> (\<forall>t \<in> set (turns c1). tn_status t \<noteq> GENERATING) \<and>
    (\<forall>now token i chat g. \<forall>t \<in> set (turns c1).
       own_chat now token i c1 = Some chat \<and> tn_chat t = i \<and> (\<forall>x \<in> set (turns c1). tn_chat x = i \<longrightarrow> tn_ordinal x \<le> tn_ordinal t) \<and>
       tn_status t \<in> {TURN_FAILED, TURN_INTERRUPTED, LENGTH_LIMITED, CITATION_FAILED} \<longrightarrow>
       (\<exists>c2. v4_retry_turn env now token i (tn_id t) (Some g) c1 =
          Inr (\<lparr>rr_status = ''retried'', rr_turn = Some (retried_turn chat g t)\<rparr>, c2) \<and> retried_turn chat g t \<in> set (turns c2)))"
proof -
  from run_chats [OF assms] obtain n c1 where c1: "v4_repair_interrupted_turns env c = Inr (n, c1)" "chats_ok env c1"
    "\<forall>t \<in> set (turns c1). tn_status t \<noteq> GENERATING" unfolding chats_inv_def using repair_succeeds [of env c] by blast
  show ?thesis
  proof (rule exI [of _ n], rule exI [of _ c1], intro conjI allI ballI impI)
    fix now token i chat g t
    assume "t \<in> set (turns c1)" and retry: "own_chat now token i c1 = Some chat \<and> tn_chat t = i \<and>
      (\<forall>x \<in> set (turns c1). tn_chat x = i \<longrightarrow> tn_ordinal x \<le> tn_ordinal t) \<and>
      tn_status t \<in> {TURN_FAILED, TURN_INTERRUPTED, LENGTH_LIMITED, CITATION_FAILED}"
    then show "\<exists>c2. v4_retry_turn env now token i (tn_id t) (Some g) c1 =
        Inr (\<lparr>rr_status = ''retried'', rr_turn = Some (retried_turn chat g t)\<rparr>, c2) \<and> retried_turn chat g t \<in> set (turns c2)"
      by (intro retry_succeeds [OF c1(2,3)]) (simp_all add: retryable_def)
  qed (use c1 in \<open>simp_all\<close>)
qed

theorem stopped_turns_can_be_retried_witness:
  "v4_repair_interrupted_turns demo_env cx4 = Inr (1, cx_repaired) \<and>
   (\<exists>t c2. v4_retry_turn demo_env 8 (key_of CHR ''b'') 40 41 (Some 44) cx_repaired = Inr (\<lparr>rr_status = ''retried'', rr_turn = Some t\<rparr>, c2) \<and>
      t \<in> set (turns c2))"
proof -
  let ?t = "end_turn TURN_INTERRUPTED None ''generation interrupted by stopped service'' ex_turn"
  from stopped_turns_can_be_retried [OF cx4_run] obtain n c1 where c1: "v4_repair_interrupted_turns demo_env cx4 = Inr (n, c1)" and
    retry: "\<forall>now token i chat g. \<forall>t \<in> set (turns c1).
       own_chat now token i c1 = Some chat \<and> tn_chat t = i \<and> (\<forall>x \<in> set (turns c1). tn_chat x = i \<longrightarrow> tn_ordinal x \<le> tn_ordinal t) \<and>
       tn_status t \<in> {TURN_FAILED, TURN_INTERRUPTED, LENGTH_LIMITED, CITATION_FAILED} \<longrightarrow>
       (\<exists>c2. v4_retry_turn demo_env now token i (tn_id t) (Some g) c1 =
          Inr (\<lparr>rr_status = ''retried'', rr_turn = Some (retried_turn chat g t)\<rparr>, c2) \<and> retried_turn chat g t \<in> set (turns c2))" by blast
  have repaired: "n = 1" "c1 = cx_repaired" using cx_repaired_ok [OF c1] by simp_all
  have "own_chat 8 (key_of CHR ''b'') 40 cx_repaired = Some (ex_chat ''title'' 2 4)" by code_simp
  moreover have "turns cx_repaired = [?t]" "tn_chat ?t = 40" "tn_status ?t = TURN_INTERRUPTED" "tn_id ?t = 41"
    by (simp_all add: cx_repaired_def end_turn_def ex_turn_def)
  ultimately have "\<exists>c2. v4_retry_turn demo_env 8 (key_of CHR ''b'') 40 41 (Some 44) cx_repaired =
      Inr (\<lparr>rr_status = ''retried'', rr_turn = Some (retried_turn (ex_chat ''title'' 2 4) 44 ?t)\<rparr>, c2) \<and>
      retried_turn (ex_chat ''title'' 2 4) 44 ?t \<in> set (turns c2)"
    using retry [rule_format, of ?t 8 "key_of CHR ''b''" 40 "ex_chat ''title'' 2 4" 44] by (simp add: repaired)
  then show ?thesis using c1 repaired by blast
qed

section \<open>Deleted documents\<close>

lemma find_by_key:
  "distinct (map key xs) \<Longrightarrow> x \<in> set xs \<Longrightarrow> List.find (\<lambda>y. key y = key x) xs = Some x"
  by (induction xs) (auto simp: image_iff)

lemma owner_not_authorized:
  assumes "chats_ok env c" "t \<in> set (turns c)" "sr_turn r = tn_id t" "x \<in> set (chats c)" "ct_id x = tn_chat t"
    "\<forall>u \<in> set (users (secured c)). u_id u = ct_owner x \<longrightarrow> \<not> is_active_admin u" "\<not> current_row (secured c) (ct_owner x) doc"
  shows "owner_authorized doc c r = Some False"
proof -
  have "List.find (\<lambda>y. tn_id y = tn_id t) (turns c) = Some t" "List.find (\<lambda>y. ct_id y = ct_id x) (chats c) = Some x"
    using assms(1,2,4) by (auto simp: chats_ok_def chat_uniques_def intro: find_by_key)
  moreover obtain u where "List.find (\<lambda>u. u_id u = ct_owner x) (users (secured c)) = Some u"
    using assms(1,4) by (cases "List.find (\<lambda>u. u_id u = ct_owner x) (users (secured c))")
      (fastforce simp: chats_ok_def chat_references_def list_all_iff find_None_iff)+
  ultimately show ?thesis using assms(3,5,6,7) by (auto simp: owner_authorized_def dest: find_SomeD)
qed

lemma with_content_source:
  assumes "with_content env db c = Inr c'" "r \<in> set (turn_sources c)" "sr_document r = Some doc" "doc \<notin> d_id ` set (documents db)"
  shows "\<exists>r' \<in> set (turn_sources c'). sr_turn r' = sr_turn r \<and> sr_document r' = None \<and> sr_owner_authorized r' = sr_owner_authorized r"
proof -
  let ?q = "\<lambda>r. \<exists>k \<in> set_option (sr_chunk r). k \<notin> c_id ` set (chunks db)"
  let ?p = "\<lambda>r. \<exists>d \<in> set_option (sr_document r). d \<notin> d_id ` set (documents db)"
  have "turn_sources c' = update_where ?q (\<lambda>r. r\<lparr>sr_chunk := None\<rparr>) (update_where ?p (\<lambda>r. r\<lparr>sr_document := None\<rparr>) (turn_sources c))"
    using assms(1) by (auto simp: with_content_def update_sources_def rbind_Inr_iff split: if_splits)
  moreover have "r\<lparr>sr_document := None\<rparr> \<in> set (update_where ?p (\<lambda>r. r\<lparr>sr_document := None\<rparr>) (turn_sources c))"
    using assms(2,3,4) unfolding in_update_where by (intro bexI [of _ r]) simp_all
  ultimately show ?thesis by (simp add: bex_update_where) (intro bexI [of _ r], use assms(2,3,4) in simp_all)
qed

lemma deletion_records:
  assumes "v4_admin_delete_document env now token doc deletion c = Inr c'" "r \<in> set (turn_sources c)"
    "sr_document r = Some doc" "sr_owner_authorized r = None"
  shows "\<exists>r' \<in> set (turn_sources c'). sr_turn r' = sr_turn r \<and> sr_document r' = None \<and> sr_owner_authorized r' = owner_authorized doc c r"
proof -
  let ?p = "\<lambda>r. sr_document r = Some doc \<and> sr_owner_authorized r = None"
  let ?f = "\<lambda>r. r\<lparr>sr_owner_authorized := owner_authorized doc c r\<rparr>"
  from assms(1) obtain c1 k c3 s where steps: "update_sources ?p ?f c = Inr c1"
    "with_content env (delete_document doc (content c1)) (c1\<lparr>object_deletions := object_deletions c1 @ [k]\<rparr>) = Inr c3" "c' = with_security s c3"
    by (auto simp: v4_admin_delete_document_def rbind_Inr_iff split: option.splits)
  have "?f r \<in> set (turn_sources c1)" using assms(2,3,4) steps(1)
    by (auto simp: update_sources_def in_update_where split: if_splits intro!: bexI [of _ r])
  moreover have "doc \<notin> d_id ` set (documents (delete_document doc (content c1)))" by (auto simp: delete_document_def Let_def)
  ultimately show ?thesis using with_content_source [OF steps(2), of "?f r" doc] assms(3) by (simp add: steps(3) with_security_def)
qed

lemma sources_kept_in:
  assumes "turn_kept t c c'" "r \<in> set (turn_sources c)" "sr_turn r = tn_id t"
  shows "\<exists>r' \<in> set (turn_sources c'). source_kept r r'"
proof -
  have "r \<in> set (filter (\<lambda>r. sr_turn r = tn_id t) (turn_sources c))" using assms(2,3) by simp
  then obtain r' where "r' \<in> set (filter (\<lambda>r. sr_turn r = tn_id t) (turn_sources c'))" "source_kept r r'"
    using assms(1) unfolding turn_kept_def by (metis in_set_conv_nth list_all2_conv_all_nth)
  then show ?thesis by auto
qed

text \<open>
  C33: the deletion of a document records the authorization of the owner of a chat from the table of
  effective access alone, without the upload that the check of reading counts. When the owner is no
  administrator and has no current row for the document, as after a create-children grant, no later
  state of any run shows the answer of a completed turn with a source in the document again, even
  when the owner uploaded and deleted the document itself and could read it until then.
\<close>

theorem deletion_hides_answer:
  assumes "(chat_step env digest)\<^sup>*\<^sup>* (initial_chats e db) c" "v4_admin_delete_document env now token doc deletion c = Inr c1"
    "t \<in> set (turns c)" "tn_status t = TURN_COMPLETE" "r \<in> set (turn_sources c)" "sr_turn r = tn_id t" "sr_document r = Some doc"
    "sr_owner_authorized r = None" "x \<in> set (chats c)" "ct_id x = tn_chat t"
    "\<forall>u \<in> set (users (secured c)). u_id u = ct_owner x \<longrightarrow> \<not> is_active_admin u" "\<not> current_row (secured c) (ct_owner x) doc"
    "(step_keeping (tn_id t) env digest)\<^sup>*\<^sup>* c1 c2" "(t', hidden) \<in> set (v4_chat_history later caller c2)" "tn_id t' = tn_id t"
  shows "hidden \<and> tn_final_answer t' = None"
proof -
  have inv: "chats_inv env c" by (rule run_chats [OF assms(1)])
  then have "owner_authorized doc c r = Some False"
    using assms(3,6,9-12) by (intro owner_not_authorized) (auto simp: chats_inv_def)
  then obtain r1 where r1: "r1 \<in> set (turn_sources c1)" "sr_turn r1 = tn_id t" "sr_document r1 = None" "sr_owner_authorized r1 = Some False"
    using deletion_records [OF assms(2,5,7,8)] assms(6) by auto
  have t: "t \<in> set (turns c1)" using delete_document_kept [OF assms(2,3)] by (simp add: turn_kept_def)
  have "chats_inv env c1" using chat_step_inv [OF chat_step.remove_document [OF assms(2)] inv] by blast
  then have "turn_kept t c1 c2" using steps_kept [OF assms(13) _ t assms(4)] by blast
  then obtain r2 where "r2 \<in> set (turn_sources c2)" "source_kept r1 r2" using sources_kept_in r1(1,2) by blast
  then have "\<not> all_authorized later caller c2 (tn_id t')"
    using r1 assms(15) by (auto simp: all_authorized_def source_authorized_def source_kept_def)
  then show ?thesis using history_authorized [OF assms(14)] by simp
qed

theorem deletion_hides_answer_witness:
  "\<exists>t'. v4_chat_history 6 (key_of CHR ''b'') cx5 = [(ex_answered, False)] \<and>
     v4_chat_history 8 (key_of CHR ''b'') cx7 = [(t', True)] \<and> tn_final_answer t' = None"
proof -
  have x: "ex_answered \<in> set (turns cx6)" "tn_status ex_answered = TURN_COMPLETE" "ex_source \<in> set (turn_sources cx6)"
    "sr_turn ex_source = tn_id ex_answered" "sr_document ex_source = Some 100" "sr_owner_authorized ex_source = None"
    "ex_chat ''title'' 2 4 \<in> set (chats cx6)" "ct_id (ex_chat ''title'' 2 4) = tn_chat ex_answered"
    by (simp_all add: cx6_def cx_defs ex_answered_def ex_turn_def ex_source_def ex_chat_def)
  have y: "\<forall>u \<in> set (users (secured cx6)). u_id u = ct_owner (ex_chat ''title'' 2 4) \<longrightarrow> \<not> is_active_admin u"
    "\<not> current_row (secured cx6) (ct_owner (ex_chat ''title'' 2 4)) 100" by code_simp+
  note hidden = deletion_hides_answer [OF cx6_run cx7_ok x y rtranclp.rtrancl_refl]
  have before: "v4_chat_history 6 (key_of CHR ''b'') cx5 = [(ex_answered, False)]" by code_simp
  have "map (tn_id \<circ> fst) (v4_chat_history 8 (key_of CHR ''b'') cx7) = [41]" by code_simp
  then obtain t' b where later: "v4_chat_history 8 (key_of CHR ''b'') cx7 = [(t', b)]" "tn_id t' = 41" by auto
  then have "b \<and> tn_final_answer t' = None" by (intro hidden [where later = 8 and caller = "key_of CHR ''b''"]) (simp_all add: ex_answered_def ex_turn_def)
  then show ?thesis using before later by simp
qed

end
