(* ===== verification/SourceSnapshots.thy ===== *)
theory SourceSnapshots
  imports Answers ChatGuarantees
begin

text \<open>
  The preparation of a turn (services/chats.py): the sources are drafted from the retrieved chunks,
  located in the library of the caller, cut to the token budget, stored by the database and read back,
  and the prompt is made of what was read back.
\<close>

section \<open>The operation\<close>

datatype chat_error =
  ChatNotFound | ChatConflict string | ChatAccessRevoked | LibraryCorruption | RuntimeError string | ValueError string | DatabaseError sql_error

record ranked_chunk =
  rk_chunk :: uuid
  rk_distance :: rat
  rk_score :: rat

text \<open>The caller: account, role, authentication version, authorization version, session (security/actor.py).\<close>

type_synonym ActorContext = "uuid \<times> account_role \<times> int \<times> int \<times> uuid"

record BeginTurn =
  bt_actor :: ActorContext
  bt_chat_id :: uuid
  bt_turn_id :: uuid
  bt_token :: "uuid option"
  bt_question :: string
  bt_attempt :: int
  bt_document_ids :: "uuid list"
  bt_history :: "HistoryPair list"
  bt_retrieval_query :: string
  bt_already_complete :: bool
  bt_continuation_answer :: "string option"

definition snapshot_from_row :: "source_row \<Rightarrow> ChatSourceSnapshot" where
  "snapshot_from_row r = (let s = sr_snapshot r in
     \<lparr>cs_rank = sr_rank r, cs_label = sn_label s, cs_document_id = sr_document r, cs_chunk_id = sr_chunk r,
      cs_document_id_snapshot = sn_document s, cs_chunk_id_snapshot = sn_chunk s, cs_original_filename = sn_original_filename s,
      cs_display_name = sn_display_name s, cs_logical_path = sn_logical_path s, cs_page_start = sn_page_start s,
      cs_page_end = sn_page_end s, cs_section = sn_section s, cs_source_sha256 = sn_source_sha256 s,
      cs_text_sha256 = sn_text_sha256 s, cs_retrieval_distance = sn_retrieval_distance s, cs_rerank_score = sn_rerank_score s,
      cs_text = sn_text s, cs_token_count = sn_token_count s\<rparr>)"

text \<open>
  Where a document is in the library, for the caller (\<open>locations_for_documents_in_session\<close>, services/library.py).
  \<open>visible_paths\<close> are the rows of its recursive query: a node that the caller may view below nodes that the
  caller may view, with its logical path and the identifiers on it, at most 256. A path of the query grows
  by one identifier in each step, so 256 steps reach all of them.
\<close>

record document_location =
  ll_node_id :: uuid
  ll_parent_id :: "uuid option"
  ll_display_name :: string
  ll_logical_path :: string
  ll_uploader_user_id :: "uuid option"

type_synonym visible_row = "library_node \<times> string \<times> uuid list"

definition visible :: "time \<Rightarrow> string \<Rightarrow> uuid \<Rightarrow> security_db \<Rightarrow> library_node \<Rightarrow> bool" where
  "visible now token actor s n \<longleftrightarrow> v4_current_actor_id now token s = Some actor \<and> v4_can_view_library_node now token (n_id n) s"

definition visible_step :: "time \<Rightarrow> string \<Rightarrow> uuid \<Rightarrow> security_db \<Rightarrow> visible_row \<Rightarrow> visible_row list" where
  "visible_step now token actor s = (\<lambda>(p, path, path_ids).
     [(n, path @ ''/'' @ n_name n, path_ids @ [n_id n]). n \<leftarrow> library_nodes s,
        n_parent n = Some (n_id p) \<and> n_id n \<notin> set path_ids \<and> length path_ids < 256 \<and> visible now token actor s n])"

definition visible_paths :: "time \<Rightarrow> string \<Rightarrow> uuid \<Rightarrow> security_db \<Rightarrow> visible_row list" where
  "visible_paths now token actor s = with_recursive 256 (visible_step now token actor s)
     [(n, ''/'' @ n_name n, [n_id n]). n \<leftarrow> library_nodes s, n_parent n = None \<and> visible now token actor s n]"

definition location_rows ::
  "time \<Rightarrow> string \<Rightarrow> uuid \<Rightarrow> uuid list \<Rightarrow> security_db \<Rightarrow> (uuid \<times> document_location) list" where
  "location_rows now token actor document_ids s =
     sort_key fst [(d, \<lparr>ll_node_id = n_id n, ll_parent_id = n_parent n, ll_display_name = n_name n, ll_logical_path = path,
                        ll_uploader_user_id = n_uploader n\<rparr>).
       (n, path, path_ids) \<leftarrow> visible_paths now token actor s, d \<leftarrow> option_list (n_document n),
       d \<in> set document_ids \<and> v4_can_read_document now token d s]"

definition locations_for_documents_in_session ::
  "time \<Rightarrow> string \<Rightarrow> uuid \<Rightarrow> uuid list \<Rightarrow> security_db \<Rightarrow> (chat_error, uuid \<Rightarrow> document_location option) result" where
  "locations_for_documents_in_session now token actor document_ids s =
     (if document_ids = [] then Inr (\<lambda>_. None)
      else let locations = map_of (rev (location_rows now token actor document_ids s))
           in if \<exists>d \<in> set document_ids. locations d = None then Inl LibraryCorruption else Inr locations)"

text \<open>The chunk with its document, as row security lets the caller select them.\<close>

definition retained :: "time \<Rightarrow> string \<Rightarrow> uuid list \<Rightarrow> chat_db \<Rightarrow> uuid \<Rightarrow> (chunk_row \<times> document) option" where
  "retained now token document_ids c k =
     (case rev [(ck, d). ck \<leftarrow> chunks (content c), c_id ck = k, d \<leftarrow> documents (content c),
                 d_id d = c_document ck \<and> d_id d \<in> set document_ids \<and> d_state d = READY \<and>
                 v4_can_read_document now token (d_id d) (secured c)] of
        [] \<Rightarrow> None | row # _ \<Rightarrow> Some row)"

definition draft_of :: "nat \<Rightarrow> ranked_chunk \<Rightarrow> chunk_row \<Rightarrow> document \<Rightarrow> document_location \<Rightarrow> ChatSourceSnapshot" where
  "draft_of n item ck d location =
     (let s = c_source ck; rank = int n + 1 in
      \<lparr>cs_rank = rank, cs_label = ''S'' @ show_int rank, cs_document_id = Some (d_id d), cs_chunk_id = Some (c_id ck),
       cs_document_id_snapshot = d_id d, cs_chunk_id_snapshot = c_id ck, cs_original_filename = s_filename s,
       cs_display_name = ll_display_name location, cs_logical_path = ll_logical_path location, cs_page_start = s_page_start s, cs_page_end = s_page_end s,
       cs_section = s_section s, cs_source_sha256 = s_source_sha256 s, cs_text_sha256 = s_text_sha256 s,
       cs_retrieval_distance = rk_distance item, cs_rerank_score = rk_score item, cs_text = s_text s, cs_token_count = s_token_count s\<rparr>)"

definition retained_documents :: "(uuid \<Rightarrow> (chunk_row \<times> document) option) \<Rightarrow> ranked_chunk list \<Rightarrow> uuid list" where
  "retained_documents kept ranked = remdups [d_id d. item \<leftarrow> ranked, (ck, d) \<leftarrow> option_list (kept (rk_chunk item))]"

fun draft_sources ::
  "(uuid \<Rightarrow> (chunk_row \<times> document) option) \<Rightarrow> (uuid \<Rightarrow> document_location option) \<Rightarrow> ChatSourceSnapshot list \<Rightarrow> ranked_chunk list \<Rightarrow>
   (chat_error, ChatSourceSnapshot list) result" where
  "draft_sources kept locations drafts [] = Inr drafts"
| "draft_sources kept locations drafts (item # ranked) =
     (case kept (rk_chunk item) of
        None \<Rightarrow> draft_sources kept locations drafts ranked
      | Some (ck, d) \<Rightarrow>
          (case locations (d_id d) of
             None \<Rightarrow> Inl LibraryCorruption
           | Some location \<Rightarrow> draft_sources kept locations (drafts @ [draft_of (length drafts) item ck d location]) ranked))"

definition lift_sql :: "(sql_error, 'a) result \<Rightarrow> (chat_error, 'a) result" where
  "lift_sql r = (case r of Inl e \<Rightarrow> Inl (DatabaseError e) | Inr x \<Rightarrow> Inr x)"

definition lift_runtime :: "(string, 'a) result \<Rightarrow> (chat_error, 'a) result" where
  "lift_runtime r = (case r of Inl e \<Rightarrow> Inl (RuntimeError e) | Inr x \<Rightarrow> Inr x)"

definition source_payload :: "ChatSourceSnapshot \<Rightarrow> requested_source" where
  "source_payload s = \<lparr>rq_rank = Some (cs_rank s), rq_chunk = cs_chunk_id s,
     rq_retrieval_distance = Some (cs_retrieval_distance s), rq_rerank_score = Some (cs_rerank_score s)\<rparr>"

definition authorized_rows :: "time \<Rightarrow> string \<Rightarrow> uuid \<Rightarrow> chat_db \<Rightarrow> source_row list" where
  "authorized_rows now token turn c =
     sort_key sr_rank (filter (\<lambda>r. sr_turn r = turn) (v4_authorized_turn_sources now token c))"

definition snapshot_sources ::
  "env \<Rightarrow> time \<Rightarrow> string \<Rightarrow> ActorContext \<Rightarrow> BeginTurn \<Rightarrow> ranked_chunk list \<Rightarrow> chat_db \<Rightarrow>
   (chat_error, (ChatSourceSnapshot list \<times> string option) \<times> chat_db) result" where
  "snapshot_sources env now token actor begin ranked c =
     (if own_chat now token (bt_chat_id begin) c = None then Inl ChatNotFound
      else if \<not> (\<exists>(t, hidden) \<in> set (v4_chat_history now token c). tn_chat t = bt_chat_id begin \<and> tn_id t = bt_turn_id begin \<and>
                   tn_status t = GENERATING \<and> tn_generation_token t = bt_token begin)
      then Inl (ChatConflict ''turn generation token is stale'')
      else
        let kept = retained now token (bt_document_ids begin) c in
        rbind (locations_for_documents_in_session now token (fst actor) (retained_documents kept ranked) (secured c)) (\<lambda>locations.
        rbind (draft_sources kept locations [] ranked) (\<lambda>drafts.
        rbind (lift_runtime (budget_prompt (bt_question begin) (bt_history begin) drafts)) (\<lambda>(selected, _).
        if selected = [] then
          rbind (lift_sql (v4_finalize_turn env now token (bt_turn_id begin) (bt_token begin) (Some INSUFFICIENT_CONTEXT_ANSWER) True (Some []) c))
            (\<lambda>(finalized, c1). if finalized then Inr (([], None), c1) else Inl (ChatConflict ''turn generation token is stale''))
        else
          rbind (lift_sql (v4_store_turn_sources env now token (bt_turn_id begin) (bt_token begin) (Some (map source_payload selected)) c))
            (\<lambda>(stored, c1).
               if stored \<noteq> length selected then Inl (ChatConflict ''turn source snapshot was incomplete'')
               else
                 let authoritative = map snapshot_from_row (authorized_rows now token (bt_turn_id begin) c1)
                 in if length authoritative \<noteq> length selected then Inl ChatAccessRevoked
                    else
                      rbind (lift_runtime (budget_prompt (bt_question begin) (bt_history begin) authoritative)) (\<lambda>(sources, prompt).
                      if length sources \<noteq> length selected \<or> prompt = None
                      then Inl (RuntimeError ''authoritative source snapshot exceeded prompt budget'')
                      else Inr ((sources, prompt), c1)))))))"

section \<open>Preparing again\<close>

lemma budget_prompt_again:
  assumes "budget_prompt q h sources = Inr (selected, Some p)"
  shows "budget_prompt q h selected = Inr (selected, Some p)"
proof -
  from budget_prompt_result [of sources q h] obtain n where n: "n \<le> length sources"
    "budget_prompt q h sources = Inr (relabel_from 0 (take n sources), if n = 0 then None
        else Some (render_prompt q (history_part q h) (join blank_line (map source_block (relabel_from 0 (take n sources))))))"
    "\<forall>k. 0 < k \<and> k \<le> n \<longrightarrow> sources_fit q (history_part q h) (source_part q h) (relabel_from 0 (take k sources))" by blast
  have "n \<noteq> 0" using assms n(2) by (cases "n = 0") auto
  then have sel: "selected = relabel_from 0 (take n sources)"
    "p = render_prompt q (history_part q h) (join blank_line (map source_block selected))" using assms n(2) by auto
  have "sources_fit q (history_part q h) (source_part q h) (relabel_from 0 (take k selected))" if "0 < k" "k \<le> length selected" for k
    using n(1,3) that by (simp add: sel(1) take_relabel min_def split: if_splits)
  then have "select_sources q (history_part q h) (source_part q h) [] selected = selected"
    using select_sources_all [of selected q "history_part q h" "source_part q h" "[]"] by (simp add: sel(1))
  moreover have "selected \<noteq> []" using \<open>n \<noteq> 0\<close> n(1) sel(1) by (cases sources; cases n) auto
  moreover have "sources_fit q (history_part q h) (source_part q h) selected" using n(3) \<open>n \<noteq> 0\<close> sel(1) by simp
  ultimately show ?thesis using budget_prompt_select [of q h selected] sel(2) by (simp add: Let_def)
qed

section \<open>Storing and reading back\<close>

text \<open>A line of nodes from one of them up to a root of the library.\<close>

fun lineage :: "library_node list \<Rightarrow> library_node list \<Rightarrow> bool" where
  "lineage nodes [] = False"
| "lineage nodes [n] \<longleftrightarrow> n \<in> set nodes \<and> n_parent n = None"
| "lineage nodes (n # m # ms) \<longleftrightarrow> n \<in> set nodes \<and> n_parent n = Some (n_id m) \<and> lineage nodes (m # ms)"

lemma lineage_head: "lineage nodes (n # ms) \<Longrightarrow> n \<in> set nodes"
  by (cases ms) auto

lemma lineage_steps: "lineage nodes (n # ms) \<Longrightarrow> \<exists>r. (n, r) \<in> parent_rel nodes ^^ length ms"
proof (induction ms arbitrary: n)
  case (Cons m ms)
  then obtain r where "(m, r) \<in> parent_rel nodes ^^ length ms" by auto
  moreover have "(n, m) \<in> parent_rel nodes" using Cons.prems lineage_head by (auto simp: parent_rel_def)
  ultimately have "(n, r) \<in> parent_rel nodes ^^ Suc (length ms)" by (rule relpow_Suc_I2 [rotated])
  then show ?case by auto
qed auto

lemma select_by_id:
  assumes "distinct (map n_id nodes)" "m \<in> set nodes"
  shows "[(n, k). n \<leftarrow> nodes, n_id n = n_id m] = [(m, k)]"
  using assms
proof (induction nodes)
  case (Cons n nodes)
  show ?case
  proof (cases "n = m")
    case True
    then have "n_id x \<noteq> n_id m" if "x \<in> set nodes" for x using Cons.prems(1) that by (force simp: image_iff)
    then have "[(n, k). n \<leftarrow> nodes, n_id n = n_id m] = []" by (simp add: concat_eq_Nil_conv)
    then show ?thesis using True by simp
  next
    case False
    then have "n_id n \<noteq> n_id m" using Cons.prems by (auto simp: image_iff)
    then show ?thesis using Cons False by simp
  qed
qed simp

lemma lineage_recursion:
  assumes "distinct (map n_id nodes)" "lineage nodes (n # ms)" "length ms \<le> fuel"
  shows "with_recursive fuel (\<lambda>(n, depth). [(p, depth + 1). p \<leftarrow> nodes, n_parent n = Some (n_id p)]) [(n, k)] =
    zip (n # ms) [k..<k + Suc (length ms)]"
  using assms(2,3)
proof (induction ms arbitrary: n k fuel)
  case Nil
  then show ?case by (cases fuel; cases "fuel - 1") (auto simp: upt_rec)
next
  case (Cons m ms)
  then obtain f where f: "fuel = Suc f" by (cases fuel) auto
  have m: "m \<in> set nodes" "n_parent n = Some (n_id m)" "lineage nodes (m # ms)" using Cons.prems(1) lineage_head by auto
  have "[(p, k + 1). p \<leftarrow> nodes, n_parent n = Some (n_id p)] = [(m, k + 1)]"
    using select_by_id [OF assms(1) m(1), of "k + 1"] by (simp add: m(2) eq_commute)
  moreover have "zip (n # m # ms) [k..<k + Suc (length (m # ms))] = (n, k) # zip (m # ms) [Suc k..<Suc k + Suc (length ms)]"
    by (simp add: upt_conv_Cons del: upt_Suc)
  ultimately show ?case using Cons.IH [OF m(3), of f "Suc k"] Cons.prems(2) f by (simp del: upt_Suc zip.simps(2))
qed

lemma ancestors_lineage:
  assumes "library_ok nodes" "lineage nodes (n # ms)"
  shows "ancestors (n_id n) nodes = zip (n # ms) [1..<Suc (Suc (length ms))]"
proof -
  have ok: "distinct (map n_id nodes)" "tree_ranked nodes" using assms(1) by (simp_all add: library_ok_def)
  obtain r where "(n, r) \<in> parent_rel nodes ^^ length ms" using lineage_steps [OF assms(2)] by blast
  then have "length ms \<le> length nodes" by (rule parent_steps_bounded [OF ok(2)])
  then show ?thesis
    unfolding ancestors_def select_by_id [OF ok(1) lineage_head [OF assms(2)]] using lineage_recursion [OF ok(1) assms(2), of "length nodes" 1]
    by (simp del: upt_Suc)
qed

lemma join_snoc: "xs \<noteq> [] \<Longrightarrow> join sep (xs @ [y]) = join sep xs @ sep @ y"
  by (induction sep xs rule: join.induct) (auto simp: neq_Nil_conv)

text \<open>What the caller sees of a path is the path.\<close>

lemma logical_path_lineage:
  assumes "library_ok nodes" "lineage nodes (n # ms)"
  shows "logical_path nodes (n_id n) = ''/'' @ join ''/'' (map n_name (rev (n # ms)))"
proof -
  let ?rows = "zip (n # ms) [1..<Suc (Suc (length ms))]"
  have len: "length (n # ms) = length [1..<Suc (Suc (length ms))]" by (simp del: upt_Suc)
  have "map snd ?rows = [1..<Suc (Suc (length ms))]" using len by (intro map_snd_zip) simp
  then have "sorted (map snd ?rows)" by (simp del: upt_Suc)
  then have "sort_key snd ?rows = ?rows" by (rule sort_key_id_if_sorted)
  moreover have "map (n_name \<circ> fst) (rev ?rows) = map n_name (rev (n # ms))"
  proof -
    have "map fst ?rows = n # ms" using len by (intro map_fst_zip) simp
    then show ?thesis by (metis map_map rev_map)
  qed
  ultimately show ?thesis by (simp only: logical_path_def ancestors_lineage [OF assms])
qed

lemma visible_lineage:
  assumes "(n, path, path_ids) \<in> set (visible_paths now token actor s)"
  obtains ms where "lineage (library_nodes s) (n # ms)" "path = ''/'' @ join ''/'' (map n_name (rev (n # ms)))"
proof -
  from assms obtain m k where m: "m \<in> set (library_nodes s)" "n_parent m = None"
    and run: "((m, ''/'' @ n_name m, [n_id m]), (n, path, path_ids)) \<in> {(a, b). b \<in> set (visible_step now token actor s a)} ^^ k"
    by (auto simp: visible_paths_def in_with_recursive split: if_splits)
  from run have "\<exists>ms. lineage (library_nodes s) (n # ms) \<and> path = ''/'' @ join ''/'' (map n_name (rev (n # ms)))"
  proof (induction k arbitrary: n path path_ids)
    case 0
    then show ?case using m by (intro exI [of _ "[]"]) auto
  next
    case (Suc k)
    then obtain p where p: "((m, ''/'' @ n_name m, [n_id m]), p) \<in> {(a, b). b \<in> set (visible_step now token actor s a)} ^^ k"
      "(n, path, path_ids) \<in> set (visible_step now token actor s p)" by auto
    obtain u v w where row: "p = (u, v, w)" by (cases p)
    from Suc.IH p(1) row obtain ms where ms: "lineage (library_nodes s) (u # ms)" "v = ''/'' @ join ''/'' (map n_name (rev (u # ms)))" by blast
    from p(2) row have step: "n \<in> set (library_nodes s)" "n_parent n = Some (n_id u)" "path = v @ ''/'' @ n_name n"
      by (auto simp: visible_step_def split: if_splits)
    then show ?case using ms join_snoc [of "map n_name (rev (u # ms))" "''/''" "n_name n"]
      by (intro exI [of _ "u # ms"]) simp
  qed
  then show ?thesis using that by blast
qed

text \<open>The location of a document is the name of a node of the document and the path the database computes for the node.\<close>

lemma location_of_document:
  assumes "locations_for_documents_in_session now token actor document_ids s = Inr locations" "locations d = Some location"
    "library_ok (library_nodes s)"
  obtains n where "n \<in> set (library_nodes s)" "n_document n = Some d" "ll_display_name location = n_name n"
    "ll_logical_path location = logical_path (library_nodes s) (n_id n)"
proof -
  have "(d, location) \<in> set (location_rows now token actor document_ids s)"
    using assms(1,2) by (auto simp: locations_for_documents_in_session_def Let_def split: if_splits dest: map_of_SomeD)
  then obtain n path path_ids where n: "(n, path, path_ids) \<in> set (visible_paths now token actor s)" "n_document n = Some d"
    "location = \<lparr>ll_node_id = n_id n, ll_parent_id = n_parent n, ll_display_name = n_name n, ll_logical_path = path,
                  ll_uploader_user_id = n_uploader n\<rparr>"
    by (auto simp: location_rows_def split: if_splits)
  from visible_lineage [OF n(1)] obtain ms where "lineage (library_nodes s) (n # ms)" "path = ''/'' @ join ''/'' (map n_name (rev (n # ms)))" .
  then show ?thesis using that [of n] n(2,3) logical_path_lineage [OF assms(3)] lineage_head by simp
qed

text \<open>A source with the file name of its document.\<close>

definition with_document_name :: "db \<Rightarrow> ChatSourceSnapshot \<Rightarrow> ChatSourceSnapshot" where
  "with_document_name db s =
     (case List.find (\<lambda>d. cs_document_id s = Some (d_id d)) (documents db) of
        None \<Rightarrow> s | Some d \<Rightarrow> s\<lparr>cs_original_filename := d_filename d\<rparr>)"

lemma retained_row:
  assumes "retained now token ids c k = Some (ck, d)"
  shows "ck \<in> set (chunks (content c)) \<and> c_id ck = k \<and> d \<in> set (documents (content c)) \<and> d_id d = c_document ck"
proof -
  let ?rows = "[(ck, d). ck \<leftarrow> chunks (content c), c_id ck = k, d \<leftarrow> documents (content c),
    d_id d = c_document ck \<and> d_id d \<in> set ids \<and> d_state d = READY \<and> v4_can_read_document now token (d_id d) (secured c)]"
  have "(ck, d) \<in> set (rev ?rows)" using assms unfolding retained_def by (cases "rev ?rows") (simp_all del: set_rev)
  then show ?thesis by auto
qed

text \<open>A draft at its place carries the columns of its chunk, of its document and of its location.\<close>

definition drafted :: "(uuid \<Rightarrow> (chunk_row \<times> document) option) \<Rightarrow> (uuid \<Rightarrow> document_location option) \<Rightarrow> ChatSourceSnapshot \<Rightarrow> bool" where
  "drafted kept locations s \<longleftrightarrow> (\<exists>n item ck d location. kept (rk_chunk item) = Some (ck, d) \<and> locations (d_id d) = Some location \<and>
     s = draft_of n item ck d location)"

lemma draftedI: "kept (rk_chunk item) = Some (ck, d) \<Longrightarrow> locations (d_id d) = Some location \<Longrightarrow> drafted kept locations (draft_of n item ck d location)"
  unfolding drafted_def by blast

lemma relabeled_draft: "relabeled n (draft_of m item ck d location) = draft_of n item ck d location"
  by (simp add: relabeled_def draft_of_def Let_def)

lemma draft_sources_drafted:
  "draft_sources kept locations drafts ranked = Inr ds \<Longrightarrow> \<forall>s \<in> set drafts. drafted kept locations s \<Longrightarrow> \<forall>s \<in> set ds. drafted kept locations s"
proof (induction ranked arbitrary: drafts)
  case (Cons item ranked)
  then show ?case
  proof (cases "kept (rk_chunk item)")
    case (Some row)
    obtain ck d where row: "row = (ck, d)" by (cases row)
    show ?thesis
    proof (cases "locations (d_id d)")
      case None
      then show ?thesis using Cons.prems(1) Some row by simp
    next
      case loc: (Some location)
      have "drafted kept locations (draft_of (length drafts) item ck d location)"
        using Some row loc by (simp add: draftedI)
      then show ?thesis using Cons.IH [of "drafts @ [draft_of (length drafts) item ck d location]"] Cons.prems Some row loc by auto
    qed
  qed simp
qed simp

lemma relabel_drafted: "x \<in> set (relabel_from n ss) \<Longrightarrow> \<forall>s \<in> set ss. drafted kept locations s \<Longrightarrow> drafted kept locations x"
proof (induction ss arbitrary: n)
  case (Cons s ss)
  have "drafted kept locations s" using Cons.prems(2) by simp
  then have "drafted kept locations (relabeled n s)" unfolding drafted_def using relabeled_draft by metis
  then show ?case using Cons by auto
qed simp

lemma drafted_source:
  assumes "drafted (retained now token ids c) locations s" "unique_ok (content c)" "library_ok (library_nodes (secured c))"
    "locations_for_documents_in_session now token actor document_ids (secured c) = Inr locations"
    "ck \<in> set (chunks (content c))" "cs_chunk_id s = Some (c_id ck)" "d \<in> set (documents (content c))" "d_id d = c_document ck"
    "\<forall>m \<in> set (library_nodes (secured c)). n_document m = Some (d_id d) \<longrightarrow> m = n" "cs_label s = ''S'' @ show_int (cs_rank s)"
  shows "snapshot_from_row (source_of (library_nodes (secured c)) turn (cs_rank s) (cs_retrieval_distance s) (cs_rerank_score s) ck d n) =
    with_document_name (content c) s"
proof -
  from assms(1) obtain k item ck' d' location where draft: "retained now token ids c (rk_chunk item) = Some (ck', d')"
    "locations (d_id d') = Some location" "s = draft_of k item ck' d' location" unfolding drafted_def by blast
  note row = retained_row [OF draft(1)]
  have "c_id ck' = c_id ck" using assms(6) draft(3) by (simp add: draft_of_def Let_def)
  moreover have keys: "inj_on c_id (set (chunks (content c)))" "inj_on d_id (set (documents (content c)))"
    using assms(2) by (simp_all add: unique_ok_def distinct_map)
  ultimately have "ck' = ck" using assms(5) row by (intro inj_onD [OF keys(1)]) simp_all
  moreover from this have "d_id d' = d_id d" using assms(8) row by simp
  then have "d' = d" using assms(7) row by (intro inj_onD [OF keys(2)]) simp_all
  ultimately have draft': "s = draft_of k item ck d location" "locations (d_id d) = Some location" using draft by simp_all
  from location_of_document [OF assms(4) draft'(2) assms(3)] obtain m where "m \<in> set (library_nodes (secured c))" "n_document m = Some (d_id d)"
    "ll_display_name location = n_name m" "ll_logical_path location = logical_path (library_nodes (secured c)) (n_id m)" .
  then have loc: "ll_display_name location = n_name n" "ll_logical_path location = logical_path (library_nodes (secured c)) (n_id n)"
    using assms(9) by auto
  have "List.find (\<lambda>x. d_id d = d_id x) (documents (content c)) = Some d"
  proof -
    obtain x where x: "List.find (\<lambda>x. d_id d = d_id x) (documents (content c)) = Some x"
      using assms(7) by (cases "List.find (\<lambda>x. d_id d = d_id x) (documents (content c))") (auto simp: find_None_iff)
    from find_SomeD [OF this] have "x \<in> set (documents (content c))" "d_id d = d_id x" by blast+
    then have "x = d" using assms(7) by (intro inj_onD [OF keys(2)]) simp_all
    then show ?thesis using x by simp
  qed
  then show ?thesis by (simp add: draft'(1) loc with_document_name_def snapshot_from_row_def source_of_def draft_of_def Let_def)
qed

lemma concat_single:
  assumes "\<forall>x \<in> set xs. length (f x) \<le> 1" "length (concat (map f xs)) = length xs"
  shows "\<forall>x \<in> set xs. length (f x) = 1"
proof -
  have le: "length (concat (map f ys)) \<le> length ys" if "\<forall>y \<in> set ys. length (f y) \<le> 1" for ys
    using that by (induction ys) auto
  show ?thesis using assms
  proof (induction xs)
    case (Cons x xs)
    then have "length (concat (map f xs)) \<le> length xs" "length (f x) \<le> 1" using le [of xs] by simp_all
    then show ?case using Cons by auto
  qed simp
qed

lemma concat_map_back: "\<forall>x \<in> set xs. length (f x) = 1 \<and> (\<forall>y \<in> set (f x). g y = h x) \<Longrightarrow> map g (concat (map f xs)) = map h xs"
  by (induction xs) (auto simp: length_Suc_conv)

lemma rmap_id_Inr: "rmap id xs = Inr ys \<Longrightarrow> xs = map Inr ys"
  by (induction xs arbitrary: ys) (auto simp: rbind_Inr_iff)

lemma distinct_constant: "distinct xs \<Longrightarrow> \<forall>x \<in> set xs. x = a \<Longrightarrow> length xs \<le> 1"
  by (cases xs; cases "tl xs") auto

definition rows_for :: "time \<Rightarrow> string \<Rightarrow> uuid \<Rightarrow> chat_db \<Rightarrow> requested_source \<Rightarrow> (sql_error, source_row) result list" where
  "rows_for now token turn c r =
     [requested_row (library_nodes (secured c)) turn r ck d n.
        ck \<leftarrow> chunks (content c), rq_chunk r = Some (c_id ck),
        d \<leftarrow> documents (content c), d_id d = c_document ck, n \<leftarrow> library_nodes (secured c), n_document n = Some (d_id d),
        d_state d = READY \<and> v4_can_read_document now token (d_id d) (secured c)]"

lemma joined_rows: "joined_sources now token turn rs c = concat (map (rows_for now token turn c) rs)"
  by (simp add: joined_sources_def rows_for_def [abs_def])

lemma row_for_source:
  assumes "y \<in> set (map projr (rows_for now token turn c (source_payload s)))"
  obtains ck d n where "ck \<in> set (chunks (content c))" "cs_chunk_id s = Some (c_id ck)" "d \<in> set (documents (content c))" "d_id d = c_document ck"
    "n \<in> set (library_nodes (secured c))" "n_document n = Some (d_id d)" "v4_can_read_document now token (d_id d) (secured c)" "d_state d = READY"
    "y = source_of (library_nodes (secured c)) turn (cs_rank s) (cs_retrieval_distance s) (cs_rerank_score s) ck d n"
  using assms by (auto simp: rows_for_def source_payload_def requested_row_def split: if_splits)

text \<open>A source that yields at most one row belongs to a document with one node.\<close>

lemma length_concat_le: "x \<in> set xs \<Longrightarrow> length x \<le> length (concat xs)"
  by (induction xs) auto

lemma selected_once:
  assumes "length (concat (map (\<lambda>n. if P n then [h n] else []) xs)) \<le> 1" "n \<in> set xs" "P n" "m \<in> set xs" "P m"
  shows "m = n"
proof -
  have some: "1 \<le> length (concat (map (\<lambda>n. if P n then [h n] else []) ys))" if "x \<in> set ys" "P x" for x ys
  proof -
    have "[h x] \<in> set (map (\<lambda>n. if P n then [h n] else []) ys)" using that by force
    from length_concat_le [OF this] show ?thesis by simp
  qed
  from assms show ?thesis
  proof (induction xs)
    case (Cons y ys)
    show ?case
    proof (cases "P y")
      case True
      then have "length (concat (map (\<lambda>n. if P n then [h n] else []) ys)) = 0" using Cons.prems(1) by simp
      then have "\<not> P x" if "x \<in> set ys" for x using some [OF that] by (metis not_one_le_zero)
      then show ?thesis using Cons.prems by auto
    next
      case False
      then show ?thesis using Cons by auto
    qed
  qed simp
qed

lemma single_node:
  assumes "length (rows_for now token turn c (source_payload s)) \<le> 1"
    "ck \<in> set (chunks (content c))" "cs_chunk_id s = Some (c_id ck)" "d \<in> set (documents (content c))" "d_id d = c_document ck"
    "d_state d = READY" "v4_can_read_document now token (d_id d) (secured c)"
    "n \<in> set (library_nodes (secured c))" "n_document n = Some (d_id d)" "m \<in> set (library_nodes (secured c))" "n_document m = Some (d_id d)"
  shows "m = n"
proof -
  let ?h = "requested_row (library_nodes (secured c)) turn (source_payload s)"
  let ?nodes = "\<lambda>ck d. concat (map (\<lambda>n. if n_document n = Some (d_id d) then
      if d_state d = READY \<and> v4_can_read_document now token (d_id d) (secured c) then [?h ck d n] else [] else []) (library_nodes (secured c)))"
  let ?docs = "\<lambda>ck. concat (map (\<lambda>d. if d_id d = c_document ck then ?nodes ck d else []) (documents (content c)))"
  let ?chunks = "concat (map (\<lambda>ck. if rq_chunk (source_payload s) = Some (c_id ck) then ?docs ck else []) (chunks (content c)))"
  have "?nodes ck d \<in> set (map (\<lambda>d. if d_id d = c_document ck then ?nodes ck d else []) (documents (content c)))"
    using assms(4,5) by force
  then have "length (?nodes ck d) \<le> length (?docs ck)" by (rule length_concat_le)
  also have "?docs ck \<in> set (map (\<lambda>ck. if rq_chunk (source_payload s) = Some (c_id ck) then ?docs ck else []) (chunks (content c)))"
    using assms(2,3) by (force simp: source_payload_def)
  then have "length (?docs ck) \<le> length ?chunks" by (rule length_concat_le)
  also have "?chunks = rows_for now token turn c (source_payload s)" by (simp only: rows_for_def)
  finally have "length (?nodes ck d) \<le> 1" using assms(1) by linarith
  then have "length (concat (map (\<lambda>n. if n_document n = Some (d_id d) then [?h ck d n] else []) (library_nodes (secured c)))) \<le> 1"
    by (simp only: assms(6,7) simp_thms if_True)
  from selected_once [OF this assms(8,9,10,11)] show ?thesis .
qed

lemma store_turn_sources_rows:
  "v4_store_turn_sources env now token turn g (Some rs) c = Inr (n, c1) \<Longrightarrow>
   \<exists>rows. rmap id (joined_sources now token turn rs c) = Inr rows \<and> c1 = c\<lparr>turn_sources := turn_sources c @ rows\<rparr> \<and> chats_ok env c1 \<and>
     length rows = length rs \<and> n = length rows \<and> (\<exists>t \<in> set (turns c). tn_id t = turn \<and> generating_under now token g c t)"
  by (auto simp: v4_store_turn_sources_def rbind_Inr_iff split: if_splits)

lemma stored_rows:
  assumes "v4_store_turn_sources env now token turn g (Some (map source_payload selected)) c = Inr (stored, c1)"
    "\<forall>s \<in> set selected. drafted (retained now token ids c) locations s \<and> cs_label s = ''S'' @ show_int (cs_rank s)"
    "unique_ok (content c)" "library_ok (library_nodes (secured c))"
    "locations_for_documents_in_session now token actor document_ids (secured c) = Inr locations"
  obtains rows where "c1 = c\<lparr>turn_sources := turn_sources c @ rows\<rparr>" "map snapshot_from_row rows = map (with_document_name (content c)) selected"
    "stored = length selected" "\<exists>t \<in> set (turns c). tn_id t = turn \<and> generating_under now token g c t"
    "\<forall>r \<in> set rows. sr_turn r = turn \<and> source_authorized now token c r"
proof -
  let ?f = "\<lambda>s. map projr (rows_for now token turn c (source_payload s))"
  from assms(1) obtain rows where rows: "rmap id (joined_sources now token turn (map source_payload selected) c) = Inr rows"
    "c1 = c\<lparr>turn_sources := turn_sources c @ rows\<rparr>" "chats_ok env c1" "length rows = length selected" "stored = length rows"
    "\<exists>t \<in> set (turns c). tn_id t = turn \<and> generating_under now token g c t"
    using store_turn_sources_rows [OF assms(1)] unfolding length_map by blast
  have "map Inr rows = concat (map (rows_for now token turn c) (map source_payload selected))"
    using rmap_id_Inr [OF rows(1)] by (simp add: joined_rows)
  then have "map projr (map Inr rows :: (sql_error, source_row) result list) = map projr (concat (map (rows_for now token turn c) (map source_payload selected)))"
    by simp
  then have all: "rows = concat (map ?f selected)" by (simp add: map_concat comp_def)
  have key: "sr_turn y = turn \<and> sr_rank y = cs_rank s \<and> source_authorized now token c y" if "y \<in> set (?f s)" for s y
    using that
  proof (rule row_for_source)
    fix ck d n
    assume "v4_can_read_document now token (d_id d) (secured c)"
      "y = source_of (library_nodes (secured c)) turn (cs_rank s) (cs_retrieval_distance s) (cs_rerank_score s) ck d n"
    then show ?thesis by (simp add: source_of_def source_authorized_def Let_def)
  qed
  have "distinct (map (\<lambda>r. (sr_turn r, sr_rank r)) rows)" using rows(2,3) by (simp add: chats_ok_def chat_uniques_def)
  then have each: "distinct (map (\<lambda>r. (sr_turn r, sr_rank r)) (?f s))" if "s \<in> set selected" for s
    using that unfolding all map_concat by (induction selected) auto
  have "\<forall>s \<in> set selected. length (?f s) \<le> 1"
  proof
    fix s assume s: "s \<in> set selected"
    have "\<forall>y \<in> set (?f s). (sr_turn y, sr_rank y) = (turn, cs_rank s)"
    proof
      fix y assume "y \<in> set (?f s)"
      from key [OF this] show "(sr_turn y, sr_rank y) = (turn, cs_rank s)" by simp
    qed
    then have "length (map (\<lambda>r. (sr_turn r, sr_rank r)) (?f s)) \<le> 1"
      by (intro distinct_constant [OF each [OF s], of "(turn, cs_rank s)"]) (simp only: set_map ball_simps)
    then show "length (?f s) \<le> 1" by simp
  qed
  then have once: "\<forall>s \<in> set selected. length (?f s) = 1" using concat_single [of selected ?f] rows(4) all by simp
  have "snapshot_from_row y = with_document_name (content c) s" if "s \<in> set selected" "y \<in> set (?f s)" for s y
    using that(2)
  proof (rule row_for_source)
    fix ck d n
    assume row: "ck \<in> set (chunks (content c))" "cs_chunk_id s = Some (c_id ck)" "d \<in> set (documents (content c))" "d_id d = c_document ck"
      "n \<in> set (library_nodes (secured c))" "n_document n = Some (d_id d)" "v4_can_read_document now token (d_id d) (secured c)" "d_state d = READY"
      "y = source_of (library_nodes (secured c)) turn (cs_rank s) (cs_retrieval_distance s) (cs_rerank_score s) ck d n"
    have "length (rows_for now token turn c (source_payload s)) \<le> 1" using once that(1) by simp
    from single_node [OF this row(1,2,3,4,8,7,5,6)] have "\<forall>m \<in> set (library_nodes (secured c)). n_document m = Some (d_id d) \<longrightarrow> m = n" by blast
    from drafted_source [OF _ assms(3,4,5) row(1,2,3,4) this] show "snapshot_from_row y = with_document_name (content c) s"
      unfolding row(9) using assms(2) that(1) by blast
  qed
  then have "\<forall>s \<in> set selected. length (?f s) = 1 \<and> (\<forall>y \<in> set (?f s). snapshot_from_row y = with_document_name (content c) s)"
    using once by blast
  then have "map snapshot_from_row rows = map (with_document_name (content c)) selected" unfolding all by (rule concat_map_back)
  moreover have "\<forall>r \<in> set rows. sr_turn r = turn \<and> source_authorized now token c r"
  proof
    fix r assume "r \<in> set rows"
    then obtain s where "s \<in> set selected" "r \<in> set (?f s)" unfolding all by fastforce
    from key [OF this(2)] show "sr_turn r = turn \<and> source_authorized now token c r" by simp
  qed
  ultimately show ?thesis using that [of rows] rows(2,4,5,6) by simp
qed

lemma with_document_name_rank: "cs_rank (with_document_name db s) = cs_rank s"
  by (simp add: with_document_name_def split: option.splits)

lemma relabel_ranks: "map cs_rank (relabel_from n ss) = map (\<lambda>i. int i + 1) [n..<n + length ss]"
  by (induction ss arbitrary: n) (simp_all add: relabeled_def upt_rec)

lemma relabel_sorted: "sorted (map cs_rank (relabel_from n ss))"
  by (simp add: relabel_ranks sorted_iff_nth_mono)

lemma snapshot_rank: "cs_rank (snapshot_from_row r) = sr_rank r"
  by (simp add: snapshot_from_row_def Let_def)

lemma authorized_rows_new:
  assumes "c1 = c\<lparr>turn_sources := turn_sources c @ rows\<rparr>" "\<forall>r \<in> set (turn_sources c). sr_turn r \<noteq> turn"
    "\<exists>t \<in> set (turns c). tn_id t = turn \<and> generating_under now token g c t"
    "\<forall>r \<in> set rows. sr_turn r = turn \<and> source_authorized now token c r" "sorted (map sr_rank rows)"
  shows "authorized_rows now token turn c1 = rows"
proof -
  have same: "source_authorized now token c1 r = source_authorized now token c r" for r
    by (simp add: assms(1) source_authorized_def split: option.splits)
  have "actor_of now token c1 = actor_of now token c" "turns c1 = turns c" "chats c1 = chats c" by (simp_all add: assms(1) actor_of_def)
  then have "owned_turn now token c1 turn" using assms(3) unfolding owned_turn_def generating_under_def by auto
  moreover have "all_authorized now token c1 turn" using assms(2,4) unfolding all_authorized_def same by (simp add: assms(1) ball_Un)
  ultimately have "filter (\<lambda>r. sr_turn r = turn) (v4_authorized_turn_sources now token c1) = filter (\<lambda>r. sr_turn r = turn) (turn_sources c1)"
    unfolding v4_authorized_turn_sources_def filter_filter by (intro filter_cong) auto
  also have "\<dots> = rows" using assms(1,2,4) by (simp add: filter_id_conv)
  finally show ?thesis using assms(5) by (simp add: authorized_rows_def sort_key_id_if_sorted)
qed

text \<open>
  C29: what the application prepared is what it reads back. When the sources of a turn were drafted
  from the retrieved chunks and the locations of their documents and cut to the budget, and the
  database stored them, the rows it returns are the prepared sources again, field by field and in their
  order, but that the file name is that of the document, where the draft has the one of the chunk. Where
  these are the same, preparing the prompt once more from the rows gives the same sources and the same
  prompt: the preparation succeeds with them and none of its errors after the storage arises.
\<close>

theorem stored_sources_read_back:
  assumes "own_chat now token (bt_chat_id begin) c \<noteq> None"
    "\<exists>(t, hidden) \<in> set (v4_chat_history now token c). tn_chat t = bt_chat_id begin \<and> tn_id t = bt_turn_id begin \<and>
       tn_status t = GENERATING \<and> tn_generation_token t = bt_token begin"
    "locations_for_documents_in_session now token (fst actor)
       (retained_documents (retained now token (bt_document_ids begin) c) ranked) (secured c) = Inr locations"
    "draft_sources (retained now token (bt_document_ids begin) c) locations [] ranked = Inr drafts"
    "budget_prompt (bt_question begin) (bt_history begin) drafts = Inr (selected, Some prompt)"
    "v4_store_turn_sources env now token (bt_turn_id begin) (bt_token begin) (Some (map source_payload selected)) c = Inr (stored, c1)"
    "\<forall>r \<in> set (turn_sources c). sr_turn r \<noteq> bt_turn_id begin"
    "unique_ok (content c)" "library_ok (library_nodes (secured c))"
  shows "map snapshot_from_row (authorized_rows now token (bt_turn_id begin) c1) = map (with_document_name (content c)) selected \<and>
    (map (with_document_name (content c)) selected = selected \<longrightarrow>
       snapshot_sources env now token actor begin ranked c = Inr ((selected, Some prompt), c1))"
proof -
  from budget_prompt_result [of drafts "bt_question begin" "bt_history begin"] assms(5) obtain n where
    sel: "selected = relabel_from 0 (take n drafts)" and "n \<noteq> 0" "n \<le> length drafts" by (auto split: if_splits)
  then have nonempty: "selected \<noteq> []" by (cases drafts; cases n) auto
  have "\<forall>s \<in> set drafts. drafted (retained now token (bt_document_ids begin) c) locations s"
    using draft_sources_drafted [OF assms(4)] by simp
  then have "\<forall>s \<in> set (take n drafts). drafted (retained now token (bt_document_ids begin) c) locations s" by (meson in_set_takeD)
  then have "\<forall>s \<in> set selected. drafted (retained now token (bt_document_ids begin) c) locations s" using relabel_drafted sel by blast
  moreover have "cs_label s = ''S'' @ show_int (cs_rank s)" if "s \<in> set selected" for s
    using that unfolding sel by (rule relabel_label) (simp add: show_int_def nat_add_distrib)
  ultimately have "\<forall>s \<in> set selected. drafted (retained now token (bt_document_ids begin) c) locations s \<and> cs_label s = ''S'' @ show_int (cs_rank s)"
    by blast
  from stored_rows [OF assms(6) this assms(8,9,3)] obtain rows where rows: "c1 = c\<lparr>turn_sources := turn_sources c @ rows\<rparr>"
    "map snapshot_from_row rows = map (with_document_name (content c)) selected" "stored = length selected"
    "\<exists>t \<in> set (turns c). tn_id t = bt_turn_id begin \<and> generating_under now token (bt_token begin) c t"
    "\<forall>r \<in> set rows. sr_turn r = bt_turn_id begin \<and> source_authorized now token c r" by blast
  have "map cs_rank (map snapshot_from_row rows) = map cs_rank selected" by (simp add: rows(2) with_document_name_rank)
  then have "map sr_rank rows = map cs_rank selected" by (simp add: snapshot_rank comp_def)
  then have "sorted (map sr_rank rows)" using relabel_sorted [of 0 "take n drafts"] sel by simp
  then have read: "map snapshot_from_row (authorized_rows now token (bt_turn_id begin) c1) = map (with_document_name (content c)) selected"
    using authorized_rows_new [OF rows(1) assms(7) rows(4,5)] rows(2) by simp
  then have len: "length (authorized_rows now token (bt_turn_id begin) c1) = length selected" by (metis length_map)
  have "snapshot_sources env now token actor begin ranked c = Inr ((selected, Some prompt), c1)"
    if "map (with_document_name (content c)) selected = selected"
    using read that assms(1-6) budget_prompt_again [OF assms(5)] nonempty rows(3)
    by (simp add: snapshot_sources_def lift_runtime_def lift_sql_def Let_def len)
  then show ?thesis using read by blast
qed

definition ex_begin :: BeginTurn where
  "ex_begin = \<lparr>bt_actor = (2, ROLE_MEMBER, 2, 5, 51), bt_chat_id = 40, bt_turn_id = 41, bt_token = Some 42,
     bt_question = ''why'', bt_attempt = 1, bt_document_ids = [100], bt_history = [], bt_retrieval_query = ''why'',
     bt_already_complete = False, bt_continuation_answer = None\<rparr>"

definition ex_locations :: "uuid \<Rightarrow> document_location option" where
  "ex_locations = map_of [(100, \<lparr>ll_node_id = 11, ll_parent_id = Some 10, ll_display_name = ''a.pdf'', ll_logical_path = ''/F/a.pdf'',
     ll_uploader_user_id = Some 1\<rparr>)]"

definition ex_prepared :: ChatSourceSnapshot where "ex_prepared = snapshot_from_row ex_source"

lemma ex_store:
  "v4_store_turn_sources demo_env 5 (key_of CHR ''b'') (bt_turn_id ex_begin) (bt_token ex_begin) (Some (map source_payload [ex_prepared])) cx3 = Inr (1, cx4)"
  using cx4_ok by (simp add: ex_begin_def source_payload_def ex_prepared_def snapshot_from_row_def ex_source_def)

lemma count_tokens_length: "count_tokens s \<le> length s"
proof (induction "length s" arbitrary: s rule: less_induct)
  case less
  show ?case
  proof (cases s)
    case (Cons c cs)
    have "length (dropWhile is_word cs) \<le> length cs" by (rule length_dropWhile_le)
    then show ?thesis using less [of cs] less [of "dropWhile is_word cs"] Cons by (auto simp: count_tokens_Cons)
  qed simp
qed

lemma ex_fits: "sources_fit ''why'' (history_part ''why'' []) (source_part ''why'' []) [ex_prepared]"
proof -
  have none: "history_part ''why'' [] = []" by (simp add: history_part_def select_history_def)
  have block: "length (source_block ex_prepared) \<le> 1000" "length (render_prompt ''why'' [] []) \<le> 1000" by code_simp+
  have "render_prompt ''why'' [] (source_block ex_prepared) = render_prompt ''why'' [] [] @ source_block ex_prepared"
    by (simp only: render_prompt_def append_assoc append_Nil2)
  then have "length (render_prompt ''why'' [] (source_block ex_prepared)) \<le> 2000" using block by simp
  then have "\<not> over_context (render_prompt ''why'' [] (source_block ex_prepared))"
    using count_tokens_length [of "render_prompt ''why'' [] (source_block ex_prepared)"]
    by (simp add: over_context_def MODEL_CONTEXT_TOKENS_def OUTPUT_TOKENS_def PROMPT_FORMATTING_RESERVE_TOKENS_def)
  moreover have "source_part ''why'' [] = 6144"
    using count_tokens_length [of "render_prompt ''why'' [] []"] block(2)
    by (simp add: source_part_def none combined_budget_def MAX_COMBINED_TOKENS_def MODEL_CONTEXT_TOKENS_def OUTPUT_TOKENS_def PROMPT_FORMATTING_RESERVE_TOKENS_def)
  ultimately show ?thesis using count_tokens_length [of "source_block ex_prepared"] block(1) by (simp add: sources_fit_def none)
qed

theorem budget_prompt_within_limits_witness:
  "\<exists>p. budget_prompt ''why'' [] [ex_prepared] = Inr ([ex_prepared], Some p) \<and> prompt_within_limits ''why'' [] (source_block ex_prepared) p"
proof -
  have label: "relabel_from 0 [ex_prepared] = [ex_prepared]" by code_simp
  obtain n prompt where n: "n \<le> 1" "budget_prompt ''why'' [] [ex_prepared] = Inr (relabel_from 0 (take n [ex_prepared]), prompt)"
    "case prompt of None \<Rightarrow> n = 0
     | Some p \<Rightarrow> 0 < n \<and> prompt_within_limits ''why'' [] (join blank_line (map source_block (relabel_from 0 (take n [ex_prepared])))) p"
    "n = 1 \<or> \<not> sources_fit ''why'' (history_part ''why'' []) (source_part ''why'' []) (relabel_from 0 (take (Suc n) [ex_prepared]))"
    using budget_prompt_within_limits [of "[ex_prepared]" "''why''" "[]"] by auto
  have "n \<noteq> 0"
  proof
    assume "n = 0"
    then show False using n(4) label ex_fits by simp
  qed
  then have "n = 1" using n(1) by simp
  then show ?thesis using n(2,3) label by (cases prompt) auto
qed

lemma ex_located:
  "locations_for_documents_in_session 5 (key_of CHR ''b'') (fst (bt_actor ex_begin))
     (retained_documents (retained 5 (key_of CHR ''b'') (bt_document_ids ex_begin) cx3) [\<lparr>rk_chunk = 7, rk_distance = 0, rk_score = 1\<rparr>])
     (secured cx3) = Inr ex_locations"
proof -
  have "retained_documents (retained 5 (key_of CHR ''b'') (bt_document_ids ex_begin) cx3) [\<lparr>rk_chunk = 7, rk_distance = 0, rk_score = 1\<rparr>] = [100]"
    "location_rows 5 (key_of CHR ''b'') 2 [100] (secured cx3) =
      [(100, \<lparr>ll_node_id = 11, ll_parent_id = Some 10, ll_display_name = ''a.pdf'', ll_logical_path = ''/F/a.pdf'', ll_uploader_user_id = Some 1\<rparr>)]"
    by code_simp+
  then show ?thesis by (simp add: locations_for_documents_in_session_def ex_begin_def ex_locations_def)
qed

theorem stored_sources_read_back_witness:
  "map snapshot_from_row (authorized_rows 5 (key_of CHR ''b'') 41 cx4) = [ex_prepared] \<and>
   (\<exists>prompt. snapshot_sources demo_env 5 (key_of CHR ''b'') (bt_actor ex_begin) ex_begin [\<lparr>rk_chunk = 7, rk_distance = 0, rk_score = 1\<rparr>] cx3 =
      Inr (([ex_prepared], Some prompt), cx4))"
proof -
  have guards: "own_chat 5 (key_of CHR ''b'') (bt_chat_id ex_begin) cx3 \<noteq> None"
    "\<exists>(t, hidden) \<in> set (v4_chat_history 5 (key_of CHR ''b'') cx3). tn_chat t = bt_chat_id ex_begin \<and> tn_id t = bt_turn_id ex_begin \<and>
       tn_status t = GENERATING \<and> tn_generation_token t = bt_token ex_begin" by code_simp+
  have drafts: "draft_sources (retained 5 (key_of CHR ''b'') (bt_document_ids ex_begin) cx3) ex_locations []
      [\<lparr>rk_chunk = 7, rk_distance = 0, rk_score = 1\<rparr>] = Inr [ex_prepared]" by code_simp
  obtain prompt where prompt: "budget_prompt (bt_question ex_begin) (bt_history ex_begin) [ex_prepared] = Inr ([ex_prepared], Some prompt)"
  proof -
    have "relabeled 0 ex_prepared = ex_prepared" by code_simp
    then have "select_sources ''why'' (history_part ''why'' []) (source_part ''why'' []) [] [ex_prepared] = [ex_prepared]"
      by (simp add: select_sources_Cons ex_fits)
    then show ?thesis using that budget_prompt_select [of "''why''" "[]" "[ex_prepared]"] ex_fits by (simp add: ex_begin_def)
  qed
  have rest: "\<forall>r \<in> set (turn_sources cx3). sr_turn r \<noteq> bt_turn_id ex_begin" "unique_ok (content cx3)" by code_simp+
  have forest: "library_ok (library_nodes (secured cx3))"
    using access_inv_library [OF run_access [OF ex11_run]] by (simp add: cx_defs)
  have name: "map (with_document_name (content cx3)) [ex_prepared] = [ex_prepared]" by code_simp
  show ?thesis using stored_sources_read_back [OF guards ex_located drafts prompt ex_store rest forest] name by (auto simp: ex_begin_def)
qed

end
