(* ===== verification/Streaming.thy ===== *)
theory Streaming
  imports SourceSnapshots
begin

text \<open>
  The stream of a chat turn (services/chats.py, ChatService.stream): the generation with one automatic
  continuation, the validation and repair of citations, the end of the turn, and the events sent to
  the client. The model, the database and the client are arguments: what the model generates, what
  the callbacks return, and after which event the client closes the stream. A world that only the
  callbacks change stands for the database; everything that other requests do to it in the meantime
  is part of what the callbacks and the generation do.
\<close>

section \<open>Data\<close>

text \<open>
  The exceptions that matter to the handlers: cancellation of the task, the close of the stream,
  revoked access, and any other with its message and its class.
\<close>

datatype error_class =
  RuntimeErrorClass | ValueErrorClass | ChatConflictClass | ChatNotFoundClass | HTTPExceptionClass nat | GenerationServiceErrorClass | DatabaseErrorClass

fun class_name :: "error_class \<Rightarrow> string" where
  "class_name RuntimeErrorClass = ''RuntimeError''"
| "class_name ValueErrorClass = ''ValueError''"
| "class_name ChatConflictClass = ''ChatConflict''"
| "class_name ChatNotFoundClass = ''ChatNotFound''"
| "class_name (HTTPExceptionClass status) = ''HTTPException''"
| "class_name GenerationServiceErrorClass = ''GenerationServiceError''"
| "class_name DatabaseErrorClass = ''DBAPIError''"

datatype exc = CancelledError | GeneratorExit | AccessRevoked | Failed string error_class

text \<open>What arrives from the model, or an exception raised while waiting for it or monitoring.\<close>

datatype gen_item = Thinking string | AnswerText string | Done "string option" "int option" | Raises exc

datatype event =
  SourcesEvent "ChatSourceSnapshot list" | StatusEvent string | ReasoningStart | ReasoningEnd bool | ReasoningDelta string |
  TokenEvent string | AnswerReset | FinalEvent string bool "ChatSourceSnapshot list" | ErrorEvent string string

record PreparedChatTurn =
  pt_actor :: ActorContext
  pt_chat_id :: uuid
  pt_turn_id :: uuid
  pt_token :: "uuid option"
  pt_prompt :: "string option"
  pt_sources :: "ChatSourceSnapshot list"
  pt_already_complete :: bool
  pt_access_revoked :: bool
  pt_continuation_answer :: "string option"
  pt_citation_base_prompt :: "string option"

text \<open>A call of a callback that ends the turn, with what it returned.\<close>

datatype call =
  Transition string string "exc option"
| Finalize string bool "ChatSourceSnapshot list" "(exc, ChatSourceSnapshot list) result"

record 'w callbacks =
  cb_monitor :: "'w \<Rightarrow> exc option \<times> 'w"
  cb_generate :: "nat \<Rightarrow> string \<Rightarrow> bool \<Rightarrow> 'w \<Rightarrow> gen_item list \<times> 'w"
  cb_transition :: "string \<Rightarrow> string \<Rightarrow> 'w \<Rightarrow> exc option \<times> 'w"
  cb_finalize :: "string \<Rightarrow> bool \<Rightarrow> ChatSourceSnapshot list \<Rightarrow> 'w \<Rightarrow> (exc, ChatSourceSnapshot list) result \<times> 'w"
  cb_closes :: "nat option"

record 'w stream_state =
  st_world :: 'w
  st_events :: "(int \<times> event) list"
  st_sequence :: int
  st_calls :: "call list"

type_synonym ('w, 'a) act = "'w stream_state \<Rightarrow> (exc, 'a) result \<times> 'w stream_state"

section \<open>Actions\<close>

definition sreturn :: "'a \<Rightarrow> ('w, 'a) act" where
  "sreturn x s = (Inr x, s)"

definition sraise :: "exc \<Rightarrow> ('w, 'a) act" where
  "sraise e s = (Inl e, s)"

definition sbind :: "('w, 'a) act \<Rightarrow> ('a \<Rightarrow> ('w, 'b) act) \<Rightarrow> ('w, 'b) act" where
  "sbind m f s = (case m s of (Inl e, s1) \<Rightarrow> (Inl e, s1) | (Inr x, s1) \<Rightarrow> f x s1)"

abbreviation sthen :: "('w, 'a) act \<Rightarrow> ('w, 'b) act \<Rightarrow> ('w, 'b) act" where
  "sthen m k \<equiv> sbind m (\<lambda>_. k)"

definition runtime_error :: "string \<Rightarrow> ('w, 'a) act" where
  "runtime_error message = sraise (Failed message RuntimeErrorClass)"

definition sresult :: "(string, 'a) result \<Rightarrow> ('w, 'a) act" where
  "sresult r = (case r of Inl message \<Rightarrow> runtime_error message | Inr x \<Rightarrow> sreturn x)"

text \<open>An event is numbered and delivered; a client that closes then raises at the same place.\<close>

definition emit :: "'w callbacks \<Rightarrow> event \<Rightarrow> ('w, unit) act" where
  "emit cb ev s =
     (let s1 = s\<lparr>st_events := st_events s @ [(st_sequence s, ev)], st_sequence := st_sequence s + 1\<rparr>
      in if cb_closes cb = Some (length (st_events s1)) then (Inl GeneratorExit, s1) else (Inr (), s1))"

definition call_monitor :: "'w callbacks \<Rightarrow> ('w, unit) act" where
  "call_monitor cb s =
     (case cb_monitor cb (st_world s) of (r, w) \<Rightarrow>
        (case r of None \<Rightarrow> Inr () | Some e \<Rightarrow> Inl e, s\<lparr>st_world := w\<rparr>))"

definition call_generate :: "'w callbacks \<Rightarrow> nat \<Rightarrow> string \<Rightarrow> bool \<Rightarrow> ('w, gen_item list) act" where
  "call_generate cb n prompt think s =
     (case cb_generate cb n prompt think (st_world s) of (items, w) \<Rightarrow> (Inr items, s\<lparr>st_world := w\<rparr>))"

definition call_transition :: "'w callbacks \<Rightarrow> string \<Rightarrow> string \<Rightarrow> ('w, unit) act" where
  "call_transition cb status message s =
     (case cb_transition cb status message (st_world s) of (r, w) \<Rightarrow>
        (case r of None \<Rightarrow> Inr () | Some e \<Rightarrow> Inl e,
         s\<lparr>st_world := w, st_calls := st_calls s @ [Transition status message r]\<rparr>))"

definition call_finalize ::
  "'w callbacks \<Rightarrow> string \<Rightarrow> bool \<Rightarrow> ChatSourceSnapshot list \<Rightarrow> ('w, ChatSourceSnapshot list) act" where
  "call_finalize cb answer insufficient citations s =
     (case cb_finalize cb answer insufficient citations (st_world s) of (r, w) \<Rightarrow>
        (r, s\<lparr>st_world := w, st_calls := st_calls s @ [Finalize answer insufficient citations r]\<rparr>))"

section \<open>The stream\<close>

definition MAX_VISIBLE_REASONING_CODEPOINTS :: nat where "MAX_VISIBLE_REASONING_CODEPOINTS = 20000"

definition validate_generation_usage :: "int option \<Rightarrow> ('w, unit) act" where
  "validate_generation_usage usage =
     (if \<exists>n \<in> set_option usage. MODEL_CONTEXT_TOKENS < n + OUTPUT_TOKENS + PROMPT_FORMATTING_RESERVE_TOKENS
      then runtime_error ''generation prompt exceeded the configured model context budget'' else sreturn ())"

text \<open>The variables of the loop over the chunks of a generation.\<close>

record gen_vars =
  gv_started :: bool
  gv_visible :: nat
  gv_truncated :: bool
  gv_parts :: "string list"

fun consume :: "'w callbacks \<Rightarrow> bool \<Rightarrow> gen_item list \<Rightarrow> gen_vars \<Rightarrow> ('w, string option \<times> gen_vars) act" where
  "consume cb thinks [] v = sreturn (None, v)"
| "consume cb thinks (Raises e # items) v = sraise e"
| "consume cb thinks (Done reason usage # items) v = sthen (validate_generation_usage usage) (sreturn (reason, v))"
| "consume cb thinks (Thinking piece # items) v =
     (if gv_started v \<or> \<not> thinks then runtime_error ''generation returned thinking after answer text''
      else
        let remaining = MAX_VISIBLE_REASONING_CODEPOINTS - gv_visible v;
            visible_text = take remaining piece;
            v1 = v\<lparr>gv_visible := gv_visible v + length visible_text, gv_truncated := gv_truncated v \<or> remaining < length piece\<rparr>
        in sthen (if visible_text \<noteq> [] then emit cb (ReasoningDelta visible_text) else sreturn ()) (consume cb thinks items v1))"
| "consume cb thinks (AnswerText piece # items) v =
     sthen (if gv_started v then sreturn ()
            else sthen (emit cb (ReasoningEnd (gv_truncated v))) (emit cb (StatusEvent ''streaming_answer'')))
       (sthen (emit cb (TokenEvent piece))
          (consume cb thinks items (v\<lparr>gv_started := True, gv_parts := gv_parts v @ [piece]\<rparr>)))"

text \<open>The generations of the answer: \<open>None\<close> when the stream has returned at the limit, else the parts.\<close>

fun answer_loop ::
  "'w callbacks \<Rightarrow> string \<Rightarrow> nat \<Rightarrow> nat \<Rightarrow> string \<Rightarrow> bool \<Rightarrow> gen_vars \<Rightarrow> ('w, string list option) act" where
  "answer_loop cb base continuations n prompt thinks v =
     sbind (call_generate cb n prompt thinks) (\<lambda>items.
     sbind (consume cb thinks items v) (\<lambda>(stop_reason, v1).
     if stop_reason = None then runtime_error ''generation ended without a terminal stop reason''
     else if stop_reason = Some ''stop'' then sreturn (Some (gv_parts v1))
     else if stop_reason \<noteq> Some ''length'' then runtime_error ''generation returned an invalid stop reason''
     else
       sthen (if gv_started v1 then sreturn ()
              else sthen (emit cb (ReasoningEnd (gv_truncated v1))) (emit cb (StatusEvent ''streaming_answer'')))
         (case continuations of
            Suc left \<Rightarrow>
              sthen (emit cb (StatusEvent ''continuing_answer''))
                (sbind (sresult (continuation_prompt base (concat (gv_parts v1)))) (\<lambda>next_prompt.
                 answer_loop cb base left (Suc n) next_prompt False (v1\<lparr>gv_started := True\<rparr>)))
          | 0 \<Rightarrow>
              let answer = strip (concat (gv_parts v1)) in
              if answer = [] then runtime_error ''model exhausted the generation limit without an answer''
              else sthen (call_transition cb ''length_limited'' answer)
                     (sthen (emit cb (ErrorEvent ''generation_limit'' (''The response reached its generation limit twice. '' @
                        ''The partial answer is unverified; continue the response.''))) (sreturn None)))))"

declare answer_loop.simps [simp del]

fun consume_repair :: "'w callbacks \<Rightarrow> gen_item list \<Rightarrow> string list \<Rightarrow> ('w, string option \<times> string list) act" where
  "consume_repair cb [] parts = sreturn (None, parts)"
| "consume_repair cb (Raises e # items) parts = sraise e"
| "consume_repair cb (Done reason usage # items) parts = sthen (validate_generation_usage usage) (sreturn (reason, parts))"
| "consume_repair cb (Thinking piece # items) parts = runtime_error ''citation repair returned an invalid chunk type''"
| "consume_repair cb (AnswerText piece # items) parts =
     sthen (emit cb (TokenEvent piece)) (consume_repair cb items (parts @ [piece]))"

text \<open>The answer with its citations, repaired when they are invalid; \<open>None\<close> when the stream has returned.\<close>

definition validated_answer ::
  "'w callbacks \<Rightarrow> PreparedChatTurn \<Rightarrow> string \<Rightarrow> string \<Rightarrow> ('w, (string \<times> ChatSourceSnapshot list option) option) act" where
  "validated_answer cb prepared prompt answer =
     (let cited = validated_source_ranks answer (pt_sources prepared) in
      sthen (emit cb (StatusEvent ''validating_citations''))
        (if cited = None \<and> answer \<noteq> [] \<and> \<not> is_explicit_insufficient_context answer then
           sthen (emit cb (StatusEvent ''repairing_citations''))
             (sthen (emit cb AnswerReset)
             (sbind (sresult (citation_repair_prompt
                (if pt_citation_base_prompt prepared = None \<or> pt_citation_base_prompt prepared = Some [] then prompt
                 else the (pt_citation_base_prompt prepared)) answer)) (\<lambda>repair_prompt.
              sbind (call_generate cb 2 repair_prompt False) (\<lambda>items.
              sbind (consume_repair cb items []) (\<lambda>(stop_reason, parts).
              let repaired = strip (concat parts);
                  repaired_cited = (if stop_reason = Some ''stop'' then validated_source_ranks repaired (pt_sources prepared) else None)
              in if repaired_cited = None then
                   sthen (call_transition cb ''citation_failed'' answer)
                     (sthen (emit cb (ErrorEvent ''citation_validation_failed'' (''The answer could not be citation-verified. '' @
                        ''The draft was preserved for retry.''))) (sreturn None))
                 else sthen (emit cb (StatusEvent ''validating_citations'')) (sreturn (Some (repaired, repaired_cited))))))))
         else sreturn (Some (answer, cited))))"

text \<open>The beginning of the stream, and the end of a validated answer.\<close>

definition open_stream :: "'w callbacks \<Rightarrow> PreparedChatTurn \<Rightarrow> ('w, unit) act" where
  "open_stream cb prepared =
     sthen (call_monitor cb)
     (sthen (emit cb (SourcesEvent (pt_sources prepared)))
     (sthen (emit cb (StatusEvent ''reasoning''))
     (sthen (emit cb ReasoningStart)
        (case pt_continuation_answer prepared of None \<Rightarrow> sreturn ()
         | Some answer \<Rightarrow>
             sthen (emit cb (ReasoningEnd False))
               (sthen (emit cb (StatusEvent ''streaming_answer''))
               (sthen (emit cb (TokenEvent answer)) (emit cb (StatusEvent ''continuing_answer''))))))))"

definition finish_answer ::
  "'w callbacks \<Rightarrow> string \<Rightarrow> ChatSourceSnapshot list option \<Rightarrow> ('w, string \<times> bool \<times> ChatSourceSnapshot list) act" where
  "finish_answer cb answer cited =
     (let insufficient = is_explicit_insufficient_context answer;
          final_answer = (if insufficient then INSUFFICIENT_CONTEXT_ANSWER else answer);
          citation_sources = (if insufficient then Some [] else cited)
      in if citation_sources = None then runtime_error ''citation validation returned no sources''
         else sbind (call_finalize cb final_answer insufficient (the citation_sources)) (\<lambda>citations.
              sreturn (final_answer, insufficient, citations)))"

text \<open>The body of the try statement: \<open>None\<close> when the stream has returned, else the final answer.\<close>

definition answer_stream :: "'w callbacks \<Rightarrow> PreparedChatTurn \<Rightarrow> string \<Rightarrow> ('w, string list option) act" where
  "answer_stream cb prepared prompt =
     answer_loop cb prompt (if pt_continuation_answer prepared = None then 1 else 0) 0 prompt (pt_continuation_answer prepared = None)
       \<lparr>gv_started = (pt_continuation_answer prepared \<noteq> None), gv_visible = 0, gv_truncated = False,
        gv_parts = (case pt_continuation_answer prepared of None \<Rightarrow> [] | Some answer \<Rightarrow> [answer])\<rparr>"

definition stream_body ::
  "'w callbacks \<Rightarrow> PreparedChatTurn \<Rightarrow> string \<Rightarrow> ('w, (string \<times> bool \<times> ChatSourceSnapshot list) option) act" where
  "stream_body cb prepared prompt =
     sthen (open_stream cb prepared)
     (sbind (answer_stream cb prepared prompt) (\<lambda>parts.
      case parts of None \<Rightarrow> sreturn None
      | Some ps \<Rightarrow>
          sbind (validated_answer cb prepared prompt (strip (concat ps))) (\<lambda>validated.
          case validated of None \<Rightarrow> sreturn None
          | Some v \<Rightarrow> sbind (finish_answer cb (fst v) (snd v)) (\<lambda>result. sreturn (Some result)))))"

text \<open>The text of an exception; that of an HTTP exception starts with its status.\<close>

fun error_text :: "string \<Rightarrow> error_class \<Rightarrow> string" where
  "error_text detail (HTTPExceptionClass status) = show_int (int status) @ '': '' @ detail"
| "error_text message class = message"

definition bounded_error :: "string \<Rightarrow> error_class \<Rightarrow> string" where
  "bounded_error message class =
     take 500 (if strip (error_text message class) = [] then class_name class else strip (error_text message class))"

text \<open>The handlers: an exception of the transition itself leaves the stream.\<close>

definition handle_error :: "'w callbacks \<Rightarrow> exc \<Rightarrow> ('w, unit) act" where
  "handle_error cb e =
     (case e of
        CancelledError \<Rightarrow> sthen (call_transition cb ''interrupted'' ''generation cancelled'') (sraise CancelledError)
      | GeneratorExit \<Rightarrow> sthen (call_transition cb ''interrupted'' ''generation cancelled'') (sraise GeneratorExit)
      | AccessRevoked \<Rightarrow> sthen (call_transition cb ''access_revoked'' ''access_revoked'')
          (emit cb (ErrorEvent ''access_revoked'' ''access to a source was revoked''))
      | Failed message class \<Rightarrow> sthen (call_transition cb ''failed'' (bounded_error message class))
          (emit cb (ErrorEvent ''generation_failed'' (bounded_error message class))))"

definition stream :: "'w callbacks \<Rightarrow> PreparedChatTurn \<Rightarrow> ('w, unit) act" where
  "stream cb prepared =
     (if pt_access_revoked prepared then emit cb (ErrorEvent ''access_revoked'' ''access to a source was revoked'')
      else
        case (pt_already_complete prepared, pt_prompt prepared) of
          (False, Some prompt) \<Rightarrow>
            (\<lambda>s. case stream_body cb prepared prompt s of
               (Inl e, s1) \<Rightarrow> handle_error cb e s1
             | (Inr None, s1) \<Rightarrow> (Inr (), s1)
             | (Inr (Some (answer, insufficient, citations)), s1) \<Rightarrow> emit cb (FinalEvent answer insufficient citations) s1)
        | _ \<Rightarrow>
            sthen (emit cb (SourcesEvent (pt_sources prepared)))
              (sthen (emit cb (StatusEvent ''validating_citations''))
                 (emit cb (FinalEvent INSUFFICIENT_CONTEXT_ANSWER True []))))"

text \<open>A stream before its first event, whose number the caller chooses (\<open>sequence_start\<close>).\<close>

definition start_stream :: "int \<Rightarrow> 'w \<Rightarrow> 'w stream_state" where
  "start_stream sequence_start w = \<lparr>st_world = w, st_events = [], st_sequence = sequence_start, st_calls = []\<rparr>"

section \<open>Rules\<close>

lemma sbind_Inr: "sbind m f s = (Inr y, s') \<longleftrightarrow> (\<exists>x s1. m s = (Inr x, s1) \<and> f x s1 = (Inr y, s'))"
  by (auto simp: sbind_def split: prod.splits sum.splits)

lemma act_simps [simp]:
  "sreturn x s = (Inr y, s') \<longleftrightarrow> x = y \<and> s = s'" "sraise e s = (Inr y, s') \<longleftrightarrow> False" "runtime_error msg s = (Inr y, s') \<longleftrightarrow> False"
  by (auto simp: sreturn_def sraise_def runtime_error_def)

text \<open>An action keeps a predicate of the state, whatever its result.\<close>

definition keeps :: "('w stream_state \<Rightarrow> bool) \<Rightarrow> ('w, 'a) act \<Rightarrow> bool" where
  "keeps P m \<longleftrightarrow> (\<forall>s. P s \<longrightarrow> P (snd (m s)))"

named_theorems keeps_intros

lemma keeps_act [keeps_intros]: "keeps P (sreturn x)" "keeps P (sraise e)" "keeps P (runtime_error msg)"
  by (simp_all add: keeps_def sreturn_def sraise_def runtime_error_def)

lemma keeps_bind [keeps_intros]: "keeps P m \<Longrightarrow> (\<And>x. keeps P (f x)) \<Longrightarrow> keeps P (sbind m f)"
proof -
  assume m: "keeps P m" and f: "\<And>x. keeps P (f x)"
  have "P (snd (sbind m f s))" if "P s" for s
  proof (cases "m s")
    case (Pair r s1)
    then have "P s1" using m that by (auto simp: keeps_def dest: spec [of _ s])
    then show ?thesis using f Pair by (cases r) (auto simp: sbind_def keeps_def)
  qed
  then show ?thesis by (simp add: keeps_def)
qed

lemma keeps_if [keeps_intros]: "(b \<Longrightarrow> keeps P m) \<Longrightarrow> (\<not> b \<Longrightarrow> keeps P k) \<Longrightarrow> keeps P (if b then m else k)"
  by simp

lemma keeps_sresult [keeps_intros]: "keeps P (sresult r)"
  by (cases r) (simp_all add: sresult_def keeps_act)

lemma keeps_option [keeps_intros]: "keeps P m \<Longrightarrow> (\<And>x. keeps P (f x)) \<Longrightarrow> keeps P (case z of None \<Rightarrow> m | Some x \<Rightarrow> f x)"
  by (cases z) simp_all

lemma keeps_usage [keeps_intros]: "keeps P (validate_generation_usage usage)"
  by (simp add: validate_generation_usage_def keeps_act)

lemma keeps_result: "keeps P m \<Longrightarrow> m s = (r, s') \<Longrightarrow> P s \<Longrightarrow> P s'"
  unfolding keeps_def by (metis snd_conv)

text \<open>
  A property of streams: what the callbacks of a stream may change, and which events are sent, are the
  premises; it then holds through the loops.
\<close>

locale stream_property =
  fixes P :: "'w stream_state \<Rightarrow> bool" and cb :: "'w callbacks" and allowed :: "event \<Rightarrow> bool"
  assumes keeps_emit: "allowed ev \<Longrightarrow> keeps P (emit cb ev)"
    and keeps_monitor: "keeps P (call_monitor cb)"
    and keeps_generate: "keeps P (call_generate cb n prompt think)"
    and allowed_progress: "\<And>v. allowed (TokenEvent v)" "\<And>v. allowed (StatusEvent v)" "\<And>v. allowed (ReasoningDelta v)" "\<And>v. allowed (ReasoningEnd v)"
begin

lemmas keeps_rules = keeps_intros keeps_emit keeps_monitor keeps_generate allowed_progress

lemma keeps_consume: "keeps P (consume cb thinks items v)"
proof (induction items arbitrary: v)
  case (Cons item items)
  then show ?case by (cases item) (auto simp: Let_def intro!: keeps_rules)
qed (simp add: keeps_act)

lemma keeps_consume_repair: "keeps P (consume_repair cb items parts)"
proof (induction items arbitrary: parts)
  case (Cons item items)
  then show ?case by (cases item) (auto intro!: keeps_rules)
qed (simp add: keeps_act)

lemma keeps_answer_loop:
  assumes "\<And>status message. keeps P (call_transition cb status message)" "allowed (ErrorEvent ''generation_limit'' (''The response reached its generation limit twice. '' @
    ''The partial answer is unverified; continue the response.''))"
  shows "keeps P (answer_loop cb base continuations n prompt thinks v)"
proof (induction continuations arbitrary: n prompt thinks v)
  case 0
  show ?case by (subst answer_loop.simps) (auto simp: Let_def split: prod.splits intro!: keeps_rules keeps_consume assms)
next
  case (Suc continuations)
  then show ?case by (subst answer_loop.simps) (auto split: prod.splits intro!: keeps_rules keeps_consume)
qed

lemma keeps_validated_answer:
  assumes "\<And>status message. keeps P (call_transition cb status message)" "allowed AnswerReset" "\<And>code message. allowed (ErrorEvent code message)"
  shows "keeps P (validated_answer cb prepared prompt answer)"
  unfolding validated_answer_def Let_def by (auto split: prod.splits intro!: keeps_rules keeps_consume_repair assms)

lemma keeps_stream_body:
  assumes "\<And>status message. keeps P (call_transition cb status message)" "\<And>a i c. keeps P (call_finalize cb a i c)"
    "allowed AnswerReset" "\<And>code message. allowed (ErrorEvent code message)" "\<And>sources. allowed (SourcesEvent sources)" "allowed ReasoningStart"
  shows "keeps P (stream_body cb prepared prompt)"
  unfolding stream_body_def open_stream_def answer_stream_def finish_answer_def Let_def
  by (auto split: option.splits intro!: keeps_rules keeps_answer_loop keeps_validated_answer assms)

end

text \<open>Numbering, the calls made, and whether a final event was sent.\<close>

definition numbered :: "int \<Rightarrow> 'w stream_state \<Rightarrow> bool" where
  "numbered k s \<longleftrightarrow> st_sequence s = k + int (length (st_events s)) \<and> map fst (st_events s) = [k..k + int (length (st_events s)) - 1]"

fun is_final :: "event \<Rightarrow> bool" where
  "is_final (FinalEvent a i c) = True"
| "is_final _ = False"

definition unfinished :: "'w stream_state \<Rightarrow> bool" where
  "unfinished s \<longleftrightarrow> (\<forall>e \<in> set (st_events s). \<not> is_final (snd e))"

lemma emit_state: "emit cb ev s = (r, s') \<Longrightarrow>
  s' = s\<lparr>st_events := st_events s @ [(st_sequence s, ev)], st_sequence := st_sequence s + 1\<rparr>"
  by (auto simp: emit_def Let_def split: if_splits)

lemma keeps_emitI: "(\<And>s. P s \<Longrightarrow> P (s\<lparr>st_events := st_events s @ [(st_sequence s, ev)], st_sequence := st_sequence s + 1\<rparr>)) \<Longrightarrow> keeps P (emit cb ev)"
  by (simp add: keeps_def emit_def Let_def)

lemma keeps_worldI:
  "(\<And>s w. P s \<Longrightarrow> P (s\<lparr>st_world := w\<rparr>)) \<Longrightarrow> keeps P (call_monitor cb) \<and> keeps P (call_generate cb n prompt think)"
  by (auto simp: keeps_def call_monitor_def call_generate_def split: prod.splits)

lemma keeps_callI:
  "(\<And>s w cs. P s \<Longrightarrow> P (s\<lparr>st_world := w, st_calls := cs\<rparr>)) \<Longrightarrow> keeps P (call_transition cb status message) \<and> keeps P (call_finalize cb a i c)"
  by (auto simp: keeps_def call_transition_def call_finalize_def split: prod.splits)

lemma numbered_emit: "numbered k s \<Longrightarrow> numbered k (s\<lparr>st_events := st_events s @ [(st_sequence s, ev)], st_sequence := st_sequence s + 1\<rparr>)"
  using upto_rec2 [of k "k + int (length (st_events s))"] by (simp add: numbered_def)

interpretation same_calls: stream_property "\<lambda>s. st_calls s = calls" cb "\<lambda>_. True" for calls cb
  by unfold_locales (simp_all add: keeps_emitI keeps_worldI)

interpretation numbering: stream_property "numbered k" cb "\<lambda>_. True" for k cb
proof (unfold_locales, goal_cases)
  case (1 ev)
  show ?case by (rule keeps_emitI) (rule numbered_emit)
next
  case 2
  show ?case using keeps_worldI [of "numbered k" cb] by (simp add: numbered_def)
next
  case (3 n prompt think)
  show ?case using keeps_worldI [of "numbered k" cb] by (simp add: numbered_def)
qed simp_all

interpretation open_end: stream_property unfinished cb "\<lambda>e. \<not> is_final e" for cb
proof (unfold_locales, goal_cases)
  case (1 ev)
  then show ?case by (intro keeps_emitI) (auto simp: unfinished_def)
next
  case 2
  show ?case using keeps_worldI [of unfinished cb] by (simp add: unfinished_def)
next
  case (3 n prompt think)
  show ?case using keeps_worldI [of unfinished cb] by (simp add: unfinished_def)
qed simp_all

section \<open>How a stream ends\<close>

text \<open>The calls made when an action has returned, and what the answer handed to the database looks like.\<close>

definition ended_by :: "(call \<Rightarrow> bool) \<Rightarrow> 'w stream_state \<Rightarrow> bool" where
  "ended_by Q s \<longleftrightarrow> st_calls s \<noteq> [] \<and> Q (last (st_calls s))"

fun is_transition :: "call \<Rightarrow> bool" where
  "is_transition (Transition status message r) = True"
| "is_transition _ = False"

definition validated :: "ChatSourceSnapshot list \<Rightarrow> string \<Rightarrow> bool \<Rightarrow> ChatSourceSnapshot list \<Rightarrow> bool" where
  "validated sources answer insufficient citations \<longleftrightarrow>
     insufficient \<and> answer = INSUFFICIENT_CONTEXT_ANSWER \<and> citations = [] \<or>
     \<not> insufficient \<and> validated_source_ranks answer sources = Some citations"

lemma transition_ends: "call_transition cb status message s = (r, s') \<Longrightarrow> ended_by is_transition s'"
  by (auto simp: call_transition_def ended_by_def split: prod.splits)

lemma emit_ended: "emit cb ev s = (r, s') \<Longrightarrow> ended_by Q s \<Longrightarrow> ended_by Q s'"
  by (drule emit_state) (simp add: ended_by_def)

lemma answer_loop_returned: "answer_loop cb base continuations n prompt thinks v s = (Inr None, s') \<Longrightarrow> ended_by is_transition s'"
proof (induction continuations arbitrary: n prompt thinks v s)
  case 0
  then show ?case by (subst (asm) answer_loop.simps)
    (auto simp: sbind_Inr Let_def split: prod.splits if_splits dest: transition_ends emit_ended)
next
  case (Suc continuations)
  from Suc.prems show ?case by (subst (asm) answer_loop.simps)
    (auto simp: sbind_Inr split: prod.splits if_splits dest: Suc.IH)
qed

lemma validated_answer_returned: "validated_answer cb prepared prompt answer s = (Inr None, s') \<Longrightarrow> ended_by is_transition s'"
  by (auto simp: validated_answer_def sbind_Inr Let_def split: prod.splits if_splits dest: transition_ends emit_ended)

lemma validated_answer_result:
  "validated_answer cb prepared prompt answer s = (Inr (Some (a, cited)), s') \<Longrightarrow> cited = validated_source_ranks a (pt_sources prepared)"
  by (auto simp: validated_answer_def sbind_Inr Let_def split: prod.splits if_splits)

lemma option_case_Inr:
  "(case z of None \<Rightarrow> sreturn None | Some x \<Rightarrow> f x) s = (Inr y, s') \<longleftrightarrow> z = None \<and> y = None \<and> s' = s \<or> (\<exists>x. z = Some x \<and> f x s = (Inr y, s'))"
  by (cases z) auto

lemma stream_body_Inr:
  "stream_body cb prepared prompt s = (Inr y, s') \<longleftrightarrow>
   (\<exists>s1 s2 parts. open_stream cb prepared s = (Inr (), s1) \<and> answer_stream cb prepared prompt s1 = (Inr parts, s2) \<and>
     (parts = None \<and> y = None \<and> s' = s2 \<or>
      (\<exists>ps v s3. parts = Some ps \<and> validated_answer cb prepared prompt (strip (concat ps)) s2 = (Inr v, s3) \<and>
        (v = None \<and> y = None \<and> s' = s3 \<or>
         (\<exists>answer cited result. v = Some (answer, cited) \<and> finish_answer cb answer cited s3 = (Inr result, s') \<and> y = Some result)))))"
  unfolding stream_body_def sbind_Inr option_case_Inr by (auto simp: sbind_Inr)

lemma stream_body_returned: "stream_body cb prepared prompt s = (Inr None, s') \<Longrightarrow> ended_by is_transition s'"
  unfolding stream_body_Inr answer_stream_def using answer_loop_returned validated_answer_returned by blast

lemma finish_answer_result:
  assumes "finish_answer cb a (validated_source_ranks a sources) s = (Inr (answer, insufficient, citations), s')"
  shows "\<exists>cited. ended_by (\<lambda>call. call = Finalize answer insufficient cited (Inr citations)) s' \<and> validated sources answer insufficient cited"
  using assms
  by (auto simp: finish_answer_def Let_def sbind_Inr call_finalize_def ended_by_def validated_def split: if_splits prod.splits)

lemma stream_body_result:
  assumes "stream_body cb prepared prompt s = (Inr (Some (answer, insufficient, citations)), s')"
  shows "\<exists>cited. ended_by (\<lambda>call. call = Finalize answer insufficient cited (Inr citations)) s' \<and>
    validated (pt_sources prepared) answer insufficient cited"
proof -
  from assms obtain s2 s3 ps a cited where "validated_answer cb prepared prompt (strip (concat ps)) s2 = (Inr (Some (a, cited)), s3)"
    "finish_answer cb a cited s3 = (Inr (answer, insufficient, citations), s')" unfolding stream_body_Inr by blast
  then show ?thesis using validated_answer_result finish_answer_result by blast
qed

lemma handle_error_ended: "handle_error cb e s = (r, s') \<Longrightarrow> ended_by is_transition s'"
  by (cases e) (auto simp: handle_error_def sbind_def sraise_def split: prod.splits sum.splits dest: transition_ends emit_ended)

lemma stream_cases:
  assumes "stream cb prepared s0 = (r, s)" "\<not> pt_access_revoked prepared" "\<not> pt_already_complete prepared" "pt_prompt prepared = Some prompt"
  obtains (failed) e s1 where "stream_body cb prepared prompt s0 = (Inl e, s1)" "handle_error cb e s1 = (r, s)"
  | (returned) "stream_body cb prepared prompt s0 = (Inr None, s)"
  | (final) answer insufficient citations s1 where "stream_body cb prepared prompt s0 = (Inr (Some (answer, insufficient, citations)), s1)"
      "emit cb (FinalEvent answer insufficient citations) s1 = (r, s)"
  using assms by (auto simp: stream_def split: prod.splits sum.splits option.splits)

lemma unfinished_body: "stream_body cb prepared prompt s = (r, s') \<Longrightarrow> unfinished s \<Longrightarrow> unfinished s'"
proof (rule keeps_result [OF open_end.keeps_stream_body])
  show "keeps unfinished (call_transition cb status message)" "keeps unfinished (call_finalize cb a i c)" for status message a i c
    using keeps_callI [of unfinished cb] by (simp_all add: unfinished_def)
qed simp_all

lemma numbered_body: "stream_body cb prepared prompt s = (r, s') \<Longrightarrow> numbered k s \<Longrightarrow> numbered k s'"
proof (rule keeps_result [OF numbering.keeps_stream_body])
  show "keeps (numbered k) (call_transition cb status message)" "keeps (numbered k) (call_finalize cb a i c)" for status message a i c
    using keeps_callI [of "numbered k" cb] by (simp_all add: numbered_def)
qed simp_all

lemma unfinished_error: "handle_error cb e s = (r, s') \<Longrightarrow> unfinished s \<Longrightarrow> unfinished s'"
proof -
  have "keeps unfinished (call_transition cb status message)" for status message using keeps_callI [of unfinished cb] by (simp add: unfinished_def)
  then have "keeps unfinished (handle_error cb e)"
    unfolding handle_error_def by (cases e) (auto intro!: keeps_intros open_end.keeps_emit)
  then show "handle_error cb e s = (r, s') \<Longrightarrow> unfinished s \<Longrightarrow> unfinished s'" by (rule keeps_result)
qed

lemma start_state: "unfinished (start_stream k w)" "numbered k (start_stream k w)" "st_calls (start_stream k w) = []"
  by (simp_all add: start_stream_def unfinished_def numbered_def)

text \<open>
  C26: a client that receives a final answer receives a stored and validated one. Take a turn whose
  answer is still to be generated and any number for the first event. Whatever the model generates,
  whatever the callbacks do and whenever the client closes the stream, a final event is the last
  event, its number is that of its position, and it was sent after the database had accepted exactly
  this answer: the fixed sentence without citations when the model declared the context insufficient,
  and otherwise an answer that passed the validation of its citations.
\<close>

theorem final_event_was_validated:
  assumes "stream cb prepared (start_stream first w) = (r, s)" "\<not> pt_access_revoked prepared" "\<not> pt_already_complete prepared"
    "pt_prompt prepared = Some prompt" "(k, FinalEvent answer insufficient citations) \<in> set (st_events s)"
  shows "last (st_events s) = (k, FinalEvent answer insufficient citations) \<and> k = first + int (length (st_events s)) - 1 \<and>
    (\<exists>cited. st_calls s \<noteq> [] \<and> last (st_calls s) = Finalize answer insufficient cited (Inr citations) \<and>
       validated (pt_sources prepared) answer insufficient cited)"
  using assms(1-4)
proof (cases rule: stream_cases)
  case (failed e s1)
  have "unfinished s" by (rule unfinished_error [OF failed(2) unfinished_body [OF failed(1) start_state(1)]])
  then show ?thesis using assms(5) by (auto simp: unfinished_def)
next
  case returned
  have "unfinished s" by (rule unfinished_body [OF returned start_state(1)])
  then show ?thesis using assms(5) by (auto simp: unfinished_def)
next
  case (final a i c s1)
  have open_end: "unfinished s1" and numbers: "numbered first s1"
    by (rule unfinished_body [OF final(1) start_state(1)], rule numbered_body [OF final(1) start_state(2)])
  note s = emit_state [OF final(2)]
  have "answer = a \<and> insufficient = i \<and> citations = c \<and> k = st_sequence s1" using assms(5) open_end by (auto simp: s unfinished_def)
  moreover obtain cited where "ended_by (\<lambda>call. call = Finalize a i cited (Inr c)) s1" "validated (pt_sources prepared) a i cited"
    using stream_body_result [OF final(1)] by blast
  ultimately show ?thesis using numbers by (auto simp: s ended_by_def numbered_def)
qed

definition ex_callbacks :: "nat callbacks" where
  "ex_callbacks = \<lparr>cb_monitor = (\<lambda>w. (None, w)),
     cb_generate = (\<lambda>n prompt think w. ([AnswerText ''Yes'', AnswerText '' [S1]'', Done (Some ''stop'') (Some 50)], w)),
     cb_transition = (\<lambda>status message w. (None, w)), cb_finalize = (\<lambda>answer insufficient cited w. (Inr cited, w + 1)), cb_closes = None\<rparr>"

definition ex_turn_prepared :: PreparedChatTurn where
  "ex_turn_prepared = \<lparr>pt_actor = (2, ROLE_MEMBER, 2, 5, 51), pt_chat_id = 40, pt_turn_id = 41, pt_token = Some 42, pt_prompt = Some ''why'', pt_sources = [ex_cited], pt_already_complete = False, pt_access_revoked = False,
     pt_continuation_answer = None, pt_citation_base_prompt = None\<rparr>"

definition ex_state :: "event list \<Rightarrow> call list \<Rightarrow> nat stream_state" where
  "ex_state events calls = \<lparr>st_world = length calls, st_events = zip [1..int (length events)] events, st_sequence = int (length events) + 1, st_calls = calls\<rparr>"

lemma ex_emit: "emit ex_callbacks ev (ex_state events calls) = (Inr (), ex_state (events @ [ev]) calls)"
  using upto_rec2 [of 1 "int (length events) + 1"]
  by (simp add: emit_def Let_def ex_state_def ex_callbacks_def zip_append add.commute)

lemma ex_monitor: "call_monitor ex_callbacks s = (Inr (), s)"
  by (simp add: call_monitor_def ex_callbacks_def)

lemma ex_finalize: "call_finalize ex_callbacks answer insufficient cited (ex_state events []) =
    (Inr cited, ex_state events [Finalize answer insufficient cited (Inr cited)])"
  by (simp add: call_finalize_def ex_callbacks_def ex_state_def)

lemmas ex_run = sbind_def sreturn_def Let_def ex_emit ex_monitor ex_finalize

lemma ex_open: "open_stream ex_callbacks ex_turn_prepared (ex_state [] []) =
    (Inr (), ex_state [SourcesEvent [ex_cited], StatusEvent ''reasoning'', ReasoningStart] [])"
  by (simp add: open_stream_def ex_turn_prepared_def ex_run)

theorem final_event_was_validated_witness:
  "(9, FinalEvent ''Yes [S1]'' False [ex_cited]) = last (st_events (snd (stream ex_callbacks ex_turn_prepared (start_stream 1 0)))) \<and>
   validated [ex_cited] ''Yes [S1]'' False [ex_cited]"
proof -
  let ?before = "[SourcesEvent [ex_cited], StatusEvent ''reasoning'', ReasoningStart]"
  let ?told = "?before @ [ReasoningEnd False, StatusEvent ''streaming_answer'', TokenEvent ''Yes'', TokenEvent '' [S1]'']"
  have "call_generate ex_callbacks n prompt think s = (Inr [AnswerText ''Yes'', AnswerText '' [S1]'', Done (Some ''stop'') (Some 50)], s)" for n prompt think s
    by (simp add: call_generate_def ex_callbacks_def)
  then have answer: "answer_stream ex_callbacks ex_turn_prepared ''why'' (ex_state ?before []) = (Inr (Some [''Yes'', '' [S1]'']), ex_state ?told [])"
    unfolding answer_stream_def by (subst answer_loop.simps)
      (simp add: ex_turn_prepared_def ex_run validate_generation_usage_def MODEL_CONTEXT_TOKENS_def OUTPUT_TOKENS_def PROMPT_FORMATTING_RESERVE_TOKENS_def)
  have checked: "validated_source_ranks ''Yes [S1]'' [ex_cited] = Some [ex_cited]" "strip (concat [''Yes'', '' [S1]'']) = ''Yes [S1]''"
    "\<not> is_explicit_insufficient_context ''Yes [S1]''" by code_simp+
  let ?call = "Finalize ''Yes [S1]'' False [ex_cited] (Inr [ex_cited])"
  have "finish_answer ex_callbacks ''Yes [S1]'' (Some [ex_cited]) (ex_state events []) = (Inr (''Yes [S1]'', False, [ex_cited]), ex_state events [?call])" for events
    by (simp add: finish_answer_def checked ex_run)
  moreover have "start_stream 1 0 = ex_state [] []" by (simp add: start_stream_def ex_state_def)
  ultimately have run: "stream ex_callbacks ex_turn_prepared (start_stream 1 0) =
      (Inr (), ex_state (?told @ [StatusEvent ''validating_citations'', FinalEvent ''Yes [S1]'' False [ex_cited]]) [?call])"
    using ex_open answer checked
    by (simp add: stream_def stream_body_def validated_answer_def ex_turn_prepared_def ex_run)
  have "(9, FinalEvent ''Yes [S1]'' False [ex_cited]) \<in>
      set (st_events (ex_state (?told @ [StatusEvent ''validating_citations'', FinalEvent ''Yes [S1]'' False [ex_cited]]) [?call]))"
    by (simp add: ex_state_def upto.simps)
  from final_event_was_validated [OF run _ _ _ this] show ?thesis
    unfolding run by (auto simp: ex_turn_prepared_def ex_state_def)
qed

end
