(* ===== verification/ChatRequests.thy ===== *)
theory ChatRequests
  imports Streaming
begin

text \<open>
  A request for an answer, from the accepted question to the end of the response: the methods of the
  chat service that work on the database (services/chats.py: monitor, complete, transition,
  snapshot_sources, interrupt_prepared), retrieval and reranking (db/repositories.py, services/reranker.py),
  the authentication of each of their transactions (security/request_auth.py), and the response that
  runs them (routes/chats.py). Between two transactions of a request other requests may change the
  database.
\<close>

section \<open>The chat service on the database\<close>

definition exc_of :: "(sql_error \<Rightarrow> string) \<Rightarrow> chat_error \<Rightarrow> exc" where
  "exc_of sql_text e =
     (case e of
        ChatNotFound \<Rightarrow> Failed ''chat not found'' ChatNotFoundClass
      | ChatConflict message \<Rightarrow> Failed message ChatConflictClass
      | ChatAccessRevoked \<Rightarrow> AccessRevoked
      | LibraryCorruption \<Rightarrow> Failed ''ready document has no canonical location'' RuntimeErrorClass
      | RuntimeError message \<Rightarrow> Failed message RuntimeErrorClass
      | ValueError message \<Rightarrow> Failed message ValueErrorClass
      | DatabaseError err \<Rightarrow> Failed (sql_text err) DatabaseErrorClass)"

definition stale_token :: chat_error where
  "stale_token = ChatConflict ''turn generation token is stale''"

definition monitor :: "time \<Rightarrow> string \<Rightarrow> ActorContext \<Rightarrow> PreparedChatTurn \<Rightarrow> chat_db \<Rightarrow> (chat_error, unit) result" where
  "monitor now token actor prepared c =
     (if actor \<noteq> pt_actor prepared then Inl ChatNotFound
      else if own_chat now token (pt_chat_id prepared) c = None then Inl ChatNotFound
      else if \<not> (\<exists>(t, hidden) \<in> set (v4_chat_history now token c). tn_chat t = pt_chat_id prepared \<and> tn_id t = pt_turn_id prepared \<and>
                   tn_status t = GENERATING) then Inl stale_token
      else
        let document_ids = [d. s \<leftarrow> pt_sources prepared, d \<leftarrow> option_list (cs_document_id s)];
            readable = length (filter (\<lambda>d. d_id d \<in> set document_ids \<and> v4_can_read_document now token (d_id d) (secured c)) (documents (content c)))
        in if document_ids \<noteq> [] \<and> readable \<noteq> card (set document_ids) then Inl ChatAccessRevoked else Inr ())"

text \<open>The rows of the cited sources by rank; a later row replaces an earlier one.\<close>

definition sources_by_rank :: "time \<Rightarrow> string \<Rightarrow> uuid \<Rightarrow> int list \<Rightarrow> chat_db \<Rightarrow> int \<Rightarrow> source_row option" where
  "sources_by_rank now token turn ranks c k =
     List.find (\<lambda>r. sr_turn r = turn \<and> sr_rank r \<in> set ranks \<and> sr_rank r = k) (rev (v4_authorized_turn_sources now token c))"

definition complete ::
  "env \<Rightarrow> time \<Rightarrow> string \<Rightarrow> ActorContext \<Rightarrow> PreparedChatTurn \<Rightarrow> string \<Rightarrow> bool \<Rightarrow> ChatSourceSnapshot list \<Rightarrow> chat_db \<Rightarrow>
   (chat_error, ChatSourceSnapshot list \<times> chat_db) result" where
  "complete env now token actor prepared answer insufficient citations c =
     (if actor \<noteq> pt_actor prepared then Inl ChatNotFound
      else
        rbind (monitor now token actor prepared c) (\<lambda>_.
        rbind (lift_sql (v4_finalize_turn env now token (pt_turn_id prepared) (pt_token prepared) (Some answer) insufficient
                 (Some (map cs_rank citations)) c)) (\<lambda>(finalized, c1).
        if \<not> finalized then
          if \<exists>(t, hidden) \<in> set (v4_chat_history now token c1). tn_chat t = pt_chat_id prepared \<and> tn_id t = pt_turn_id prepared \<and>
               tn_status t = ACCESS_REVOKED
          then Inl ChatAccessRevoked else Inl stale_token
        else if citations = [] then Inr ([], c1)
        else
          let rows = sources_by_rank now token (pt_turn_id prepared) (map cs_rank citations) c1
          in if \<exists>s \<in> set citations. rows (cs_rank s) = None then Inl ChatAccessRevoked
             else Inr (map (\<lambda>s. snapshot_from_row (the (rows (cs_rank s)))) citations, c1))))"

text \<open>A contract that reports an outcome the service does not know is an error of the service.\<close>

definition known_outcome :: "string list \<Rightarrow> string \<Rightarrow> (sql_error, string \<times> chat_db) result \<Rightarrow> (chat_error, chat_db) result" where
  "known_outcome outcomes message r =
     rbind (lift_sql r) (\<lambda>(outcome, c1). if outcome \<in> set outcomes then Inr c1 else Inl (RuntimeError message))"

definition transition ::
  "env \<Rightarrow> time \<Rightarrow> string \<Rightarrow> ActorContext \<Rightarrow> BeginTurn \<Rightarrow> string \<Rightarrow> string \<Rightarrow> chat_db \<Rightarrow> (chat_error, chat_db) result" where
  "transition env now token actor begin status message c =
     (if bt_token begin = None then Inr c
      else if actor \<noteq> bt_actor begin then Inl ChatNotFound
      else if status = ''access_revoked'' then
        rbind (lift_sql (v4_mark_turn_access_revoked env now token (bt_turn_id begin) (bt_token begin) c)) (\<lambda>(changed, c1). Inr c1)
      else if status = ''interrupted'' then
        known_outcome [''interrupted'', ''already_interrupted'', ''stale'', ''not_found''] ''turn interruption returned an invalid outcome''
          (v4_interrupt_turn env now token (bt_chat_id begin) (bt_turn_id begin) (bt_token begin) c)
      else if status = ''length_limited'' then
        known_outcome [''length_limited'', ''already_limited'', ''stale'', ''not_found''] ''turn length-limit transition returned an invalid outcome''
          (v4_mark_turn_length_limited env now token (bt_chat_id begin) (bt_turn_id begin) (bt_token begin) (Some message) c)
      else if status = ''citation_failed'' then
        known_outcome [''citation_failed'', ''already_failed'', ''stale'', ''not_found''] ''turn citation-failure transition returned an invalid outcome''
          (v4_mark_turn_citation_failed env now token (bt_chat_id begin) (bt_turn_id begin) (bt_token begin) (Some message) c)
      else if status \<noteq> ''failed'' then Inl (ValueError ''unsupported turn transition'')
      else
        rbind (lift_sql (v4_fail_turn env now token (bt_turn_id begin) (bt_token begin)
                 (if take 500 message = [] then ''generation failed'' else take 500 message) c)) (\<lambda>(failed, c1). Inr c1))"

section \<open>Preparation\<close>

text \<open>
  The search of the nearest chunks among the documents of the chat; \<open>distance\<close> is the distance of the
  vector extension, \<open>reached\<close> what its index scan reaches under a tuning.
\<close>

definition retrieve ::
  "(VectorSearchTuning \<Rightarrow> uuid \<Rightarrow> bool) \<Rightarrow> (vector \<Rightarrow> vector \<Rightarrow> rat) \<Rightarrow> time \<Rightarrow> string \<Rightarrow> vector \<Rightarrow> int \<Rightarrow> uuid list option \<Rightarrow> VectorSearchTuning option \<Rightarrow> chat_db \<Rightarrow>
   (chat_error, (chunk_row \<times> rat) list) result" where
  "retrieve reached distance now token query limit document_ids tuning c =
     (if \<not> between limit 1 100 then Inl (ValueError ''limit must be between 1 and 100'')
      else if document_ids = Some [] then Inr []
      else
        rbind (lift_sql (v10_retrieve_active_chunks
            (apply_vector_search_tuning reached (case tuning of None \<Rightarrow> default_tuning | Some t \<Rightarrow> t)) distance
            (\<lambda>d. v4_can_read_document now token d (secured c)) query limit document_ids (content c)))
          (\<lambda>ranked.
             let by_id = (\<lambda>k. List.find (\<lambda>ck. c_id ck = k \<and> (\<exists>d \<in> set (documents (content c)). d_id d = c_document ck \<and>
                            v4_can_read_document now token (d_id d) (secured c))) (rev (chunks (content c))))
             in Inr [(ck, d). (k, d) \<leftarrow> ranked, ck \<leftarrow> option_list (by_id k)]))"

text \<open>
  The reranking; \<open>loaded\<close> is the result of loading the cross-encoder and \<open>score\<close> its scores. An error of either
  becomes a \<open>RerankerError\<close> with its text; a cancellation of the waiting task is not an \<open>Exception\<close> and passes.
\<close>

fun as_reranker_error :: "string \<Rightarrow> (exc, 'a) result \<Rightarrow> (exc, 'a) result" where
  "as_reranker_error failure (Inl (Failed message error)) = Inl (Failed (failure @ error_text message error) RuntimeErrorClass)"
| "as_reranker_error failure (Inl AccessRevoked) = Inl (Failed (failure @ ''source access was revoked'') RuntimeErrorClass)"
| "as_reranker_error failure r = r"

definition rerank ::
  "(exc, unit) result \<Rightarrow> (string \<Rightarrow> string list \<Rightarrow> (exc, rat list) result) \<Rightarrow> string \<Rightarrow> (chunk_row \<times> rat) list \<Rightarrow> nat \<Rightarrow>
   (exc, ranked_chunk list) result" where
  "rerank loaded score query candidates limit =
     (if limit < 5 \<or> 8 < limit then Inl (Failed ''reranker limit must be between 5 and 8'' ValueErrorClass)
      else if candidates = [] then Inr []
      else rbind (as_reranker_error (''unable to load CPU reranker '' @ [CHR 0x27] @ ''BAAI/bge-reranker-v2-m3'' @ [CHR 0x27] @ '': '') loaded) (\<lambda>_.
        rbind (as_reranker_error ''reranker inference failed: '' (score query (map (\<lambda>(ck, d). s_text (c_source ck)) candidates))) (\<lambda>scores.
        if length scores \<noteq> length candidates then Inl (Failed ''reranker returned an unexpected number of scores'' RuntimeErrorClass)
        else Inr (take limit (sort_key (\<lambda>x. - rk_score x)
          (map (\<lambda>((ck, d), s). \<lparr>rk_chunk = c_id ck, rk_distance = d, rk_score = s\<rparr>) (zip candidates scores)))))))"

definition retrieve_candidates ::
  "(VectorSearchTuning \<Rightarrow> uuid \<Rightarrow> bool) \<Rightarrow> (vector \<Rightarrow> vector \<Rightarrow> rat) \<Rightarrow> time \<Rightarrow> string \<Rightarrow> ActorContext \<Rightarrow> BeginTurn \<Rightarrow> vector \<Rightarrow> chat_db \<Rightarrow> (chat_error, (chunk_row \<times> rat) list) result" where
  "retrieve_candidates reached distance now token actor begin query c =
     (if actor \<noteq> bt_actor begin then Inl ChatNotFound else retrieve reached distance now token query 20 (Some (bt_document_ids begin)) None c)"

text \<open>The turn of an accepted question before its sources are known.\<close>

definition pending_turn :: "BeginTurn \<Rightarrow> PreparedChatTurn" where
  "pending_turn begin = \<lparr>pt_actor = bt_actor begin, pt_chat_id = bt_chat_id begin, pt_turn_id = bt_turn_id begin, pt_token = bt_token begin,
     pt_prompt = None, pt_sources = [], pt_already_complete = bt_already_complete begin, pt_access_revoked = False,
     pt_continuation_answer = None, pt_citation_base_prompt = None\<rparr>"

text \<open>A continued answer keeps the sources it had.\<close>

definition continued_turn ::
  "time \<Rightarrow> string \<Rightarrow> BeginTurn \<Rightarrow> string \<Rightarrow> chat_db \<Rightarrow> (chat_error, PreparedChatTurn) result" where
  "continued_turn now token begin partial c =
     (if own_chat now token (bt_chat_id begin) c = None then Inl ChatNotFound
      else if \<not> (\<exists>(t, hidden) \<in> set (v4_chat_history now token c). tn_chat t = bt_chat_id begin \<and> tn_id t = bt_turn_id begin \<and>
                   tn_status t = GENERATING \<and> tn_generation_token t = bt_token begin) then Inl stale_token
      else
        let sources = map snapshot_from_row (authorized_rows now token (bt_turn_id begin) c)
        in if sources = [] then Inl ChatAccessRevoked
           else rbind (lift_runtime (budget_prompt (bt_question begin) (bt_history begin) sources)) (\<lambda>(selected, base).
             case base of
               None \<Rightarrow> Inl (RuntimeError ''continuation source snapshot exceeded prompt budget'')
             | Some base_prompt \<Rightarrow>
                 if length selected \<noteq> length sources then Inl (RuntimeError ''continuation source snapshot exceeded prompt budget'')
                 else rbind (lift_runtime (continuation_prompt base_prompt partial)) (\<lambda>prompt.
                   Inr ((pending_turn begin)\<lparr>pt_prompt := Some prompt, pt_sources := sources, pt_already_complete := False,
                          pt_continuation_answer := Some partial, pt_citation_base_prompt := Some base_prompt\<rparr>))))"

definition snapshot_turn ::
  "env \<Rightarrow> time \<Rightarrow> string \<Rightarrow> ActorContext \<Rightarrow> BeginTurn \<Rightarrow> ranked_chunk list \<Rightarrow> chat_db \<Rightarrow>
   (chat_error, PreparedChatTurn \<times> chat_db) result" where
  "snapshot_turn env now token actor begin ranked c =
     (if actor \<noteq> bt_actor begin then Inl ChatNotFound
      else if bt_already_complete begin then Inr ((pending_turn begin)\<lparr>pt_token := None\<rparr>, c)
      else case bt_continuation_answer begin of
        Some partial \<Rightarrow> rbind (continued_turn now token begin partial c) (\<lambda>prepared. Inr (prepared, c))
      | None \<Rightarrow>
          rbind (snapshot_sources env now token actor begin ranked c) (\<lambda>((sources, prompt), c1).
          Inr ((pending_turn begin)\<lparr>pt_token := (if sources = [] then None else bt_token begin), pt_prompt := prompt, pt_sources := sources,
                 pt_already_complete := (sources = []), pt_citation_base_prompt := prompt\<rparr>, c1)))"

section \<open>Transactions of a request\<close>

text \<open>
  What a request meets: the session of its cookie, the time at each of its transactions, what other
  requests have done to the database before it, the embedding, the reranking and the generation models,
  how often the response polls while it waits for each of them, the text of database errors, and after
  which event the client closes the stream.
\<close>

record service =
  sv_env :: env
  sv_token :: string
  sv_clock :: "nat \<Rightarrow> time"
  sv_others :: "nat \<Rightarrow> chat_db \<Rightarrow> chat_db"
  sv_sql_text :: "sql_error \<Rightarrow> string"
  sv_reached :: "VectorSearchTuning \<Rightarrow> uuid \<Rightarrow> bool"
  sv_distance :: "vector \<Rightarrow> vector \<Rightarrow> rat"
  sv_polls :: "nat \<Rightarrow> nat"
  sv_embed :: "string \<Rightarrow> (exc, vector) result"
  sv_reranker :: "(exc, unit) result"
  sv_score :: "string \<Rightarrow> string list \<Rightarrow> (exc, rat list) result"
  sv_available :: "exc option"
  sv_generate :: "nat \<Rightarrow> string \<Rightarrow> bool \<Rightarrow> gen_item list"
  sv_closes :: "nat option"

record world =
  wd_step :: nat
  wd_db :: chat_db

text \<open>A transaction sees what the others have committed; one that raises is rolled back.\<close>

definition transaction ::
  "service \<Rightarrow> (time \<Rightarrow> chat_db \<Rightarrow> (exc, 'a \<times> chat_db) result) \<Rightarrow> world \<Rightarrow> (exc, 'a) result \<times> world" where
  "transaction sv f w =
     (let c = sv_others sv (wd_step w) (wd_db w); n = Suc (wd_step w)
      in case f (sv_clock sv (wd_step w)) c of
           Inl e \<Rightarrow> (Inl e, \<lparr>wd_step = n, wd_db = c\<rparr>)
         | Inr (x, c1) \<Rightarrow> (Inr x, \<lparr>wd_step = n, wd_db = c1\<rparr>))"

definition session_expired :: exc where
  "session_expired =
     (let q = [CHR 0x27] in Failed (''{'' @ q @ ''code'' @ q @ '': '' @ q @ ''session_expired'' @ q @ '', '' @ q @ ''message'' @ q @ '': '' @ q @
        ''Your session expired after 30 minutes of inactivity.'' @ q @ ''}'') (HTTPExceptionClass 401))"

text \<open>
  The caller is resolved once before the transaction and again inside it. The proof of origin that a
  request with writes repeats does not change during a response and is left out, as are an authentication
  service that is not available and the translation of database errors with the state 28000.
\<close>

definition authenticated_request ::
  "service \<Rightarrow> (ActorContext \<Rightarrow> time \<Rightarrow> chat_db \<Rightarrow> (chat_error, 'a \<times> chat_db) result) \<Rightarrow> world \<Rightarrow> (exc, 'a) result \<times> world" where
  "authenticated_request sv f w =
     (let view = (\<lambda>now c. case v4_activate_actor now (sv_token sv) (secured c) of Inl e \<Rightarrow> Inl session_expired | Inr actor \<Rightarrow> Inr actor)
      in case transaction sv (\<lambda>now c. rbind (view now c) (\<lambda>actor. Inr (actor, c))) w of
           (Inl e, w1) \<Rightarrow> (Inl e, w1)
         | (Inr seen, w1) \<Rightarrow>
             transaction sv (\<lambda>now c. rbind (view now c) (\<lambda>actor.
               if actor \<noteq> seen then Inl session_expired
               else case f actor now c of Inl e \<Rightarrow> Inl (exc_of (sv_sql_text sv) e) | Inr x \<Rightarrow> Inr x)) w1)"

definition as_callback :: "(exc, unit) result \<times> world \<Rightarrow> exc option \<times> world" where
  "as_callback rw = (case fst rw of Inl e \<Rightarrow> Some e | Inr _ \<Rightarrow> None, snd rw)"

text \<open>The end of a turn whose caller has no access any more needs no session.\<close>

definition mark_access_revoked_trusted :: "service \<Rightarrow> BeginTurn \<Rightarrow> world \<Rightarrow> (exc, unit) result \<times> world" where
  "mark_access_revoked_trusted sv begin w =
     (if bt_token begin = None then (Inr (), w)
      else transaction sv (\<lambda>now c.
        case known_outcome [''updated'', ''already_terminal'', ''stale'', ''not_found''] ''trusted access-revocation returned an invalid outcome''
               (v4_mark_turn_access_revoked_trusted (sv_env sv) (bt_turn_id begin) (bt_token begin) c) of
          Inl e \<Rightarrow> Inl (exc_of (sv_sql_text sv) e) | Inr c1 \<Rightarrow> Inr ((), c1)) w)"

definition route_transition :: "service \<Rightarrow> BeginTurn \<Rightarrow> string \<Rightarrow> string \<Rightarrow> world \<Rightarrow> (exc, unit) result \<times> world" where
  "route_transition sv begin status message =
     (if status = ''access_revoked'' then mark_access_revoked_trusted sv begin
      else authenticated_request sv (\<lambda>actor now c.
        rbind (transition (sv_env sv) now (sv_token sv) actor begin status message c) (\<lambda>c1. Inr ((), c1))))"

definition route_finalize ::
  "service \<Rightarrow> PreparedChatTurn \<Rightarrow> string \<Rightarrow> bool \<Rightarrow> ChatSourceSnapshot list \<Rightarrow> world \<Rightarrow> (exc, ChatSourceSnapshot list) result \<times> world" where
  "route_finalize sv prepared answer insufficient citations =
     authenticated_request sv (\<lambda>actor now c. complete (sv_env sv) now (sv_token sv) actor prepared answer insufficient citations c)"

definition access_status :: "exc \<Rightarrow> bool" where
  "access_status e = (case e of Failed m (HTTPExceptionClass n) \<Rightarrow> n \<in> {401, 403, 404} | _ \<Rightarrow> False)"

definition route_monitor :: "service \<Rightarrow> PreparedChatTurn \<Rightarrow> world \<Rightarrow> (exc, unit) result \<times> world" where
  "route_monitor sv prepared w =
     (case authenticated_request sv (\<lambda>actor now c. rbind (monitor now (sv_token sv) actor prepared c) (\<lambda>_. Inr ((), c))) w of
        (Inl e, w1) \<Rightarrow> (Inl (if access_status e then AccessRevoked else e), w1)
      | (Inr _, w1) \<Rightarrow> (Inr (), w1))"

text \<open>The turn the stream hands to the transitions.\<close>

definition begin_of :: "PreparedChatTurn \<Rightarrow> BeginTurn" where
  "begin_of prepared = \<lparr>bt_actor = pt_actor prepared, bt_chat_id = pt_chat_id prepared, bt_turn_id = pt_turn_id prepared,
     bt_token = pt_token prepared, bt_question = [], bt_attempt = 0, bt_document_ids = [], bt_history = [], bt_retrieval_query = [],
     bt_already_complete = False, bt_continuation_answer = None\<rparr>"

definition route_callbacks :: "service \<Rightarrow> PreparedChatTurn \<Rightarrow> world callbacks" where
  "route_callbacks sv prepared = \<lparr>
     cb_monitor = (\<lambda>w. as_callback (route_monitor sv prepared w)),
     cb_generate = (\<lambda>n prompt think w. (sv_generate sv n prompt think, w)),
     cb_transition = (\<lambda>status message w. as_callback (route_transition sv (begin_of prepared) status message w)),
     cb_finalize = (\<lambda>answer insufficient citations w. route_finalize sv prepared answer insufficient citations w),
     cb_closes = sv_closes sv\<rparr>"

definition interrupt_prepared :: "service \<Rightarrow> PreparedChatTurn \<Rightarrow> world \<Rightarrow> (exc, unit) result \<times> world" where
  "interrupt_prepared sv prepared w =
     (if pt_already_complete prepared \<or> pt_access_revoked prepared \<or> pt_token prepared = None then (Inr (), w)
      else route_transition sv (begin_of prepared) ''interrupted'' ''generation cancelled'' w)"

section \<open>The response\<close>

definition on_world :: "(world \<Rightarrow> (exc, 'a) result \<times> world) \<Rightarrow> (world, 'a) act" where
  "on_world f s = (case f (st_world s) of (r, w) \<Rightarrow> (r, s\<lparr>st_world := w\<rparr>))"

definition call_external :: "(exc, 'a) result \<Rightarrow> (world, 'a) act" where
  "call_external r s = (r, s)"

text \<open>
  While the response waits for a model it monitors the turn every half second; a poll that raises cancels
  the wait. \<open>sv_polls\<close> is the number of polls before the first, second and third wait ends. That the
  client leaves before the first event was sent, when the body of the response has not started, is not
  modelled.
\<close>

fun monitored :: "service \<Rightarrow> PreparedChatTurn \<Rightarrow> nat \<Rightarrow> (exc, 'a) result \<Rightarrow> (world, 'a) act" where
  "monitored sv target 0 r = call_external r"
| "monitored sv target (Suc polls) r = sthen (on_world (route_monitor sv target)) (monitored sv target polls r)"

text \<open>
  The events of the inner stream are forwarded and numbered on from the outer one, which keeps its own
  number. A client that closes while one of them is forwarded raises in the outer stream; the inner
  one stays where it is.
\<close>

definition forwarded :: "service \<Rightarrow> PreparedChatTurn \<Rightarrow> (world, unit) act" where
  "forwarded sv prepared s =
     (let cb = route_callbacks sv prepared;
          (r, s1) =
            (case (pt_access_revoked prepared \<or> pt_already_complete prepared, pt_prompt prepared) of
               (False, Some prompt) \<Rightarrow>
                 (case stream_body cb prepared prompt s of (Inl GeneratorExit, s1) \<Rightarrow> (Inl GeneratorExit, s1) | _ \<Rightarrow> stream cb prepared s)
             | _ \<Rightarrow> stream cb prepared s)
      in (r, s1\<lparr>st_sequence := st_sequence s\<rparr>))"

definition response_body :: "service \<Rightarrow> BeginTurn \<Rightarrow> (world, unit) act" where
  "response_body sv begin =
     (let cb = route_callbacks sv (pending_turn begin) in
      sthen (emit cb (StatusEvent ''retrieving''))
        (if bt_already_complete begin then
           sthen (emit cb (StatusEvent ''reranking'')) (sthen (emit cb (StatusEvent ''preparing_answer'')) (forwarded sv (pending_turn begin)))
         else
           sbind (if bt_continuation_answer begin \<noteq> None then sreturn None
                  else sbind (monitored sv (pending_turn begin) (sv_polls sv 0) (sv_embed sv (bt_retrieval_query begin))) (\<lambda>v. sreturn (Some v))) (\<lambda>query.
           sbind (case query of None \<Rightarrow> sreturn []
                  | Some v \<Rightarrow> on_world (authenticated_request sv (\<lambda>actor now c.
                      rbind (retrieve_candidates (sv_reached sv) (sv_distance sv) now (sv_token sv) actor begin v c) (\<lambda>found. Inr (found, c))))) (\<lambda>candidates.
           sthen (emit cb (StatusEvent ''reranking''))
             (sbind (monitored sv (pending_turn begin) (sv_polls sv 1) (rerank (sv_reranker sv) (sv_score sv) (bt_retrieval_query begin) candidates 6)) (\<lambda>ranked.
              sthen (emit cb (StatusEvent ''preparing_answer''))
                (sbind (on_world (authenticated_request sv (\<lambda>actor now c.
                          snapshot_turn (sv_env sv) now (sv_token sv) actor begin ranked c))) (\<lambda>prepared.
                 sthen (if pt_already_complete prepared \<or> pt_prompt prepared = None then sreturn ()
                        else monitored sv prepared (sv_polls sv 2) (case sv_available sv of None \<Rightarrow> Inr () | Some e \<Rightarrow> Inl e))
                   (forwarded sv prepared)))))))))"

definition failure_message :: "string \<Rightarrow> error_class \<Rightarrow> string" where
  "failure_message message class =
     (case class of
        HTTPExceptionClass n \<Rightarrow> take 500 (if strip message = [] then ''generation failed'' else strip message)
      | _ \<Rightarrow> take 500 (if strip message = [] then class_name class else strip message))"

definition handle_response :: "service \<Rightarrow> BeginTurn \<Rightarrow> exc \<Rightarrow> (world, unit) act" where
  "handle_response sv begin e =
     (let cb = route_callbacks sv (pending_turn begin);
          revoked = sthen (on_world (mark_access_revoked_trusted sv begin)) (emit cb (ErrorEvent ''access_revoked'' ''access to a source was revoked''))
      in case e of
           CancelledError \<Rightarrow> sthen (on_world (interrupt_prepared sv (pending_turn begin))) (sraise CancelledError)
         | GeneratorExit \<Rightarrow> sthen (on_world (interrupt_prepared sv (pending_turn begin))) (sraise GeneratorExit)
         | AccessRevoked \<Rightarrow> revoked
         | Failed message class \<Rightarrow>
             if access_status e then revoked
             else sthen (on_world (route_transition sv begin ''failed'' (failure_message message class)))
                    (emit cb (ErrorEvent ''generation_failed'' (failure_message message class))))"

definition response_stream :: "service \<Rightarrow> BeginTurn \<Rightarrow> (world, unit) act" where
  "response_stream sv begin s =
     (case response_body sv begin s of (Inl e, s1) \<Rightarrow> handle_response sv begin e s1 | (Inr x, s1) \<Rightarrow> (Inr x, s1))"

text \<open>A response that was interrupted or failed tries once more to interrupt the turn.\<close>

definition respond :: "service \<Rightarrow> BeginTurn \<Rightarrow> (world, unit) act" where
  "respond sv begin s =
     (case response_stream sv begin s of
        (Inl e, s1) \<Rightarrow> (Inl e, snd (on_world (interrupt_prepared sv (pending_turn begin)) s1))
      | (Inr x, s1) \<Rightarrow> (Inr x, s1))"

section \<open>Ending a turn\<close>

definition ended :: "uuid \<Rightarrow> uuid option \<Rightarrow> chat_db \<Rightarrow> bool" where
  "ended turn g c \<longleftrightarrow> (\<forall>t \<in> set (turns c). tn_id t = turn \<longrightarrow> tn_status t \<noteq> GENERATING \<or> tn_generation_token t \<noteq> g)"

lemma ended_update: "(\<And>t. tn_status (f t) \<noteq> GENERATING \<and> tn_id (f t) = tn_id t) \<Longrightarrow>
  (\<forall>t \<in> set (turns c). tn_id t = turn \<and> tn_status t = GENERATING \<and> tn_generation_token t = g \<longrightarrow> p t) \<Longrightarrow>
  ended turn g (c\<lparr>turns := update_where p f (turns c)\<rparr>)"
  by (auto simp: ended_def update_where_def)

lemma generating_left:
  "status \<noteq> GENERATING \<Longrightarrow> filter (\<lambda>t. tn_status t = GENERATING) (update_where p (end_turn status partial message) ts) =
     filter (\<lambda>t. \<not> p t \<and> tn_status t = GENERATING) ts"
  by (induction ts) (auto simp: update_where_def end_turn_def)

lemma end_turns_succeeds:
  assumes "chats_ok env c" "\<And>t. t \<in> set (turns c) \<Longrightarrow> p t \<Longrightarrow> turn_consistent (end_turn status partial message t)" "status \<noteq> GENERATING"
  shows "end_turns env p (end_turn status partial message) c = Inr (c\<lparr>turns := update_where p (end_turn status partial message) (turns c)\<rparr>)"
proof -
  let ?f = "end_turn status partial message"
  have "distinct (map tn_chat (filter (\<lambda>t. tn_status t = GENERATING) (turns c)))" using assms(1) by (simp add: chats_ok_def chat_uniques_def)
  then have "distinct (map tn_chat (filter (\<lambda>t. tn_status t = GENERATING) (update_where p ?f (turns c))))"
    using assms(3) by (simp add: generating_left distinct_filter_conj)
  moreover have "turn_ok (?f t)" if "t \<in> set (turns c)" "p t" for t
    using assms(1,2) that by (auto simp: chats_ok_def chat_checks_def list_all_iff turn_ok_def end_turn_def)
  ultimately have "chats_ok env (c\<lparr>turns := update_where p ?f (turns c)\<rparr>)" by (intro chats_ok_turns [OF assms(1)]) (auto simp: end_turn_def)
  then show ?thesis by (simp add: end_turns_Inr)
qed

text \<open>The turn belongs to a chat of the caller.\<close>

definition owned :: "BeginTurn \<Rightarrow> chat_db \<Rightarrow> bool" where
  "owned begin c \<longleftrightarrow> (\<forall>t \<in> set (turns c). tn_id t = bt_turn_id begin \<longrightarrow> tn_chat t = bt_chat_id begin \<and>
     (\<exists>x \<in> set (chats c). ct_id x = bt_chat_id begin \<and> ct_owner x = fst (bt_actor begin)))"

lemma activated_actor: "v4_activate_actor now token (secured c) = Inr actor \<Longrightarrow> token \<noteq> [] \<Longrightarrow> actor_of now token c = Some (fst actor)"
  by (auto simp: v4_activate_actor_def actor_of_def v4_current_actor_id_def split: option.splits dest: find_SomeD)

lemma owned_chat: "owned begin c \<Longrightarrow> actor_of now token c = Some (fst (bt_actor begin)) \<Longrightarrow> t \<in> set (turns c) \<Longrightarrow> tn_id t = bt_turn_id begin \<Longrightarrow>
  own_chat now token (bt_chat_id begin) c \<noteq> None"
  unfolding owned_def own_chat_def find_None_iff by fastforce

lemma own_turn_ended:
  assumes "end_own_turn env now token (bt_chat_id begin) (bt_turn_id begin) (Some g) status already res part msg c = Inr (v, c1)"
    "owned begin c" "actor_of now token c = Some (fst (bt_actor begin))" "chats_ok env c" "status \<noteq> GENERATING"
  shows "ended (bt_turn_id begin) (Some g) c1"
proof (cases "\<exists>t \<in> set (turns c). tn_id t = bt_turn_id begin")
  case True
  then obtain t where t: "t \<in> set (turns c)" "tn_id t = bt_turn_id begin" by blast
  then have "tn_chat t = bt_chat_id begin" using assms(2) by (auto simp: owned_def)
  then have "List.find (\<lambda>t. tn_id t = bt_turn_id begin \<and> tn_chat t = bt_chat_id begin) (turns c) \<noteq> None" using t by (auto simp: find_None_iff)
  then obtain t' where t': "List.find (\<lambda>t. tn_id t = bt_turn_id begin \<and> tn_chat t = bt_chat_id begin) (turns c) = Some t'" by blast
  then have "t' = t" using find_SomeD [OF t'] t same_turn [OF assms(4)] by auto
  moreover have "\<forall>x \<in> set (turns c). tn_id x = bt_turn_id begin \<longrightarrow> x = t" using t same_turn [OF assms(4)] by auto
  ultimately show ?thesis using assms(1,5) owned_chat [OF assms(2,3) t] t'
    by (auto simp: end_own_turn_def rbind_Inr_iff end_turns_Inr split: option.splits if_splits intro!: ended_update)
      (auto simp: ended_def end_turn_def)
next
  case False
  then have "ended (bt_turn_id begin) (Some g) c" by (auto simp: ended_def)
  then show ?thesis using assms(1,5)
    by (auto simp: end_own_turn_def rbind_Inr_iff end_turns_Inr split: option.splits if_splits intro!: ended_update) (auto simp: end_turn_def ended_def)
qed

lemma trusted_ended:
  assumes "v4_mark_turn_access_revoked_trusted env turn (Some g) c = Inr (v, c1)" "chats_ok env c"
  shows "ended turn (Some g) c1"
proof (cases "List.find (\<lambda>t. tn_id t = turn) (turns c)")
  case None
  then have "c1 = c" using assms(1) by (simp add: v4_mark_turn_access_revoked_trusted_def)
  then show ?thesis using None by (auto simp: ended_def find_None_iff)
next
  case (Some t)
  then have "\<forall>x \<in> set (turns c). tn_id x = turn \<longrightarrow> x = t" using find_SomeD [OF Some] same_turn [OF assms(2)] by auto
  then show ?thesis using assms(1) Some
    by (auto simp: v4_mark_turn_access_revoked_trusted_def rbind_Inr_iff end_turns_Inr split: if_splits intro!: ended_update)
      (auto simp: ended_def end_turn_def)
qed

lemma generating_owned:
  "owned begin c \<Longrightarrow> actor_of now token c = Some (fst (bt_actor begin)) \<Longrightarrow> t \<in> set (turns c) \<Longrightarrow> tn_id t = bt_turn_id begin \<Longrightarrow>
   tn_status t = GENERATING \<Longrightarrow> tn_generation_token t = Some g \<Longrightarrow> generating_under now token (Some g) c t"
  unfolding owned_def generating_under_def by fastforce

lemma fail_ended:
  assumes "v4_fail_turn env now token (bt_turn_id begin) (Some g) message c = Inr (v, c1)" "between (int (length (btrim message))) 1 500"
    "owned begin c" "actor_of now token c = Some (fst (bt_actor begin))"
  shows "ended (bt_turn_id begin) (Some g) c1"
  using assms(1,2) generating_owned [OF assms(3,4)]
  by (auto simp: v4_fail_turn_def Let_def rbind_Inr_iff end_turns_Inr intro!: ended_update) (auto simp: end_turn_def)

lemma revoked_ended:
  assumes "v4_mark_turn_access_revoked env now token (bt_turn_id begin) (Some g) c = Inr (v, c1)"
    "owned begin c" "actor_of now token c = Some (fst (bt_actor begin))"
  shows "ended (bt_turn_id begin) (Some g) c1"
  using assms(1) generating_owned [OF assms(2,3)]
  by (auto simp: v4_mark_turn_access_revoked_def Let_def rbind_Inr_iff end_turns_Inr intro!: ended_update) (auto simp: end_turn_def)

lemma finalize_ended: "v4_finalize_turn env now token turn g answer insufficient ranks c = Inr (True, c1) \<Longrightarrow> ended turn g c1"
  by (auto simp: v4_finalize_turn_def rbind_Inr_iff end_turns_Inr split: option.splits if_splits intro!: ended_update) (auto simp: ended_def update_where_def)

section \<open>What the transactions leave\<close>

text \<open>
  The session is that of the caller who asked the question, or it has ended; a session that stays never
  ends. The constraints hold and the turn belongs to the caller.
\<close>

definition served :: "service \<Rightarrow> BeginTurn \<Rightarrow> bool \<Rightarrow> chat_db \<Rightarrow> bool" where
  "served sv begin stays c \<longleftrightarrow> chats_ok (sv_env sv) c \<and> owned begin c \<and> sv_token sv \<noteq> [] \<and>
     (\<forall>n. case v4_activate_actor (sv_clock sv n) (sv_token sv) (secured c) of Inl e \<Rightarrow> \<not> stays | Inr actor \<Rightarrow> actor = bt_actor begin)"

definition same_frame :: "chat_db \<Rightarrow> chat_db \<Rightarrow> bool" where
  "same_frame c c1 \<longleftrightarrow> secured c1 = secured c \<and> chats c1 = chats c \<and>
     map (\<lambda>t. (tn_id t, tn_chat t)) (turns c1) = map (\<lambda>t. (tn_id t, tn_chat t)) (turns c)"

lemma same_frame_refl [simp]: "same_frame c c"
  by (simp add: same_frame_def)

lemma owned_frame:
  assumes "same_frame c c1" "owned begin c"
  shows "owned begin c1"
proof -
  have "(tn_id t, tn_chat t) \<in> (\<lambda>t. (tn_id t, tn_chat t)) ` set (turns c)" if "t \<in> set (turns c1)" for t
    using that assms(1) by (metis (no_types, lifting) image_eqI list.set_map same_frame_def)
  then show ?thesis using assms by (fastforce simp: owned_def same_frame_def)
qed

lemma served_frame: "same_frame c c1 \<Longrightarrow> chats_ok (sv_env sv) c1 \<Longrightarrow> served sv begin stays c \<Longrightarrow> served sv begin stays c1"
  by (auto simp: served_def owned_frame) (simp add: same_frame_def)

lemma update_frame: "(\<And>t. tn_id (f t) = tn_id t \<and> tn_chat (f t) = tn_chat t) \<Longrightarrow> same_frame c (c\<lparr>turns := update_where p f (turns c)\<rparr>)"
  by (simp add: same_frame_def)

lemma end_turns_frame: "end_turns env p (end_turn status part msg) c = Inr c1 \<Longrightarrow> same_frame c c1 \<and> chats_ok env c1"
  using update_frame [of "end_turn status part msg" c p] by (auto simp: end_turns_Inr end_turn_def)

lemma own_turn_frame: "end_own_turn env now token i turn g status already res part msg c = Inr (v, c1) \<Longrightarrow> chats_ok env c \<Longrightarrow> same_frame c c1 \<and> chats_ok env c1"
  by (auto simp: end_own_turn_def rbind_Inr_iff split: option.splits if_splits dest: end_turns_frame)

lemma trusted_frame: "v4_mark_turn_access_revoked_trusted env turn g c = Inr (v, c1) \<Longrightarrow> chats_ok env c \<Longrightarrow> same_frame c c1 \<and> chats_ok env c1"
  by (auto simp: v4_mark_turn_access_revoked_trusted_def rbind_Inr_iff split: option.splits if_splits dest: end_turns_frame)

lemma finalize_frame:
  assumes "v4_finalize_turn env now token turn g answer insufficient ranks c = Inr (b, c1)" "chats_ok env c"
  shows "same_frame c c1 \<and> chats_ok env c1"
  using assms update_frame
  by (auto simp: v4_finalize_turn_def rbind_Inr_iff split: option.splits if_splits dest: end_turns_frame) (auto simp: end_turns_Inr same_frame_def)

lemma store_frame:
  "v4_store_turn_sources env now token turn g rs c = Inr (n, c1) \<Longrightarrow> same_frame c c1 \<and> chats_ok env c1"
  by (auto simp: v4_store_turn_sources_def rbind_Inr_iff same_frame_def split: option.splits if_splits)

lemmas lift_simps = lift_sql_def lift_runtime_def known_outcome_def

lemma lift_sql_Inr: "lift_sql r = Inr x \<longleftrightarrow> r = Inr x"
  by (cases r) (auto simp: lift_sql_def)

lemma lift_runtime_Inr: "lift_runtime r = Inr x \<longleftrightarrow> r = Inr x"
  by (cases r) (auto simp: lift_runtime_def)

lemma known_outcome_Inr: "known_outcome os m r = Inr c1 \<longleftrightarrow> (\<exists>v. r = Inr (v, c1) \<and> v \<in> set os)"
  by (auto simp: known_outcome_def rbind_Inr_iff lift_sql_Inr split: if_splits)

lemmas lifted = lift_sql_Inr lift_runtime_Inr known_outcome_Inr rbind_Inr_iff

lemma transition_frame:
  assumes "transition env now token actor begin status message c = Inr c1" "chats_ok env c"
  shows "same_frame c c1 \<and> chats_ok env c1"
  using assms
  by (auto simp: transition_def lifted v4_mark_turn_access_revoked_def v4_interrupt_turn_def v4_mark_turn_length_limited_def
    v4_mark_turn_citation_failed_def v4_fail_turn_def Let_def split: if_splits dest: own_turn_frame end_turns_frame)

text \<open>A message the database accepts for a failed turn.\<close>

definition acceptable :: "string \<Rightarrow> string \<Rightarrow> bool" where
  "acceptable status message \<longleftrightarrow> status = ''failed'' \<longrightarrow> message \<noteq> [] \<and> \<not> is_space (hd message)"

lemma btrim_length: "length (btrim s) \<le> length s"
  unfolding btrim_def by (metis length_dropWhile_le length_rev order.trans)

lemma btrim_nonempty: "s \<noteq> [] \<Longrightarrow> hd s \<noteq> CHR '' '' \<Longrightarrow> btrim s \<noteq> []"
  by (cases s) (auto simp: btrim_def dropWhile_append split: if_splits)

lemma acceptable_length: "acceptable ''failed'' message \<Longrightarrow> between (int (length (btrim (take 500 message)))) 1 500"
proof -
  assume "acceptable ''failed'' message"
  moreover have "is_space CHR '' ''" by code_simp
  ultimately have "message \<noteq> []" "hd message \<noteq> CHR '' ''" by (auto simp: acceptable_def)
  then have "btrim (take 500 message) \<noteq> []" by (intro btrim_nonempty) (auto simp: hd_take)
  moreover have "length (btrim (take 500 message)) \<le> 500" using btrim_length [of "take 500 message"] by simp
  ultimately show ?thesis by (cases "btrim (take 500 message)") (auto simp: between_def)
qed

lemma transition_ended:
  assumes "transition env now token actor begin status message c = Inr c1" "bt_token begin = Some g" "acceptable status message"
    "owned begin c" "actor_of now token c = Some (fst (bt_actor begin))" "chats_ok env c"
  shows "ended (bt_turn_id begin) (Some g) c1"
proof -
  note own = own_turn_ended [OF _ assms(4,5,6), of g] and rest = revoked_ended [OF _ assms(4,5)] fail_ended [OF _ _ assms(4,5)]
  show ?thesis using assms(1,2,3) acceptable_length [of message]
    by (auto simp: transition_def lifted v4_interrupt_turn_def v4_mark_turn_length_limited_def v4_mark_turn_citation_failed_def
      split: if_splits intro: own rest) (auto simp: acceptable_def intro: rest)
qed

section \<open>How a stream ends a turn\<close>

text \<open>An action that returns a value of a kind has established \<open>E\<close>, when \<open>P\<close> held before it.\<close>

definition leads :: "('w stream_state \<Rightarrow> bool) \<Rightarrow> ('a \<Rightarrow> bool) \<Rightarrow> ('w stream_state \<Rightarrow> bool) \<Rightarrow> ('w, 'a) act \<Rightarrow> bool" where
  "leads P Q E m \<longleftrightarrow> (\<forall>s y s'. P s \<longrightarrow> m s = (Inr y, s') \<longrightarrow> Q y \<longrightarrow> E s')"

lemma leadsD: "leads P Q E m \<Longrightarrow> P s \<Longrightarrow> m s = (Inr y, s') \<Longrightarrow> Q y \<Longrightarrow> E s'"
  by (auto simp: leads_def)

lemma leads_cases:
  assumes "\<And>s x s1. P s \<Longrightarrow> m s = (Inr x, s1) \<Longrightarrow> E s1 \<and> keeps E (f x) \<or> P s1 \<and> leads P Q E (f x)"
  shows "leads P Q E (sbind m f)"
  unfolding leads_def sbind_Inr using assms by (metis keeps_result leadsD)

lemma leads_bind: "keeps P m \<Longrightarrow> (\<And>x. leads P Q E (f x)) \<Longrightarrow> leads P Q E (sbind m f)"
  by (rule leads_cases) (blast dest: keeps_result)

lemma leads_then: "leads P (\<lambda>_. True) E m \<Longrightarrow> (\<And>x. keeps E (f x)) \<Longrightarrow> leads P Q E (sbind m f)"
  by (rule leads_cases) (blast dest: leadsD)

lemma leads_option:
  assumes "keeps P m" "leads P (\<lambda>v. v = None) E m" "\<And>x. leads P (\<lambda>_. True) E (f x)"
  shows "leads P (\<lambda>_. True) E (sbind m (\<lambda>v. case v of None \<Rightarrow> sreturn None | Some x \<Rightarrow> f x))"
proof (rule leads_cases)
  fix s v s1 assume run: "P s" "m s = (Inr v, s1)"
  show "E s1 \<and> keeps E (case v of None \<Rightarrow> sreturn None | Some x \<Rightarrow> f x) \<or> P s1 \<and> leads P (\<lambda>_. True) E (case v of None \<Rightarrow> sreturn None | Some x \<Rightarrow> f x)"
  proof (cases v)
    case None
    then show ?thesis using leadsD [OF assms(2) run] by (simp add: keeps_act)
  next
    case (Some x)
    then show ?thesis using keeps_result [OF assms(1) run(2,1)] assms(3) by simp
  qed
qed

lemma leads_act: "\<not> Q x \<Longrightarrow> leads P Q E (sreturn x)" "leads P Q E (sraise e)" "leads P Q E (runtime_error msg)"
  by (simp_all add: leads_def)

lemma leads_if: "(b \<Longrightarrow> leads P Q E m) \<Longrightarrow> (\<not> b \<Longrightarrow> leads P Q E k) \<Longrightarrow> leads P Q E (if b then m else k)"
  by simp

lemma class_name_printed: "class_name class \<noteq> [] \<and> \<not> is_space (hd (class_name class))"
proof -
  have "\<not> is_space CHR ''R''" "\<not> is_space CHR ''V''" "\<not> is_space CHR ''C''" "\<not> is_space CHR ''H''" "\<not> is_space CHR ''G''" "\<not> is_space CHR ''D''"
    by code_simp+
  then show ?thesis by (cases "class") simp_all
qed

lemma acceptable_take: "s \<noteq> [] \<Longrightarrow> \<not> is_space (hd s) \<Longrightarrow> acceptable ''failed'' (take 500 s)"
  by (cases s) (simp_all add: acceptable_def take_Cons')

lemma acceptable_or:
  "fallback \<noteq> [] \<and> \<not> is_space (hd fallback) \<Longrightarrow> acceptable ''failed'' (take 500 (if strip message = [] then fallback else strip message))"
  using strip_stripped [of message] by (intro acceptable_take) (auto simp: stripped_def)

lemma acceptable_bounded: "acceptable ''failed'' (bounded_error message class)"
  unfolding bounded_error_def by (rule acceptable_or [OF class_name_printed])

text \<open>
  A stream whose successful transitions and completions establish \<open>E\<close> from \<open>P\<close>, and which otherwise
  keeps \<open>P\<close>, has established \<open>E\<close> when it returns.
\<close>

locale stream_ending = stream_property P cb "\<lambda>_. True" for P :: "'w stream_state \<Rightarrow> bool" and cb :: "'w callbacks" +
  fixes E :: "'w stream_state \<Rightarrow> bool"
  assumes keeps_transition: "keeps P (call_transition cb status message)"
    and keeps_finalize: "keeps P (call_finalize cb answer insufficient citations)"
    and transition_leads: "acceptable status message \<Longrightarrow> leads P (\<lambda>_. True) E (call_transition cb status message)"
    and finalize_leads: "leads P (\<lambda>_. True) E (call_finalize cb answer insufficient citations)"
    and emit_keeps: "keeps E (emit cb ev)"
begin

lemmas leads_rules = leads_bind leads_act leads_if keeps_rules keeps_consume keeps_consume_repair

lemma loop_leads: "leads P (\<lambda>parts. parts = None) E (answer_loop cb base continuations n prompt thinks v)"
proof (induction continuations arbitrary: n prompt thinks v)
  case 0
  have limit: "leads P (\<lambda>parts. parts = None) E (sthen (call_transition cb ''length_limited'' answer) (sthen (emit cb ev) (sreturn None)))" for answer ev
    by (intro leads_then transition_leads keeps_intros emit_keeps) (simp add: acceptable_def)
  show ?case by (subst answer_loop.simps) (unfold Let_def case_prod_beta nat.case, intro limit leads_rules, simp_all)
next
  case (Suc continuations)
  then show ?case by (subst answer_loop.simps) (auto split: prod.splits intro!: leads_rules)
qed

lemma validated_leads: "leads P (\<lambda>v. v = None) E (validated_answer cb prepared prompt answer)"
proof -
  have draft: "leads P (\<lambda>v. v = None) E (sthen (call_transition cb ''citation_failed'' answer) (sthen (emit cb ev) (sreturn None)))" for ev
    by (intro leads_then transition_leads keeps_intros emit_keeps) (simp add: acceptable_def)
  show ?thesis unfolding validated_answer_def Let_def case_prod_beta by (intro draft leads_rules) simp_all
qed

lemma finish_leads: "leads P (\<lambda>_. True) E (finish_answer cb answer cited)"
  unfolding finish_answer_def Let_def by (auto intro!: leads_then leads_act finalize_leads keeps_intros)

lemma body_keeps: "keeps P (stream_body cb prepared prompt)"
  by (rule keeps_stream_body [OF keeps_transition keeps_finalize]) simp_all

lemma body_leads: "leads P (\<lambda>_. True) E (stream_body cb prepared prompt)"
proof -
  have opened: "keeps P (open_stream cb prepared)" unfolding open_stream_def by (auto intro!: keeps_rules)
  have answered: "keeps P (answer_stream cb prepared prompt)" unfolding answer_stream_def by (intro keeps_answer_loop keeps_transition TrueI)
  have "keeps P (validated_answer cb prepared prompt answer)" for answer by (intro keeps_validated_answer keeps_transition TrueI)
  then have "leads P (\<lambda>_. True) E (sbind (validated_answer cb prepared prompt answer) (\<lambda>v.
      case v of None \<Rightarrow> sreturn None | Some v \<Rightarrow> sbind (finish_answer cb (fst v) (snd v)) (\<lambda>result. sreturn (Some result))))" for answer
    by (rule leads_option [OF _ validated_leads]) (rule leads_then [OF finish_leads keeps_act(1)])
  then show ?thesis unfolding stream_body_def
    by (intro leads_bind [OF opened] leads_option [OF answered]) (simp_all add: answer_stream_def loop_leads)
qed

lemma handler_leads: "leads P (\<lambda>_. True) E (handle_error cb e)"
  unfolding handle_error_def
  by (cases e) (auto intro!: leads_then transition_leads emit_keeps keeps_intros acceptable_bounded simp: acceptable_def)

lemma handler_keeps: "keeps P (handle_error cb e)"
  unfolding handle_error_def by (cases e) (auto intro!: keeps_rules keeps_transition)

lemma stream_leads:
  assumes "\<not> pt_access_revoked prepared" "\<not> pt_already_complete prepared" "pt_prompt prepared = Some prompt"
  shows "leads P (\<lambda>_. True) E (stream cb prepared)"
  unfolding leads_def
proof (intro allI impI)
  fix s y s' assume "P s" "stream cb prepared s = (Inr y, s')" "True"
  from this(2) assms show "E s'"
  proof (cases rule: stream_cases)
    case (failed e s1)
    then show ?thesis using \<open>P s\<close> keeps_result [OF body_keeps] leadsD [OF handler_leads] by blast
  next
    case returned
    then show ?thesis using \<open>P s\<close> leadsD [OF body_leads] by blast
  next
    case (final answer insufficient citations s1)
    then show ?thesis using \<open>P s\<close> leadsD [OF body_leads] keeps_result [OF emit_keeps] by blast
  qed
qed

lemma stream_keeps:
  assumes "\<not> pt_access_revoked prepared" "\<not> pt_already_complete prepared" "pt_prompt prepared = Some prompt"
  shows "keeps P (stream cb prepared)"
  unfolding keeps_def
proof (intro allI impI)
  fix s assume "P s"
  obtain r s' where run: "stream cb prepared s = (r, s')" by fastforce
  from this assms have "P s'"
  proof (cases rule: stream_cases)
    case (failed e s1)
    then show ?thesis using \<open>P s\<close> keeps_result [OF body_keeps] keeps_result [OF handler_keeps] by blast
  next
    case returned
    then show ?thesis using \<open>P s\<close> keeps_result [OF body_keeps] by blast
  next
    case (final answer insufficient citations s1)
    then show ?thesis using \<open>P s\<close> keeps_result [OF body_keeps] keeps_result [OF keeps_emit [OF TrueI]] by blast
  qed
  then show "P (snd (stream cb prepared s))" by (simp add: run)
qed

end

section \<open>The transactions of a request\<close>

text \<open>
  What other requests do between the transactions keeps the constraints, the owner of the turn and
  the caller's context, though it may end the session.
\<close>

definition undisturbed :: "service \<Rightarrow> BeginTurn \<Rightarrow> bool \<Rightarrow> bool" where
  "undisturbed sv begin stays \<longleftrightarrow> bt_token begin \<noteq> None \<and> (\<forall>n c. served sv begin stays c \<longrightarrow> served sv begin stays (sv_others sv n c))"

lemma transaction_cases:
  assumes "transaction sv f w = (r, w')"
  obtains (raised) e where "r = Inl e" "f (sv_clock sv (wd_step w)) (sv_others sv (wd_step w) (wd_db w)) = Inl e"
      "wd_db w' = sv_others sv (wd_step w) (wd_db w)"
  | (committed) x where "r = Inr x" "f (sv_clock sv (wd_step w)) (sv_others sv (wd_step w) (wd_db w)) = Inr (x, wd_db w')"
  using assms by (auto simp: transaction_def Let_def split: sum.splits)

lemma authenticated_cases:
  assumes "authenticated_request sv f w = (r, w')" "undisturbed sv begin stays" "served sv begin stays (wd_db w)"
  obtains (refused) e where "r = Inl e" "served sv begin stays (wd_db w')" "\<not> stays"
  | (raised) e now where "r = Inl (exc_of (sv_sql_text sv) e)" "served sv begin stays (wd_db w')"
      "actor_of now (sv_token sv) (wd_db w') = Some (fst (bt_actor begin))" "f (bt_actor begin) now (wd_db w') = Inl e"
  | (committed) x now c where "r = Inr x" "served sv begin stays c" "actor_of now (sv_token sv) c = Some (fst (bt_actor begin))"
      "f (bt_actor begin) now c = Inr (x, wd_db w')"
proof -
  let ?view = "\<lambda>now c. case v4_activate_actor now (sv_token sv) (secured c) of Inl e \<Rightarrow> Inl session_expired | Inr actor \<Rightarrow> Inr actor"
  obtain r1 w1 where first: "transaction sv (\<lambda>now c. rbind (?view now c) (\<lambda>actor. Inr (actor, c))) w = (r1, w1)" by fastforce
  let ?second = "\<lambda>seen now c. rbind (?view now c) (\<lambda>actor. if actor \<noteq> seen then Inl session_expired
    else case f actor now c of Inl e \<Rightarrow> Inl (exc_of (sv_sql_text sv) e) | Inr x \<Rightarrow> Inr x)"
  have run: "(case r1 of Inl e \<Rightarrow> (Inl e, w1) | Inr seen \<Rightarrow> transaction sv (?second seen) w1) = (r, w')"
    using assms(1) first by (auto simp: authenticated_request_def Let_def split: sum.splits)
  have others: "served sv begin stays (sv_others sv n c)" if "served sv begin stays c" for n c
    using assms(2) that by (auto simp: undisturbed_def)
  have view: "?view (sv_clock sv n) c = Inr actor \<longrightarrow> actor = bt_actor begin \<and> actor_of (sv_clock sv n) (sv_token sv) c = Some (fst (bt_actor begin))"
    "?view (sv_clock sv n) c = Inl e \<longrightarrow> \<not> stays" if "served sv begin stays c" for n c actor e
    using that activated_actor [of "sv_clock sv n" "sv_token sv" c] by (auto simp: served_def split: sum.splits dest!: spec [of _ n])
  from first show thesis
  proof (cases rule: transaction_cases)
    case (raised e)
    then have "served sv begin stays (wd_db w1)" using others assms(3) by simp
    moreover have "\<not> stays" using raised view(2) [OF others [OF assms(3)]] by (auto simp: rbind_def split: sum.splits)
    ultimately show thesis using run raised(1) refused by auto
  next
    case (committed seen)
    then have "?view (sv_clock sv (wd_step w)) (sv_others sv (wd_step w) (wd_db w)) = Inr seen" "wd_db w1 = sv_others sv (wd_step w) (wd_db w)"
      by (auto simp: rbind_Inr_iff)
    then have seen: "wd_db w1 = sv_others sv (wd_step w) (wd_db w)" "seen = bt_actor begin"
      using view(1) [OF others [OF assms(3)]] by blast+
    then have ok: "served sv begin stays (sv_others sv (wd_step w1) (wd_db w1))" using others assms(3) by simp
    from run committed(1) have "transaction sv (?second seen) w1 = (r, w')" by simp
    then show thesis
    proof (cases rule: transaction_cases)
      case inner: (raised e)
      show thesis
      proof (cases "?view (sv_clock sv (wd_step w1)) (sv_others sv (wd_step w1) (wd_db w1))")
        case (Inl e')
        then show thesis using view(2) [OF ok] inner(1,3) ok refused by auto
      next
        case (Inr actor)
        then have "actor = bt_actor begin" "actor_of (sv_clock sv (wd_step w1)) (sv_token sv) (wd_db w') = Some (fst (bt_actor begin))"
          using view(1) [OF ok] inner(3) by auto
        then show thesis using Inr inner ok seen(2) that(2) by (auto simp: rbind_def split: sum.splits)
      qed
    next
      case inner: (committed x)
      show thesis
      proof (cases "?view (sv_clock sv (wd_step w1)) (sv_others sv (wd_step w1) (wd_db w1))")
        case (Inl e)
        then show thesis using inner(2) by (simp add: rbind_def)
      next
        case (Inr actor)
        then have actor: "actor = bt_actor begin" "actor_of (sv_clock sv (wd_step w1)) (sv_token sv) (sv_others sv (wd_step w1) (wd_db w1)) = Some (fst (bt_actor begin))"
          using view(1) [OF ok] by blast+
        then have "f actor (sv_clock sv (wd_step w1)) (sv_others sv (wd_step w1) (wd_db w1)) = Inr (x, wd_db w')"
          using inner(2) Inr seen(2) by (simp add: rbind_def split: sum.splits)
        then show thesis using actor that(3) [OF inner(1) ok] by simp
      qed
    qed
  qed
qed

text \<open>The same turn of the same caller.\<close>

definition for_turn :: "BeginTurn \<Rightarrow> BeginTurn \<Rightarrow> bool" where
  "for_turn begin b \<longleftrightarrow> bt_actor b = bt_actor begin \<and> bt_chat_id b = bt_chat_id begin \<and> bt_turn_id b = bt_turn_id begin \<and> bt_token b = bt_token begin"

lemma owned_for_turn: "for_turn begin b \<Longrightarrow> owned begin c \<Longrightarrow> owned b c"
  by (simp add: owned_def for_turn_def)

lemma trusted_request:
  assumes "mark_access_revoked_trusted sv b w = (r, w')" "for_turn begin b" "undisturbed sv begin stays" "served sv begin stays (wd_db w)"
  shows "served sv begin stays (wd_db w') \<and> (r = Inr () \<longrightarrow> ended (bt_turn_id begin) (bt_token begin) (wd_db w'))"
proof -
  from assms(2,3) obtain g where g: "bt_token b = Some g" "bt_token begin = Some g" "bt_turn_id b = bt_turn_id begin"
    by (auto simp: undisturbed_def for_turn_def)
  let ?f = "\<lambda>now c. case known_outcome [''updated'', ''already_terminal'', ''stale'', ''not_found''] ''trusted access-revocation returned an invalid outcome''
      (v4_mark_turn_access_revoked_trusted (sv_env sv) (bt_turn_id b) (bt_token b) c) of Inl e \<Rightarrow> Inl (exc_of (sv_sql_text sv) e) | Inr c1 \<Rightarrow> Inr ((), c1)"
  let ?c = "sv_others sv (wd_step w) (wd_db w)"
  have c: "served sv begin stays ?c" using assms(3,4) by (auto simp: undisturbed_def)
  then have ok: "chats_ok (sv_env sv) ?c" by (simp add: served_def)
  have "transaction sv ?f w = (r, w')" using assms(1) g(1) by (simp add: mark_access_revoked_trusted_def)
  then show ?thesis
  proof (cases rule: transaction_cases)
    case (committed x)
    then obtain v where "v4_mark_turn_access_revoked_trusted (sv_env sv) (bt_turn_id begin) (Some g) ?c = Inr (v, wd_db w')"
      by (auto simp: known_outcome_Inr g split: sum.splits)
    then show ?thesis using trusted_frame [OF _ ok] trusted_ended [OF _ ok] served_frame [OF _ _ c] g(2) by metis
  qed (use c in simp)
qed

lemma interrupt_succeeds:
  assumes "chats_ok env c"
  shows "\<exists>v c1. v4_interrupt_turn env now token i turn g c = Inr (v, c1) \<and> v \<in> {''interrupted'', ''already_interrupted'', ''stale'', ''not_found''}"
proof -
  have "end_turns env (\<lambda>x. tn_id x = turn) (end_turn TURN_INTERRUPTED None ''generation cancelled'') c =
      Inr (c\<lparr>turns := update_where (\<lambda>x. tn_id x = turn) (end_turn TURN_INTERRUPTED None ''generation cancelled'') (turns c)\<rparr>)"
    by (rule end_turns_succeeds [OF assms]) (simp_all add: turn_consistent_def end_turn_def between_def)
  then show ?thesis by (auto simp: v4_interrupt_turn_def end_own_turn_def split: option.splits)
qed

lemma transition_request:
  assumes "route_transition sv b status message w = (r, w')" "for_turn begin b" "undisturbed sv begin stays" "served sv begin stays (wd_db w)"
  shows "served sv begin stays (wd_db w') \<and>
    (r = Inr () \<and> acceptable status message \<longrightarrow> ended (bt_turn_id begin) (bt_token begin) (wd_db w')) \<and>
    (stays \<and> status = ''interrupted'' \<longrightarrow> r = Inr ())"
proof (cases "status = ''access_revoked''")
  case True
  then show ?thesis using assms trusted_request [OF _ assms(2,3,4)] by (auto simp: route_transition_def)
next
  case False
  from assms(2,3) obtain g where g: "bt_token b = Some g" "bt_token begin = Some g" "bt_turn_id b = bt_turn_id begin" "bt_actor b = bt_actor begin"
    by (auto simp: undisturbed_def for_turn_def)
  let ?f = "\<lambda>actor now c. rbind (transition (sv_env sv) now (sv_token sv) actor b status message c) (\<lambda>c1. Inr ((), c1))"
  have "authenticated_request sv ?f w = (r, w')" using assms(1) False by (simp add: route_transition_def)
  then show ?thesis using assms(3,4)
  proof (cases rule: authenticated_cases)
    case (raised e now)
    then have "chats_ok (sv_env sv) (wd_db w')" by (simp add: served_def)
    from interrupt_succeeds [OF this, of now "sv_token sv" "bt_chat_id b" "bt_turn_id b" "bt_token b"] raised(4) g
    have "status \<noteq> ''interrupted''" by (auto simp: transition_def known_outcome_def lift_sql_def rbind_def split: sum.splits if_splits)
    then show ?thesis using raised by simp
  next
    case (committed x now c)
    then have run: "transition (sv_env sv) now (sv_token sv) (bt_actor begin) b status message c = Inr (wd_db w')" and ok: "chats_ok (sv_env sv) c" "owned b c"
      using owned_for_turn [OF assms(2)] by (auto simp: rbind_Inr_iff served_def)
    then show ?thesis using committed transition_frame [OF run ok(1)] served_frame [OF _ _ committed(2)]
      transition_ended [OF run g(1) _ ok(2) _ ok(1)] g by auto
  qed simp
qed

lemma finalize_request:
  assumes "route_finalize sv prepared answer insufficient citations w = (r, w')" "for_turn begin (begin_of prepared)"
    "undisturbed sv begin stays" "served sv begin stays (wd_db w)"
  shows "served sv begin stays (wd_db w') \<and> (\<forall>x. r = Inr x \<longrightarrow> ended (bt_turn_id begin) (bt_token begin) (wd_db w'))"
proof -
  have "authenticated_request sv (\<lambda>actor now c. complete (sv_env sv) now (sv_token sv) actor prepared answer insufficient citations c) w = (r, w')"
    using assms(1) by (simp add: route_finalize_def)
  then show ?thesis using assms(3,4)
  proof (cases rule: authenticated_cases)
    case (committed x now c)
    then have "v4_finalize_turn (sv_env sv) now (sv_token sv) (bt_turn_id begin) (bt_token begin) (Some answer) insufficient (Some (map cs_rank citations)) c =
        Inr (True, wd_db w')"
      using assms(2) by (auto simp: complete_def lifted Let_def for_turn_def begin_of_def split: if_splits)
    then show ?thesis using finalize_frame finalize_ended served_frame [OF _ _ committed(2)] committed(2) by (metis served_def)
  qed simp_all
qed

lemma monitor_request:
  assumes "route_monitor sv prepared w = (r, w')" "undisturbed sv begin stays" "served sv begin stays (wd_db w)"
  shows "served sv begin stays (wd_db w')"
proof -
  obtain r1 where "authenticated_request sv (\<lambda>actor now c. rbind (monitor now (sv_token sv) actor prepared c) (\<lambda>_. Inr ((), c))) w = (r1, w')"
    using assms(1) by (auto simp: route_monitor_def split: prod.splits sum.splits)
  then show ?thesis using assms(2,3) by (cases rule: authenticated_cases) (auto simp: rbind_Inr_iff)
qed

section \<open>The stream of a request\<close>

definition request_open :: "service \<Rightarrow> BeginTurn \<Rightarrow> bool \<Rightarrow> world stream_state \<Rightarrow> bool" where
  "request_open sv begin stays s \<longleftrightarrow> undisturbed sv begin stays \<and> served sv begin stays (wd_db (st_world s))"

definition request_closed :: "BeginTurn \<Rightarrow> world stream_state \<Rightarrow> bool" where
  "request_closed begin s \<longleftrightarrow> ended (bt_turn_id begin) (bt_token begin) (wd_db (st_world s))"

lemma keeps_on_world: "(\<And>s r w. P s \<Longrightarrow> f (st_world s) = (r, w) \<Longrightarrow> P (s\<lparr>st_world := w\<rparr>)) \<Longrightarrow> keeps P (on_world f)"
  by (auto simp: keeps_def on_world_def split: prod.splits)

lemma leads_on_world: "(\<And>s y w. P s \<Longrightarrow> f (st_world s) = (Inr y, w) \<Longrightarrow> E (s\<lparr>st_world := w\<rparr>)) \<Longrightarrow> leads P Q E (on_world f)"
  by (auto simp: leads_def on_world_def split: prod.splits)

lemma request_emit: "keeps (request_open sv begin stays) (emit cb ev)" "keeps (request_closed begin) (emit cb ev)"
  by (auto intro!: keeps_emitI simp: request_open_def request_closed_def)

abbreviation request_for :: "service \<Rightarrow> BeginTurn \<Rightarrow> PreparedChatTurn \<Rightarrow> bool \<Rightarrow> world stream_state \<Rightarrow> bool" where
  "request_for sv b prepared stays s \<equiv> for_turn b (begin_of prepared) \<and> request_open sv b stays s"

lemma request_keeps:
  "keeps (request_for sv b prepared stays) (emit cb ev)"
  "keeps (request_for sv b prepared stays) (call_monitor (route_callbacks sv prepared))"
  "keeps (request_for sv b prepared stays) (call_generate (route_callbacks sv prepared) n prompt think)"
  "keeps (request_for sv b prepared stays) (call_transition (route_callbacks sv prepared) status message)"
  "keeps (request_for sv b prepared stays) (call_finalize (route_callbacks sv prepared) answer insufficient citations)"
proof -
  show "keeps (request_for sv b prepared stays) (emit cb ev)" by (auto intro!: keeps_emitI simp: request_open_def)
  show "keeps (request_for sv b prepared stays) (call_monitor (route_callbacks sv prepared))"
    by (auto simp: keeps_def call_monitor_def route_callbacks_def as_callback_def request_open_def intro: monitor_request [OF surjective_pairing])
  show "keeps (request_for sv b prepared stays) (call_generate (route_callbacks sv prepared) n prompt think)"
    by (simp add: keeps_def call_generate_def route_callbacks_def request_open_def)
  show "keeps (request_for sv b prepared stays) (call_transition (route_callbacks sv prepared) status message)"
    by (auto simp: keeps_def call_transition_def route_callbacks_def as_callback_def request_open_def
      intro: transition_request [OF surjective_pairing, THEN conjunct1])
  show "keeps (request_for sv b prepared stays) (call_finalize (route_callbacks sv prepared) answer insufficient citations)"
    by (auto simp: keeps_def call_finalize_def route_callbacks_def request_open_def split: prod.splits dest: finalize_request)
qed

lemma request_leads:
  "acceptable status message \<Longrightarrow>
   leads (request_for sv b prepared stays) (\<lambda>_. True) (request_closed b) (call_transition (route_callbacks sv prepared) status message)"
  "leads (request_for sv b prepared stays) (\<lambda>_. True) (request_closed b) (call_finalize (route_callbacks sv prepared) answer insufficient citations)"
  by (auto simp: leads_def call_transition_def route_callbacks_def as_callback_def request_open_def request_closed_def
      split: sum.splits intro!: transition_request [OF surjective_pairing, THEN conjunct2, THEN conjunct1, rule_format])
    (auto simp: call_finalize_def split: prod.splits dest: finalize_request)

interpretation request: stream_ending "request_for sv b prepared stays" "route_callbacks sv prepared" "request_closed b" for sv b prepared stays
  by unfold_locales (simp_all add: request_keeps request_leads request_emit(2))

section \<open>The end of a response\<close>

text \<open>What a preparation returns: a turn still to be answered, or one that is complete.\<close>

definition answerable :: "BeginTurn \<Rightarrow> PreparedChatTurn \<Rightarrow> bool" where
  "answerable b prepared \<longleftrightarrow> for_turn b (begin_of prepared) \<and> \<not> pt_access_revoked prepared \<and> \<not> pt_already_complete prepared \<and> pt_prompt prepared \<noteq> None"

lemma snapshot_sources_result:
  assumes "snapshot_sources env now token actor b ranked c = Inr ((sources, prompt), c1)" "chats_ok env c"
  shows "same_frame c c1 \<and> chats_ok env c1 \<and> (if sources = [] then ended (bt_turn_id b) (bt_token b) c1 else prompt \<noteq> None)"
  using assms store_frame finalize_frame [OF _ assms(2)] finalize_ended
  by (auto simp: snapshot_sources_def lifted Let_def split: if_splits)

lemma continued_turn_result: "continued_turn now token b partial c = Inr prepared \<Longrightarrow> answerable b prepared"
  by (auto simp: continued_turn_def lifted Let_def answerable_def for_turn_def begin_of_def pending_turn_def split: if_splits option.splits)

lemma snapshot_turn_result:
  assumes "snapshot_turn env now token actor b ranked c = Inr (prepared, c1)" "chats_ok env c" "\<not> bt_already_complete b"
  shows "same_frame c c1 \<and> chats_ok env c1 \<and>
    (answerable b prepared \<or> pt_already_complete prepared \<and> \<not> pt_access_revoked prepared \<and> ended (bt_turn_id b) (bt_token b) c1)"
proof (cases "bt_continuation_answer b")
  case None
  then obtain sources prompt where "snapshot_sources env now token actor b ranked c = Inr ((sources, prompt), c1)"
    "prepared = (pending_turn b)\<lparr>pt_token := (if sources = [] then None else bt_token b), pt_prompt := prompt, pt_sources := sources,
       pt_already_complete := (sources = []), pt_citation_base_prompt := prompt\<rparr>"
    using assms(1,3) by (auto simp: snapshot_turn_def rbind_Inr_iff split: if_splits)
  then show ?thesis using snapshot_sources_result [OF _ assms(2)]
    by (fastforce simp: answerable_def for_turn_def begin_of_def pending_turn_def split: if_splits)
next
  case (Some partial)
  then show ?thesis using assms continued_turn_result by (auto simp: snapshot_turn_def rbind_Inr_iff split: if_splits)
qed

lemma complete_stream:
  assumes "pt_already_complete prepared" "\<And>ev. keeps P (emit cb ev)"
  shows "keeps P (stream cb prepared)"
  using assms by (auto simp: stream_def intro!: keeps_intros)

lemma numbers_kept:
  "request_open sv b stays (s\<lparr>st_sequence := n\<rparr>) = request_open sv b stays s" "request_closed b (s\<lparr>st_sequence := n\<rparr>) = request_closed b s"
  by (simp_all add: request_open_def request_closed_def)

lemma forwarded_complete:
  assumes "pt_already_complete prepared"
  shows "keeps (request_open sv b stays) (forwarded sv prepared)" "keeps (request_closed b) (forwarded sv prepared)"
  using complete_stream [OF assms request_emit(1), of sv b stays "route_callbacks sv prepared"]
    complete_stream [OF assms request_emit(2), of b "route_callbacks sv prepared"] assms
  by (auto simp: keeps_def forwarded_def Let_def numbers_kept split: prod.splits)

lemma forwarded_cases:
  assumes "forwarded sv prepared s = (r, s')" "answerable b prepared"
  obtains prompt s1 where "stream (route_callbacks sv prepared) prepared s = (r, s1)" "s' = s1\<lparr>st_sequence := st_sequence s\<rparr>" "pt_prompt prepared = Some prompt"
  | prompt s1 where "stream_body (route_callbacks sv prepared) prepared prompt s = (Inl GeneratorExit, s1)" "r = Inl GeneratorExit"
      "s' = s1\<lparr>st_sequence := st_sequence s\<rparr>" "pt_prompt prepared = Some prompt"
  using assms by (auto simp: forwarded_def answerable_def Let_def split: prod.splits sum.splits exc.splits option.splits)

lemma forwarded_answerable:
  assumes "answerable b prepared"
  shows "keeps (request_open sv b stays) (forwarded sv prepared)"
    "leads (request_open sv b stays) (\<lambda>_. True) (request_closed b) (forwarded sv prepared)"
proof -
  from assms have turn: "for_turn b (begin_of prepared)" "\<not> pt_access_revoked prepared" "\<not> pt_already_complete prepared" by (auto simp: answerable_def)
  have "request_open sv b stays s'" if "request_open sv b stays s" "forwarded sv prepared s = (r, s')" for s r s'
    using that(2) assms
  proof (cases rule: forwarded_cases)
    case (1 prompt s1)
    then show ?thesis using keeps_result [OF request.stream_keeps [OF turn(2,3)] 1(1)] that(1) turn(1) by (auto simp: numbers_kept)
  next
    case (2 prompt s1)
    then show ?thesis using keeps_result [OF request.body_keeps 2(1)] that(1) turn(1) by (auto simp: numbers_kept)
  qed
  then show "keeps (request_open sv b stays) (forwarded sv prepared)" unfolding keeps_def by (metis surjective_pairing)
  have "request_closed b s'" if "request_open sv b stays s" "forwarded sv prepared s = (Inr y, s')" for s y s'
    using that(2) assms
  proof (cases rule: forwarded_cases)
    case (1 prompt s1)
    then show ?thesis using leadsD [OF request.stream_leads [OF turn(2,3)] _ 1(1)] that(1) turn(1) by (auto simp: numbers_kept)
  qed simp
  then show "leads (request_open sv b stays) (\<lambda>_. True) (request_closed b) (forwarded sv prepared)" by (auto simp: leads_def)
qed

text \<open>The transactions of the preparation.\<close>

lemma read_request:
  assumes "\<And>actor now c x c1. f actor now c = Inr (x, c1) \<Longrightarrow> c1 = c"
  shows "keeps (request_open sv b stays) (on_world (authenticated_request sv f))"
proof (rule keeps_on_world)
  fix s r w assume s: "request_open sv b stays s" and run: "authenticated_request sv f (st_world s) = (r, w)"
  from s have open_state: "undisturbed sv b stays" "served sv b stays (wd_db (st_world s))" by (simp_all add: request_open_def)
  from run open_state have "served sv b stays (wd_db w)"
  proof (cases rule: authenticated_cases)
    case (committed x now c)
    then show ?thesis using assms [OF committed(4)] by simp
  qed simp_all
  then show "request_open sv b stays (s\<lparr>st_world := w\<rparr>)" using s by (simp add: request_open_def)
qed

lemma snapshot_request:
  assumes "on_world (authenticated_request sv (\<lambda>actor now c. snapshot_turn (sv_env sv) now (sv_token sv) actor b ranked c)) s = (r, s')"
    "request_open sv b stays s" "\<not> bt_already_complete b"
  shows "request_open sv b stays s' \<and>
    (\<forall>prepared. r = Inr prepared \<longrightarrow> answerable b prepared \<or> pt_already_complete prepared \<and> request_closed b s')"
proof -
  let ?f = "\<lambda>actor now c. snapshot_turn (sv_env sv) now (sv_token sv) actor b ranked c"
  obtain w' where w': "authenticated_request sv ?f (st_world s) = (r, w')" "s' = s\<lparr>st_world := w'\<rparr>"
    using assms(1) by (auto simp: on_world_def split: prod.splits)
  from assms(2) have "undisturbed sv b stays" "served sv b stays (wd_db (st_world s))" by (auto simp: request_open_def)
  with w'(1) show ?thesis
  proof (cases rule: authenticated_cases)
    case (committed prepared now c)
    then have "chats_ok (sv_env sv) c" by (simp add: served_def)
    from snapshot_turn_result [OF committed(4) this assms(3)] show ?thesis
      using committed(1) served_frame [OF _ _ committed(2)] assms(2) by (auto simp: w'(2) request_open_def request_closed_def)
  qed (use assms(2) in \<open>auto simp: w'(2) request_open_def\<close>)
qed

lemma keeps_external [keeps_intros]: "keeps P (call_external r)"
  by (simp add: keeps_def call_external_def)

lemma keeps_monitored [keeps_intros]: "keeps (request_open sv b stays) (monitored sv target polls r)"
proof (induction polls)
  case (Suc polls)
  have "keeps (request_open sv b stays) (on_world (route_monitor sv target))"
    by (rule keeps_on_world) (auto simp: request_open_def dest: monitor_request)
  then show ?case using Suc by (auto intro!: keeps_intros)
qed (simp add: keeps_external)

lemma sbind_step: "m s = (Inr x, s1) \<Longrightarrow> sbind m f s = f x s1" "m s = (Inl e, s1) \<Longrightarrow> sbind m f s = (Inl e, s1)"
  by (simp_all add: sbind_def)

lemma keepsI: "(\<And>s r s'. P s \<Longrightarrow> m s = (r, s') \<Longrightarrow> P s') \<Longrightarrow> keeps P m"
  unfolding keeps_def by (metis prod.collapse)

lemma answer_request:
  assumes "\<not> bt_already_complete b"
  shows "keeps (request_open sv b stays) (sbind (on_world (authenticated_request sv (\<lambda>actor now c.
      snapshot_turn (sv_env sv) now (sv_token sv) actor b ranked c))) (\<lambda>prepared.
        sthen (if pt_already_complete prepared \<or> pt_prompt prepared = None then sreturn () else monitored sv prepared polls available) (forwarded sv prepared)))"
    "leads (request_open sv b stays) (\<lambda>_. True) (request_closed b) (sbind (on_world (authenticated_request sv (\<lambda>actor now c.
      snapshot_turn (sv_env sv) now (sv_token sv) actor b ranked c))) (\<lambda>prepared.
        sthen (if pt_already_complete prepared \<or> pt_prompt prepared = None then sreturn () else monitored sv prepared polls available) (forwarded sv prepared)))"
    (is "leads ?P _ ?E (sbind ?m ?f)")
proof -
  have keeps_f: "keeps ?P (?f prepared)" if "answerable b prepared \<or> pt_already_complete prepared" for prepared
    using that forwarded_answerable(1) forwarded_complete(1) by (auto intro!: keeps_intros)
  have kept: "?P s'" if "?P s" "sbind ?m ?f s = (r, s')" for s r s'
  proof -
    obtain q s1 where q: "?m s = (q, s1)" by fastforce
    note result = snapshot_request [OF q that(1) assms]
    show ?thesis
    proof (cases q)
      case (Inl e)
      then show ?thesis using that(2) result sbind_step(2) [of ?m s e s1 ?f] q by simp
    next
      case (Inr prepared)
      then have "?f prepared s1 = (r, s')" using that(2) sbind_step(1) [of ?m s prepared s1 ?f] q by simp
      then show ?thesis using result Inr keeps_result [OF keeps_f] by blast
    qed
  qed
  show "keeps ?P (sbind ?m ?f)" by (rule keepsI [OF kept])
  show "leads ?P (\<lambda>_. True) ?E (sbind ?m ?f)"
  proof (rule leads_cases)
    fix s prepared s1 assume "?P s" "?m s = (Inr prepared, s1)"
    from snapshot_request [OF this(2,1) assms] consider (open_turn) "?P s1" "answerable b prepared" | (complete_turn) "pt_already_complete prepared" "?E s1" by blast
    then show "?E s1 \<and> keeps ?E (?f prepared) \<or> ?P s1 \<and> leads ?P (\<lambda>_. True) ?E (?f prepared)"
    proof cases
      case open_turn
      have "leads ?P (\<lambda>_. True) ?E (?f prepared)" by (intro leads_bind keeps_intros forwarded_answerable(2) open_turn(2))
      then show ?thesis using open_turn(1) by blast
    next
      case complete_turn
      have "keeps ?E (?f prepared)" unfolding if_P [OF disjI1 [OF complete_turn(1)]]
        by (intro keeps_intros forwarded_complete(2) complete_turn(1))
      then show ?thesis using complete_turn(2) by blast
    qed
  qed
qed

lemma body_request:
  assumes "\<not> bt_already_complete b"
  shows "keeps (request_open sv b stays) (response_body sv b)"
    "leads (request_open sv b stays) (\<lambda>_. True) (request_closed b) (response_body sv b)"
proof -
  note read = read_request [of "\<lambda>actor now c. rbind (retrieve_candidates (sv_reached sv) (sv_distance sv) now (sv_token sv) actor b v c) (\<lambda>found. Inr (found, c))" for v]
  have query: "keeps (request_open sv b stays) (case query of None \<Rightarrow> sreturn []
      | Some v \<Rightarrow> on_world (authenticated_request sv (\<lambda>actor now c.
          rbind (retrieve_candidates (sv_reached sv) (sv_distance sv) now (sv_token sv) actor b v c) (\<lambda>found. Inr (found, c)))))" for query
    by (intro keeps_intros read) (auto simp: rbind_Inr_iff)
  show "keeps (request_open sv b stays) (response_body sv b)"
    unfolding response_body_def Let_def using assms by (auto intro!: keeps_intros query request_emit answer_request(1))
  show "leads (request_open sv b stays) (\<lambda>_. True) (request_closed b) (response_body sv b)"
    unfolding response_body_def Let_def if_not_P [OF assms] by (intro leads_bind query request_emit answer_request(2) keeps_intros assms)
qed

lemma acceptable_failure: "acceptable ''failed'' (failure_message message class)"
proof (cases "\<exists>n. class = HTTPExceptionClass n")
  case True
  have "\<not> is_space CHR ''g''" by code_simp
  then have "acceptable ''failed'' (take 500 (if strip message = [] then ''generation failed'' else strip message))" by (intro acceptable_or) simp
  then show ?thesis using True unfolding failure_message_def by (auto simp only: error_class.case)
next
  case False
  then have "failure_message message class = take 500 (if strip message = [] then class_name class else strip message)"
    unfolding failure_message_def by (cases "class") (simp_all only: error_class.case, blast)
  then show ?thesis using acceptable_or [OF class_name_printed] by simp
qed

lemma pending_for_turn [simp]: "for_turn b (begin_of (pending_turn b))" "for_turn b b"
  by (simp_all add: for_turn_def begin_of_def pending_turn_def)

lemma transition_on_world:
  assumes "for_turn b b'"
  shows "keeps (request_open sv b stays) (on_world (route_transition sv b' status message))"
    "acceptable status message \<Longrightarrow> leads (request_open sv b stays) (\<lambda>_. True) (request_closed b) (on_world (route_transition sv b' status message))"
    "keeps (request_open sv b stays) (on_world (mark_access_revoked_trusted sv b'))"
    "leads (request_open sv b stays) (\<lambda>_. True) (request_closed b) (on_world (mark_access_revoked_trusted sv b'))"
  using transition_request [OF _ assms] trusted_request [OF _ assms]
  by (auto intro!: keeps_on_world leads_on_world simp: request_open_def request_closed_def)

lemma interrupt_on_world:
  assumes "\<not> bt_already_complete b"
  shows "keeps (request_open sv b stays) (on_world (interrupt_prepared sv (pending_turn b)))"
    "leads (request_open sv b stays) (\<lambda>_. True) (request_closed b) (on_world (interrupt_prepared sv (pending_turn b)))"
    "request_open sv b True s \<Longrightarrow> fst (on_world (interrupt_prepared sv (pending_turn b)) s) = Inr ()"
proof -
  have token: "interrupt_prepared sv (pending_turn b) = route_transition sv (begin_of (pending_turn b)) ''interrupted'' ''generation cancelled''"
    if "bt_token b \<noteq> None" using that assms by (auto simp: interrupt_prepared_def pending_turn_def)
  have given: "bt_token b \<noteq> None" if "request_open sv b stays' s'" for stays' s' using that by (auto simp: request_open_def undisturbed_def)
  have good: "acceptable ''interrupted'' ''generation cancelled''" by (simp add: acceptable_def)
  note steps = transition_on_world [OF pending_for_turn(1), where sv = sv and stays = stays]
  show "keeps (request_open sv b stays) (on_world (interrupt_prepared sv (pending_turn b)))"
    using steps(1) token given by (auto simp: keeps_def)
  show "leads (request_open sv b stays) (\<lambda>_. True) (request_closed b) (on_world (interrupt_prepared sv (pending_turn b)))"
    using steps(2) [OF good] token given by (auto simp: leads_def)
  show "fst (on_world (interrupt_prepared sv (pending_turn b)) s) = Inr ()" if open_state: "request_open sv b True s"
  proof -
    obtain r w where run: "route_transition sv (begin_of (pending_turn b)) ''interrupted'' ''generation cancelled'' (st_world s) = (r, w)" by fastforce
    from open_state have "undisturbed sv b True" "served sv b True (wd_db (st_world s))" by (simp_all add: request_open_def)
    then have "r = Inr ()" using transition_request [OF run pending_for_turn(1)] by blast
    then show ?thesis using run token [OF given [OF open_state]] by (simp add: on_world_def)
  qed
qed

lemma handler_request:
  assumes "\<not> bt_already_complete b"
  shows "keeps (request_open sv b stays) (handle_response sv b e)"
    "leads (request_open sv b stays) (\<lambda>_. True) (request_closed b) (handle_response sv b e)"
  unfolding handle_response_def Let_def
  using transition_on_world [OF pending_for_turn(2) [of b], where sv = sv and stays = stays] interrupt_on_world(1,2) [OF assms] acceptable_failure request_emit
  by (cases e; auto intro!: keeps_intros leads_then)+

text \<open>
  C30: a turn does not stay open. Whatever the models return, whatever other requests do to the
  database between the transactions of a request, and whenever the client closes the stream: once the
  response has been sent to its end, the turn is not generating under the token of the request
  any more. The same holds for a response that fails or is closed, provided the session of the
  caller lasts. The others may end the session and change everything but the constraints, the owner
  of the turn and the caller's context, which includes the authorization version.
\<close>

theorem response_ends_turn:
  assumes "respond sv b (start_stream 1 w) = (r, s)" "undisturbed sv b stays" "served sv b stays (wd_db w)" "\<not> bt_already_complete b"
    "r = Inr () \<or> stays"
  shows "ended (bt_turn_id b) (bt_token b) (wd_db (st_world s))"
proof -
  have start: "request_open sv b stays (start_stream 1 w)" using assms(2,3) by (simp add: request_open_def start_stream_def)
  note body = keeps_result [OF body_request(1) [OF assms(4)]] leadsD [OF body_request(2) [OF assms(4)]]
  note handler = keeps_result [OF handler_request(1) [OF assms(4)]] leadsD [OF handler_request(2) [OF assms(4)]]
  obtain r0 s0 where before: "response_body sv b (start_stream 1 w) = (r0, s0)" by fastforce
  obtain r1 s1 where run: "response_stream sv b (start_stream 1 w) = (r1, s1)" by fastforce
  have kept: "request_open sv b stays s1" and closed: "r1 = Inr () \<longrightarrow> request_closed b s1"
  proof -
    have "request_open sv b stays s1 \<and> (r1 = Inr () \<longrightarrow> request_closed b s1)"
    proof (cases r0)
      case (Inl e)
      then have "handle_response sv b e s0 = (r1, s1)" using run before by (simp add: response_stream_def)
      then show ?thesis using handler body(1) [OF before start] by blast
    next
      case (Inr x)
      then have "r1 = Inr ()" "s1 = s0" "r0 = Inr ()" using run before by (simp_all add: response_stream_def)
      then show ?thesis using body(1) [OF before start] body(2) [OF start] before by simp
    qed
    then show "request_open sv b stays s1" "r1 = Inr () \<longrightarrow> request_closed b s1" by simp_all
  qed
  show ?thesis
  proof (cases r1)
    case (Inl e)
    then have "r = Inl e" "s = snd (on_world (interrupt_prepared sv (pending_turn b)) s1)" using assms(1) run by (simp_all add: respond_def)
    moreover from this(1) have "stays" using assms(5) by simp
    ultimately show ?thesis
      using kept interrupt_on_world(3) [OF assms(4)] leadsD [OF interrupt_on_world(2) [OF assms(4)], of sv stays s1 "()" s]
      by (metis request_closed_def prod.collapse)
  next
    case (Inr x)
    then show ?thesis using assms(1) run closed by (auto simp: respond_def request_closed_def)
  qed
qed

definition ex_service :: service where
  "ex_service = \<lparr>sv_env = demo_env, sv_token = key_of CHR ''b'', sv_clock = (\<lambda>n. 5), sv_others = (\<lambda>n c. c), sv_sql_text = (\<lambda>e. ''error''),
     sv_reached = (\<lambda>_ _. True), sv_distance = (\<lambda>v w. 0), sv_polls = (\<lambda>n. 1), sv_embed = (\<lambda>q. Inr []), sv_reranker = Inr (), sv_score = (\<lambda>q ps. Inr (map (\<lambda>_. 1) ps)),
     sv_available = None, sv_generate = (\<lambda>n prompt think. [AnswerText ''Yes'', AnswerText '' [S1]'', Done (Some ''stop'') None]), sv_closes = Some 3\<rparr>"

lemma ex_activated: "v4_activate_actor 5 (key_of CHR ''b'') (secured cx3) = Inr (bt_actor ex_begin)"
  by code_simp

theorem response_ends_turn_witness:
  "ended 41 (Some 42) (wd_db (st_world (snd (respond ex_service ex_begin (start_stream 1 \<lparr>wd_step = 0, wd_db = cx3\<rparr>)))))"
proof -
  have "chats_ok demo_env cx3" "owned ex_begin cx3" "key_of CHR ''b'' \<noteq> []" by code_simp+
  then have "served ex_service ex_begin True (wd_db \<lparr>wd_step = 0, wd_db = cx3\<rparr>)" using ex_activated by (simp add: served_def ex_service_def)
  moreover have "undisturbed ex_service ex_begin True" "\<not> bt_already_complete ex_begin" by (simp_all add: undisturbed_def ex_service_def ex_begin_def)
  ultimately show ?thesis
    using response_ends_turn [OF prod.collapse [symmetric], where sv = ex_service and b = ex_begin and w = "\<lparr>wd_step = 0, wd_db = cx3\<rparr>" and stays = True]
    by (simp add: ex_begin_def)
qed

section \<open>A change of the library during an answer\<close>

text \<open>
  The context of the caller holds the authorization version, which is one for the whole database and
  grows with every upload. An action that cannot succeed in a state, and one that leaves it as it is:
\<close>

definition revokes :: "exc \<Rightarrow> bool" where
  "revokes e \<longleftrightarrow> e = AccessRevoked \<or> access_status e"

definition calm :: "('w stream_state \<Rightarrow> bool) \<Rightarrow> ('w, 'a) act \<Rightarrow> bool" where
  "calm P m \<longleftrightarrow> (\<forall>s. P s \<longrightarrow> P (snd (m s)) \<and> (\<forall>e. fst (m s) = Inl e \<longrightarrow> \<not> revokes e))"

definition stuck :: "('w stream_state \<Rightarrow> bool) \<Rightarrow> ('w, 'a) act \<Rightarrow> bool" where
  "stuck P m \<longleftrightarrow> (\<forall>s. P s \<longrightarrow> P (snd (m s)) \<and> (\<exists>e. fst (m s) = Inl e \<and> \<not> revokes e))"

lemma calm_act: "calm P (sreturn x)" "(\<And>e. r = Inl e \<Longrightarrow> \<not> revokes e) \<Longrightarrow> calm P (call_external r)"
  by (auto simp: calm_def sreturn_def call_external_def)

lemma stuck_first:
  assumes "stuck P m"
  shows "stuck P (sbind m f)"
  unfolding stuck_def
proof (intro allI impI)
  fix s assume "P s"
  then obtain e s1 where "m s = (Inl e, s1)" "P s1" "\<not> revokes e" using assms unfolding stuck_def by (metis prod.collapse)
  then show "P (snd (sbind m f s)) \<and> (\<exists>e. fst (sbind m f s) = Inl e \<and> \<not> revokes e)" by (simp add: sbind_def)
qed

lemma stuck_later:
  assumes "calm P m" "\<And>x. stuck P (f x)"
  shows "stuck P (sbind m f)"
  unfolding stuck_def
proof (intro allI impI)
  fix s assume "P s"
  obtain r s1 where run: "m s = (r, s1)" by fastforce
  with assms(1) \<open>P s\<close> have "P s1" "\<forall>e. r = Inl e \<longrightarrow> \<not> revokes e" by (auto simp: calm_def dest!: spec [of _ s])
  then show "P (snd (sbind m f s)) \<and> (\<exists>e. fst (sbind m f s) = Inl e \<and> \<not> revokes e)"
    using assms(2) run by (cases r) (auto simp: sbind_def stuck_def)
qed

lemma calm_bind:
  assumes "calm P m" "\<And>x. calm P (f x)"
  shows "calm P (sbind m f)"
  unfolding calm_def
proof (intro allI impI)
  fix s assume "P s"
  obtain r s1 where run: "m s = (r, s1)" by fastforce
  with assms(1) \<open>P s\<close> have "P s1" "\<forall>e. r = Inl e \<longrightarrow> \<not> revokes e" by (auto simp: calm_def dest!: spec [of _ s])
  then show "P (snd (sbind m f s)) \<and> (\<forall>e. fst (sbind m f s) = Inl e \<longrightarrow> \<not> revokes e)"
    using assms(2) run by (cases r) (auto simp: sbind_def calm_def)
qed

lemma stuck_calm: "stuck P m \<Longrightarrow> calm P m"
  unfolding stuck_def calm_def by (metis Inl_inject)

lemma stuckD: "stuck P m \<Longrightarrow> P s \<Longrightarrow> m s = (r, s') \<Longrightarrow> P s' \<and> (\<exists>e. r = Inl e \<and> \<not> revokes e)"
  by (auto simp: stuck_def dest!: spec [of _ s])

text \<open>The session is alive, but its context is not that of the request; only states of progress were sent.\<close>

definition estranged :: "service \<Rightarrow> BeginTurn \<Rightarrow> chat_db \<Rightarrow> world stream_state \<Rightarrow> bool" where
  "estranged sv b c s \<longleftrightarrow> bt_token b \<noteq> None \<and> (\<forall>n c. sv_others sv n c = c) \<and> wd_db (st_world s) = c \<and>
     (\<exists>actor. actor \<noteq> bt_actor b \<and> (\<forall>n. v4_activate_actor (sv_clock sv n) (sv_token sv) (secured c) = Inr actor)) \<and>
     (\<forall>e \<in> set (st_events s). \<exists>phase. snd e = StatusEvent phase)"

lemma estranged_request:
  assumes "\<And>actor now. actor \<noteq> bt_actor b \<Longrightarrow> f actor now c = Inl ChatNotFound"
  shows "stuck (estranged sv b c) (on_world (authenticated_request sv f))"
  using assms
  by (auto simp: stuck_def estranged_def on_world_def authenticated_request_def transaction_def Let_def rbind_def exc_of_def
    revokes_def access_status_def)

lemma estranged_transition:
  assumes "for_turn b b'" "status \<noteq> ''access_revoked''"
  shows "stuck (estranged sv b c) (on_world (route_transition sv b' status message))"
proof (cases "bt_token b = None")
  case False
  then show ?thesis using assms
    by (auto simp: route_transition_def transition_def for_turn_def rbind_def intro!: estranged_request)
qed (simp add: stuck_def estranged_def)

lemma estranged_monitor: "stuck (estranged sv b c) (on_world (route_monitor sv (pending_turn b)))"
  by (auto simp: stuck_def estranged_def on_world_def route_monitor_def monitor_def pending_turn_def authenticated_request_def transaction_def
    Let_def rbind_def exc_of_def revokes_def access_status_def)

lemma estranged_monitored:
  assumes "\<And>e. r = Inl e \<Longrightarrow> \<not> revokes e"
  shows "calm (estranged sv b c) (monitored sv (pending_turn b) polls r)"
proof (cases polls)
  case 0
  then show ?thesis using calm_act(2) [OF assms] by simp
next
  case (Suc n)
  then show ?thesis using stuck_calm [OF stuck_first [OF estranged_monitor]] by simp
qed

lemma estranged_emit: "calm (estranged sv b c) (emit cb (StatusEvent phase))"
  by (auto simp: calm_def estranged_def revokes_def access_status_def emit_def Let_def split: if_splits)

text \<open>The embedding model raises its own errors, not those of access checks; the reranker wraps whatever is raised.\<close>

definition models_apart :: "service \<Rightarrow> bool" where
  "models_apart sv \<longleftrightarrow> (\<forall>q e. sv_embed sv q = Inl e \<longrightarrow> \<not> revokes e)"

lemma as_reranker_error_apart: "as_reranker_error failure r = Inl e \<Longrightarrow> \<not> revokes e"
  by (induction failure r rule: as_reranker_error.induct) (auto simp: revokes_def access_status_def)

lemma rerank_apart: "rerank loaded score q candidates limit = Inl e \<Longrightarrow> \<not> revokes e"
  by (auto simp: rerank_def rbind_def revokes_def access_status_def split: if_splits sum.splits
      dest: as_reranker_error_apart [unfolded revokes_def access_status_def])

lemma estranged_body:
  assumes "models_apart sv" "\<not> bt_already_complete b"
  shows "stuck (estranged sv b c) (response_body sv b)"
proof -
  have snapshot: "stuck (estranged sv b c) (on_world (authenticated_request sv (\<lambda>actor now c.
      snapshot_turn (sv_env sv) now (sv_token sv) actor b ranked c)))" for ranked
    by (rule estranged_request) (simp add: snapshot_turn_def)
  have "stuck (estranged sv b c) (on_world (authenticated_request sv (\<lambda>actor now c.
      rbind (retrieve_candidates (sv_reached sv) (sv_distance sv) now (sv_token sv) actor b v c) (\<lambda>found. Inr (found, c)))))" for v
    by (rule estranged_request) (simp add: retrieve_candidates_def rbind_def)
  then have query: "calm (estranged sv b c) (case query of None \<Rightarrow> sreturn []
      | Some v \<Rightarrow> on_world (authenticated_request sv (\<lambda>actor now c.
          rbind (retrieve_candidates (sv_reached sv) (sv_distance sv) now (sv_token sv) actor b v c) (\<lambda>found. Inr (found, c)))))" for query
    by (cases query) (simp_all add: calm_act(1) stuck_calm)
  have embed: "calm (estranged sv b c) (if bt_continuation_answer b \<noteq> None then sreturn None
      else sbind (monitored sv (pending_turn b) (sv_polls sv 0) (sv_embed sv (bt_retrieval_query b))) (\<lambda>v. sreturn (Some v)))"
    using assms(1) by (auto simp: models_apart_def intro!: calm_bind calm_act(1) estranged_monitored)
  show ?thesis unfolding response_body_def Let_def if_not_P [OF assms(2)]
    by (intro stuck_later [OF estranged_emit] stuck_later [OF embed] stuck_later [OF query] stuck_first [OF snapshot]
      stuck_later [OF estranged_monitored [OF rerank_apart]])
qed

lemma estranged_interrupt: "\<not> bt_already_complete b \<Longrightarrow> stuck (estranged sv b c) (on_world (interrupt_prepared sv (pending_turn b)))"
proof (cases "bt_token b = None")
  case False
  assume "\<not> bt_already_complete b"
  then have "interrupt_prepared sv (pending_turn b) = route_transition sv (begin_of (pending_turn b)) ''interrupted'' ''generation cancelled''"
    using False by (auto simp: interrupt_prepared_def pending_turn_def)
  then show ?thesis by (simp add: estranged_transition)
qed (simp add: stuck_def estranged_def)

lemma estranged_handler:
  assumes "\<not> revokes e" "\<not> bt_already_complete b"
  shows "stuck (estranged sv b c) (handle_response sv b e)"
  using assms(1) estranged_interrupt [OF assms(2)] estranged_transition [OF pending_for_turn(2), of "''failed''"]
  by (cases e) (auto simp: handle_response_def Let_def revokes_def intro!: stuck_first)

lemma begin_blocked:
  assumes "t \<in> set (turns c)" "tn_status t = GENERATING"
  shows "v4_begin_turn env now token turn (tn_chat t) question g title c \<noteq> Inr x"
proof
  assume "v4_begin_turn env now token turn (tn_chat t) question g title c = Inr x"
  then obtain new c1 where "chats_ok env c1" "turns c1 = turns c @ [new]" "tn_status new = GENERATING" "tn_chat new = tn_chat t"
    by (cases x) (auto simp: v4_begin_turn_def rbind_Inr_iff split: option.splits if_splits)
  then have "distinct (map tn_chat (filter (\<lambda>t. tn_status t = GENERATING) (turns c)) @ [tn_chat t])" by (simp add: chats_ok_def chat_uniques_def)
  then show False using assms by auto
qed

text \<open>
  C40: an upload can leave a turn open for good. If a document is uploaded, by anyone and to any
  folder, after a question has been accepted and before the first transaction of the response, the
  authorization version of the caller's context differs from that of the request: every transaction
  of the response is refused as if the chat did not exist, also those that should record the
  failure or the interruption. The response fails without an error event, the turn is still
  generating, and as long as it is no new question can be begun in its chat. The session of the
  caller is taken to stay alive during the response, and nothing but the upload to change meanwhile.
\<close>

theorem upload_strands_turn:
  assumes "insert_file_node node parent name name_key doc uploader shared (secured c) = Inr s1"
    "\<forall>n. v4_activate_actor (sv_clock sv n) (sv_token sv) (secured c) = Inr (bt_actor b)" "\<forall>n c. sv_others sv n c = c" "models_apart sv"
    "\<not> bt_already_complete b" "bt_token b \<noteq> None" "t \<in> set (turns c)" "tn_status t = GENERATING"
    "respond sv b (start_stream 1 \<lparr>wd_step = k, wd_db = with_security s1 c\<rparr>) = (r, s)"
  shows "(\<exists>e. r = Inl e) \<and> (\<forall>e \<in> set (st_events s). \<exists>phase. snd e = StatusEvent phase) \<and> t \<in> set (turns (wd_db (st_world s))) \<and>
    (\<forall>env now token turn question g title x. v4_begin_turn env now token turn (tn_chat t) question g title (wd_db (st_world s)) \<noteq> Inr x)"
proof -
  let ?c = "with_security s1 c"
  have frame: "users s1 = users (secured c)" "sessions s1 = sessions (secured c)" "epoch s1 = (epoch (secured c))\<lparr>ep_authorization := ep_authorization (epoch (secured c)) + 1\<rparr>"
    using assms(1) by (auto simp: insert_file_node_def v4_rebuild_effective_document_access_def Let_def split: if_splits)
  then have valid: "session_valid now token s1 = session_valid now token (secured c)" for now token by (intro ext) (simp add: session_valid_def)
  obtain i role version access session where actor: "bt_actor b = (i, role, version, access, session)" by (cases "bt_actor b")
  let ?a = "(i, role, version, ep_authorization (epoch s1), session)"
  have a: "v4_activate_actor (sv_clock sv n) (sv_token sv) s1 = Inr ?a \<and> access = ep_authorization (epoch (secured c))" for n
    using assms(2) [rule_format, of n] by (auto simp: v4_activate_actor_def valid frame actor split: option.splits)
  then have "?a \<noteq> bt_actor b" by (simp add: actor frame(3))
  have start: "estranged sv b ?c (start_stream 1 \<lparr>wd_step = k, wd_db = ?c\<rparr>)"
    using a \<open>?a \<noteq> bt_actor b\<close> assms(3,6) by (auto simp: estranged_def start_stream_def with_security_def)
  obtain r0 s0 where body: "response_body sv b (start_stream 1 \<lparr>wd_step = k, wd_db = ?c\<rparr>) = (r0, s0)" by fastforce
  from stuckD [OF estranged_body [OF assms(4,5)] start body] obtain e0 where e0: "estranged sv b ?c s0" "r0 = Inl e0" "\<not> revokes e0" by blast
  obtain r1 s2 where handled: "handle_response sv b e0 s0 = (r1, s2)" by fastforce
  from stuckD [OF estranged_handler [OF e0(3) assms(5)] e0(1) handled] obtain e1 where e1: "estranged sv b ?c s2" "r1 = Inl e1" by blast
  have "respond sv b (start_stream 1 \<lparr>wd_step = k, wd_db = ?c\<rparr>) = (Inl e1, snd (on_world (interrupt_prepared sv (pending_turn b)) s2))"
    using body e0(2) handled e1(2) by (simp add: respond_def response_stream_def)
  then have final: "r = Inl e1" "s = snd (on_world (interrupt_prepared sv (pending_turn b)) s2)" using assms(9) by auto
  have "estranged sv b ?c s" using stuckD [OF estranged_interrupt [OF assms(5)] e1(1) prod.collapse [symmetric]] final(2) by blast
  then have "wd_db (st_world s) = ?c" "\<forall>e \<in> set (st_events s). \<exists>phase. snd e = StatusEvent phase" by (auto simp: estranged_def)
  moreover have "t \<in> set (turns ?c)" using assms(7) by (simp add: with_security_def)
  ultimately show ?thesis using final(1) begin_blocked assms(8) by metis
qed

theorem upload_strands_turn_witness:
  "\<exists>s1. insert_file_node 13 None ''c.txt'' ''c.txt'' 200 1 [] (secured cx3) = Inr s1 \<and>
     ex_turn \<in> set (turns (wd_db (st_world (snd (respond ex_service ex_begin (start_stream 1 \<lparr>wd_step = 0, wd_db = with_security s1 cx3\<rparr>))))))"
proof -
  have "case insert_file_node 13 None ''c.txt'' ''c.txt'' 200 1 [] (secured cx3) of Inl e \<Rightarrow> False | Inr s1 \<Rightarrow> True" by code_simp
  then obtain s1 where upload: "insert_file_node 13 None ''c.txt'' ''c.txt'' 200 1 [] (secured cx3) = Inr s1" by (auto split: sum.splits)
  have "\<forall>n. v4_activate_actor (sv_clock ex_service n) (sv_token ex_service) (secured cx3) = Inr (bt_actor ex_begin)" "\<forall>n c. sv_others ex_service n c = c"
    "models_apart ex_service" "\<not> bt_already_complete ex_begin" "bt_token ex_begin \<noteq> None" "ex_turn \<in> set (turns cx3)" "tn_status ex_turn = GENERATING"
    using ex_activated by (simp_all add: ex_service_def models_apart_def ex_begin_def cx3_def ex_turn_def)
  from upload_strands_turn [OF upload this prod.collapse [symmetric]] upload show ?thesis by blast
qed

end
