(* ===== verification/Throttling.thy ===== *)
theory Throttling
  imports Accounts
begin

text \<open>
  The login throttle: how long a client is blocked after failed attempts that follow each other
  within a day.
\<close>

fun record_failures :: "string \<Rightarrow> time list \<Rightarrow> security_db \<Rightarrow> (sql_error, time option \<times> security_db) result" where
  "record_failures key [] s = Inr (None, s)"
| "record_failures key [now] s = v4_record_login_failure now key s"
| "record_failures key (now # later # ts) s =
     rbind (v4_record_login_failure now key s) (\<lambda>(_, s1). record_failures key (later # ts) s1)"

definition blocked_after :: "nat \<Rightarrow> time \<Rightarrow> time option" where
  "blocked_after n now = (if n < 5 then None else Some (now + 60 * of_nat (min 15 (n - 4))))"

definition throttle_state :: "string \<Rightarrow> nat \<Rightarrow> time \<Rightarrow> security_db \<Rightarrow> bool" where
  "throttle_state key n since s \<longleftrightarrow> accounts_ok s \<and>
     (\<exists>r \<in> set (throttles s). th_key_hash r = key \<and> th_failure_count r = min (int n) 100 \<and> th_updated_at r = since)"

lemma accounts_ok_throttles:
  assumes "accounts_ok s" "distinct (map th_key_hash rows)" "list_all (\<lambda>t. 0 \<le> th_failure_count t) rows"
  shows "accounts_ok (s\<lparr>throttles := rows\<rparr>)"
  using assms by (simp add: accounts_ok_def account_checks_def account_uniques_def account_references_def)

lemma accounts_ok_throttle_rows: "accounts_ok s \<Longrightarrow> distinct (map th_key_hash (throttles s)) \<and> list_all (\<lambda>t. 0 \<le> th_failure_count t) (throttles s)"
  by (simp add: accounts_ok_def account_checks_def account_uniques_def)

lemma drop_stale_rows:
  assumes "accounts_ok s"
  shows "distinct (map th_key_hash (drop_stale_throttles now (throttles s)))"
    "list_all (\<lambda>t. 0 \<le> th_failure_count t) (drop_stale_throttles now (throttles s))"
  using accounts_ok_throttle_rows [OF assms]
  by (simp_all add: drop_stale_throttles_def delete_where_def distinct_map_filter list_all_iff)

lemma find_key: "distinct (map key rows) \<Longrightarrow> r \<in> set rows \<Longrightarrow> List.find (\<lambda>x. key x = key r) rows = Some r"
  by (induction rows) (auto simp: image_iff)

lemma first_failure:
  assumes "accounts_ok s" "hex64 key" "key \<notin> th_key_hash ` set (throttles s)"
  shows "\<exists>s1. v4_record_login_failure now key s = Inr (blocked_after 1 now, s1) \<and> throttle_state key 1 now s1"
proof -
  let ?rows = "drop_stale_throttles now (throttles s)" and
    ?row = "\<lparr>th_key_hash = key, th_failure_count = 1, th_first_failure_at = now, th_blocked_until = None, th_updated_at = now\<rparr>"
  have fresh: "\<not> (\<exists>t \<in> set ?rows. th_key_hash t = key)" using assms(3) by (auto simp: drop_stale_throttles_def)
  then have rows: "distinct (map th_key_hash (?rows @ [?row]))" "list_all (\<lambda>t. 0 \<le> th_failure_count t) (?rows @ [?row])"
    using drop_stale_rows [OF assms(1)] by auto
  have "List.find (\<lambda>t. th_key_hash t = key) (?rows @ [?row]) = Some ?row"
    using find_key [OF rows(1), of ?row] by simp
  then show ?thesis
    using fresh assms(2) accounts_ok_throttles [OF assms(1) rows]
    by (simp add: v4_record_login_failure_def Let_def blocked_after_def throttle_state_def accounts_checked_def accounts_ok_def)
qed

lemma throttle_again_count:
  assumes "th_failure_count r = min (int n) 100" "1 \<le> n" "th_updated_at r = since" "now \<le> since + DAY"
  shows "th_failure_count (throttle_again now r) = min (int (Suc n)) 100" "th_blocked_until (throttle_again now r) = blocked_after (Suc n) now"
    "th_updated_at (throttle_again now r) = now" "th_key_hash (throttle_again now r) = th_key_hash r"
proof -
  have count: "min (th_failure_count r + 1) 100 = min (int (Suc n)) 100" using assms(1) by simp
  have "\<not> th_updated_at r < now - DAY" using assms(3,4) by simp
  then show "th_failure_count (throttle_again now r) = min (int (Suc n)) 100" "th_updated_at (throttle_again now r) = now"
    "th_key_hash (throttle_again now r) = th_key_hash r"
    by (simp_all add: throttle_again_def Let_def count)
  have "min 900 (60 * of_int (min (int (Suc n)) 100 - 4)) = (60 * of_nat (min 15 (Suc n - 4)) :: time)" if "5 \<le> Suc n"
  proof (cases "Suc n \<le> 100")
    case True
    then have "(of_int (min (int (Suc n)) 100 - 4) :: time) = of_nat (Suc n - 4)" using that by (simp add: of_nat_diff)
    then show ?thesis by (simp add: min_def)
  qed (simp add: min_def)
  then show "th_blocked_until (throttle_again now r) = blocked_after (Suc n) now"
    using \<open>\<not> th_updated_at r < now - DAY\<close> by (auto simp: throttle_again_def Let_def count blocked_after_def)
qed

lemma next_failure:
  assumes "throttle_state key n since s" "hex64 key" "1 \<le> n" "now \<le> since + DAY"
  shows "\<exists>s1. v4_record_login_failure now key s = Inr (blocked_after (Suc n) now, s1) \<and> throttle_state key (Suc n) now s1"
proof -
  obtain r where r: "r \<in> set (throttles s)" "th_key_hash r = key" "th_failure_count r = min (int n) 100" "th_updated_at r = since"
    and ok: "accounts_ok s" using assms(1) by (auto simp: throttle_state_def)
  let ?rows = "drop_stale_throttles now (throttles s)"
  let ?new = "update_where (\<lambda>t. th_key_hash t = key) (throttle_again now) ?rows"
  note again = throttle_again_count [OF r(3) assms(3) r(4) assms(4)]
  have kept: "r \<in> set ?rows" using r assms(4) by (simp add: drop_stale_throttles_def)
  have rows: "distinct (map th_key_hash ?new)" "list_all (\<lambda>t. 0 \<le> th_failure_count t) ?new"
    using drop_stale_rows [OF ok]
    by (auto simp: list_all_iff ball_update_where throttle_again_def Let_def)
  have "throttle_again now r \<in> set ?new" using kept r(2) by (auto simp: in_update_where intro!: bexI [of _ r])
  then have row: "List.find (\<lambda>t. th_key_hash t = key) ?new = Some (throttle_again now r)" "throttle_again now r \<in> set ?new"
    using find_key [OF rows(1), of "throttle_again now r"] again(4) r(2) by simp_all
  have "accounts_ok (s\<lparr>throttles := ?new\<rparr>)" by (rule accounts_ok_throttles [OF ok rows])
  moreover have "v4_record_login_failure now key s = Inr (blocked_after (Suc n) now, s\<lparr>throttles := ?new\<rparr>)"
    using kept r(2) assms(2) row(1) again(2) calculation
    by (auto simp: v4_record_login_failure_def Let_def accounts_checked_def accounts_ok_def)
  ultimately show ?thesis using row(2) again r(2) by (auto simp: throttle_state_def)
qed

lemma later_failures:
  assumes "throttle_state key n since s" "hex64 key" "1 \<le> n" "ts \<noteq> []" "successively (\<lambda>a b. b \<le> a + DAY) (since # ts)"
  shows "\<exists>s'. record_failures key ts s = Inr (blocked_after (n + length ts) (last ts), s')"
  using assms
proof (induction ts arbitrary: n since s)
  case (Cons now ts)
  obtain s1 where s1: "v4_record_login_failure now key s = Inr (blocked_after (Suc n) now, s1)" "throttle_state key (Suc n) now s1"
    using next_failure [OF Cons.prems(1,2,3)] Cons.prems(5) by auto
  show ?case
  proof (cases ts)
    case Nil
    then show ?thesis using s1(1) by simp
  next
    case (Cons later rest)
    then have "\<exists>s'. record_failures key ts s1 = Inr (blocked_after (Suc n + length ts) (last ts), s')"
      using Cons.IH [OF s1(2)] Cons.prems(2,5) by simp
    then show ?thesis using s1(1) Cons by simp
  qed
qed simp

text \<open>
  C8: the fifth failed attempt of a client blocks it for a minute and every further one for a
  minute longer, up to fifteen: after \<open>n\<close> failures that follow each other within a day the client is
  blocked until \<open>min 15 (n - 4)\<close> minutes after the last, and before the fifth it is not blocked.
\<close>

theorem login_throttle_blocks:
  assumes "accounts_ok s" "hex64 key" "key \<notin> th_key_hash ` set (throttles s)"
    "attempts \<noteq> []" "successively (\<lambda>a b. b \<le> a + DAY) attempts"
  shows "\<exists>s'. record_failures key attempts s =
    Inr (if length attempts < 5 then None else Some (last attempts + 60 * of_nat (min 15 (length attempts - 4))), s')"
proof -
  obtain now ts where attempts: "attempts = now # ts" using assms(4) by (cases attempts) auto
  obtain s1 where s1: "v4_record_login_failure now key s = Inr (blocked_after 1 now, s1)" "throttle_state key 1 now s1"
    using first_failure [OF assms(1-3)] by blast
  have "\<exists>s'. record_failures key attempts s = Inr (blocked_after (length attempts) (last attempts), s')"
  proof (cases ts)
    case Nil
    then show ?thesis using s1(1) attempts by simp
  next
    case (Cons later rest)
    then show ?thesis using later_failures [OF s1(2) assms(2), of ts] s1(1) attempts assms(5) by simp
  qed
  then show ?thesis by (simp add: blocked_after_def)
qed

theorem login_throttle_blocks_witness:
  "\<exists>s'. record_failures (replicate 64 CHR ''a'') [0, 10, 20, 30, 40, 50] (initial_security 9) = Inr (Some 170, s')"
proof -
  have "accounts_ok (initial_security 9)" "hex64 (replicate 64 CHR ''a'')"
    "replicate 64 CHR ''a'' \<notin> th_key_hash ` set (throttles (initial_security 9))" by code_simp+
  then show ?thesis using login_throttle_blocks [of "initial_security 9" "replicate 64 CHR ''a''" "[0, 10, 20, 30, 40, 50]"]
    by (simp add: DAY_def)
qed

end
