(* ===== verification/Spec2Isabelle.thy ===== *)
theory Spec2Isabelle
  imports Leases Chunking Coordinator Library ReprocessingRuns ReprocessingFaults ChatRequests Throttling
begin

text \<open>
  Verification of Plug-and-Play-Local-RAG, a server that answers questions from the documents of an
  organisation with locally run models.

  \<^bold>\<open>The program.\<close> A web client talks to an API (src/apps/api/app). The API keeps everything in a
  PostgreSQL database whose stored functions (src/apps/api/alembic/versions) hold most of the rules:
  who may see what, which job a worker may claim, how a turn of a chat ends. The API itself resolves
  the caller of a request (security), answers chats (services/chats.py) and shows the library
  (services/library.py). A worker parses an uploaded document, splits it into chunks
  (services/chunking.py) with anchors for highlighting (services/highlight_anchors.py), embeds them and
  commits them under a lease; a reprocessing worker re-embeds the chunks for a new generation of
  embeddings and search is cut over to it. Calls to the models pass through a coordinator
  (runtime/coordinator.py) with a priority queue (runtime/scheduler.py) and limits per stage
  (runtime/limits.py); a gate (runtime/maintenance_gate.py) stops writes during maintenance.

  \<^bold>\<open>Conventions.\<close> A table is the list of its rows, a row a record, a nullable column an option; a stored
  function maps the database to an error or a result with the database after it, and every
  statement that writes is followed by the check, unique and foreign key constraints of the tables it
  touches. Python methods are functions on a record of the state; code that may suspend is a step
  relation over the pieces between suspension points. Time, random identifiers and what other
  programs return (models, hash functions, normalisation of text, the distance of vectors) are
  arguments. Text is a list of the code points 0 to 255, a finite floating-point number a rational.

  \<^bold>\<open>Shared theories.\<close> Prelude (types, results with errors as values, rewrite collections), Text (string
  operations of Python), Json, Tables (rows and constraints of the ingestion tables), Fencing (the
  locale of a leased resource, with the theorem that a superseded token is never accepted).

  \<^bold>\<open>Runtime.\<close> Leases models runtime/leases.py and interprets the locale of Fencing. Scheduler models
  runtime/scheduler.py: the order of entries and the bound on the starvation of background work.
  Admission models runtime/limits.py and runtime/maintenance_gate.py: no write passes a closed gate.
  Coordinator models CoordinatorRuntime of runtime/coordinator.py as a transition system over its
  tasks: the stage limits hold in every reachable state, a drain ends only when no request is left,
  and three ways in which a request or a wake-up is lost.

  \<^bold>\<open>Documents.\<close> Anchors models services/highlight_anchors.py and the check function of migration 0002:
  a text quote is unique on its page, and what the service builds the database accepts. Chunking
  models services/chunking.py with identity.py and parsing/types.py: chunks stay within their limits
  and cover the pages, the sentences that cannot be split raise. Library models the names, paths and
  checks of services/library.py. IngestionStore, Reprocessing and Reindexing model the stored
  functions of ingestion and reprocessing (migrations 0001, 0005, 0010); SearchIndex and
  ReprocessingRuns prove that in every run without a rollback of the embeddings the nearest chunk of a
  ready document is found by every search whose scan reaches it: an exact search, without the HNSW
  index, reaches every chunk, an approximate one those its scan visits, which is an argument of the
  model. ReprocessingFaults proves in which situations, the rollback first, documents disappear from
  search or an operation cannot be finished. ExampleRun is one concrete run for the witnesses.

  \<^bold>\<open>Accounts and access.\<close> Accounts models users, sessions, activation, login throttles, Access the grants,
  teams, access boundaries, previews and their application (migrations 0001, 0004, parts of 0009).
  AccessPolicy is the specification: who may read a document, from the grants on the path to the
  nearest boundary. AccessRuns lifts the lemmas to runs of all contracts, AccessExample is a concrete
  run, AccessGuarantees holds the properties: nobody reads more than the policy gives, an applied
  change takes effect exactly, a confirmed impact is exact, an administrator remains, changed
  credentials end sessions, the library stays a forest; and where a contract deviates from the
  policy. Throttling bounds the attempts of a login. Recursive queries are computed with as much fuel
  as there are nodes, which is enough since the library is a forest.

  \<^bold>\<open>Chats.\<close> Chats models the chat tables and stored functions of migrations 0001 and 0002 together with
  those of access and documents; ChatRuns, ChatExample and ChatGuarantees show that an answer is shown
  only to a caller the policy allows to read its sources, that a completed turn is final, that
  stopped turns can be retried, and what a deletion does to the answers that cite the document.
  Answers models the prompts and the validation of citations of services/chats.py and
  services/answer_protocol.py: the budgets of tokens are kept and validation accepts exactly the
  answers whose citations are supplied sources. SourceSnapshots models the preparation of the sources
  of a turn on top of Chats and Answers, with the query of services/library.py that locates a document
  in the library: what is stored is read back unchanged, under the file name of its document. Streaming models
  ChatService.stream, from the first event to the last, over arbitrary callbacks and an arbitrary
  model: a final event was validated and stored. The loop of generations runs at most twice (one
  continuation), so it needs no fuel. ChatRequests composes them into the response to a question
  (routes/chats.py): retrieval and reranking, the transactions under the session of the caller
  (security/request_auth.py) with the changes of other requests between them, the stream, its handlers
  and the last attempt to interrupt the turn. A response does not leave its turn open while the
  context of the caller lasts; an upload during the response changes that context, and then it does.
  The laws a stream needs from its callbacks are the locales stream_property (Streaming) and
  stream_ending (ChatRequests), interpreted on the callbacks of the route.

  \<^bold>\<open>Bounds.\<close> No theorem limits the number of rows, requests, events or steps of a run. Every loop of the
  model is total. The query of the locations descends at most 256 folders, the bound the query itself
  has; the polls of the turn during a wait for a model are as many as the wait has time for, an
  argument of the model.

  \<^bold>\<open>Not modelled.\<close> Calls to the operating system, the network and the models: the supervisor and
  installers (apps/supervisor, ops), object storage and its transfer, OCR and PDF parsing, clients of
  the models, configuration, startup and command lines. Declarations without behaviour of their own:
  schemas, ORM models, and routes that only forward to a service. services/system.py with the
  migrations 0008, 0009 (except re-authentication) and 0011 to 0014 administers configuration and
  backups and is not modelled; of services/chats.py, the generated titles, the resolution of scopes
  and the page of a chat; of services/library.py, the queries of browsing; of the migrations, grants
  to database roles, row security policies, which the contracts repeat, the reservations of uploads,
  and indexes, except that the vector index may leave rows of a search unvisited. Of the contract of an
  upload only the rows it adds to the library are modelled, not the conditions on its caller; of a
  request, neither the check of the CSRF token nor a failing authentication service. The web client
  (apps/web), tests and benchmarks are outside the program verified here.
\<close>

end
